(* ===== verification/Prelude.thy ===== *)
theory Prelude
  imports Main "HOL-Library.Word" "HOL-Library.Signed_Division" "HOL-Library.Monad_Syntax"
begin

section \<open>Machine integers, undefined behaviour and shared lemmas\<close>

text \<open>
  The types and conventions every component shares.
  \<^item> \<open>uint64_t\<close>, \<open>uint32_t\<close> and \<open>uint16_t\<close> are \<open>64 word\<close>, \<open>32 word\<close> and \<open>16 word\<close>: \<open>+\<close>, \<open>-\<close>
    and \<open>*\<close> wrap around, \<open><\<close> and \<open>div\<close> are the unsigned ones, as in C++.
  \<^item> \<open>int64_t\<close> is \<open>int\<close>, with the result of every arithmetic operation of the code passed
    through \<open>i64\<close>, the reduction to the two's complement range. Signed overflow has no
    defined result in C++; the wrap-around is what the unoptimised build of the
    repository's Makefile computes. Properties that need no overflow say so.
  \<^item> \<open>size_t\<close> values that count elements in memory are \<open>nat\<close>.
  \<^item> A step with no defined result (an access outside a container's elements, a division
    by zero) is \<open>None\<close>, so a function that may do it returns an \<open>option\<close>.
\<close>

type_synonym u16 = "16 word"
type_synonym u32 = "32 word"
type_synonym u64 = "64 word"
type_synonym int64 = int
type_synonym byte_count = u64
type_synonym packet_count = u64
type_synonym round_trip_count = u64

named_theorems nowrap \<open>arithmetic that stays inside the machine range\<close>

subsection \<open>Signed 64-bit arithmetic\<close>

definition i64 :: "int \<Rightarrow> int64" where
  "i64 x = (x + 2 ^ 63) mod 2 ^ 64 - 2 ^ 63"

definition int64_max :: int64 where
  "int64_max = 2 ^ 63 - 1"

definition in_i64 :: "int \<Rightarrow> bool" where
  "in_i64 x \<longleftrightarrow> - (2 ^ 63) \<le> x \<and> x < 2 ^ 63"

lemma i64_id [nowrap]: "in_i64 x \<Longrightarrow> i64 x = x"
  by (simp add: i64_def in_i64_def)

lemma i64_small: "- 9223372036854775808 \<le> x \<Longrightarrow> x < 9223372036854775808 \<Longrightarrow> i64 x = x"
  by (simp add: i64_def)

lemma in_i64_i64 [simp, intro!]: "in_i64 (i64 x)"
proof -
  have "0 \<le> (x + 2 ^ 63) mod 2 ^ 64" and "(x + 2 ^ 63) mod 2 ^ 64 < (2 ^ 64 :: int)"
    by simp_all
  then show ?thesis by (simp add: i64_def in_i64_def)
qed

lemma in_i64_nonneg [nowrap]: "0 \<le> x \<Longrightarrow> x < 2 ^ 63 \<Longrightarrow> in_i64 x"
  by (simp add: in_i64_def)

lemma i64_idem [simp]: "i64 (i64 x) = i64 x"
  by (rule i64_id) simp

lemma i64_cong_iff: "i64 x = i64 y \<longleftrightarrow> x mod 2 ^ 64 = y mod 2 ^ 64"
  unfolding i64_def by (simp add: mod_eq_dvd_iff)

lemma i64_add_left [simp]: "i64 (i64 a + b) = i64 (a + b)"
proof -
  have "((a + 2 ^ 63) mod 2 ^ 64 - 2 ^ 63 + b + 2 ^ 63) mod 2 ^ 64 = (a + b + 2 ^ 63) mod (2 ^ 64 :: int)"
    using mod_add_left_eq [of "a + 2 ^ 63" "2 ^ 64" b] by (simp add: algebra_simps)
  then show ?thesis by (simp add: i64_def)
qed

lemma i64_add_right [simp]: "i64 (a + i64 b) = i64 (a + b)"
  using i64_add_left [of b a] by (simp add: add.commute)

lemma i64_diff_eq_0_iff:
  assumes "in_i64 a" "in_i64 b"
  shows "i64 (a - b) = 0 \<longleftrightarrow> a = b"
proof
  assume "i64 (a - b) = 0"
  moreover have "i64 0 = 0" by (simp add: i64_def)
  ultimately have "i64 (a - b) = i64 0" by simp
  then have "(a - b) mod 2 ^ 64 = 0" by (simp only: i64_cong_iff mod_0)
  then obtain k where k: "a - b = 2 ^ 64 * k" by (metis mod_0_imp_dvd dvdE)
  with assms have "- 1 < k" "k < 1" by (auto simp: in_i64_def)
  with k show "a = b" by simp
next
  assume "a = b" then show "i64 (a - b) = 0" by (simp add: i64_def)
qed

text \<open>Conversions between the signed and the unsigned 64-bit types keep the bits.\<close>

definition u64_of :: "int64 \<Rightarrow> u64" where
  "u64_of x = word_of_int x"

definition i64_of :: "u64 \<Rightarrow> int64" where
  "i64_of w = i64 (uint w)"

lemma i64_of_small: "uint w < 2 ^ 63 \<Longrightarrow> i64_of w = uint w"
  using uint_ge_0 [of w] by (simp add: i64_of_def i64_def)

lemma word_of_int_u64_cong: "a mod 2 ^ 64 = b mod 2 ^ 64 \<Longrightarrow> word_of_int a = (word_of_int b :: u64)"
  by (simp add: word_of_int_eq_iff take_bit_eq_mod)

lemma u64_of_i64_of [simp]: "u64_of (i64_of w) = w"
proof -
  have "(uint w + 2 ^ 63) mod 2 ^ 64 - 2 ^ 63 = uint w - 2 ^ 64 * ((uint w + 2 ^ 63) div 2 ^ 64)"
    using minus_mult_div_eq_mod [of "uint w + 2 ^ 63" "2 ^ 64"] by simp
  then have "i64_of w = uint w - 2 ^ 64 * ((uint w + 2 ^ 63) div 2 ^ 64)"
    by (simp add: i64_of_def i64_def)
  then have "(i64_of w) mod 2 ^ 64 = (uint w + 2 ^ 64 * (- ((uint w + 2 ^ 63) div 2 ^ 64))) mod 2 ^ 64"
    by simp
  then have "(i64_of w) mod 2 ^ 64 = uint w mod 2 ^ 64"
    by (simp only: mod_mult_self2)
  then have "word_of_int (i64_of w) = (word_of_int (uint w) :: u64)"
    by (rule word_of_int_u64_cong)
  then show ?thesis by (simp add: u64_of_def)
qed

text \<open>Division of signed integers truncates towards zero.\<close>

lemma sdiv_nonneg [nowrap]: "0 \<le> a \<Longrightarrow> 0 \<le> b \<Longrightarrow> a sdiv b = a div (b :: int)"
  by (cases "a = 0"; cases "b = 0") (simp_all add: signed_divide_int_def)

lemma sdiv_int_nonneg: "0 \<le> a \<Longrightarrow> 0 \<le> b \<Longrightarrow> 0 \<le> a sdiv (b :: int)"
  by (simp add: sdiv_nonneg pos_imp_zdiv_nonneg_iff div_int_pos_iff)

lemma int_div_le: "0 \<le> a \<Longrightarrow> 0 < b \<Longrightarrow> a div b \<le> (a :: int)"
  using zdiv_mono2 [of a 1 b] by simp

lemma int_div_nonneg: "0 \<le> a \<Longrightarrow> 0 \<le> b \<Longrightarrow> 0 \<le> a div (b :: int)"
  by (simp add: div_int_pos_iff)

lemma uint_u64_of: "0 \<le> x \<Longrightarrow> x < 2 ^ 64 \<Longrightarrow> uint (u64_of x) = x"
  by (simp add: u64_of_def uint_word_of_int)

lemma in_i64_i64_of [simp, intro!]: "in_i64 (i64_of w)"
  by (simp add: i64_of_def)

subsection \<open>Unsigned words\<close>

lemma uint_less_2p64 [simp]: "uint (w :: u64) < 18446744073709551616"
  using uint_lt2p [of w] by simp

lemma unat_less_2p64 [simp]: "unat (w :: u64) < 18446744073709551616"
  using unsigned_less [of w, where ?'a = nat] by simp

lemma uint_pos: "w \<noteq> 0 \<Longrightarrow> 0 < uint (w :: u64)"
  using uint_ge_0 [of w] uint_0_iff [of w] by linarith

lemma uint_u64_plus [nowrap]:
  "uint a + uint b < 2 ^ 64 \<Longrightarrow> uint (a + b :: u64) = uint a + uint b"
  by (simp add: uint_word_ariths)

lemma uint_u64_minus [nowrap]: "b \<le> a \<Longrightarrow> uint (a - b :: u64) = uint a - uint b"
  by (simp add: uint_minus_simple_alt word_le_def)

lemma uint_u64_mult [nowrap]:
  "uint a * uint b < 2 ^ 64 \<Longrightarrow> uint (a * b :: u64) = uint a * uint b"
  by (simp add: uint_word_ariths)

lemma unat_u64_plus [nowrap]:
  "unat a + unat b < 2 ^ 64 \<Longrightarrow> unat (a + b :: u64) = unat a + unat b"
  by (simp add: unat_word_ariths)

lemma unat_u64_minus [nowrap]: "b \<le> a \<Longrightarrow> unat (a - b :: u64) = unat a - unat b"
  by (simp add: unat_sub)

lemma unat_of_nat_u64 [nowrap]: "n < 2 ^ 64 \<Longrightarrow> unat (of_nat n :: u64) = n"
  by (simp add: unat_of_nat)

lemma unat_ucast_u16 [simp]: "unat (ucast (w :: u16) :: u64) = unat w"
proof -
  have "unat w < 2 ^ 16" using unsigned_less [of w, where ?'a = nat] by simp
  then show ?thesis by (simp add: unsigned_ucast_eq take_bit_nat_eq_self)
qed

lemma u64_le_iff: "(a :: u64) \<le> b \<longleftrightarrow> uint a \<le> uint b"
  by (simp add: word_le_def)

lemma u64_less_iff: "(a :: u64) < b \<longleftrightarrow> uint a < uint b"
  by (simp add: word_less_def)

subsection \<open>Lists and sums\<close>

lemma sum_list_update_word:
  "k < length xs \<Longrightarrow> sum_list (xs[k := x]) = sum_list xs + x - (xs ! k :: 'a::ab_group_add)"
  by (induction xs arbitrary: k) (auto split: nat.split simp: algebra_simps)

lemma take_Suc_nth: "k < length xs \<Longrightarrow> take (Suc k) xs = take k xs @ [xs ! k]"
  by (rule take_Suc_conv_app_nth)

lemma bind_Some_iff: "Option.bind m f = Some y \<longleftrightarrow> (\<exists>x. m = Some x \<and> f x = Some y)"
  by (cases m) auto

lemma unat_plus_of_nat: "unat (a :: u64) + n < 2 ^ 64 \<Longrightarrow> unat (a + of_nat n) = unat a + n"
  by (simp add: unat_u64_plus unat_of_nat_u64)

end
