(* ===== verification/Circular_Deque.thy ===== *)
theory Circular_Deque
  imports Prelude "HOL-Library.While_Combinator"
begin

section \<open>The circular deque\<close>

text \<open>
  \<open>QuicheCircularDeque\<close> of \<open>common/quiche_circular_deque.h\<close>: a flat buffer of
  \<open>data_capacity\<close> slots, of which the elements occupy the circular range from \<open>begin_\<close> to
  \<open>end_\<close>; one slot always stays free. A slot is \<open>None\<close> while it holds no live object (raw
  memory or a destroyed element) and \<open>Some v\<close> while it holds \<open>v\<close>; reading or destroying a
  slot without an object, or outside the buffer, is undefined and yields \<open>None\<close>.

  The lemmas show that the buffer implements a list: \<open>dq_rep d xs\<close> relates a deque to
  the list of its elements, every operation preserves it and acts on the list as its
  name says, and no operation whose precondition holds touches a slot without an object.
  The locale \<open>deque_ops\<close> is the interface the containers built on the deque use.
\<close>

subsection \<open>State and index arithmetic\<close>

record 'a deque =
  dq_data :: "'a option list"
  dq_begin :: nat
  dq_end :: nat

definition dq_new :: "'a deque" where
  "dq_new = \<lparr>dq_data = [], dq_begin = 0, dq_end = 0\<rparr>"

definition dq_data_capacity :: "'a deque \<Rightarrow> nat" where
  "dq_data_capacity d = length (dq_data d)"

definition dq_capacity :: "'a deque \<Rightarrow> nat" where
  "dq_capacity d = (if dq_data_capacity d = 0 then 0 else dq_data_capacity d - 1)"

definition dq_empty :: "'a deque \<Rightarrow> bool" where
  "dq_empty d \<longleftrightarrow> dq_begin d = dq_end d"

definition dq_size :: "'a deque \<Rightarrow> nat" where
  "dq_size d = (if dq_begin d \<le> dq_end d then dq_end d - dq_begin d
     else dq_data_capacity d + dq_end d - dq_begin d)"

definition index_prev :: "'a deque \<Rightarrow> nat \<Rightarrow> nat" where
  "index_prev d i = (if i = 0 then (if dq_data_capacity d = 0 then 2 ^ 64 - 1 else dq_data_capacity d - 1) else i - 1)"

definition index_next :: "'a deque \<Rightarrow> nat \<Rightarrow> nat" where
  "index_next d i = (if Suc i = dq_data_capacity d then 0 else Suc i)"

text \<open>
  \<open>delta\<close> is a \<open>difference_type\<close>, the sum a \<open>size_t\<close>: below zero it wraps around, and it is reduced by
  a division by the capacity.
\<close>

definition index_increment_by :: "'a deque \<Rightarrow> nat \<Rightarrow> int \<Rightarrow> nat option" where
  "index_increment_by d i delta =
     (if delta = 0 then Some i
      else if dq_data_capacity d = 0 then None
      else let sum = int i + int (dq_data_capacity d) + delta
           in Some (nat ((if sum < 0 then sum + 2 ^ 64 else sum) mod int (dq_data_capacity d))))"

text \<open>The object at an address, \<open>*index_to_address(i)\<close>.\<close>

definition dq_slot :: "'a deque \<Rightarrow> nat \<Rightarrow> 'a option" where
  "dq_slot d i = (if i < dq_data_capacity d then dq_data d ! i else None)"

subsection \<open>Access\<close>

definition dq_at_index :: "'a deque \<Rightarrow> nat \<Rightarrow> nat" where
  "dq_at_index d pos = (let i = dq_begin d + pos
     in if i < dq_data_capacity d then i else i - dq_data_capacity d)"

definition dq_at :: "'a deque \<Rightarrow> nat \<Rightarrow> 'a option" where
  "dq_at d pos = dq_slot d (dq_at_index d pos)"

definition dq_front :: "'a deque \<Rightarrow> 'a option" where
  "dq_front d = dq_slot d (dq_begin d)"

definition dq_back :: "'a deque \<Rightarrow> 'a option" where
  "dq_back d = dq_slot d (if dq_end d = 0 then dq_data_capacity d - 1 else dq_end d - 1)"

text \<open>Assignment through the reference that \<open>at(pos)\<close> returns.\<close>

definition dq_set :: "nat \<Rightarrow> 'a \<Rightarrow> 'a deque \<Rightarrow> 'a deque option" where
  "dq_set pos v d = (case dq_at d pos of None \<Rightarrow> None
     | Some _ \<Rightarrow> Some (d\<lparr>dq_data := (dq_data d)[dq_at_index d pos := Some v]\<rparr>))"

subsection \<open>Destruction and relocation\<close>

definition DestroyByIndex :: "nat \<Rightarrow> 'a deque \<Rightarrow> 'a deque option" where
  "DestroyByIndex i d = (case dq_slot d i of None \<Rightarrow> None
     | Some _ \<Rightarrow> Some (d\<lparr>dq_data := (dq_data d)[i := None]\<rparr>))"

function DestroyUnwrappedRange :: "nat \<Rightarrow> nat \<Rightarrow> 'a deque \<Rightarrow> 'a deque option" where
  "DestroyUnwrappedRange b e d =
     (if b = e then Some d
      else if e < b then None
      else case DestroyByIndex b d of None \<Rightarrow> None
        | Some d' \<Rightarrow> DestroyUnwrappedRange (Suc b) e d')"
  by pat_completeness auto
termination by (relation "measure (\<lambda>(b, e, d). e - b)") auto

declare DestroyUnwrappedRange.simps [simp del]

definition DestroyRange :: "nat \<Rightarrow> nat \<Rightarrow> 'a deque \<Rightarrow> 'a deque option" where
  "DestroyRange b e d =
     (if b \<le> e then DestroyUnwrappedRange b e d
      else do {
        d' \<leftarrow> DestroyUnwrappedRange b (dq_data_capacity d) d;
        DestroyUnwrappedRange 0 e d' })"

definition ClearRetainCapacity :: "'a deque \<Rightarrow> 'a deque option" where
  "ClearRetainCapacity d = do {
     d' \<leftarrow> DestroyRange (dq_begin d) (dq_end d) d;
     Some (d'\<lparr>dq_begin := 0, dq_end := 0\<rparr>) }"

text \<open>The elements of a contiguous range, moved to the new buffer.\<close>

definition RelocateUnwrappedRange :: "nat \<Rightarrow> nat \<Rightarrow> 'a deque \<Rightarrow> 'a option list" where
  "RelocateUnwrappedRange b e d = take (e - b) (drop b (dq_data d))"

definition Relocate :: "nat \<Rightarrow> 'a deque \<Rightarrow> 'a deque" where
  "Relocate new_capacity d =
     (let num_elements = dq_size d;
          new_data_capacity = new_capacity + 1;
          moved = (if dq_begin d < dq_end d then RelocateUnwrappedRange (dq_begin d) (dq_end d) d
            else if dq_end d < dq_begin d
              then RelocateUnwrappedRange (dq_begin d) (dq_data_capacity d) d
                @ RelocateUnwrappedRange 0 (dq_end d) d
            else [])
      in \<lparr>dq_data = moved @ replicate (new_data_capacity - length moved) None,
          dq_begin = 0, dq_end = num_elements\<rparr>)"

definition MinCapacityIncrement :: nat where
  "MinCapacityIncrement = 3"

definition MaybeExpandCapacity :: "nat \<Rightarrow> 'a deque \<Rightarrow> 'a deque" where
  "MaybeExpandCapacity num_additional_elements d =
     (let new_size = dq_size d + num_additional_elements
      in if new_size \<le> dq_capacity d then d
         else let min_additional_capacity = max MinCapacityIncrement (dq_capacity d div 4);
                  new_capacity = max new_size (dq_capacity d + min_additional_capacity)
              in Relocate new_capacity d)"

definition dq_reserve :: "nat \<Rightarrow> 'a deque \<Rightarrow> 'a deque" where
  "dq_reserve new_cap d = (if dq_capacity d < new_cap then Relocate new_cap d else d)"

subsection \<open>Modification at the ends\<close>

definition dq_emplace_back :: "'a \<Rightarrow> 'a deque \<Rightarrow> 'a deque" where
  "dq_emplace_back v d = (let d = MaybeExpandCapacity 1 d
     in d\<lparr>dq_data := (dq_data d)[dq_end d := Some v], dq_end := index_next d (dq_end d)\<rparr>)"

definition dq_emplace_front :: "'a \<Rightarrow> 'a deque \<Rightarrow> 'a deque" where
  "dq_emplace_front v d = (let d = MaybeExpandCapacity 1 d; b = index_prev d (dq_begin d)
     in d\<lparr>dq_data := (dq_data d)[b := Some v], dq_begin := b\<rparr>)"

definition dq_pop_front :: "'a deque \<Rightarrow> 'a deque option" where
  "dq_pop_front d = do {
     d' \<leftarrow> DestroyByIndex (dq_begin d) d;
     Some (d'\<lparr>dq_begin := index_next d' (dq_begin d')\<rparr>) }"

definition dq_pop_front_n :: "nat \<Rightarrow> 'a deque \<Rightarrow> ('a deque \<times> nat) option" where
  "dq_pop_front_n count d = do {
     let n = min count (dq_size d);
     new_begin \<leftarrow> index_increment_by d (dq_begin d) (int n);
     d' \<leftarrow> DestroyRange (dq_begin d) new_begin d;
     Some (d'\<lparr>dq_begin := new_begin\<rparr>, n) }"

definition dq_pop_back :: "'a deque \<Rightarrow> 'a deque option" where
  "dq_pop_back d = (let e = index_prev d (dq_end d) in DestroyByIndex e (d\<lparr>dq_end := e\<rparr>))"

definition dq_pop_back_n :: "nat \<Rightarrow> 'a deque \<Rightarrow> ('a deque \<times> nat) option" where
  "dq_pop_back_n count d = do {
     let n = min count (dq_size d);
     new_end \<leftarrow> index_increment_by d (dq_end d) (- int n);
     d' \<leftarrow> DestroyRange new_end (dq_end d) d;
     Some (d'\<lparr>dq_end := new_end\<rparr>, n) }"

definition dq_clear :: "'a deque \<Rightarrow> 'a deque option" where
  "dq_clear d = ClearRetainCapacity d"

text \<open>\<open>resize(count, value)\<close>; \<open>resize(count)\<close> passes a value-initialised element.\<close>

definition dq_resize :: "nat \<Rightarrow> 'a \<Rightarrow> 'a deque \<Rightarrow> 'a deque option" where
  "dq_resize count v d =
     (if dq_size d < count
      then while_option (\<lambda>d. dq_size d < count) (dq_emplace_back v)
             (MaybeExpandCapacity (count - dq_size d) d)
      else if dq_data_capacity d = 0 then None
      else let new_end = (dq_begin d + count) mod dq_data_capacity d
           in do { d' \<leftarrow> DestroyRange new_end (dq_end d) d; Some (d'\<lparr>dq_end := new_end\<rparr>) })"

text \<open>\<open>AssignRange\<close> from a random access range, and the copy operations built on it.\<close>

definition AssignRange :: "'a list \<Rightarrow> 'a deque \<Rightarrow> 'a deque option" where
  "AssignRange vs d = do {
     d' \<leftarrow> ClearRetainCapacity d;
     Some (fold dq_emplace_back vs (dq_reserve (length vs) d')) }"

subsection \<open>Iteration\<close>

text \<open>
  An iterator is the index it stores. \<open>dq_walk\<close> dereferences and increments an iterator
  until it equals \<open>end()\<close>, as every loop over a deque does; the first argument bounds the
  number of steps, and running out of it means the loop passed \<open>data_capacity\<close> slots.
\<close>

fun dq_walk :: "nat \<Rightarrow> 'a deque \<Rightarrow> nat \<Rightarrow> 'a list option" where
  "dq_walk fuel d i =
     (if i = dq_end d then Some []
      else case fuel of 0 \<Rightarrow> None
        | Suc fuel' \<Rightarrow> (case dq_slot d i of None \<Rightarrow> None
            | Some v \<Rightarrow> (case dq_walk fuel' d (index_next d i) of None \<Rightarrow> None
                | Some vs \<Rightarrow> Some (v # vs))))"

declare dq_walk.simps [simp del]

definition dq_elements :: "'a deque \<Rightarrow> 'a list option" where
  "dq_elements d = dq_walk (dq_data_capacity d) d (dq_begin d)"

definition ExternalPosition :: "'a deque \<Rightarrow> nat \<Rightarrow> nat" where
  "ExternalPosition d i = (if dq_begin d \<le> i then i - dq_begin d
     else i + dq_data_capacity d - dq_begin d)"

subsection \<open>The list a deque represents\<close>

definition ring :: "nat \<Rightarrow> nat \<Rightarrow> nat \<Rightarrow> nat" where
  "ring b k c = (if b + k < c then b + k else b + k - c)"

definition dq_rep :: "'a deque \<Rightarrow> 'a list \<Rightarrow> bool" where
  "dq_rep d xs \<longleftrightarrow>
     (if dq_data_capacity d = 0 then dq_begin d = 0 \<and> dq_end d = 0 \<and> xs = []
      else dq_begin d < dq_data_capacity d \<and> length xs < dq_data_capacity d
        \<and> dq_end d = ring (dq_begin d) (length xs) (dq_data_capacity d)
        \<and> (\<forall>k < dq_data_capacity d. dq_data d ! ring (dq_begin d) k (dq_data_capacity d)
             = (if k < length xs then Some (xs ! k) else None)))"

definition dq_list :: "'a deque \<Rightarrow> 'a list" where
  "dq_list d = List.map (\<lambda>k. the (dq_at d k)) [0..<dq_size d]"

definition dq_inv :: "'a deque \<Rightarrow> bool" where
  "dq_inv d \<longleftrightarrow> dq_rep d (dq_list d)"

lemma ring_less: "b < c \<Longrightarrow> k < c \<Longrightarrow> ring b k c < c"
  by (auto simp: ring_def)

lemma ring_inj: "b < c \<Longrightarrow> j < c \<Longrightarrow> k < c \<Longrightarrow> ring b j c = ring b k c \<longleftrightarrow> j = k"
  by (auto simp: ring_def)

lemma ring_ring: "b < c \<Longrightarrow> m < c \<Longrightarrow> k < c
    \<Longrightarrow> ring (ring b m c) k c = ring b (if m + k < c then m + k else m + k - c) c"
  unfolding ring_def by (cases "b + m < c"; cases "m + k < c"; simp; linarith)

lemma ring_0 [simp]: "b < c \<Longrightarrow> ring b 0 c = b"
  by (simp add: ring_def)

lemma ring_surj: "b < c \<Longrightarrow> i < c \<Longrightarrow> \<exists>k < c. i = ring b k c"
  by (rule exI [of _ "if b \<le> i then i - b else i + c - b"]) (auto simp: ring_def)

lemma dq_rep_cap0: "dq_data_capacity d = 0 \<Longrightarrow> dq_rep d xs \<longleftrightarrow> dq_begin d = 0 \<and> dq_end d = 0 \<and> xs = []"
  by (simp add: dq_rep_def)

lemma dq_repD:
  assumes "dq_rep d xs" "dq_data_capacity d \<noteq> 0"
  shows "dq_begin d < dq_data_capacity d" "length xs < dq_data_capacity d"
    "dq_end d = ring (dq_begin d) (length xs) (dq_data_capacity d)"
    "k < dq_data_capacity d \<Longrightarrow> dq_data d ! ring (dq_begin d) k (dq_data_capacity d)
       = (if k < length xs then Some (xs ! k) else None)"
  using assms by (simp_all add: dq_rep_def)

lemma dq_repI:
  assumes "dq_begin d < dq_data_capacity d" "length xs < dq_data_capacity d"
    "dq_end d = ring (dq_begin d) (length xs) (dq_data_capacity d)"
    "\<And>k. k < dq_data_capacity d \<Longrightarrow> dq_data d ! ring (dq_begin d) k (dq_data_capacity d)
       = (if k < length xs then Some (xs ! k) else None)"
  shows "dq_rep d xs"
  using assms by (simp add: dq_rep_def)

lemma dq_rep_size: "dq_rep d xs \<Longrightarrow> dq_size d = length xs"
  by (auto simp: dq_rep_def dq_size_def ring_def split: if_splits)

lemma dq_rep_empty: "dq_rep d xs \<Longrightarrow> dq_empty d \<longleftrightarrow> xs = []"
  by (auto simp: dq_rep_def dq_empty_def ring_def split: if_splits)

lemma dq_rep_at:
  assumes "dq_rep d xs" "k < length xs"
  shows "dq_at d k = Some (xs ! k)"
proof -
  have c: "dq_data_capacity d \<noteq> 0" using assms by (auto simp: dq_rep_def split: if_splits)
  note r = dq_repD [OF assms(1) c]
  have "dq_at_index d k = ring (dq_begin d) k (dq_data_capacity d)"
    by (simp add: dq_at_index_def ring_def)
  moreover have "ring (dq_begin d) k (dq_data_capacity d) < dq_data_capacity d"
    using r assms(2) by (intro ring_less) auto
  ultimately show ?thesis using r assms(2) by (simp add: dq_at_def dq_slot_def)
qed

lemma dq_rep_list: "dq_rep d xs \<Longrightarrow> dq_list d = xs"
  by (auto simp: dq_list_def dq_rep_size dq_rep_at intro!: nth_equalityI)

lemma dq_rep_iff: "dq_rep d xs \<longleftrightarrow> dq_inv d \<and> dq_list d = xs"
  by (auto simp: dq_inv_def dq_rep_list)

lemma dq_inv_rep: "dq_inv d \<Longrightarrow> dq_rep d (dq_list d)"
  by (simp add: dq_inv_def)

lemma dq_rep_new: "dq_rep dq_new []"
  by (simp add: dq_rep_def dq_new_def dq_data_capacity_def)

lemma dq_rep_slot_begin:
  assumes "dq_rep d xs"
  shows "dq_slot d (dq_begin d) = (case xs of [] \<Rightarrow> None | x # _ \<Rightarrow> Some x)"
proof (cases "dq_data_capacity d = 0")
  case True
  with assms show ?thesis by (simp add: dq_rep_cap0 dq_slot_def)
next
  case False
  note r = dq_repD [OF assms False]
  then show ?thesis using r(4) [of 0] by (cases xs) (simp_all add: dq_slot_def)
qed

lemma dq_rep_front:
  "dq_rep d xs \<Longrightarrow> dq_front d = (case xs of [] \<Rightarrow> None | x # _ \<Rightarrow> Some x)"
  by (simp add: dq_front_def dq_rep_slot_begin)

lemma dq_rep_back:
  assumes "dq_rep d xs" "xs \<noteq> []"
  shows "dq_back d = Some (last xs)"
proof -
  have c: "dq_data_capacity d \<noteq> 0" using assms by (auto simp: dq_rep_def split: if_splits)
  note r = dq_repD [OF assms(1) c]
  have "(if dq_end d = 0 then dq_data_capacity d - 1 else dq_end d - 1)
      = ring (dq_begin d) (length xs - 1) (dq_data_capacity d)"
    using r(1-3) assms(2) by (cases "length xs") (auto simp: ring_def)
  then show ?thesis using r assms(2)
    by (simp add: dq_back_def dq_slot_def ring_less last_conv_nth)
qed

subsection \<open>Every operation acts on the list\<close>

lemma dq_rep_set:
  assumes "dq_rep d xs" "k < length xs"
  shows "\<exists>d'. dq_set k v d = Some d' \<and> dq_rep d' (xs[k := v])"
proof -
  have c: "dq_data_capacity d \<noteq> 0" using assms by (auto simp: dq_rep_def split: if_splits)
  note r = dq_repD [OF assms(1) c]
  have i: "dq_at_index d k = ring (dq_begin d) k (dq_data_capacity d)"
    by (simp add: dq_at_index_def ring_def)
  show ?thesis using assms r
    by (auto simp: dq_set_def dq_rep_at i dq_data_capacity_def nth_list_update ring_inj ring_less
        intro!: dq_repI)
qed

lemma dq_rep_pop_back:
  assumes "dq_rep d xs" "xs \<noteq> []"
  shows "\<exists>d'. dq_pop_back d = Some d' \<and> dq_rep d' (butlast xs)"
proof -
  have c: "dq_data_capacity d \<noteq> 0" using assms by (auto simp: dq_rep_def split: if_splits)
  note r = dq_repD [OF assms(1) c]
  let ?b = "dq_begin d" and ?c = "dq_data_capacity d" and ?m = "length xs - 1"
  let ?d = "d\<lparr>dq_end := ring ?b ?m ?c, dq_data := (dq_data d)[ring ?b ?m ?c := None]\<rparr>"
  have l: "0 < length xs" using assms(2) by simp
  have m: "?m < ?c" using r(2) by simp
  have e: "index_prev d (dq_end d) = ring ?b ?m ?c"
    using r(1-3) l by (cases "length xs") (auto simp: ring_def index_prev_def)
  have i: "ring ?b ?m ?c < ?c" using r(1) m by (rule ring_less)
  have pop: "dq_pop_back d = Some ?d"
    using i r(4) [OF m] l
    by (simp add: dq_pop_back_def e DestroyByIndex_def dq_slot_def dq_data_capacity_def Let_def)
  have "dq_rep ?d (butlast xs)"
  proof (rule dq_repI, goal_cases)
    case (4 k)
    then have k: "k < ?c" by (simp add: dq_data_capacity_def)
    have "dq_data ?d ! ring ?b k ?c = (if k = ?m then None else dq_data d ! ring ?b k ?c)"
      using i ring_inj [OF r(1) m k] by (auto simp: nth_list_update dq_data_capacity_def)
    also have "\<dots> = (if k < length (butlast xs) then Some (butlast xs ! k) else None)"
      using r(4) [OF k] l by (auto simp: nth_butlast)
    finally show ?case by (simp add: dq_data_capacity_def)
  qed (use r(1) m in \<open>simp_all add: dq_data_capacity_def\<close>)
  with pop show ?thesis by blast
qed

lemma dq_rep_pop_front:
  assumes "dq_rep d xs" "xs \<noteq> []"
  shows "\<exists>d'. dq_pop_front d = Some d' \<and> dq_rep d' (tl xs)"
proof -
  have c: "dq_data_capacity d \<noteq> 0" using assms by (auto simp: dq_rep_def split: if_splits)
  note r = dq_repD [OF assms(1) c]
  let ?b = "dq_begin d" and ?c = "dq_data_capacity d"
  let ?d = "d\<lparr>dq_data := (dq_data d)[?b := None], dq_begin := index_next d ?b\<rparr>"
  have l: "0 < length xs" using assms(2) by simp
  have pop: "dq_pop_front d = Some ?d"
    using r l assms(1,2) by (cases xs)
      (auto simp: dq_pop_front_def DestroyByIndex_def dq_rep_slot_begin index_next_def
        dq_data_capacity_def)
  have shift: "ring (index_next d ?b) k ?c = ring ?b (if Suc k = ?c then 0 else Suc k) ?c"
    if "k < ?c" for k using that r(1) by (auto simp: ring_def index_next_def)
  have "dq_rep ?d (tl xs)"
  proof (rule dq_repI)
    show "dq_begin ?d < dq_data_capacity ?d" "length (tl xs) < dq_data_capacity ?d"
      using r(1,2) by (auto simp: index_next_def dq_data_capacity_def)
    show "dq_end ?d = ring (dq_begin ?d) (length (tl xs)) (dq_data_capacity ?d)"
      using r(1-3) l by (cases "length xs") (auto simp: index_next_def dq_data_capacity_def ring_def)
  next
    fix k assume "k < dq_data_capacity ?d"
    then have k: "k < ?c" by (simp add: dq_data_capacity_def)
    let ?j = "if Suc k = ?c then 0 else Suc k"
    have j: "?j < ?c" using k by auto
    have "dq_data ?d ! ring ?b ?j ?c = (if ?j = 0 then None else dq_data d ! ring ?b ?j ?c)"
      using ring_inj [of ?b ?c ?j 0] r(1) j c
      by (auto simp: nth_list_update dq_data_capacity_def)
    also have "\<dots> = (if k < length (tl xs) then Some (tl xs ! k) else None)"
      using r(2) r(4) [OF j] k by (auto simp: nth_tl)
    finally show "dq_data ?d ! ring (dq_begin ?d) k (dq_data_capacity ?d)
        = (if k < length (tl xs) then Some (tl xs ! k) else None)"
      using shift [OF k] by (simp add: dq_data_capacity_def)
  qed
  with pop show ?thesis by blast
qed

lemma Relocate_moved:
  assumes "dq_rep d xs"
  shows "(if dq_begin d < dq_end d then RelocateUnwrappedRange (dq_begin d) (dq_end d) d
            else if dq_end d < dq_begin d
              then RelocateUnwrappedRange (dq_begin d) (dq_data_capacity d) d
                @ RelocateUnwrappedRange 0 (dq_end d) d
            else []) = List.map Some xs"
proof (cases "dq_data_capacity d = 0")
  case True
  with assms show ?thesis by (simp add: dq_rep_cap0)
next
  case False
  note r = dq_repD [OF assms(1) False]
  let ?b = "dq_begin d" and ?c = "dq_data_capacity d" and ?n = "length xs"
  have slot: "dq_data d ! ring ?b k ?c = Some (xs ! k)" if "k < ?n" for k
    using r(2,4) that by simp
  consider "?b + ?n < ?c" | "?c \<le> ?b + ?n" by linarith
  then show ?thesis
  proof cases
    case 1
    then have e: "dq_end d = ?b + ?n" using r(3) by (simp add: ring_def)
    have "take ?n (drop ?b (dq_data d)) = List.map Some xs"
      using 1 slot by (intro nth_equalityI) (auto simp: ring_def dq_data_capacity_def)
    then show ?thesis using e by (auto simp: RelocateUnwrappedRange_def)
  next
    case 2
    then have e: "dq_end d = ?b + ?n - ?c" using r(3) by (simp add: ring_def)
    have lt: "dq_end d < ?b" using e r(1,2) 2 by linarith
    have "drop ?b (dq_data d) @ take (dq_end d) (dq_data d) = List.map Some xs"
    proof (rule nth_equalityI)
      show "length (drop ?b (dq_data d) @ take (dq_end d) (dq_data d)) = length (List.map Some xs)"
        using e 2 r(1,2) by (simp add: dq_data_capacity_def)
    next
      fix k assume "k < length (drop ?b (dq_data d) @ take (dq_end d) (dq_data d))"
      then have k: "k < ?n" using e 2 r(1,2) by (simp add: dq_data_capacity_def split: if_splits)
      show "(drop ?b (dq_data d) @ take (dq_end d) (dq_data d)) ! k = List.map Some xs ! k"
        using slot [OF k] k e r(1,2) 2
        by (auto simp: nth_append ring_def dq_data_capacity_def add.commute split: if_splits)
    qed
    then show ?thesis using lt by (simp add: RelocateUnwrappedRange_def dq_data_capacity_def)
  qed
qed

lemma dq_rep_Relocate:
  assumes "dq_rep d xs" "length xs \<le> n"
  shows "dq_rep (Relocate n d) xs \<and> dq_data_capacity (Relocate n d) = Suc n"
proof -
  have R: "Relocate n d = \<lparr>dq_data = List.map Some xs @ replicate (Suc n - length xs) None,
      dq_begin = 0, dq_end = length xs\<rparr>"
    using Relocate_moved [OF assms(1)] dq_rep_size [OF assms(1)] by (simp add: Relocate_def Let_def)
  show ?thesis using assms(2)
    by (auto simp: R dq_data_capacity_def ring_def nth_append intro!: dq_repI)
qed

lemma MaybeExpandCapacity_cases:
  "MaybeExpandCapacity n d = d \<and> dq_size d + n \<le> dq_capacity d
    \<or> (\<exists>m. MaybeExpandCapacity n d = Relocate m d \<and> dq_size d + n \<le> m)"
  unfolding MaybeExpandCapacity_def Let_def by (metis max.cobounded1)

lemma dq_rep_MaybeExpandCapacity:
  assumes "dq_rep d xs"
  shows "dq_rep (MaybeExpandCapacity n d) xs"
    and "0 < n \<Longrightarrow> length xs + n < dq_data_capacity (MaybeExpandCapacity n d)"
proof -
  have s: "dq_size d = length xs" by (rule dq_rep_size [OF assms])
  from MaybeExpandCapacity_cases [of n d] consider
      "MaybeExpandCapacity n d = d" "length xs + n \<le> dq_capacity d"
    | m where "MaybeExpandCapacity n d = Relocate m d" "length xs + n \<le> m"
    unfolding s by blast
  then have "dq_rep (MaybeExpandCapacity n d) xs
      \<and> (0 < n \<longrightarrow> length xs + n < dq_data_capacity (MaybeExpandCapacity n d))"
  proof cases
    case 1
    with assms show ?thesis by (auto simp: dq_capacity_def split: if_splits)
  next
    case 2
    with dq_rep_Relocate [OF assms, of m] show ?thesis by simp
  qed
  then show "dq_rep (MaybeExpandCapacity n d) xs"
    and "0 < n \<Longrightarrow> length xs + n < dq_data_capacity (MaybeExpandCapacity n d)" by blast+
qed

lemma dq_rep_emplace_back:
  assumes "dq_rep d xs"
  shows "dq_rep (dq_emplace_back v d) (xs @ [v])"
proof -
  define e where "e = MaybeExpandCapacity 1 d"
  have rep: "dq_rep e xs" and l: "Suc (length xs) < dq_data_capacity e"
    using dq_rep_MaybeExpandCapacity [OF assms, of 1] by (simp_all add: e_def)
  then have c: "dq_data_capacity e \<noteq> 0" by simp
  note r = dq_repD [OF rep c]
  have n: "index_next e (ring (dq_begin e) (length xs) (dq_data_capacity e))
      = ring (dq_begin e) (Suc (length xs)) (dq_data_capacity e)"
    using r(1) l by (auto simp: index_next_def ring_def)
  show ?thesis
    unfolding dq_emplace_back_def Let_def e_def [symmetric]
  proof (rule dq_repI, goal_cases)
    case 1 show ?case using r(1) by (simp add: dq_data_capacity_def)
  next
    case 2 show ?case using l by (simp add: dq_data_capacity_def)
  next
    case 3 show ?case using n r(3) by (simp add: dq_data_capacity_def)
  next
    case (4 k)
    then have k: "k < dq_data_capacity e" by (simp add: dq_data_capacity_def)
    have i: "ring (dq_begin e) (length xs) (dq_data_capacity e) < dq_data_capacity e"
      using r(1,2) by (rule ring_less)
    have "dq_data (e\<lparr>dq_data := (dq_data e)[dq_end e := Some v]\<rparr>)
        ! ring (dq_begin e) k (dq_data_capacity e)
      = (if k = length xs then Some v else dq_data e ! ring (dq_begin e) k (dq_data_capacity e))"
      using i r(3) ring_inj [OF r(1) r(2) k] by (auto simp: nth_list_update dq_data_capacity_def)
    also have "\<dots> = (if k < length (xs @ [v]) then Some ((xs @ [v]) ! k) else None)"
      using r(4) [OF k] by (auto simp: nth_append)
    finally show ?case by (simp add: dq_data_capacity_def)
  qed
qed

lemma dq_rep_emplace_front:
  assumes "dq_rep d xs"
  shows "dq_rep (dq_emplace_front v d) (v # xs)"
proof -
  define e where "e = MaybeExpandCapacity 1 d"
  have rep: "dq_rep e xs" and l: "Suc (length xs) < dq_data_capacity e"
    using dq_rep_MaybeExpandCapacity [OF assms, of 1] by (simp_all add: e_def)
  then have c: "dq_data_capacity e \<noteq> 0" by simp
  note r = dq_repD [OF rep c]
  let ?b = "dq_begin e" and ?c = "dq_data_capacity e"
  let ?p = "index_prev e ?b"
  have p: "?p = ring ?b (?c - 1) ?c" using r(1) c by (auto simp: ring_def index_prev_def)
  have shift: "ring ?p k ?c = ring ?b (if k = 0 then ?c - 1 else k - 1) ?c" if "k < ?c" for k
    using that r(1) by (auto simp: ring_def index_prev_def)
  show ?thesis
    unfolding dq_emplace_front_def Let_def e_def [symmetric]
  proof (rule dq_repI, goal_cases)
    case 1 show ?case using r(1) c by (simp add: p ring_less dq_data_capacity_def)
  next
    case 2 show ?case using l by (simp add: dq_data_capacity_def)
  next
    case 3 show ?case using shift [of "Suc (length xs)"] l r(3) by (simp add: dq_data_capacity_def)
  next
    case (4 k)
    then have k: "k < ?c" by (simp add: dq_data_capacity_def)
    let ?j = "if k = 0 then ?c - 1 else k - 1"
    have j: "?j < ?c" and m: "?c - 1 < ?c" using k by auto
    have i: "ring ?b (?c - 1) ?c < ?c" using r(1) m by (rule ring_less)
    have "dq_data (e\<lparr>dq_data := (dq_data e)[?p := Some v]\<rparr>) ! ring ?b ?j ?c
        = (if ?j = ?c - 1 then Some v else dq_data e ! ring ?b ?j ?c)"
      using i ring_inj [OF r(1) m j] by (auto simp: p nth_list_update dq_data_capacity_def)
    also have "\<dots> = (if k < length (v # xs) then Some ((v # xs) ! k) else None)"
      using r(4) [OF j] l k by (cases k) auto
    finally show ?case using shift [OF k] by (simp add: dq_data_capacity_def)
  qed
qed

subsection \<open>Ranges\<close>

definition blank :: "nat \<Rightarrow> nat \<Rightarrow> 'a option list \<Rightarrow> 'a option list" where
  "blank b e ys = List.map (\<lambda>i. if b \<le> i \<and> i < e then None else ys ! i) [0..<length ys]"

lemma blank_nth: "i < length ys \<Longrightarrow> blank b e ys ! i = (if b \<le> i \<and> i < e then None else ys ! i)"
  by (simp add: blank_def)

lemma length_blank [simp]: "length (blank b e ys) = length ys"
  by (simp add: blank_def)

lemma blank_refl: "e \<le> b \<Longrightarrow> blank b e ys = ys"
  by (rule nth_equalityI) (auto simp: blank_nth)

lemma blank_step: "b < e \<Longrightarrow> b < length ys \<Longrightarrow> blank (Suc b) e (ys[b := None]) = blank b e ys"
  by (rule nth_equalityI) (auto simp: blank_nth nth_list_update)

lemma DestroyUnwrappedRange_blank:
  assumes "b \<le> e" "e \<le> dq_data_capacity d" "\<And>i. b \<le> i \<Longrightarrow> i < e \<Longrightarrow> dq_data d ! i \<noteq> None"
  shows "DestroyUnwrappedRange b e d = Some (d\<lparr>dq_data := blank b e (dq_data d)\<rparr>)"
  using assms
proof (induction b e d rule: DestroyUnwrappedRange.induct)
  case (1 b e d)
  show ?case
  proof (cases "b = e")
    case True
    then show ?thesis by (simp add: DestroyUnwrappedRange.simps blank_refl)
  next
    case False
    with 1 have be: "b < e" "b < length (dq_data d)" by (auto simp: dq_data_capacity_def)
    let ?d = "d\<lparr>dq_data := (dq_data d)[b := None]\<rparr>"
    have D: "DestroyByIndex b d = Some ?d"
      using 1(4) [of b] be by (auto simp: DestroyByIndex_def dq_slot_def dq_data_capacity_def)
    have "DestroyUnwrappedRange (Suc b) e ?d = Some (?d\<lparr>dq_data := blank (Suc b) e (dq_data ?d)\<rparr>)"
      using be 1(3,4) False by (intro "1.IH") (auto simp: D dq_data_capacity_def nth_list_update)
    with D be show ?thesis
      by (simp add: DestroyUnwrappedRange.simps [of b e d] blank_step)
  qed
qed

lemma DestroyRange_rep:
  assumes rep: "dq_rep d xs" and c: "dq_data_capacity d \<noteq> 0"
    and ij: "i \<le> j" "j \<le> length xs"
  obtains ys where
    "DestroyRange (ring (dq_begin d) i (dq_data_capacity d)) (ring (dq_begin d) j (dq_data_capacity d)) d
       = Some (d\<lparr>dq_data := ys\<rparr>)"
    "length ys = dq_data_capacity d"
    "\<And>k. k < dq_data_capacity d \<Longrightarrow> ys ! ring (dq_begin d) k (dq_data_capacity d)
       = (if k < length xs \<and> \<not> (i \<le> k \<and> k < j) then Some (xs ! k) else None)"
proof -
  note r = dq_repD [OF rep c]
  let ?b = "dq_begin d" and ?c = "dq_data_capacity d"
  let ?p = "ring ?b i ?c" and ?q = "ring ?b j ?c"
  have live: "dq_data d ! m \<noteq> None" if "m = ring ?b k ?c" "i \<le> k" "k < j" for m k
    using r(4) [of k] that ij r(2) by simp
  have le: "i < ?c" "j < ?c" using ij r(2) by simp_all
  show ?thesis
  proof (cases "?p \<le> ?q")
    case True
    have w: "DestroyUnwrappedRange ?p ?q d = Some (d\<lparr>dq_data := blank ?p ?q (dq_data d)\<rparr>)"
    proof (rule DestroyUnwrappedRange_blank)
      show "?q \<le> ?c" using ring_less [OF r(1) le(2)] by simp
      fix m assume m: "?p \<le> m" "m < ?q"
      show "dq_data d ! m \<noteq> None"
        by (rule live [of m "if ?b \<le> m then m - ?b else m + ?c - ?b"])
          (use m r(1) le ij in \<open>auto simp: ring_def split: if_splits\<close>)
    qed (rule True)
    show ?thesis
    proof (rule that)
      show "DestroyRange ?p ?q d = Some (d\<lparr>dq_data := blank ?p ?q (dq_data d)\<rparr>)"
        using True w by (simp add: DestroyRange_def)
    next
      fix k assume k: "k < ?c"
      have "(?p \<le> ring ?b k ?c \<and> ring ?b k ?c < ?q) = (i \<le> k \<and> k < j)"
        using True k le r(1) ij by (auto simp: ring_def split: if_splits)
      then show "blank ?p ?q (dq_data d) ! ring ?b k ?c
          = (if k < length xs \<and> \<not> (i \<le> k \<and> k < j) then Some (xs ! k) else None)"
        using ring_less [OF r(1) k] r(4) [OF k] by (simp add: blank_nth dq_data_capacity_def)
    qed (simp add: dq_data_capacity_def)
  next
    case False
    let ?d = "d\<lparr>dq_data := blank ?p ?c (dq_data d)\<rparr>"
    have w1: "DestroyUnwrappedRange ?p ?c d = Some ?d"
    proof (rule DestroyUnwrappedRange_blank)
      show "?p \<le> ?c" using ring_less [OF r(1) le(1)] by simp
      fix m assume m: "?p \<le> m" "m < ?c"
      show "dq_data d ! m \<noteq> None"
        by (rule live [of m "m - ?b"])
          (use m False r(1) le ij in \<open>auto simp: ring_def split: if_splits\<close>)
    qed simp
    have w2: "DestroyUnwrappedRange 0 ?q ?d = Some (?d\<lparr>dq_data := blank 0 ?q (dq_data ?d)\<rparr>)"
    proof (rule DestroyUnwrappedRange_blank)
      show "?q \<le> dq_data_capacity ?d"
        using ring_less [OF r(1) le(2)] by (simp add: dq_data_capacity_def)
      fix m assume m: "0 \<le> m" "m < ?q"
      then have "m < ?p" "m < ?c" using False ring_less [OF r(1) le(2)] by simp_all
      moreover have "dq_data d ! m \<noteq> None"
        by (rule live [of m "m + ?c - ?b"])
          (use m False r(1) le ij in \<open>auto simp: ring_def split: if_splits\<close>)
      ultimately show "dq_data ?d ! m \<noteq> None" by (simp add: blank_nth dq_data_capacity_def)
    qed simp
    show ?thesis
    proof (rule that)
      show "DestroyRange ?p ?q d = Some (d\<lparr>dq_data := blank 0 ?q (dq_data ?d)\<rparr>)"
        using False w1 w2 by (simp add: DestroyRange_def)
    next
      fix k assume k: "k < ?c"
      have "(?p \<le> ring ?b k ?c \<or> ring ?b k ?c < ?q) = (i \<le> k \<and> k < j)"
        using False k le r(1) ij by (auto simp: ring_def split: if_splits)
      then show "blank 0 ?q (dq_data ?d) ! ring ?b k ?c
          = (if k < length xs \<and> \<not> (i \<le> k \<and> k < j) then Some (xs ! k) else None)"
        using ring_less [OF r(1) k] r(4) [OF k]
        by (auto simp: blank_nth dq_data_capacity_def)
    qed (simp add: dq_data_capacity_def)
  qed
qed

lemma DestroyRange_cap0: "dq_rep d xs \<Longrightarrow> dq_data_capacity d = 0
    \<Longrightarrow> DestroyRange (dq_begin d) (dq_end d) d = Some d \<and> xs = []"
  by (simp add: dq_rep_cap0 DestroyRange_def DestroyUnwrappedRange.simps)

lemma dq_rep_clear:
  assumes "dq_rep d xs"
  shows "\<exists>d'. dq_clear d = Some d' \<and> dq_rep d' [] \<and> dq_data_capacity d' = dq_data_capacity d"
proof (cases "dq_data_capacity d = 0")
  case True
  with assms DestroyRange_cap0 [OF assms] show ?thesis
    by (simp add: dq_clear_def ClearRetainCapacity_def dq_rep_def dq_data_capacity_def)
next
  case False
  note r = dq_repD [OF assms False]
  obtain ys where ys:
    "DestroyRange (ring (dq_begin d) 0 (dq_data_capacity d)) (ring (dq_begin d) (length xs) (dq_data_capacity d)) d
       = Some (d\<lparr>dq_data := ys\<rparr>)"
    "length ys = dq_data_capacity d"
    "\<And>k. k < dq_data_capacity d \<Longrightarrow> ys ! ring (dq_begin d) k (dq_data_capacity d)
       = (if k < length xs \<and> \<not> (0 \<le> k \<and> k < length xs) then Some (xs ! k) else None)"
    using DestroyRange_rep [OF assms False, of 0 "length xs"] by auto
  have "ys ! i = None" if "i < dq_data_capacity d" for i
    using ring_surj [OF r(1) that] ys(3) by auto
  with False ys(1,2) r(1,3) show ?thesis
    by (auto simp: dq_clear_def ClearRetainCapacity_def dq_data_capacity_def ring_def intro!: dq_repI)
qed

lemma dq_rep_pop_front_n:
  assumes "dq_rep d xs"
  shows "\<exists>d'. dq_pop_front_n n d = Some (d', min n (length xs)) \<and> dq_rep d' (drop n xs)"
proof (cases "dq_data_capacity d = 0")
  case True
  with assms DestroyRange_cap0 [OF assms True] show ?thesis
    by (auto simp: dq_pop_front_n_def dq_rep_size [OF assms] index_increment_by_def dq_rep_def
        dq_data_capacity_def)
next
  case False
  note r = dq_repD [OF assms False]
  let ?m = "min n (length xs)" and ?b = "dq_begin d" and ?c = "dq_data_capacity d"
  have m: "?m < ?c" using r(2) by simp
  have inc: "index_increment_by d ?b (int ?m) = Some (ring ?b ?m ?c)"
  proof -
    have "int ?b + int ?c + int ?m = int (?b + ?m + ?c)" by simp
    then have "(int ?b + int ?c + int ?m) mod int ?c = int ((?b + ?m) mod ?c)"
      by (metis mod_add_self2 zmod_int)
    moreover have "(?b + ?m) mod ?c = ring ?b ?m ?c" using r(1) m by (simp add: ring_def mod_if)
    ultimately show ?thesis using False r(1) by (auto simp: index_increment_by_def)
  qed
  obtain ys where ys:
    "DestroyRange (ring ?b 0 ?c) (ring ?b ?m ?c) d = Some (d\<lparr>dq_data := ys\<rparr>)"
    "length ys = ?c"
    "\<And>k. k < ?c \<Longrightarrow> ys ! ring ?b k ?c
       = (if k < length xs \<and> \<not> (0 \<le> k \<and> k < ?m) then Some (xs ! k) else None)"
    using DestroyRange_rep [OF assms False, of 0 ?m] by auto
  let ?d = "d\<lparr>dq_data := ys, dq_begin := ring ?b ?m ?c\<rparr>"
  have "dq_pop_front_n n d = Some (?d, ?m)"
    using ys(1) inc r(1) by (simp add: dq_pop_front_n_def dq_rep_size [OF assms] Let_def)
  moreover have "dq_rep ?d (drop n xs)"
  proof (rule dq_repI, goal_cases)
    case 1 show ?case using ys(2) ring_less [OF r(1) m] by (simp add: dq_data_capacity_def)
  next
    case 2 show ?case using ys(2) r(2) by (simp add: dq_data_capacity_def)
  next
    case 3 show ?case using ys(2) r(1-3) by (auto simp: dq_data_capacity_def ring_def)
  next
    case (4 k)
    then have k: "k < ?c" using ys(2) by (simp add: dq_data_capacity_def)
    let ?j = "if ?m + k < ?c then ?m + k else ?m + k - ?c"
    have j: "?j < ?c" "ring (ring ?b ?m ?c) k ?c = ring ?b ?j ?c"
      using k m ring_ring [OF r(1) m k] by auto
    show ?case using ys(2) ys(3) [OF j(1)] j(2) k m r(2)
      by (auto simp: dq_data_capacity_def min_def split: if_splits)
  qed
  ultimately show ?thesis by blast
qed

lemma dq_rep_pop_back_n:
  assumes "dq_rep d xs"
  shows "\<exists>d'. dq_pop_back_n n d = Some (d', min n (length xs))
    \<and> dq_rep d' (take (length xs - n) xs)"
proof (cases "dq_data_capacity d = 0")
  case True
  with assms DestroyRange_cap0 [OF assms True] show ?thesis
    by (auto simp: dq_pop_back_n_def dq_rep_size [OF assms] index_increment_by_def dq_rep_def
        dq_data_capacity_def)
next
  case False
  note r = dq_repD [OF assms False]
  let ?m = "min n (length xs)" and ?b = "dq_begin d" and ?c = "dq_data_capacity d"
  let ?l = "length xs - ?m"
  have m: "?l < ?c" using r(2) by simp
  have inc: "index_increment_by d (dq_end d) (- int ?m) = Some (ring ?b ?l ?c)"
  proof (cases "?m = 0")
    case True
    then show ?thesis using r(3) by (simp add: index_increment_by_def)
  next
    case F: False
    have "ring ?b (length xs) ?c + ?c - ?m = ?b + ?l + (if ?b + length xs < ?c then ?c else 0)"
      using r(1,2) by (cases "?b + length xs < ?c") (simp_all add: ring_def)
    then have "(ring ?b (length xs) ?c + ?c - ?m) mod ?c = (?b + ?l) mod ?c"
      by (cases "?b + length xs < ?c") (simp_all only: if_True if_False mod_add_self2 add_0_right)
    moreover have "(?b + ?l) mod ?c = ring ?b ?l ?c" using r(1) m by (simp add: ring_def mod_if)
    moreover have "int (ring ?b (length xs) ?c) + int ?c + (- int ?m)
        = int (ring ?b (length xs) ?c + ?c - ?m)" using r(2) by (simp add: of_nat_diff)
    ultimately have "nat ((int (dq_end d) + int ?c + (- int ?m)) mod int ?c) = ring ?b ?l ?c"
      unfolding r(3) by (metis nat_int zmod_int)
    moreover have "index_increment_by d e (- int m) = Some v"
      if "m \<noteq> 0" "nat ((int e + int ?c + (- int m)) mod int ?c) = v" "m < ?c" for e m v
      using that False by (simp add: index_increment_by_def Let_def)
    moreover have "?m < ?c" using r(2) by simp
    ultimately show ?thesis using F by blast
  qed
  obtain ys where ys:
    "DestroyRange (ring ?b ?l ?c) (ring ?b (length xs) ?c) d = Some (d\<lparr>dq_data := ys\<rparr>)"
    "length ys = ?c"
    "\<And>k. k < ?c \<Longrightarrow> ys ! ring ?b k ?c
       = (if k < length xs \<and> \<not> (?l \<le> k \<and> k < length xs) then Some (xs ! k) else None)"
    using DestroyRange_rep [OF assms False, of ?l "length xs"] by auto
  let ?d = "d\<lparr>dq_data := ys, dq_end := ring ?b ?l ?c\<rparr>"
  have "dq_pop_back_n n d = Some (?d, ?m)"
    using ys(1) inc r(3) by (simp add: dq_pop_back_n_def dq_rep_size [OF assms] Let_def)
  moreover have "dq_rep ?d (take (length xs - n) xs)"
  proof (rule dq_repI, goal_cases)
    have "length xs - ?m = length xs - n" by linarith
    moreover case 3
    ultimately show ?case using ys(2) by (simp add: dq_data_capacity_def)
  next
    case (4 k)
    then have k: "k < ?c" using ys(2) by (simp add: dq_data_capacity_def)
    show ?case using ys(2) ys(3) [OF k] by (auto simp: dq_data_capacity_def)
  qed (use ys(2) r(1,2) in \<open>simp_all add: dq_data_capacity_def\<close>)
  ultimately show ?thesis by blast
qed

lemma dq_rep_emplace_back_while:
  "dq_rep d xs \<Longrightarrow> length xs + m = count
    \<Longrightarrow> \<exists>d'. while_option (\<lambda>d. dq_size d < count) (dq_emplace_back v) d = Some d'
      \<and> dq_rep d' (xs @ replicate m v)"
proof (induction m arbitrary: d xs)
  case 0
  then show ?case by (subst while_option_unfold) (simp add: dq_rep_size)
next
  case (Suc m)
  have "dq_rep (dq_emplace_back v d) (xs @ [v])" using Suc.prems(1) by (rule dq_rep_emplace_back)
  with Suc.IH [of "dq_emplace_back v d" "xs @ [v]"] Suc.prems show ?case
    by (subst while_option_unfold) (simp add: dq_rep_size)
qed

lemma dq_rep_resize:
  assumes "dq_rep d xs" "dq_data_capacity d \<noteq> 0 \<or> 0 < count"
  shows "\<exists>d'. dq_resize count v d = Some d'
    \<and> dq_rep d' (take count xs @ replicate (count - length xs) v)"
proof (cases "length xs < count")
  case True
  have "dq_rep (MaybeExpandCapacity (count - length xs) d) xs"
    by (rule dq_rep_MaybeExpandCapacity(1) [OF assms(1)])
  from dq_rep_emplace_back_while [OF this, of "count - length xs" count v] True
  show ?thesis by (simp add: dq_resize_def dq_rep_size [OF assms(1)])
next
  case False
  with assms have c: "dq_data_capacity d \<noteq> 0" by (auto simp: dq_rep_def split: if_splits)
  note r = dq_repD [OF assms(1) c]
  let ?b = "dq_begin d" and ?c = "dq_data_capacity d"
  have e: "(?b + count) mod ?c = ring ?b count ?c"
    using False r(1,2) by (simp add: ring_def mod_if)
  obtain ys where ys:
    "DestroyRange (ring ?b count ?c) (ring ?b (length xs) ?c) d = Some (d\<lparr>dq_data := ys\<rparr>)"
    "length ys = ?c"
    "\<And>k. k < ?c \<Longrightarrow> ys ! ring ?b k ?c
       = (if k < length xs \<and> \<not> (count \<le> k \<and> k < length xs) then Some (xs ! k) else None)"
    using DestroyRange_rep [OF assms(1) c, of count "length xs"] False by auto
  let ?d = "d\<lparr>dq_data := ys, dq_end := ring ?b count ?c\<rparr>"
  have "dq_resize count v d = Some ?d"
    using False c ys(1) r(3) e by (simp add: dq_resize_def dq_rep_size [OF assms(1)] Let_def)
  moreover have "dq_rep ?d (take count xs)"
  proof (rule dq_repI, goal_cases)
    case 3 show ?case using False ys(2) by (simp add: dq_data_capacity_def min_absorb2)
  next
    case (4 k)
    then have k: "k < ?c" using ys(2) by (simp add: dq_data_capacity_def)
    show ?case using False ys(2) ys(3) [OF k] by (auto simp: dq_data_capacity_def)
  qed (use ys(2) r(1,2) in \<open>simp_all add: dq_data_capacity_def\<close>)
  ultimately show ?thesis using False by simp
qed

lemma dq_rep_fold_emplace_back:
  "dq_rep d xs \<Longrightarrow> dq_rep (fold dq_emplace_back vs d) (xs @ vs)"
proof (induction vs arbitrary: d xs)
  case (Cons v vs)
  then show ?case using dq_rep_emplace_back [of d xs v] Cons.IH [of _ "xs @ [v]"] by simp
qed simp

lemma dq_rep_AssignRange:
  assumes "dq_rep d xs"
  shows "\<exists>d'. AssignRange vs d = Some d' \<and> dq_rep d' vs"
proof -
  obtain e where e: "ClearRetainCapacity d = Some e" "dq_rep e []"
    using dq_rep_clear [OF assms] by (auto simp: dq_clear_def)
  then have "dq_rep (dq_reserve (length vs) e) []"
    using dq_rep_Relocate [OF e(2), of "length vs"] by (simp add: dq_reserve_def)
  with e(1) dq_rep_fold_emplace_back [of _ "[]" vs] show ?thesis
    by (simp add: AssignRange_def)
qed

text \<open>An iteration from \<open>begin()\<close> to \<open>end()\<close> ends and visits the elements in order.\<close>

lemma dq_walk_rep:
  assumes "dq_rep d xs" "dq_data_capacity d \<noteq> 0"
  shows "k \<le> length xs \<Longrightarrow> length xs - k \<le> fuel
    \<Longrightarrow> dq_walk fuel d (ring (dq_begin d) k (dq_data_capacity d)) = Some (drop k xs)"
proof (induction fuel arbitrary: k)
  case 0
  then show ?case using dq_repD [OF assms] by (simp add: dq_walk.simps)
next
  case (Suc fuel)
  note r = dq_repD [OF assms]
  show ?case
  proof (cases "k = length xs")
    case True
    then show ?thesis using r by (simp add: dq_walk.simps)
  next
    case False
    with Suc.prems have k: "k < length xs" by simp
    let ?i = "ring (dq_begin d) k (dq_data_capacity d)"
    have "?i \<noteq> dq_end d" using k r(3) ring_inj [OF r(1), of k "length xs"] r(2) by simp
    moreover have "dq_slot d ?i = Some (xs ! k)"
      using k r(2,4) ring_less [OF r(1), of k] by (simp add: dq_slot_def)
    moreover have "index_next d ?i = ring (dq_begin d) (Suc k) (dq_data_capacity d)"
      using k r(1,2) by (auto simp: index_next_def ring_def)
    moreover have "dq_walk fuel d (ring (dq_begin d) (Suc k) (dq_data_capacity d)) = Some (drop (Suc k) xs)"
      using k Suc.prems by (intro Suc.IH) auto
    ultimately show ?thesis using k by (simp add: dq_walk.simps [of "Suc fuel"] Cons_nth_drop_Suc)
  qed
qed

lemma dq_rep_elements:
  assumes "dq_rep d xs"
  shows "dq_elements d = Some xs"
proof (cases "dq_data_capacity d = 0")
  case True
  with assms show ?thesis by (simp add: dq_rep_cap0 dq_elements_def dq_walk.simps)
next
  case False
  then show ?thesis using dq_walk_rep [OF assms False, of 0] dq_repD(1,2) [OF assms False]
    by (simp add: dq_elements_def)
qed

text \<open>The iterator to the \<open>k\<close>-th element.\<close>

definition dq_iter :: "'a deque \<Rightarrow> nat \<Rightarrow> nat" where
  "dq_iter d k = ring (dq_begin d) k (dq_data_capacity d)"

lemma dq_iter_begin: "dq_rep d xs \<Longrightarrow> dq_iter d 0 = dq_begin d"
  by (auto simp: dq_iter_def dq_rep_def ring_def split: if_splits)

lemma dq_iter_end: "dq_rep d xs \<Longrightarrow> k \<le> length xs \<Longrightarrow> dq_iter d k = dq_end d \<longleftrightarrow> k = length xs"
  by (auto simp: dq_iter_def dq_rep_def ring_def split: if_splits)

lemma dq_iter_plus:
  assumes "dq_rep d xs" "k \<le> length xs"
  shows "index_increment_by d (dq_begin d) (int k) = Some (dq_iter d k)"
proof (cases "k = 0")
  case True
  with dq_iter_begin [OF assms(1)] show ?thesis by (simp add: index_increment_by_def)
next
  case False
  with assms have c: "dq_data_capacity d \<noteq> 0" by (auto simp: dq_rep_def split: if_splits)
  note r = dq_repD [OF assms(1) c]
  have "int (dq_begin d) + int (dq_data_capacity d) + int k = int (dq_begin d + k + dq_data_capacity d)"
    by simp
  then have "(int (dq_begin d) + int (dq_data_capacity d) + int k) mod int (dq_data_capacity d)
      = int ((dq_begin d + k) mod dq_data_capacity d)" by (metis mod_add_self2 zmod_int)
  moreover have "(dq_begin d + k) mod dq_data_capacity d = ring (dq_begin d) k (dq_data_capacity d)"
    using r(1,2) assms(2) by (simp add: ring_def mod_if)
  ultimately show ?thesis using c False by (simp add: index_increment_by_def dq_iter_def)
qed

lemma dq_walk_iter:
  assumes "dq_rep d xs" "k \<le> length xs"
  shows "dq_walk (dq_data_capacity d) d (dq_iter d k) = Some (drop k xs)"
proof (cases "dq_data_capacity d = 0")
  case True
  with assms show ?thesis by (simp add: dq_rep_cap0 dq_walk.simps dq_iter_def ring_def)
next
  case False
  then show ?thesis unfolding dq_iter_def
    using dq_walk_rep [OF assms(1) False assms(2)] dq_repD(2) [OF assms(1) False] by simp
qed

subsection \<open>The interface of the containers built on the deque\<close>

locale deque_ops =
  fixes rep :: "'d \<Rightarrow> 'a list \<Rightarrow> bool"
    and new :: 'd
    and size :: "'d \<Rightarrow> nat"
    and at :: "'d \<Rightarrow> nat \<Rightarrow> 'a option"
    and set_at :: "nat \<Rightarrow> 'a \<Rightarrow> 'd \<Rightarrow> 'd option"
    and push_back :: "'a \<Rightarrow> 'd \<Rightarrow> 'd"
    and pop_front :: "'d \<Rightarrow> 'd option"
  assumes rep_new: "rep new []"
    and rep_size: "rep d xs \<Longrightarrow> size d = length xs"
    and rep_at: "rep d xs \<Longrightarrow> k < length xs \<Longrightarrow> at d k = Some (xs ! k)"
    and rep_set: "rep d xs \<Longrightarrow> k < length xs \<Longrightarrow> \<exists>d'. set_at k v d = Some d' \<and> rep d' (xs[k := v])"
    and rep_push: "rep d xs \<Longrightarrow> rep (push_back v d) (xs @ [v])"
    and rep_pop: "rep d xs \<Longrightarrow> xs \<noteq> [] \<Longrightarrow> \<exists>d'. pop_front d = Some d' \<and> rep d' (tl xs)"
begin

lemma rep_unique: "rep d xs \<Longrightarrow> rep d ys \<Longrightarrow> xs = ys"
  by (rule nth_equalityI) (metis rep_size, metis rep_size rep_at option.inject)

lemma rep_pushes: "rep d xs \<Longrightarrow> rep (fold push_back vs d) (xs @ vs)"
proof (induction vs arbitrary: d xs)
  case (Cons v vs)
  then show ?case using rep_push [of d xs v] Cons.IH [of _ "xs @ [v]"] by simp
qed simp

text \<open>\<open>n\<close> removals at the front; \<open>None\<close> once one of them fails.\<close>

lemma rep_pops:
  "rep d xs \<Longrightarrow> n \<le> length xs
    \<Longrightarrow> \<exists>d'. ((\<lambda>m. Option.bind m pop_front) ^^ n) (Some d) = Some d' \<and> rep d' (drop n xs)"
proof (induction n)
  case (Suc n)
  then obtain e where e: "((\<lambda>m. Option.bind m pop_front) ^^ n) (Some d) = Some e" "rep e (drop n xs)"
    by auto
  with Suc.prems rep_pop [OF e(2)] show ?case by (auto simp: drop_Suc tl_drop)
qed simp

text \<open>First in, first out: after pushing \<open>vs\<close>, the \<open>k\<close>-th removal leaves \<open>vs ! k\<close> in front.\<close>

lemma fifo:
  assumes "rep d []" "k < length vs"
  shows "\<exists>d'. ((\<lambda>m. Option.bind m pop_front) ^^ k) (Some (fold push_back vs d)) = Some d'
    \<and> at d' 0 = Some (vs ! k)"
proof -
  have "rep (fold push_back vs d) vs" using rep_pushes [OF assms(1), of vs] by simp
  then obtain d' where d': "((\<lambda>m. Option.bind m pop_front) ^^ k) (Some (fold push_back vs d)) = Some d'"
    "rep d' (drop k vs)" using rep_pops [of "fold push_back vs d" vs k] assms(2) by auto
  then have "at d' 0 = Some (drop k vs ! 0)" using assms(2) by (intro rep_at) auto
  with d' assms(2) show ?thesis by simp
qed

end

interpretation cdq: deque_ops dq_rep dq_new dq_size dq_at dq_set dq_emplace_back dq_pop_front
  by unfold_locales
    (auto intro: dq_rep_new dq_rep_size dq_rep_at dq_rep_set dq_rep_emplace_back dq_rep_pop_front)

subsection \<open>Histories of operations\<close>

text \<open>
  The abstract specification of the deque is the list of its elements; \<open>list_step\<close> is
  undefined where the C++ operation is (no element to remove, or \<open>resize(0)\<close> on an empty deque).
\<close>

datatype 'a dq_op = PushBack 'a | PushFront 'a | PopBack | PopFront | PopFrontN nat | PopBackN nat
  | SetAt nat 'a | Clear | Reserve nat | Resize nat 'a | Assign "'a list"

fun dq_step :: "'a dq_op \<Rightarrow> 'a deque \<Rightarrow> 'a deque option" where
  "dq_step (PushBack v) d = Some (dq_emplace_back v d)"
| "dq_step (PushFront v) d = Some (dq_emplace_front v d)"
| "dq_step PopBack d = dq_pop_back d"
| "dq_step PopFront d = dq_pop_front d"
| "dq_step (PopFrontN n) d = map_option fst (dq_pop_front_n n d)"
| "dq_step (PopBackN n) d = map_option fst (dq_pop_back_n n d)"
| "dq_step (SetAt k v) d = dq_set k v d"
| "dq_step Clear d = dq_clear d"
| "dq_step (Reserve n) d = Some (dq_reserve n d)"
| "dq_step (Resize n v) d = dq_resize n v d"
| "dq_step (Assign vs) d = AssignRange vs d"

fun list_step :: "'a dq_op \<Rightarrow> 'a list \<Rightarrow> 'a list option" where
  "list_step (PushBack v) xs = Some (xs @ [v])"
| "list_step (PushFront v) xs = Some (v # xs)"
| "list_step PopBack xs = (if xs = [] then None else Some (butlast xs))"
| "list_step PopFront xs = (if xs = [] then None else Some (tl xs))"
| "list_step (PopFrontN n) xs = Some (drop n xs)"
| "list_step (PopBackN n) xs = Some (take (length xs - n) xs)"
| "list_step (SetAt k v) xs = (if k < length xs then Some (xs[k := v]) else None)"
| "list_step Clear xs = Some []"
| "list_step (Reserve n) xs = Some xs"
| "list_step (Resize n v) xs =
     (if n = 0 \<and> xs = [] then None else Some (take n xs @ replicate (n - length xs) v))"
| "list_step (Assign vs) xs = Some vs"

fun dq_run :: "'a dq_op list \<Rightarrow> 'a deque \<Rightarrow> 'a deque option" where
  "dq_run [] d = Some d"
| "dq_run (c # cs) d = Option.bind (dq_step c d) (dq_run cs)"

fun list_run :: "'a dq_op list \<Rightarrow> 'a list \<Rightarrow> 'a list option" where
  "list_run [] xs = Some xs"
| "list_run (c # cs) xs = Option.bind (list_step c xs) (list_run cs)"

lemma dq_rep_capacity: "dq_rep d xs \<Longrightarrow> length xs \<le> dq_capacity d"
  by (auto simp: dq_rep_def dq_capacity_def split: if_splits)

lemma dq_rep_reserve: "dq_rep d xs \<Longrightarrow> dq_rep (dq_reserve n d) xs"
  using dq_rep_Relocate [of d xs n] dq_rep_capacity [of d xs] by (auto simp: dq_reserve_def)

lemma dq_step_refines:
  assumes "list_step c xs = Some ys" "dq_rep d xs"
  shows "\<exists>d'. dq_step c d = Some d' \<and> dq_rep d' ys"
  using assms
proof (cases c)
  case (PopFrontN n)
  with assms dq_rep_pop_front_n [of d xs n] show ?thesis by auto
next
  case (PopBackN n)
  with assms dq_rep_pop_back_n [of d xs n] show ?thesis by auto
next
  case (Resize n v)
  with assms have "dq_data_capacity d \<noteq> 0 \<or> 0 < n"
    by (auto simp: dq_rep_def split: if_splits)
  with assms Resize dq_rep_resize [of d xs n v] show ?thesis by (auto split: if_splits)
qed (auto split: if_splits intro: dq_rep_emplace_back dq_rep_emplace_front dq_rep_pop_back
    dq_rep_pop_front dq_rep_set dq_rep_reserve dest: dq_rep_clear dq_rep_AssignRange)

lemma dq_run_refines:
  "list_run cs xs = Some ys \<Longrightarrow> dq_rep d xs \<Longrightarrow> \<exists>d'. dq_run cs d = Some d' \<and> dq_rep d' ys"
proof (induction cs arbitrary: xs d)
  case (Cons c cs)
  then obtain zs where zs: "list_step c xs = Some zs" "list_run cs zs = Some ys"
    by (auto simp: bind_Some_iff)
  from dq_step_refines [OF zs(1) Cons.prems(2)] obtain e where "dq_step c d = Some e" "dq_rep e zs"
    by blast
  with Cons.IH [OF zs(2)] show ?case by simp
qed simp

subsection \<open>Properties\<close>

text \<open>C22. Every history of operations on a fresh deque has the result it has on lists: the ring
  buffer, with its growth, its two wrapped halves and its destroyed slots, is a list to its client.\<close>

theorem deque_implements_list:
  assumes "list_run cs [] = Some xs"
  shows "\<exists>d. dq_run cs dq_new = Some d \<and> dq_elements d = Some xs \<and> dq_size d = length xs
    \<and> (\<forall>k < length xs. dq_at d k = Some (xs ! k))"
  using dq_run_refines [OF assms dq_rep_new] dq_rep_elements dq_rep_size dq_rep_at by blast

lemma deque_implements_list_witness:
  "\<exists>d. dq_run [PushBack (1::nat), PushFront 2, Resize 4 7, PopFront, SetAt 1 9] dq_new = Some d
    \<and> dq_elements d = Some [1, 9, 7] \<and> dq_size d = 3
    \<and> (\<forall>k < 3. dq_at d k = Some ([1, 9, 7] ! k))"
  using deque_implements_list [of "[PushBack (1::nat), PushFront 2, Resize 4 7, PopFront, SetAt 1 9]" "[1, 9, 7]"]
  by (simp add: numeral_eq_Suc)

text \<open>\<open>resize(0)\<close> on a deque that has never allocated is undefined: it takes a remainder by the
  data capacity, which is zero.\<close>

theorem resize_fresh_undefined: "dq_resize 0 v dq_new = None"
  by (simp add: dq_resize_def dq_size_def dq_new_def dq_data_capacity_def)

end
