(* ===== verification/Packet_Number.thy ===== *)
theory Packet_Number
  imports Prelude
begin

section \<open>Packet numbers\<close>

text \<open>
  \<open>QuicPacketNumber\<close> of \<open>quic/quic_packet_number.h\<close> and \<open>.cc\<close>: a \<open>uint64_t\<close> whose largest
  value stands for ``uninitialized''. The comparison operators of the class compare the
  raw values, as \<open>=\<close>, \<open><\<close> and \<open>\<le>\<close> on words do. \<open>pn_view\<close> reads a packet number as an
  option; \<open>UpdateMax\<close> is the maximum of the two numbers that are initialized.
\<close>

type_synonym packet_number = u64

definition UninitializedPacketNumber :: packet_number where
  "UninitializedPacketNumber = 0xFFFFFFFFFFFFFFFF"

definition IsInitialized :: "packet_number \<Rightarrow> bool" where
  "IsInitialized p \<longleftrightarrow> p \<noteq> UninitializedPacketNumber"

definition ToUint64 :: "packet_number \<Rightarrow> u64" where
  "ToUint64 p = p"

definition pn_Hash :: "packet_number \<Rightarrow> u64" where
  "pn_Hash p = p"

definition pn_Clear :: "packet_number \<Rightarrow> packet_number" where
  "pn_Clear p = UninitializedPacketNumber"

definition UpdateMax :: "packet_number \<Rightarrow> packet_number \<Rightarrow> packet_number" where
  "UpdateMax p new_value =
     (if \<not> IsInitialized new_value then p
      else if \<not> IsInitialized p then ToUint64 new_value
      else max p (ToUint64 new_value))"

text \<open>\<open>++p\<close>, \<open>--p\<close>, \<open>p += delta\<close>, \<open>p -= delta\<close>; the postfix operators also return \<open>p\<close>.\<close>

definition pn_inc :: "packet_number \<Rightarrow> packet_number" where "pn_inc p = p + 1"
definition pn_dec :: "packet_number \<Rightarrow> packet_number" where "pn_dec p = p - 1"
definition pn_post_inc :: "packet_number \<Rightarrow> packet_number \<times> packet_number" where
  "pn_post_inc p = (p + 1, p)"
definition pn_post_dec :: "packet_number \<Rightarrow> packet_number \<times> packet_number" where
  "pn_post_dec p = (p - 1, p)"
definition pn_plus :: "packet_number \<Rightarrow> u64 \<Rightarrow> packet_number" where "pn_plus p d = p + d"
definition pn_minus :: "packet_number \<Rightarrow> u64 \<Rightarrow> packet_number" where "pn_minus p d = p - d"
definition pn_diff :: "packet_number \<Rightarrow> packet_number \<Rightarrow> u64" where "pn_diff p q = p - q"

lemmas pn_defs = ToUint64_def pn_inc_def pn_dec_def pn_post_inc_def pn_post_dec_def pn_plus_def
  pn_minus_def pn_diff_def

definition pn_view :: "packet_number \<Rightarrow> u64 option" where
  "pn_view p = (if IsInitialized p then Some p else None)"

lemma le_Uninitialized [simp]: "(p :: packet_number) \<le> UninitializedPacketNumber"
proof -
  have "uint p \<le> 18446744073709551615" using uint_less_2p64 [of p] by linarith
  then show ?thesis by (simp add: u64_le_iff UninitializedPacketNumber_def)
qed

lemma init_less: "IsInitialized p \<longleftrightarrow> p < UninitializedPacketNumber"
  by (simp add: IsInitialized_def order_less_le)

lemma init_uint: "IsInitialized p \<Longrightarrow> uint p < 2 ^ 64 - 1"
  by (simp add: init_less u64_less_iff UninitializedPacketNumber_def)

lemma init_mono: "p \<le> q \<Longrightarrow> IsInitialized q \<Longrightarrow> IsInitialized p"
  by (simp add: init_less)

lemma uint_pn_inc: "IsInitialized p \<Longrightarrow> uint (pn_inc p) = uint p + 1"
  using init_uint [of p] by (simp add: pn_inc_def nowrap)

lemma pn_inc_greater: "IsInitialized p \<Longrightarrow> p < pn_inc p"
  by (simp add: u64_less_iff uint_pn_inc)

lemma pn_post_inc_fst: "fst (pn_post_inc p) = pn_inc p"
  by (simp add: pn_defs)

lemma UpdateMax_view:
  "pn_view (UpdateMax p q) = (case (pn_view p, pn_view q) of
     (Some a, Some b) \<Rightarrow> Some (max a b) | (None, y) \<Rightarrow> y | (x, None) \<Rightarrow> x)"
  by (auto simp: UpdateMax_def pn_view_def ToUint64_def max_def)

lemma UpdateMax_init: "IsInitialized p \<Longrightarrow> IsInitialized q \<Longrightarrow> UpdateMax p q = max p q"
  by (simp add: UpdateMax_def ToUint64_def)

lemma unat_pn_diff: "q \<le> p \<Longrightarrow> unat (pn_diff p q) = unat p - unat q"
  by (simp add: pn_diff_def unat_sub)

lemma unat_pn_inc: "unat p + 1 < 2 ^ 64 \<Longrightarrow> unat (pn_inc p) = Suc (unat p)"
  by (simp add: pn_inc_def nowrap)

lemma pn_le_unat: "(p :: packet_number) \<le> q \<longleftrightarrow> unat p \<le> unat q"
  by (simp add: word_le_nat_alt)

lemma pn_less_unat: "(p :: packet_number) < q \<longleftrightarrow> unat p < unat q"
  by (simp add: word_less_nat_alt)

lemma init_unat: "IsInitialized p \<longleftrightarrow> unat p < 2 ^ 64 - 1"
  by (simp add: init_less pn_less_unat UninitializedPacketNumber_def)

interpretation pn_max: semilattice_neutr UpdateMax UninitializedPacketNumber
  by unfold_locales
    (auto simp: UpdateMax_def ToUint64_def IsInitialized_def max_def split: if_splits)

subsection \<open>Properties\<close>

text \<open>Starting from an uninitialized number and updating it with any packet numbers in any order gives
  the largest initialized one, and stays uninitialized without one.\<close>

theorem UpdateMax_is_maximum:
  "pn_view (fold (\<lambda>q p. UpdateMax p q) qs UninitializedPacketNumber)
    = (if filter IsInitialized qs = [] then None else Some (Max (set (filter IsInitialized qs))))"
proof -
  have "pn_view (fold (\<lambda>q p. UpdateMax p q) qs p)
      = (if filter IsInitialized (p # qs) = [] then None else Some (Max (set (filter IsInitialized (p # qs)))))" for p
  proof (induction qs arbitrary: p)
    case Nil
    then show ?case by (simp add: pn_view_def)
  next
    case (Cons q qs)
    have "filter IsInitialized (UpdateMax p q # qs) = (if IsInitialized p \<and> IsInitialized q then max p q # filter IsInitialized qs
        else filter IsInitialized (p # q # qs))"
      by (auto simp: UpdateMax_def ToUint64_def max_def)
    moreover have "Max (insert (max p q) A) = Max (insert p (insert q A))" if "finite A" for A
      using that by (cases "A = {}") (simp_all add: max.assoc)
    ultimately show ?case using Cons.IH [of "UpdateMax p q"] by (auto simp del: Max_insert)
  qed
  from this [of UninitializedPacketNumber] show ?thesis by (simp add: IsInitialized_def)
qed

end
