(* ===== verification/Indexed_Queue.thy ===== *)
theory Indexed_Queue
  imports Circular_Deque Packet_Number
begin

section \<open>The queue indexed by packet numbers\<close>

text \<open>
  \<open>PacketNumberIndexedQueue\<close> of \<open>quic/packet_number_indexed_queue.h\<close>: a deque of wrapped
  entries, the packet number of its front, and the number of entries marked present.
  \<open>EntryWrapper()\<close>, which the deque's \<open>resize\<close> creates for a missing packet, is
  \<open>Placeholder\<close>; its payload is never read. A null pointer is \<open>None\<close> inside \<open>Some\<close>, while an
  undefined access, or a loop that does not end, makes the whole result \<open>None\<close>.

  The lemmas show that the queue implements a finite map from packet numbers to entries
  under the invariant \<open>pq_inv\<close>: the counter counts the present entries, the front entry is
  present, and the first packet number is uninitialized exactly if the deque is empty.
  The locale \<open>packet_map\<close> is the contract the bandwidth sampler uses.
\<close>

subsection \<open>State and operations\<close>

datatype 'a entry_wrapper = Placeholder | Wrapper 'a bool

primrec ew_present :: "'a entry_wrapper \<Rightarrow> bool" where
  "ew_present Placeholder = False"
| "ew_present (Wrapper v b) = b"

primrec ew_clear :: "'a entry_wrapper \<Rightarrow> 'a entry_wrapper" where
  "ew_clear Placeholder = Placeholder"
| "ew_clear (Wrapper v b) = Wrapper v False"

fun ew_value :: "'a entry_wrapper \<Rightarrow> 'a option" where
  "ew_value (Wrapper v True) = Some v"
| "ew_value _ = None"

record 'a pnqueue =
  pq_entries :: "'a entry_wrapper deque"
  pq_number_of_present_entries :: nat
  pq_first_packet :: packet_number

definition pq_new :: "'a pnqueue" where
  "pq_new = \<lparr>pq_entries = dq_new, pq_number_of_present_entries = 0,
     pq_first_packet = UninitializedPacketNumber\<rparr>"

definition pq_IsEmpty :: "'a pnqueue \<Rightarrow> bool" where
  "pq_IsEmpty q \<longleftrightarrow> pq_number_of_present_entries q = 0"

definition pq_entry_slots_used :: "'a pnqueue \<Rightarrow> nat" where
  "pq_entry_slots_used q = dq_size (pq_entries q)"

definition pq_last_packet :: "'a pnqueue \<Rightarrow> packet_number" where
  "pq_last_packet q =
     (if pq_IsEmpty q then UninitializedPacketNumber
      else pn_minus (pn_plus (pq_first_packet q) (of_nat (dq_size (pq_entries q)))) 1)"

text \<open>The position of the entry of a packet in the deque and its payload.\<close>

definition GetEntryWrapper :: "packet_number \<Rightarrow> 'a pnqueue \<Rightarrow> (nat \<times> 'a entry_wrapper) option option" where
  "GetEntryWrapper pn q =
     (if \<not> IsInitialized pn \<or> pq_IsEmpty q \<or> pn < pq_first_packet q then Some None
      else let offset = unat (pn_diff pn (pq_first_packet q))
           in if dq_size (pq_entries q) \<le> offset then Some None
              else do {
                e \<leftarrow> dq_at (pq_entries q) offset;
                Some (if ew_present e then Some (offset, e) else None) })"

definition GetEntry :: "packet_number \<Rightarrow> 'a pnqueue \<Rightarrow> 'a option option" where
  "GetEntry pn q = do {
     r \<leftarrow> GetEntryWrapper pn q;
     Some (case r of None \<Rightarrow> None | Some (_, e) \<Rightarrow> ew_value e) }"

definition pq_Emplace :: "packet_number \<Rightarrow> 'a \<Rightarrow> 'a pnqueue \<Rightarrow> ('a pnqueue \<times> bool) option" where
  "pq_Emplace pn v q =
     (if \<not> IsInitialized pn then Some (q, False)
      else if pq_IsEmpty q then
        Some (q\<lparr>pq_entries := dq_emplace_back (Wrapper v True) (pq_entries q),
                pq_number_of_present_entries := 1, pq_first_packet := pn\<rparr>, True)
      else if pn \<le> pq_last_packet q then Some (q, False)
      else let offset = unat (pn_diff pn (pq_first_packet q))
           in do {
             d \<leftarrow> (if dq_size (pq_entries q) < offset
                   then dq_resize offset Placeholder (pq_entries q)
                   else Some (pq_entries q));
             Some (q\<lparr>pq_entries := dq_emplace_back (Wrapper v True) d,
                     pq_number_of_present_entries := pq_number_of_present_entries q + 1\<rparr>, True) })"

partial_function (option) pq_Cleanup_loop :: "'a pnqueue \<Rightarrow> 'a pnqueue option" where
  "pq_Cleanup_loop q =
     (if dq_empty (pq_entries q) then Some q
      else Option.bind (dq_front (pq_entries q)) (\<lambda>e.
        if ew_present e then Some q
        else Option.bind (dq_pop_front (pq_entries q)) (\<lambda>d.
          pq_Cleanup_loop (q\<lparr>pq_entries := d, pq_first_packet := pn_inc (pq_first_packet q)\<rparr>))))"

definition pq_Cleanup :: "'a pnqueue \<Rightarrow> 'a pnqueue option" where
  "pq_Cleanup q = do {
     q \<leftarrow> pq_Cleanup_loop q;
     Some (if dq_empty (pq_entries q) then q\<lparr>pq_first_packet := pn_Clear (pq_first_packet q)\<rparr> else q) }"

text \<open>\<open>Remove(pn, f)\<close>: the entry handed to \<open>f\<close> is returned.\<close>

definition pq_Remove :: "packet_number \<Rightarrow> 'a pnqueue \<Rightarrow> ('a pnqueue \<times> 'a option) option" where
  "pq_Remove pn q = do {
     r \<leftarrow> GetEntryWrapper pn q;
     case r of None \<Rightarrow> Some (q, None)
     | Some (offset, e) \<Rightarrow> do {
         d \<leftarrow> dq_set offset (ew_clear e) (pq_entries q);
         let q = q\<lparr>pq_entries := d,
                   pq_number_of_present_entries := pq_number_of_present_entries q - 1\<rparr>;
         q \<leftarrow> (if pn = pq_first_packet q then pq_Cleanup q else Some q);
         Some (q, ew_value e) } }"

partial_function (option) pq_RemoveUpTo_loop :: "packet_number \<Rightarrow> 'a pnqueue \<Rightarrow> 'a pnqueue option" where
  "pq_RemoveUpTo_loop pn q =
     (if \<not> dq_empty (pq_entries q) \<and> IsInitialized (pq_first_packet q) \<and> pq_first_packet q < pn
      then Option.bind (dq_front (pq_entries q)) (\<lambda>e.
        let n = (if ew_present e then pq_number_of_present_entries q - 1
                 else pq_number_of_present_entries q)
        in Option.bind (dq_pop_front (pq_entries q)) (\<lambda>d.
          pq_RemoveUpTo_loop pn
            (q\<lparr>pq_entries := d, pq_number_of_present_entries := n,
               pq_first_packet := fst (pn_post_inc (pq_first_packet q))\<rparr>)))
      else Some q)"

definition pq_RemoveUpTo :: "packet_number \<Rightarrow> 'a pnqueue \<Rightarrow> 'a pnqueue option" where
  "pq_RemoveUpTo pn q = Option.bind (pq_RemoveUpTo_loop pn q) pq_Cleanup"

subsection \<open>The map a list of entries represents\<close>

definition assoc :: "nat \<Rightarrow> 'a entry_wrapper list \<Rightarrow> packet_number \<Rightarrow> 'a option" where
  "assoc b xs p = (if b \<le> unat p \<and> unat p - b < length xs then ew_value (xs ! (unat p - b)) else None)"

definition count_present :: "'a entry_wrapper list \<Rightarrow> nat" where
  "count_present xs = length (List.filter ew_present xs)"

lemma count_present_simps [simp]:
  "count_present [] = 0"
  "count_present (x # xs) = (if ew_present x then Suc (count_present xs) else count_present xs)"
  "count_present (xs @ ys) = count_present xs + count_present ys"
  "count_present (replicate n Placeholder) = 0"
  by (auto simp: count_present_def)

lemma count_present_clear:
  "k < length xs \<Longrightarrow> ew_present (xs ! k)
    \<Longrightarrow> Suc (count_present (xs[k := ew_clear (xs ! k)])) = count_present xs"
proof (induction xs arbitrary: k)
  case (Cons x xs)
  then show ?case by (cases k; cases x) auto
qed simp

lemma ew_clear_simps [simp]: "\<not> ew_present (ew_clear e)" "ew_value (ew_clear e) = None"
  by (cases e; simp)+

lemma ew_value_present: "ew_present e \<longleftrightarrow> (\<exists>v. ew_value e = Some v)"
  by (cases e rule: ew_value.cases) auto

lemma assoc_Nil [simp]: "assoc b [] p = None"
  by (simp add: assoc_def)

lemma assoc_append:
  "unat pn = b + length xs + k \<Longrightarrow>
    assoc b (xs @ replicate k Placeholder @ [Wrapper v True]) = (assoc b xs)(pn \<mapsto> v)"
  by (rule ext) (auto simp: assoc_def nth_append word_unat_eq_iff)

lemma assoc_clear:
  "k < length xs \<Longrightarrow> unat pn = b + k \<Longrightarrow> assoc b (xs[k := ew_clear e]) = (assoc b xs)(pn := None)"
  by (rule ext) (auto simp: assoc_def nth_list_update word_unat_eq_iff)

lemma assoc_tl: "assoc (Suc b) xs p = (if unat p = b then None else assoc b (x # xs) p)"
  by (auto simp: assoc_def nth_Cons' le_Suc_eq)

lemma assoc_tl_absent: "\<not> ew_present x \<Longrightarrow> assoc (Suc b) xs = assoc b (x # xs)"
  by (rule ext) (auto simp: assoc_tl [of b xs _ x] assoc_def ew_value_present not_Some_eq)

subsection \<open>The invariant\<close>

definition pq_state :: "'a pnqueue \<Rightarrow> 'a entry_wrapper list \<Rightarrow> bool" where
  "pq_state q xs \<longleftrightarrow> dq_rep (pq_entries q) xs
     \<and> pq_number_of_present_entries q = count_present xs
     \<and> (xs \<noteq> [] \<longrightarrow> unat (pq_first_packet q) + length xs < 2 ^ 64)"

definition pq_inv :: "'a pnqueue \<Rightarrow> bool" where
  "pq_inv q \<longleftrightarrow> pq_state q (dq_list (pq_entries q))
     \<and> (dq_list (pq_entries q) = [] \<longrightarrow> pq_first_packet q = UninitializedPacketNumber)
     \<and> (dq_list (pq_entries q) \<noteq> [] \<longrightarrow> ew_present (hd (dq_list (pq_entries q))))"

definition pq_map :: "'a pnqueue \<Rightarrow> packet_number \<Rightarrow> 'a option" where
  "pq_map q = assoc (unat (pq_first_packet q)) (dq_list (pq_entries q))"

lemma pq_state_list: "pq_state q xs \<Longrightarrow> dq_list (pq_entries q) = xs"
  by (auto simp: pq_state_def dq_rep_iff)

lemma pq_inv_new [simp]: "pq_inv pq_new" "pq_map pq_new = (\<lambda>_. None)"
  by (simp_all add: pq_inv_def pq_state_def pq_new_def pq_map_def dq_rep_new
      dq_rep_list [OF dq_rep_new] fun_eq_iff)

lemma pq_invE:
  assumes "pq_inv q"
  obtains "pq_IsEmpty q" "dq_rep (pq_entries q) []" "pq_first_packet q = UninitializedPacketNumber"
      "pq_map q = (\<lambda>_. None)"
  | x xs where "\<not> pq_IsEmpty q" "dq_rep (pq_entries q) (x # xs)" "ew_present x"
      "pq_number_of_present_entries q = count_present (x # xs)"
      "unat (pq_first_packet q) + length (x # xs) < 2 ^ 64"
      "pq_map q = assoc (unat (pq_first_packet q)) (x # xs)"
proof (cases "dq_list (pq_entries q)")
  case Nil
  with assms show ?thesis
    by (intro that(1)) (auto simp: pq_inv_def pq_state_def pq_IsEmpty_def pq_map_def fun_eq_iff)
next
  case (Cons x xs)
  with assms show ?thesis
    by (intro that(2)) (auto simp: pq_inv_def pq_state_def pq_IsEmpty_def pq_map_def)
qed

lemma pq_invI:
  assumes "pq_state q xs" "xs = [] \<Longrightarrow> pq_first_packet q = UninitializedPacketNumber"
    "xs \<noteq> [] \<Longrightarrow> ew_present (hd xs)"
  shows "pq_inv q"
  using assms pq_state_list [OF assms(1)] by (simp add: pq_inv_def)

lemma pq_map_state: "pq_state q xs \<Longrightarrow> pq_map q = assoc (unat (pq_first_packet q)) xs"
  by (simp add: pq_map_def pq_state_list)

subsection \<open>Lookup\<close>

lemma GetEntryWrapper_map:
  assumes "pq_inv q"
  shows "(\<exists>k e. GetEntryWrapper pn q = Some (Some (k, e)) \<and> k < length (dq_list (pq_entries q))
      \<and> e = dq_list (pq_entries q) ! k \<and> ew_present e \<and> unat pn = unat (pq_first_packet q) + k
      \<and> pq_map q pn = ew_value e)
    \<or> GetEntryWrapper pn q = Some None \<and> pq_map q pn = None"
proof (cases "IsInitialized pn \<and> \<not> pq_IsEmpty q \<and> pq_first_packet q \<le> pn")
  case False
  have "GetEntryWrapper pn q = Some None"
    using False by (auto simp: GetEntryWrapper_def)
  moreover have "pq_map q pn = None"
    using assms
  proof (cases rule: pq_invE)
    case (2 x xs)
    with False show ?thesis by (auto simp: assoc_def init_unat pn_le_unat)
  qed simp
  ultimately show ?thesis by simp
next
  case True
  from assms show ?thesis
  proof (cases rule: pq_invE)
    case 1 with True show ?thesis by simp
  next
    case (2 x xs)
    let ?k = "unat pn - unat (pq_first_packet q)"
    have k: "unat (pn_diff pn (pq_first_packet q)) = ?k" using True by (simp add: unat_pn_diff)
    have l: "dq_list (pq_entries q) = x # xs" by (rule dq_rep_list [OF 2(2)])
    show ?thesis
    proof (cases "?k < length (x # xs)")
      case k': True
      have at: "dq_at (pq_entries q) ?k = Some ((x # xs) ! ?k)" by (rule dq_rep_at [OF 2(2) k'])
      have "pq_map q pn = ew_value ((x # xs) ! ?k)"
        using 2(6) True k' by (simp add: assoc_def pn_le_unat)
      with True at k k' l dq_rep_size [OF 2(2)] show ?thesis
        by (cases "ew_present ((x # xs) ! ?k)")
          (auto simp: GetEntryWrapper_def Let_def pn_le_unat pn_less_unat ew_value_present)
    next
      case k': False
      then have "pq_map q pn = None" using 2(6) by (simp add: assoc_def)
      with True k k' dq_rep_size [OF 2(2)] show ?thesis
        by (auto simp: GetEntryWrapper_def Let_def)
    qed
  qed
qed

lemma GetEntry_map: "pq_inv q \<Longrightarrow> GetEntry pn q = Some (pq_map q pn)"
  using GetEntryWrapper_map [of q pn] by (auto simp: GetEntry_def)

subsection \<open>Removal at the front\<close>

text \<open>The packet number after the last slot; removals at the front leave it alone.\<close>

definition pq_end :: "'a pnqueue \<Rightarrow> nat" where
  "pq_end q = unat (pq_first_packet q) + length (dq_list (pq_entries q))"

lemma pq_Cleanup_loop_state:
  "pq_state q xs \<Longrightarrow> \<exists>q' ys. pq_Cleanup_loop q = Some q' \<and> pq_state q' ys
    \<and> (ys \<noteq> [] \<longrightarrow> ew_present (hd ys)) \<and> (ys \<noteq> [] \<longrightarrow> pq_map q' = pq_map q)
    \<and> (ys = [] \<longrightarrow> pq_map q = (\<lambda>_. None))
    \<and> unat (pq_first_packet q') + length ys = unat (pq_first_packet q) + length xs"
proof (induction xs arbitrary: q)
  case Nil
  then have "dq_empty (pq_entries q)" using dq_rep_empty [of "pq_entries q" "[]"]
    by (simp add: pq_state_def)
  with Nil show ?case
    by (intro exI [of _ q] exI [of _ "[]"])
      (auto simp: pq_Cleanup_loop.simps pq_map_state fun_eq_iff)
next
  case (Cons x xs)
  then have rep: "dq_rep (pq_entries q) (x # xs)" by (simp add: pq_state_def)
  have ne: "\<not> dq_empty (pq_entries q)" using dq_rep_empty [OF rep] by simp
  have fr: "dq_front (pq_entries q) = Some x" using dq_rep_front [OF rep] by simp
  show ?case
  proof (cases "ew_present x")
    case True
    with Cons.prems ne fr show ?thesis
      by (intro exI [of _ q] exI [of _ "x # xs"]) (auto simp: pq_Cleanup_loop.simps)
  next
    case False
    obtain d where d: "dq_pop_front (pq_entries q) = Some d" "dq_rep d xs"
      using dq_rep_pop_front [OF rep] by auto
    let ?q = "q\<lparr>pq_entries := d, pq_first_packet := pn_inc (pq_first_packet q)\<rparr>"
    have b: "unat (pn_inc (pq_first_packet q)) = Suc (unat (pq_first_packet q))"
      using Cons.prems by (intro unat_pn_inc) (auto simp: pq_state_def)
    have st: "pq_state ?q xs"
      using Cons.prems d(2) False b by (auto simp: pq_state_def)
    have m: "pq_map ?q = pq_map q"
      using pq_map_state [OF st] pq_map_state [OF Cons.prems] b False by (simp add: assoc_tl_absent)
    have "pq_Cleanup_loop q = pq_Cleanup_loop ?q"
      using ne fr False d by (simp add: pq_Cleanup_loop.simps [of q])
    with Cons.IH [OF st] m b show ?thesis by simp
  qed
qed

lemma pq_Cleanup_inv:
  assumes "pq_state q xs"
  shows "\<exists>q'. pq_Cleanup q = Some q' \<and> pq_inv q' \<and> pq_map q' = pq_map q
    \<and> (\<not> pq_IsEmpty q' \<longrightarrow> pq_end q' = unat (pq_first_packet q) + length xs)"
proof -
  obtain q' ys where q': "pq_Cleanup_loop q = Some q'" "pq_state q' ys"
      "ys \<noteq> [] \<longrightarrow> ew_present (hd ys)" "ys \<noteq> [] \<longrightarrow> pq_map q' = pq_map q"
      "ys = [] \<longrightarrow> pq_map q = (\<lambda>_. None)"
      "unat (pq_first_packet q') + length ys = unat (pq_first_packet q) + length xs"
    using pq_Cleanup_loop_state [OF assms] by blast
  have rep: "dq_rep (pq_entries q') ys" using q'(2) by (simp add: pq_state_def)
  show ?thesis
  proof (cases "ys = []")
    case True
    let ?q = "q'\<lparr>pq_first_packet := pn_Clear (pq_first_packet q')\<rparr>"
    have st: "pq_state ?q []" using q'(2) True by (simp add: pq_state_def)
    then have "pq_inv ?q" by (intro pq_invI) (auto simp: pn_Clear_def)
    moreover have "pq_map ?q = pq_map q"
      using pq_map_state [OF st] True q'(5) by (simp add: fun_eq_iff)
    moreover have "pq_IsEmpty ?q" using st by (simp add: pq_state_def pq_IsEmpty_def)
    ultimately show ?thesis using q'(1) rep True dq_rep_empty [OF rep] by (simp add: pq_Cleanup_def)
  next
    case False
    with q' False have "pq_inv q'" "pq_map q' = pq_map q" by (auto intro: pq_invI)
    then show ?thesis using q'(1,6) rep False dq_rep_empty [OF rep] pq_state_list [OF q'(2)]
      by (simp add: pq_Cleanup_def pq_end_def)
  qed
qed

subsection \<open>The operations on the map\<close>

lemma pq_Remove_map:
  assumes "pq_inv q"
  shows "\<exists>q'. pq_Remove pn q = Some (q', pq_map q pn) \<and> pq_inv q' \<and> pq_map q' = (pq_map q)(pn := None)
    \<and> (\<not> pq_IsEmpty q' \<longrightarrow> pq_end q' = pq_end q)"
proof -
  from GetEntryWrapper_map [OF assms, of pn] show ?thesis
  proof (elim disjE exE conjE)
    assume "GetEntryWrapper pn q = Some None" "pq_map q pn = None"
    with assms show ?thesis by (simp add: pq_Remove_def fun_upd_idem)
  next
    fix k e
    assume g: "GetEntryWrapper pn q = Some (Some (k, e))" "k < length (dq_list (pq_entries q))"
      "e = dq_list (pq_entries q) ! k" "ew_present e" "unat pn = unat (pq_first_packet q) + k"
      "pq_map q pn = ew_value e"
    define xs where "xs = dq_list (pq_entries q)"
    have st: "pq_state q xs" using assms by (simp add: pq_inv_def xs_def)
    have rep: "dq_rep (pq_entries q) xs" using st by (simp add: pq_state_def)
    obtain d where d: "dq_set k (ew_clear e) (pq_entries q) = Some d" "dq_rep d (xs[k := ew_clear e])"
      using dq_rep_set [OF rep, of k "ew_clear e"] g(2) by (auto simp: xs_def)
    let ?q = "q\<lparr>pq_entries := d, pq_number_of_present_entries := pq_number_of_present_entries q - 1\<rparr>"
    have cnt: "pq_number_of_present_entries q - 1 = count_present (xs[k := ew_clear e])"
      using count_present_clear [of k xs] g(2-4) st by (simp add: pq_state_def xs_def)
    have st': "pq_state ?q (xs[k := ew_clear e])"
      using st d(2) cnt by (auto simp: pq_state_def)
    have m: "pq_map ?q = (pq_map q)(pn := None)"
      using pq_map_state [OF st'] pq_map_state [OF st] g(2,5) by (simp add: assoc_clear xs_def)
    show ?thesis
    proof (cases "pn = pq_first_packet q")
      case True
      obtain q' where "pq_Cleanup ?q = Some q'" "pq_inv q'" "pq_map q' = pq_map ?q"
        "\<not> pq_IsEmpty q' \<longrightarrow> pq_end q' = pq_end q"
        using pq_Cleanup_inv [OF st'] by (auto simp: pq_end_def xs_def)
      with g(1,6) d(1) m True show ?thesis by (simp add: pq_Remove_def)
    next
      case False
      then have "k \<noteq> 0" using g(5) by (auto simp: word_unat_eq_iff)
      then have "hd (xs[k := ew_clear e]) = hd xs" by (cases xs; cases k) auto
      then have "pq_inv ?q" using assms g(2)
        by (intro pq_invI [OF st']) (auto simp: pq_inv_def xs_def)
      moreover have "pq_end ?q = pq_end q" using pq_state_list [OF st'] by (simp add: pq_end_def xs_def)
      ultimately show ?thesis using g(1,6) d(1) m False by (simp add: pq_Remove_def)
    qed
  qed
qed

lemma pq_last_packet_unat:
  assumes "pq_inv q" "\<not> pq_IsEmpty q"
  shows "unat (pq_last_packet q) = unat (pq_first_packet q) + length (dq_list (pq_entries q)) - 1"
  using assms(1)
proof (cases rule: pq_invE)
  case (2 x xs)
  have s: "dq_size (pq_entries q) = Suc (length xs)" using dq_rep_size [OF 2(2)] by simp
  have n: "unat (of_nat (Suc (length xs)) :: u64) = Suc (length xs)"
    using 2(5) by (intro unat_of_nat_u64) simp
  have "unat (pq_first_packet q + of_nat (Suc (length xs))) = unat (pq_first_packet q) + Suc (length xs)"
    using 2(5) n by (subst unat_u64_plus) simp_all
  moreover have "(1 :: u64) \<le> pq_first_packet q + of_nat (Suc (length xs))"
    using calculation by (simp add: word_le_nat_alt)
  ultimately show ?thesis
    using assms(2) s dq_rep_list [OF 2(2)]
    by (simp add: pq_last_packet_def pn_defs nowrap del: of_nat_Suc)
qed (use assms(2) in simp)

lemma pq_Emplace_map:
  assumes "pq_inv q" "IsInitialized pn" "pq_IsEmpty q \<or> pq_last_packet q < pn"
  shows "\<exists>q'. pq_Emplace pn v q = Some (q', True) \<and> pq_inv q' \<and> pq_map q' = (pq_map q)(pn \<mapsto> v)
    \<and> \<not> pq_IsEmpty q' \<and> pq_last_packet q' = pn"
  using assms(1)
proof (cases rule: pq_invE)
  case 1
  let ?q = "q\<lparr>pq_entries := dq_emplace_back (Wrapper v True) (pq_entries q),
     pq_number_of_present_entries := 1, pq_first_packet := pn\<rparr>"
  have st: "pq_state ?q [Wrapper v True]"
    using dq_rep_emplace_back [OF 1(2)] assms(2) by (simp add: pq_state_def init_unat)
  have inv: "pq_inv ?q" by (rule pq_invI [OF st]) auto
  have m: "pq_map ?q = (pq_map q)(pn \<mapsto> v)"
    using pq_map_state [OF st] 1(4) assoc_append [of pn "unat pn" "[]" 0 v] by (simp add: fun_eq_iff)
  have "unat (pq_last_packet ?q) = unat pn"
    using pq_last_packet_unat [OF inv] pq_state_list [OF st] by (simp add: pq_IsEmpty_def)
  then have "pq_last_packet ?q = pn" by (simp only: word_unat_eq_iff)
  then show ?thesis using 1 assms(2) inv m by (simp add: pq_Emplace_def pq_IsEmpty_def)
next
  case (2 x xs)
  let ?xs = "x # xs"
  let ?o = "unat pn - unat (pq_first_packet q)"
  have last: "unat (pq_last_packet q) = unat (pq_first_packet q) + length ?xs - 1"
    using pq_last_packet_unat [OF assms(1) 2(1)] dq_rep_list [OF 2(2)] by simp
  have lt: "pq_last_packet q < pn" using assms(3) 2(1) by simp
  then have le: "unat (pq_first_packet q) + length ?xs \<le> unat pn"
    using last by (simp add: pn_less_unat)
  then have off: "unat (pn_diff pn (pq_first_packet q)) = ?o" by (simp add: unat_pn_diff pn_le_unat)
  have s: "dq_size (pq_entries q) = length ?xs" by (rule dq_rep_size [OF 2(2)])
  let ?k = "?o - length ?xs"
  obtain d where d: "(if dq_size (pq_entries q) < ?o then dq_resize ?o Placeholder (pq_entries q)
      else Some (pq_entries q)) = Some d" "dq_rep d (?xs @ replicate ?k Placeholder)"
  proof (cases "length ?xs < ?o")
    case True
    obtain d where d: "dq_resize ?o Placeholder (pq_entries q) = Some d"
        "dq_rep d (take ?o ?xs @ replicate ?k Placeholder)"
      using dq_rep_resize [OF 2(2), of ?o Placeholder] True by fastforce
    have "take ?o ?xs = ?xs" by (rule take_all) (use True in simp)
    with d True show ?thesis by (intro that [of d]) (simp_all only: s if_True)
  next
    case False
    then show ?thesis using that [of "pq_entries q"] 2(2) s by simp
  qed
  let ?q = "q\<lparr>pq_entries := dq_emplace_back (Wrapper v True) d,
     pq_number_of_present_entries := pq_number_of_present_entries q + 1\<rparr>"
  have st: "pq_state ?q (?xs @ replicate ?k Placeholder @ [Wrapper v True])"
    using dq_rep_emplace_back [OF d(2), of "Wrapper v True"] 2(3,4) le assms(2)
    by (auto simp: pq_state_def init_unat)
  have inv: "pq_inv ?q" by (rule pq_invI [OF st]) (use 2(3) in auto)
  have m: "pq_map ?q = (pq_map q)(pn \<mapsto> v)"
    using pq_map_state [OF st] 2(6) assoc_append [of pn "unat (pq_first_packet q)" ?xs ?k v] le by simp
  have "unat (pq_last_packet ?q) = unat pn"
    using pq_last_packet_unat [OF inv] pq_state_list [OF st] le by (simp add: pq_IsEmpty_def)
  then have "pq_last_packet ?q = pn" by (simp only: word_unat_eq_iff)
  moreover have "pq_Emplace pn v q = Some (?q, True)"
    using 2(1) assms(2) lt off d(1) by (simp add: pq_Emplace_def Let_def)
  ultimately show ?thesis using inv m by (simp add: pq_IsEmpty_def)
qed

lemma pq_Emplace_reject:
  "\<not> IsInitialized pn \<or> \<not> pq_IsEmpty q \<and> pn \<le> pq_last_packet q \<Longrightarrow> pq_Emplace pn v q = Some (q, False)"
  by (auto simp: pq_Emplace_def)

lemma pq_RemoveUpTo_loop_state:
  "pq_state q xs \<Longrightarrow> \<exists>q' ys. pq_RemoveUpTo_loop pn q = Some q' \<and> pq_state q' ys
    \<and> pq_map q' = (\<lambda>p. if p < pn then None else pq_map q p)
    \<and> unat (pq_first_packet q') + length ys = unat (pq_first_packet q) + length xs"
proof (induction xs arbitrary: q)
  case Nil
  then have e: "dq_empty (pq_entries q)" using dq_rep_empty [of "pq_entries q" "[]"]
    by (simp add: pq_state_def)
  then have "pq_RemoveUpTo_loop pn q = Some q" by (simp add: pq_RemoveUpTo_loop.simps)
  with Nil pq_map_state [OF Nil] show ?case by (auto simp: fun_eq_iff)
next
  case (Cons x xs)
  then have rep: "dq_rep (pq_entries q) (x # xs)" by (simp add: pq_state_def)
  have ne: "\<not> dq_empty (pq_entries q)" using dq_rep_empty [OF rep] by simp
  have fr: "dq_front (pq_entries q) = Some x" using dq_rep_front [OF rep] by simp
  have b: "unat (pn_inc (pq_first_packet q)) = Suc (unat (pq_first_packet q))"
    using Cons.prems by (intro unat_pn_inc) (auto simp: pq_state_def)
  have i: "IsInitialized (pq_first_packet q)" using Cons.prems by (simp add: pq_state_def init_unat)
  show ?case
  proof (cases "pq_first_packet q < pn")
    case False
    then have "pq_RemoveUpTo_loop pn q = Some q" by (simp add: pq_RemoveUpTo_loop.simps)
    moreover have "pq_map q p = None" if "p < pn" for p
      using that False pq_map_state [OF Cons.prems] by (simp add: assoc_def pn_less_unat)
    ultimately show ?thesis using Cons.prems by (auto simp: fun_eq_iff)
  next
    case True
    obtain d where d: "dq_pop_front (pq_entries q) = Some d" "dq_rep d xs"
      using dq_rep_pop_front [OF rep] by auto
    let ?n = "if ew_present x then pq_number_of_present_entries q - 1 else pq_number_of_present_entries q"
    let ?q = "q\<lparr>pq_entries := d, pq_number_of_present_entries := ?n,
      pq_first_packet := pn_inc (pq_first_packet q)\<rparr>"
    have st: "pq_state ?q xs" using Cons.prems d(2) b by (auto simp: pq_state_def)
    have m: "pq_map ?q p = (if p = pq_first_packet q then None else pq_map q p)" for p
      using pq_map_state [OF st] pq_map_state [OF Cons.prems] b
      by (simp add: assoc_tl [where x = x] word_unat_eq_iff)
    have "pq_RemoveUpTo_loop pn q = pq_RemoveUpTo_loop pn ?q"
      using ne fr d i True by (simp add: pq_RemoveUpTo_loop.simps [of pn q] Let_def pn_post_inc_fst)
    with Cons.IH [OF st] m b True show ?thesis by (auto simp: fun_eq_iff)
  qed
qed

lemma pq_RemoveUpTo_map:
  assumes "pq_inv q"
  shows "\<exists>q'. pq_RemoveUpTo pn q = Some q' \<and> pq_inv q'
    \<and> pq_map q' = (\<lambda>p. if p < pn then None else pq_map q p)
    \<and> (\<not> pq_IsEmpty q' \<longrightarrow> pq_end q' = pq_end q)"
proof -
  have "pq_state q (dq_list (pq_entries q))" using assms by (simp add: pq_inv_def)
  from pq_RemoveUpTo_loop_state [OF this, of pn] obtain q' ys where q':
    "pq_RemoveUpTo_loop pn q = Some q'" "pq_state q' ys"
    "pq_map q' = (\<lambda>p. if p < pn then None else pq_map q p)"
    "unat (pq_first_packet q') + length ys = pq_end q" by (auto simp: pq_end_def)
  with pq_Cleanup_inv [OF q'(2)] show ?thesis by (auto simp: pq_RemoveUpTo_def)
qed

text \<open>The counter is the number of packets in the map, and the queue is empty without them.\<close>

lemma pq_IsEmpty_map: "pq_inv q \<Longrightarrow> pq_IsEmpty q \<longleftrightarrow> pq_map q = (\<lambda>_. None)"
proof -
  assume inv: "pq_inv q"
  from inv show ?thesis
  proof (cases rule: pq_invE)
    case (2 x xs)
    then have "pq_map q (pq_first_packet q) \<noteq> None"
      by (auto simp: assoc_def ew_value_present)
    with 2 show ?thesis by auto
  qed simp
qed

lemma pq_map_after_last: "pq_inv q \<Longrightarrow> pq_map q pn \<noteq> None \<Longrightarrow> pn \<le> pq_last_packet q \<and> \<not> pq_IsEmpty q"
proof -
  assume inv: "pq_inv q" and m: "pq_map q pn \<noteq> None"
  from inv show ?thesis
  proof (cases rule: pq_invE)
    case 1 with m show ?thesis by simp
  next
    case (2 x xs)
    with m pq_last_packet_unat [OF inv 2(1)] dq_rep_list [OF 2(2)] show ?thesis
      by (auto simp: assoc_def pn_le_unat split: if_splits)
  qed
qed

lemma pq_last_packet_end: "pq_inv q \<Longrightarrow> \<not> pq_IsEmpty q \<Longrightarrow> unat (pq_last_packet q) = pq_end q - 1"
  by (simp add: pq_last_packet_unat pq_end_def)

lemma pq_last_packet_same:
  "pq_inv q \<Longrightarrow> pq_inv q' \<Longrightarrow> \<not> pq_IsEmpty q \<Longrightarrow> \<not> pq_IsEmpty q' \<Longrightarrow> pq_end q' = pq_end q
    \<Longrightarrow> pq_last_packet q' = pq_last_packet q"
  by (simp add: word_unat_eq_iff pq_last_packet_end)

lemma pq_Remove_last:
  assumes "pq_inv q"
  shows "\<exists>q'. pq_Remove pn q = Some (q', pq_map q pn) \<and> pq_inv q' \<and> pq_map q' = (pq_map q)(pn := None)
    \<and> (\<not> pq_IsEmpty q' \<longrightarrow> pq_last_packet q' = pq_last_packet q)"
proof -
  from pq_Remove_map [OF assms, of pn] obtain q' where q': "pq_Remove pn q = Some (q', pq_map q pn)"
    "pq_inv q'" "pq_map q' = (pq_map q)(pn := None)" "\<not> pq_IsEmpty q' \<longrightarrow> pq_end q' = pq_end q" by blast
  moreover have "pq_IsEmpty q \<Longrightarrow> pq_IsEmpty q'"
    using q'(3) pq_IsEmpty_map [OF assms] pq_IsEmpty_map [OF q'(2)] by (simp add: fun_eq_iff)
  ultimately show ?thesis using pq_last_packet_same [OF assms q'(2)] by (intro exI [of _ q']) blast
qed

lemma pq_RemoveUpTo_last:
  assumes "pq_inv q"
  shows "\<exists>q'. pq_RemoveUpTo pn q = Some q' \<and> pq_inv q' \<and> pq_map q' = (\<lambda>p. if p < pn then None else pq_map q p)
    \<and> (\<not> pq_IsEmpty q' \<longrightarrow> pq_last_packet q' = pq_last_packet q)"
proof -
  from pq_RemoveUpTo_map [OF assms, of pn] obtain q' where q': "pq_RemoveUpTo pn q = Some q'"
    "pq_inv q'" "pq_map q' = (\<lambda>p. if p < pn then None else pq_map q p)"
    "\<not> pq_IsEmpty q' \<longrightarrow> pq_end q' = pq_end q" by blast
  moreover have "pq_IsEmpty q \<Longrightarrow> pq_IsEmpty q'"
    using q'(3) pq_IsEmpty_map [OF assms] pq_IsEmpty_map [OF q'(2)] by (simp add: fun_eq_iff)
  ultimately show ?thesis using pq_last_packet_same [OF assms q'(2)] by (intro exI [of _ q']) blast
qed

subsection \<open>The contract of the queue\<close>

text \<open>
  The abstract specification is an association list in the order of the packet numbers together
  with the last packet number accepted. \<open>Emplace\<close> is refused unless its packet is newer.
\<close>

datatype 'a pq_op = Emplace packet_number 'a | Remove packet_number | RemoveUpTo packet_number

type_synonym 'a pq_spec = "(packet_number \<times> 'a) list \<times> packet_number"

fun spec_step :: "'a pq_op \<Rightarrow> 'a pq_spec \<Rightarrow> 'a pq_spec" where
  "spec_step (Emplace pn v) (al, l) =
     (if \<not> IsInitialized pn \<or> al \<noteq> [] \<and> pn \<le> l then (al, l) else (al @ [(pn, v)], pn))"
| "spec_step (Remove pn) (al, l) = ([(p, v) \<leftarrow> al. p \<noteq> pn], l)"
| "spec_step (RemoveUpTo pn) (al, l) = ([(p, v) \<leftarrow> al. \<not> p < pn], l)"

definition represents :: "(packet_number \<Rightarrow> 'a option) \<Rightarrow> packet_number \<Rightarrow> 'a pq_spec \<Rightarrow> bool" where
  "represents f l sp \<longleftrightarrow> f = map_of (fst sp) \<and> (\<forall>p \<in> fst ` set (fst sp). p \<le> snd sp)
     \<and> (fst sp \<noteq> [] \<longrightarrow> l = snd sp)"

lemma map_of_filter_fst: "map_of [(p, v) \<leftarrow> al. P p] = (\<lambda>p. if P p then map_of al p else None)"
  by (induction al) auto

lemma map_of_append_one: "p \<notin> fst ` set al \<Longrightarrow> map_of (al @ [(p, v)]) = (map_of al)(p \<mapsto> v)"
  by (induction al) (auto simp: fun_eq_iff)

lemma map_of_empty_iff: "map_of al = (\<lambda>_. None) \<longleftrightarrow> al = []"
  by (cases al) (auto simp: fun_eq_iff)

lemma represents_filter:
  assumes "represents f l (al, k)" "f' = map_of [(p, v) \<leftarrow> al. P p]"
    and "[(p, v) \<leftarrow> al. P p] \<noteq> [] \<Longrightarrow> l' = l"
  shows "represents f' l' ([(p, v) \<leftarrow> al. P p], k)"
proof -
  have "al \<noteq> []" if "[(p, v) \<leftarrow> al. P p] \<noteq> []" using that by auto
  with assms show ?thesis by (auto simp: represents_def)
qed

locale packet_map =
  fixes inv :: "'q \<Rightarrow> bool"
    and lookup :: "'q \<Rightarrow> packet_number \<Rightarrow> 'a option"
    and get :: "packet_number \<Rightarrow> 'q \<Rightarrow> 'a option option"
    and empty :: "'q \<Rightarrow> bool"
    and last :: "'q \<Rightarrow> packet_number"
    and emplace :: "packet_number \<Rightarrow> 'a \<Rightarrow> 'q \<Rightarrow> ('q \<times> bool) option"
    and remove :: "packet_number \<Rightarrow> 'q \<Rightarrow> ('q \<times> 'a option) option"
    and remove_upto :: "packet_number \<Rightarrow> 'q \<Rightarrow> 'q option"
  assumes get_lookup: "inv q \<Longrightarrow> get pn q = Some (lookup q pn)"
    and empty_lookup: "inv q \<Longrightarrow> empty q \<longleftrightarrow> lookup q = (\<lambda>_. None)"
    and lookup_last: "inv q \<Longrightarrow> lookup q pn \<noteq> None \<Longrightarrow> pn \<le> last q \<and> \<not> empty q"
    and emplace_lookup: "inv q \<Longrightarrow> IsInitialized pn \<Longrightarrow> empty q \<or> last q < pn \<Longrightarrow>
      \<exists>q'. emplace pn v q = Some (q', True) \<and> inv q' \<and> lookup q' = (lookup q)(pn \<mapsto> v)
        \<and> \<not> empty q' \<and> last q' = pn"
    and emplace_refuse: "\<not> IsInitialized pn \<or> \<not> empty q \<and> pn \<le> last q \<Longrightarrow> emplace pn v q = Some (q, False)"
    and remove_lookup: "inv q \<Longrightarrow>
      \<exists>q'. remove pn q = Some (q', lookup q pn) \<and> inv q' \<and> lookup q' = (lookup q)(pn := None)
        \<and> (\<not> empty q' \<longrightarrow> last q' = last q)"
    and remove_upto_lookup: "inv q \<Longrightarrow>
      \<exists>q'. remove_upto pn q = Some q' \<and> inv q' \<and> lookup q' = (\<lambda>p. if p < pn then None else lookup q p)
        \<and> (\<not> empty q' \<longrightarrow> last q' = last q)"
begin

text \<open>An entry just added is found, and removing it gives back the map before.\<close>

lemma emplace_get:
  assumes "inv q" "IsInitialized pn" "empty q \<or> last q < pn" "emplace pn v q = Some (q', b)"
  shows "get pn q' = Some (Some v)"
  using emplace_lookup [OF assms(1-3), of v] get_lookup [of q' pn] assms(4) by auto

lemma lookup_fresh: "inv q \<Longrightarrow> empty q \<or> last q < pn \<Longrightarrow> lookup q pn = None"
  using lookup_last [of q pn] by (cases "lookup q pn") auto

lemma emplace_remove:
  assumes "inv q" "IsInitialized pn" "empty q \<or> last q < pn"
  shows "\<exists>q1 q2. emplace pn v q = Some (q1, True) \<and> remove pn q1 = Some (q2, Some v)
    \<and> inv q2 \<and> lookup q2 = lookup q"
proof -
  obtain q1 where q1: "emplace pn v q = Some (q1, True)" "inv q1" "lookup q1 = (lookup q)(pn \<mapsto> v)"
    using emplace_lookup [OF assms, of v] by blast
  obtain q2 where "remove pn q1 = Some (q2, lookup q1 pn)" "inv q2" "lookup q2 = (lookup q1)(pn := None)"
    using remove_lookup [OF q1(2), of pn] by blast
  with q1 lookup_fresh [OF assms(1,3)] show ?thesis by (simp add: fun_upd_idem)
qed

text \<open>Every operation refines its step on association lists.\<close>

lemma represents_empty: "inv q \<Longrightarrow> represents (lookup q) (last q) sp \<Longrightarrow> empty q \<longleftrightarrow> fst sp = []"
  by (simp add: empty_lookup represents_def map_of_empty_iff)

lemma represents_emplace:
  assumes "inv q" "represents (lookup q) (last q) sp"
  shows "\<exists>q' b. emplace pn v q = Some (q', b) \<and> inv q' \<and> represents (lookup q') (last q') (spec_step (Emplace pn v) sp)"
proof (cases "\<not> IsInitialized pn \<or> fst sp \<noteq> [] \<and> pn \<le> snd sp")
  case True
  with assms represents_empty [OF assms] emplace_refuse [of pn q v] show ?thesis
    by (cases sp) (auto simp: represents_def)
next
  case False
  with assms represents_empty [OF assms] have "IsInitialized pn" "empty q \<or> last q < pn"
    by (auto simp: represents_def)
  from emplace_lookup [OF assms(1) this, of v] obtain q' where q': "emplace pn v q = Some (q', True)" "inv q'"
    "lookup q' = (lookup q)(pn \<mapsto> v)" "last q' = pn" by blast
  have nw: "p < pn" if "p \<in> fst ` set (fst sp)" for p
    using False assms(2) that by (force simp: represents_def)
  then have "pn \<notin> fst ` set (fst sp)" by blast
  then have "lookup q' = map_of (fst sp @ [(pn, v)])"
    using assms(2) q'(3) by (simp add: represents_def map_of_append_one del: map_of_append)
  moreover have "\<forall>p \<in> fst ` set (fst sp @ [(pn, v)]). p \<le> pn" using nw less_imp_le by auto
  ultimately have "represents (lookup q') (last q') (fst sp @ [(pn, v)], pn)"
    using q'(4) by (simp add: represents_def)
  then have "represents (lookup q') (last q') (spec_step (Emplace pn v) sp)"
    using False by (cases sp) auto
  with q'(1,2) show ?thesis by blast
qed

lemma represents_remove:
  assumes "inv q" "represents (lookup q) (last q) sp"
  shows "\<exists>q' r. remove pn q = Some (q', r) \<and> inv q' \<and> represents (lookup q') (last q') (spec_step (Remove pn) sp)"
proof -
  from remove_lookup [OF assms(1), of pn] obtain q' where q': "remove pn q = Some (q', lookup q pn)" "inv q'"
    "lookup q' = (lookup q)(pn := None)" "\<not> empty q' \<longrightarrow> last q' = last q" by blast
  have l: "lookup q' = map_of [(p, v) \<leftarrow> fst sp. p \<noteq> pn]"
    using q'(3) assms(2) by (auto simp: represents_def map_of_filter_fst fun_eq_iff)
  then have "empty q' \<longleftrightarrow> [(p, v) \<leftarrow> fst sp. p \<noteq> pn] = []"
    using empty_lookup [OF q'(2)] by (simp add: map_of_empty_iff)
  then have "represents (lookup q') (last q') ([(p, v) \<leftarrow> fst sp. p \<noteq> pn], snd sp)"
    using l q'(4) assms(2) by (intro represents_filter [where P = "\<lambda>p. p \<noteq> pn" and f = "lookup q" and l = "last q"]) simp_all
  then have "represents (lookup q') (last q') (spec_step (Remove pn) sp)" by (cases sp) simp
  with q'(1,2) show ?thesis by blast
qed

lemma represents_remove_upto:
  assumes "inv q" "represents (lookup q) (last q) sp"
  shows "\<exists>q'. remove_upto pn q = Some q' \<and> inv q' \<and> represents (lookup q') (last q') (spec_step (RemoveUpTo pn) sp)"
proof -
  from remove_upto_lookup [OF assms(1), of pn] obtain q' where q': "remove_upto pn q = Some q'" "inv q'"
    "lookup q' = (\<lambda>p. if p < pn then None else lookup q p)" "\<not> empty q' \<longrightarrow> last q' = last q" by blast
  have l: "lookup q' = map_of [(p, v) \<leftarrow> fst sp. \<not> p < pn]"
    using q'(3) assms(2) by (auto simp: represents_def map_of_filter_fst fun_eq_iff)
  then have "empty q' \<longleftrightarrow> [(p, v) \<leftarrow> fst sp. \<not> p < pn] = []"
    using empty_lookup [OF q'(2)] by (simp add: map_of_empty_iff)
  then have "represents (lookup q') (last q') ([(p, v) \<leftarrow> fst sp. \<not> p < pn], snd sp)"
    using l q'(4) assms(2) by (intro represents_filter [where P = "\<lambda>p. \<not> p < pn" and f = "lookup q" and l = "last q"]) simp_all
  then have "represents (lookup q') (last q') (spec_step (RemoveUpTo pn) sp)" by (cases sp) simp
  with q'(1,2) show ?thesis by blast
qed

end

interpretation pq: packet_map pq_inv pq_map GetEntry pq_IsEmpty pq_last_packet pq_Emplace pq_Remove pq_RemoveUpTo
  by unfold_locales
    (rule GetEntry_map pq_IsEmpty_map pq_map_after_last pq_Emplace_map pq_Emplace_reject pq_Remove_last
      pq_RemoveUpTo_last; assumption)+

subsection \<open>Histories of operations\<close>

fun pq_step :: "'a pq_op \<Rightarrow> 'a pnqueue \<Rightarrow> 'a pnqueue option" where
  "pq_step (Emplace pn v) q = map_option fst (pq_Emplace pn v q)"
| "pq_step (Remove pn) q = map_option fst (pq_Remove pn q)"
| "pq_step (RemoveUpTo pn) q = pq_RemoveUpTo pn q"

fun pq_run :: "'a pq_op list \<Rightarrow> 'a pnqueue \<Rightarrow> 'a pnqueue option" where
  "pq_run [] q = Some q"
| "pq_run (c # cs) q = Option.bind (pq_step c q) (pq_run cs)"

definition pq_abs :: "'a pnqueue \<Rightarrow> 'a pq_spec \<Rightarrow> bool" where
  "pq_abs q sp \<longleftrightarrow> pq_inv q \<and> represents (pq_map q) (pq_last_packet q) sp"

lemma pq_step_refines:
  assumes "pq_abs q sp"
  shows "\<exists>q'. pq_step c q = Some q' \<and> pq_abs q' (spec_step c sp)"
proof -
  have a: "pq_inv q" "represents (pq_map q) (pq_last_packet q) sp" using assms by (simp_all add: pq_abs_def)
  show ?thesis
  proof (cases c)
    case (Emplace pn v)
    from pq.represents_emplace [OF a, of pn v] obtain q' b where "pq_Emplace pn v q = Some (q', b)" "pq_inv q'"
      "represents (pq_map q') (pq_last_packet q') (spec_step (Emplace pn v) sp)" by blast
    then show ?thesis unfolding Emplace by (intro exI [of _ q']) (simp add: pq_abs_def)
  next
    case (Remove pn)
    from pq.represents_remove [OF a, of pn] obtain q' r where "pq_Remove pn q = Some (q', r)" "pq_inv q'"
      "represents (pq_map q') (pq_last_packet q') (spec_step (Remove pn) sp)" by blast
    then show ?thesis unfolding Remove by (intro exI [of _ q']) (simp add: pq_abs_def)
  next
    case (RemoveUpTo pn)
    from pq.represents_remove_upto [OF a, of pn] obtain q' where "pq_RemoveUpTo pn q = Some q'" "pq_inv q'"
      "represents (pq_map q') (pq_last_packet q') (spec_step (RemoveUpTo pn) sp)" by blast
    then show ?thesis unfolding RemoveUpTo by (intro exI [of _ q']) (simp add: pq_abs_def)
  qed
qed

lemma pq_run_refines:
  "pq_abs q sp \<Longrightarrow> \<exists>q'. pq_run cs q = Some q' \<and> pq_abs q' (fold spec_step cs sp)"
proof (induction cs arbitrary: q sp)
  case (Cons c cs)
  from pq_step_refines [OF Cons.prems, of c] obtain q1 where "pq_step c q = Some q1" "pq_abs q1 (spec_step c sp)" by blast
  with Cons.IH [of q1 "spec_step c sp"] show ?case by simp
qed simp

subsection \<open>Properties\<close>

text \<open>C21. Every history of insertions and removals on a fresh queue succeeds, and every lookup in its
  result finds what the association list of the specification holds.\<close>

theorem queue_implements_map:
  "\<exists>q. pq_run cs pq_new = Some q \<and> pq_inv q
    \<and> (\<forall>pn. GetEntry pn q = Some (map_of (fst (fold spec_step cs ([], 0))) pn))
    \<and> (pq_IsEmpty q \<longleftrightarrow> fst (fold spec_step cs ([], 0)) = [])"
proof -
  have "pq_abs pq_new ([], 0)" by (simp add: pq_abs_def represents_def)
  from pq_run_refines [OF this, of cs] obtain q where
    q: "pq_run cs pq_new = Some q" "pq_abs q (fold spec_step cs ([], 0))" by blast
  then have "pq_inv q" "represents (pq_map q) (pq_last_packet q) (fold spec_step cs ([], 0))" by (simp_all add: pq_abs_def)
  with q(1) pq.represents_empty [OF this] show ?thesis
    by (intro exI [of _ q]) (simp add: pq.get_lookup represents_def)
qed

end
