(* ===== verification/Windowed_Filter.thy ===== *)
theory Windowed_Filter
  imports Prelude
begin

section \<open>The windowed filter\<close>

text \<open>
  \<open>WindowedFilter\<close> of \<open>congestion_control/chrome_windowed_filter.h\<close>: the best, second best
  and third best sample of a window. Both of its instances count rounds, so \<open>TimeT\<close> and
  \<open>TimeDeltaT\<close> are \<open>uint64_t\<close>. \<open>Compare\<close> is an argument of the operations, \<open>MinFilter\<close> and
  \<open>MaxFilter\<close> its two values in the code. The locale \<open>filter_order\<close> states what a
  comparison has to satisfy; it is interpreted on both of them. Its lemmas show that the
  estimates stay ordered in value and in time, that the best estimate never falls below
  the newest sample and is never older than the window, and that it is a past sample.
\<close>

record 'a wsample =
  ws_sample :: 'a
  ws_time :: u64

record 'a wfilter =
  wf_window_length :: u64
  wf_zero_value :: 'a
  wf_e0 :: "'a wsample"
  wf_e1 :: "'a wsample"
  wf_e2 :: "'a wsample"

definition MinFilter :: "'a::linorder \<Rightarrow> 'a \<Rightarrow> bool" where "MinFilter lhs rhs \<longleftrightarrow> lhs \<le> rhs"
definition MaxFilter :: "'a::linorder \<Rightarrow> 'a \<Rightarrow> bool" where "MaxFilter lhs rhs \<longleftrightarrow> rhs \<le> lhs"

definition mk_wsample :: "'a \<Rightarrow> u64 \<Rightarrow> 'a wsample" where
  "mk_wsample s t = \<lparr>ws_sample = s, ws_time = t\<rparr>"

definition wf_new :: "u64 \<Rightarrow> 'a \<Rightarrow> u64 \<Rightarrow> 'a wfilter" where
  "wf_new window_length zero_value zero_time =
     \<lparr>wf_window_length = window_length, wf_zero_value = zero_value,
      wf_e0 = mk_wsample zero_value zero_time, wf_e1 = mk_wsample zero_value zero_time,
      wf_e2 = mk_wsample zero_value zero_time\<rparr>"

definition wf_SetWindowLength :: "u64 \<Rightarrow> 'a wfilter \<Rightarrow> 'a wfilter" where
  "wf_SetWindowLength window_length f = f\<lparr>wf_window_length := window_length\<rparr>"

definition wf_Reset :: "'a \<Rightarrow> u64 \<Rightarrow> 'a wfilter \<Rightarrow> 'a wfilter" where
  "wf_Reset new_sample new_time f =
     f\<lparr>wf_e0 := mk_wsample new_sample new_time, wf_e1 := mk_wsample new_sample new_time,
       wf_e2 := mk_wsample new_sample new_time\<rparr>"

definition wf_GetBest :: "'a wfilter \<Rightarrow> 'a" where "wf_GetBest f = ws_sample (wf_e0 f)"
definition wf_GetSecondBest :: "'a wfilter \<Rightarrow> 'a" where "wf_GetSecondBest f = ws_sample (wf_e1 f)"
definition wf_GetThirdBest :: "'a wfilter \<Rightarrow> 'a" where "wf_GetThirdBest f = ws_sample (wf_e2 f)"

definition wf_Update :: "('a \<Rightarrow> 'a \<Rightarrow> bool) \<Rightarrow> 'a \<Rightarrow> u64 \<Rightarrow> 'a wfilter \<Rightarrow> 'a wfilter" where
  "wf_Update cmp new_sample new_time f =
    (if ws_sample (wf_e0 f) = wf_zero_value f
        \<or> cmp new_sample (ws_sample (wf_e0 f))
        \<or> wf_window_length f < new_time - ws_time (wf_e2 f)
     then wf_Reset new_sample new_time f
     else
       let s = mk_wsample new_sample new_time;
           f = (if cmp new_sample (ws_sample (wf_e1 f)) then f\<lparr>wf_e1 := s, wf_e2 := s\<rparr>
                else if cmp new_sample (ws_sample (wf_e2 f)) then f\<lparr>wf_e2 := s\<rparr>
                else f)
       in if wf_window_length f < new_time - ws_time (wf_e0 f) then
            (let f = f\<lparr>wf_e0 := wf_e1 f, wf_e1 := wf_e2 f, wf_e2 := s\<rparr>
             in if wf_window_length f < new_time - ws_time (wf_e0 f)
                then f\<lparr>wf_e0 := wf_e1 f, wf_e1 := wf_e2 f\<rparr>
                else f)
          else if ws_sample (wf_e1 f) = ws_sample (wf_e0 f) \<and> 0 < new_time - ws_time (wf_e1 f)
            then f\<lparr>wf_e2 := s, wf_e1 := s\<rparr>
          else if ws_sample (wf_e2 f) = ws_sample (wf_e1 f) \<and> 1 < new_time - ws_time (wf_e2 f)
            then f\<lparr>wf_e2 := s\<rparr>
          else f)"

subsection \<open>The contract of a comparison\<close>

locale filter_order =
  fixes cmp :: "'a \<Rightarrow> 'a \<Rightarrow> bool"
  assumes cmp_refl: "cmp x x"
    and cmp_trans: "cmp x y \<Longrightarrow> cmp y z \<Longrightarrow> cmp x z"
    and cmp_total: "cmp x y \<or> cmp y x"
begin

definition ordered :: "'a wfilter \<Rightarrow> bool" where
  "ordered f \<longleftrightarrow> cmp (ws_sample (wf_e0 f)) (ws_sample (wf_e1 f))
     \<and> cmp (ws_sample (wf_e1 f)) (ws_sample (wf_e2 f))"

lemma ordered_Update: "ordered f \<Longrightarrow> ordered (wf_Update cmp s t f)"
  using cmp_total [of s "ws_sample (wf_e0 f)"] cmp_total [of s "ws_sample (wf_e1 f)"]
    cmp_total [of s "ws_sample (wf_e2 f)"]
  by (auto simp: ordered_def wf_Update_def wf_Reset_def mk_wsample_def Let_def cmp_refl)

lemma best_Update_newest: "ordered f \<Longrightarrow> cmp (wf_GetBest (wf_Update cmp s t f)) s"
  using cmp_total [of s "ws_sample (wf_e0 f)"] cmp_total [of s "ws_sample (wf_e1 f)"]
    cmp_total [of s "ws_sample (wf_e2 f)"]
  by (auto simp: ordered_def wf_Update_def wf_Reset_def mk_wsample_def Let_def cmp_refl wf_GetBest_def)

lemma best_Update_upper:
  "ordered f \<Longrightarrow> wf_GetBest f \<noteq> wf_zero_value f
    \<Longrightarrow> cmp (wf_GetBest f) (wf_GetBest (wf_Update cmp s t f)) \<or> wf_GetBest (wf_Update cmp s t f) = s"
  using cmp_trans
  by (auto simp: ordered_def wf_Update_def wf_Reset_def mk_wsample_def Let_def cmp_refl wf_GetBest_def)

end

interpretation max_filter: filter_order "MaxFilter :: 'a::linorder \<Rightarrow> 'a \<Rightarrow> bool"
  by unfold_locales (auto simp: MaxFilter_def)

interpretation min_filter: filter_order "MinFilter :: 'a::linorder \<Rightarrow> 'a \<Rightarrow> bool"
  by unfold_locales (auto simp: MinFilter_def)

subsection \<open>Order, age and origin of the estimates\<close>

definition wf_ordered :: "'a::linorder wfilter \<Rightarrow> bool" where
  "wf_ordered f \<longleftrightarrow> wf_GetSecondBest f \<le> wf_GetBest f \<and> wf_GetThirdBest f \<le> wf_GetSecondBest f"

definition wf_times :: "u64 \<Rightarrow> 'a wfilter \<Rightarrow> bool" where
  "wf_times now f \<longleftrightarrow> ws_time (wf_e0 f) \<le> ws_time (wf_e1 f)
     \<and> ws_time (wf_e1 f) \<le> ws_time (wf_e2 f) \<and> ws_time (wf_e2 f) \<le> now"

lemma wf_ordered_iff: "wf_ordered f \<longleftrightarrow> max_filter.ordered f"
  by (simp add: wf_ordered_def max_filter.ordered_def MaxFilter_def wf_GetBest_def
      wf_GetSecondBest_def wf_GetThirdBest_def)

lemma wf_ordered_new [simp]: "wf_ordered (wf_new w z t)"
  by (simp add: wf_ordered_def wf_new_def wf_GetBest_def wf_GetSecondBest_def wf_GetThirdBest_def)

lemma wf_ordered_Reset [simp]: "wf_ordered (wf_Reset s t f)"
  by (simp add: wf_ordered_def wf_Reset_def wf_GetBest_def wf_GetSecondBest_def wf_GetThirdBest_def)

lemma wf_ordered_Update [intro]: "wf_ordered f \<Longrightarrow> wf_ordered (wf_Update MaxFilter s t f)"
  unfolding wf_ordered_iff by (rule max_filter.ordered_Update)

lemma wf_best_ge_newest: "wf_ordered f \<Longrightarrow> s \<le> wf_GetBest (wf_Update MaxFilter s t f)"
  using max_filter.best_Update_newest [of f s t] by (simp add: wf_ordered_iff MaxFilter_def)

lemma wf_best_le_max:
  "wf_ordered f \<Longrightarrow> wf_GetBest f \<noteq> wf_zero_value f
    \<Longrightarrow> wf_GetBest (wf_Update MaxFilter s t f) \<le> max (wf_GetBest f) s"
  using max_filter.best_Update_upper [of f s t]
  by (auto simp: wf_ordered_iff MaxFilter_def intro: max.coboundedI1)

lemma wf_times_mono: "wf_times now f \<Longrightarrow> now \<le> t \<Longrightarrow> wf_times t f"
  by (auto simp: wf_times_def)

lemma wf_times_Update [intro]: "wf_times now f \<Longrightarrow> now \<le> t \<Longrightarrow> wf_times t (wf_Update cmp s t f)"
proof -
  assume w: "wf_times now f" and "now \<le> t"
  then have "ws_time (wf_e2 f) \<le> t" by (auto simp: wf_times_def)
  moreover from this w have "ws_time (wf_e1 f) \<le> t" by (auto simp: wf_times_def)
  moreover from this w have "ws_time (wf_e0 f) \<le> t" by (auto simp: wf_times_def)
  moreover from w have "ws_time (wf_e0 f) \<le> ws_time (wf_e2 f)" by (auto simp: wf_times_def)
  ultimately show ?thesis using w
    by (simp add: wf_times_def wf_Update_def wf_Reset_def mk_wsample_def Let_def)
qed

lemma wf_window_Update [simp]: "wf_window_length (wf_Update cmp s t f) = wf_window_length f"
  by (simp add: wf_Update_def wf_Reset_def Let_def)

lemma wf_zero_Update [simp]: "wf_zero_value (wf_Update cmp s t f) = wf_zero_value f"
  by (simp add: wf_Update_def wf_Reset_def Let_def)

lemma wf_best_not_older:
  "t - ws_time (wf_e0 (wf_Update cmp s t f)) \<le> wf_window_length f"
  by (auto simp: wf_Update_def wf_Reset_def mk_wsample_def Let_def not_less)

lemma wf_estimates_origin:
  assumes "wf_e0 f \<in> A" "wf_e1 f \<in> A" "wf_e2 f \<in> A" "mk_wsample s t \<in> A"
  shows "wf_e0 (wf_Update cmp s t f) \<in> A \<and> wf_e1 (wf_Update cmp s t f) \<in> A
    \<and> wf_e2 (wf_Update cmp s t f) \<in> A"
  using assms by (simp add: wf_Update_def wf_Reset_def Let_def)

text \<open>A filter fed with a list of timed samples.\<close>

definition wf_run :: "('a \<Rightarrow> 'a \<Rightarrow> bool) \<Rightarrow> ('a \<times> u64) list \<Rightarrow> 'a wfilter \<Rightarrow> 'a wfilter" where
  "wf_run cmp xs f = fold (\<lambda>(s, t) f. wf_Update cmp s t f) xs f"

lemma wf_run_snoc: "wf_run cmp (xs @ [(s, t)]) f = wf_Update cmp s t (wf_run cmp xs f)"
  by (simp add: wf_run_def)

lemma wf_window_run [simp]: "wf_window_length (wf_run cmp xs f) = wf_window_length f"
proof (induction xs rule: rev_induct)
  case (snoc x xs)
  then show ?case by (cases x) (simp add: wf_run_snoc)
qed (simp add: wf_run_def)

lemma wf_run_ordered: "wf_ordered f \<Longrightarrow> wf_ordered (wf_run MaxFilter xs f)"
proof (induction xs rule: rev_induct)
  case (snoc x xs)
  then show ?case by (cases x) (simp add: wf_run_snoc wf_ordered_Update)
qed (simp add: wf_run_def)

definition wf_samples :: "'a wfilter \<Rightarrow> 'a wsample set" where
  "wf_samples f = {wf_e0 f, wf_e1 f, wf_e2 f}"

lemma wf_samples_Update: "wf_samples (wf_Update cmp s t f) \<subseteq> insert (mk_wsample s t) (wf_samples f)"
  using wf_estimates_origin [of f "insert (mk_wsample s t) (wf_samples f)" s t cmp]
  by (simp add: wf_samples_def)

lemma wf_run_origin:
  "wf_samples (wf_run cmp xs f) \<subseteq> (\<lambda>(s, t). mk_wsample s t) ` set xs \<union> wf_samples f"
proof (induction xs rule: rev_induct)
  case (snoc x xs)
  obtain s t where x: "x = (s, t)" by (cases x)
  have "wf_samples (wf_run cmp (xs @ [x]) f) \<subseteq> insert (mk_wsample s t) (wf_samples (wf_run cmp xs f))"
    unfolding x wf_run_snoc by (rule wf_samples_Update)
  with snoc show ?case by (auto simp: x)
qed (simp add: wf_run_def)

subsection \<open>Properties\<close>

text \<open>C31. However a maximum filter is fed, its three estimates are ordered and are samples it was given
  (or the initial value), the best one is at least the newest sample, and it is never older than
  the window.\<close>

theorem max_filter_tracks_window:
  "let f = wf_run MaxFilter (xs @ [(s, t)]) (wf_new w z t0) in
     wf_GetThirdBest f \<le> wf_GetSecondBest f \<and> wf_GetSecondBest f \<le> wf_GetBest f
     \<and> s \<le> wf_GetBest f \<and> t - ws_time (wf_e0 f) \<le> w
     \<and> {wf_e0 f, wf_e1 f, wf_e2 f} \<subseteq> insert (mk_wsample z t0) ((\<lambda>(s, t). mk_wsample s t) ` set (xs @ [(s, t)]))"
proof -
  let ?g = "wf_run MaxFilter xs (wf_new w z t0)"
  let ?f = "wf_run MaxFilter (xs @ [(s, t)]) (wf_new w z t0)"
  have g: "wf_ordered ?g" by (simp add: wf_run_ordered)
  have "wf_window_length ?g = w" by (simp add: wf_new_def)
  then have "t - ws_time (wf_e0 ?f) \<le> w" using wf_best_not_older [of t MaxFilter s ?g] by (simp add: wf_run_snoc)
  moreover have "s \<le> wf_GetBest ?f" unfolding wf_run_snoc by (rule wf_best_ge_newest [OF g])
  moreover have "wf_ordered ?f" by (simp add: wf_run_ordered)
  moreover have "wf_samples ?f \<subseteq> (\<lambda>(s, t). mk_wsample s t) ` set (xs @ [(s, t)]) \<union> wf_samples (wf_new w z t0)"
    by (rule wf_run_origin)
  moreover have "wf_samples (wf_new w z t0) = {mk_wsample z t0}" by (simp add: wf_samples_def wf_new_def)
  ultimately show ?thesis unfolding Let_def wf_ordered_def wf_samples_def by simp
qed

end
