(* ===== verification/Machine_Float.thy ===== *)
theory Machine_Float
  imports Prelude Complex_Main
begin

section \<open>IEEE binary32 and binary64 arithmetic\<close>

text \<open>
  The gains of the congestion controllers are \<open>float\<close> and \<open>double\<close> values. A finite value
  is modelled by the rational it denotes, and each operation of the code by the exact
  operation followed by \<open>f32\<close> or \<open>f64\<close>, the rounding to the nearest value with 24 or 53
  significant bits, ties to even (the default rounding mode). Every value the code
  computes lies far inside the exponent range of its format, so overflow to infinity and
  subnormal values do not occur and are not modelled. Integer operands are converted
  (and rounded) first, as the usual arithmetic conversions of C++ do.

  The lemmas are the ones the components need: rounding is exact on values with few
  significant bits, monotone, and has a relative error of at most \<open>2\<^sup>-\<^sup>p\<close>.
\<close>

type_synonym cfloat = rat

subsection \<open>The exponent of a positive rational\<close>

function zlog2 :: "int \<Rightarrow> nat" where
  "zlog2 n = (if n < 2 then 0 else Suc (zlog2 (n div 2)))"
  by pat_completeness auto
termination by (relation "measure nat") auto

declare zlog2.simps [simp del]

lemma zlog2_bounds: "1 \<le> n \<Longrightarrow> 2 ^ zlog2 n \<le> n \<and> n < 2 * 2 ^ zlog2 n"
proof (induction n rule: zlog2.induct)
  case (1 n)
  show ?case
  proof (cases "n < 2")
    case True
    with 1 show ?thesis by (simp add: zlog2.simps [of n])
  next
    case False
    with 1 have "2 ^ zlog2 (n div 2) \<le> n div 2 \<and> n div 2 < 2 * 2 ^ zlog2 (n div 2)"
      by simp
    then have "2 * 2 ^ zlog2 (n div 2) \<le> n \<and> n < 2 * (2 * 2 ^ zlog2 (n div 2))" by linarith
    with False show ?thesis by (simp add: zlog2.simps [of n])
  qed
qed

definition log2_quot :: "int \<Rightarrow> int \<Rightarrow> int" where
  "log2_quot n d = (let k = int (zlog2 n) - int (zlog2 d)
     in if (2 :: rat) powi k \<le> of_int n / of_int d then k else k - 1)"

definition ilog2 :: "rat \<Rightarrow> int" where
  "ilog2 x = (case quotient_of x of (n, d) \<Rightarrow> log2_quot n d)"

lemma log2_quot_bounds:
  assumes "1 \<le> n" "1 \<le> d"
  shows "2 powi (log2_quot n d) \<le> (of_int n / of_int d :: rat)
    \<and> (of_int n / of_int d :: rat) < 2 powi (log2_quot n d + 1)"
proof -
  let ?a = "zlog2 n" and ?b = "zlog2 d" and ?x = "of_int n / of_int d :: rat"
  let ?k = "int ?a - int ?b"
  have z: "(2 :: rat) ^ zlog2 m \<le> of_int m \<and> of_int m < (2 * 2 ^ zlog2 m :: rat)" if "1 \<le> m" for m
  proof -
    have "(of_int (2 ^ zlog2 m) :: rat) \<le> of_int m" and "(of_int m :: rat) < of_int (2 * 2 ^ zlog2 m)"
      using zlog2_bounds [OF that] by (simp_all only: of_int_le_iff of_int_less_iff)
    then show ?thesis by simp
  qed
  note n = z [OF assms(1)] and d = z [OF assms(2)]
  have k: "(2 :: rat) powi ?k = 2 ^ ?a / 2 ^ ?b"
    by (simp add: power_int_diff)
  have pos: "(0 :: rat) < of_int d" using assms by simp
  have up: "?x < 2 powi (?k + 1)"
  proof -
    have "?x < (2 * 2 ^ ?a) / of_int d" using n pos by (simp add: divide_strict_right_mono)
    also have "\<dots> \<le> (2 * 2 ^ ?a) / 2 ^ ?b" using d pos by (intro divide_left_mono) auto
    finally show ?thesis by (simp add: power_int_add k mult.commute)
  qed
  have lo: "2 powi (?k - 1) \<le> ?x"
  proof -
    have "2 powi (?k - 1) = (2 ^ ?a :: rat) / (2 * 2 ^ ?b)" by (simp add: power_int_diff k)
    also have "\<dots> \<le> 2 ^ ?a / of_int d" using d pos by (intro divide_left_mono) auto
    also have "\<dots> \<le> ?x" using n pos by (simp add: divide_right_mono)
    finally show ?thesis .
  qed
  show ?thesis
    using up lo by (auto simp: log2_quot_def Let_def)
qed

lemma powi_strict_mono: "a < b \<Longrightarrow> (2 :: rat) powi a < 2 powi b"
  by (rule power_int_strict_increasing) auto

lemma powi_mono: "a \<le> b \<Longrightarrow> (2 :: rat) powi a \<le> 2 powi b"
  by (rule power_int_increasing) auto

lemma powi_pos [simp]: "0 < (2 :: rat) powi e"
  by simp

lemma ilog2_bounds:
  assumes "0 < x"
  shows "2 powi (ilog2 x) \<le> x" and "x < 2 powi (ilog2 x + 1)"
proof -
  obtain n d where q: "quotient_of x = (n, d)" by (cases "quotient_of x")
  have x: "x = of_int n / of_int d" by (rule quotient_of_div [OF q])
  have d: "0 < d" by (rule quotient_of_denom_pos [OF q])
  with assms x have "0 < n" by (simp add: zero_less_divide_iff)
  with d show "2 powi (ilog2 x) \<le> x" and "x < 2 powi (ilog2 x + 1)"
    using log2_quot_bounds [of n d] by (simp_all add: ilog2_def q x [symmetric])
qed

lemma ilog2_unique:
  assumes "2 powi e \<le> x" and "x < 2 powi (e + 1)"
  shows "ilog2 x = e"
proof -
  have "(0 :: rat) < 2 powi e" by simp
  with assms(1) have "0 < x" by linarith
  note b = ilog2_bounds [OF this]
  have "\<not> ilog2 x < e" using b(2) assms(1) powi_mono [of "ilog2 x + 1" e] by fastforce
  moreover have "\<not> e < ilog2 x" using b(1) assms(2) powi_mono [of "e + 1" "ilog2 x"] by fastforce
  ultimately show ?thesis by linarith
qed

text \<open>Evaluation on literals: the fraction need not be in lowest terms.\<close>

lemma ilog2_eval [simp]:
  "ilog2 (numeral a) = log2_quot (numeral a) 1"
  "ilog2 (numeral a / numeral b) = log2_quot (numeral a) (numeral b)"
  "ilog2 (1 / numeral b) = log2_quot 1 (numeral b)"
  "ilog2 1 = 0"
  using log2_quot_bounds [of "numeral a" 1] log2_quot_bounds [of "numeral a" "numeral b"]
    log2_quot_bounds [of 1 "numeral b"]
  by (auto intro!: ilog2_unique simp: power_int_add)

lemma ilog2_mono: "0 < x \<Longrightarrow> x \<le> y \<Longrightarrow> ilog2 x \<le> ilog2 y"
proof (rule ccontr)
  assume a: "0 < x" "x \<le> y" "\<not> ilog2 x \<le> ilog2 y"
  then have "2 powi (ilog2 y + 1) \<le> (2 :: rat) powi (ilog2 x)" by (intro powi_mono) simp
  with a ilog2_bounds(1) [of x] ilog2_bounds(2) [of y] show False by simp
qed

subsection \<open>Rounding half to even\<close>

definition rhe :: "rat \<Rightarrow> int" where
  "rhe x = (let f = \<lfloor>x\<rfloor>; r = x - of_int f
     in if r < 1 / 2 then f else if 1 / 2 < r then f + 1 else if even f then f else f + 1)"

lemma rhe_of_int [simp]: "rhe (of_int n) = n"
  by (simp add: rhe_def)

lemma rhe_error: "\<bar>of_int (rhe x) - x\<bar> \<le> 1 / 2"
proof -
  have "of_int \<lfloor>x\<rfloor> \<le> x" "x < of_int \<lfloor>x\<rfloor> + 1" by linarith+
  then show ?thesis by (auto simp: rhe_def Let_def abs_le_iff)
qed

lemma rhe_mono: "x \<le> y \<Longrightarrow> rhe x \<le> rhe y"
proof -
  assume xy: "x \<le> y"
  then have f: "\<lfloor>x\<rfloor> \<le> \<lfloor>y\<rfloor>" by (rule floor_mono)
  have b: "\<lfloor>z\<rfloor> \<le> rhe z" "rhe z \<le> \<lfloor>z\<rfloor> + 1" for z by (auto simp: rhe_def Let_def)
  show ?thesis
  proof (cases "\<lfloor>x\<rfloor> = \<lfloor>y\<rfloor>")
    case True
    with xy show ?thesis by (auto simp: rhe_def Let_def)
  next
    case False
    with f have "\<lfloor>x\<rfloor> + 1 \<le> \<lfloor>y\<rfloor>" by simp
    with b [of x] b [of y] show ?thesis by linarith
  qed
qed

lemma rhe_nonneg: "0 \<le> x \<Longrightarrow> 0 \<le> rhe x"
  using rhe_mono [of 0 x] rhe_of_int [of 0] by simp

subsection \<open>Rounding to \<open>p\<close> significant bits\<close>

definition rnd :: "nat \<Rightarrow> rat \<Rightarrow> cfloat" where
  "rnd p x = (if x = 0 then 0
     else let q = 2 powi (ilog2 \<bar>x\<bar> - int p + 1) in of_int (rhe (x / q)) * q)"

abbreviation f32 :: "rat \<Rightarrow> cfloat" where "f32 \<equiv> rnd 24"
abbreviation f64 :: "rat \<Rightarrow> cfloat" where "f64 \<equiv> rnd 53"

lemma rnd_0 [simp]: "rnd p 0 = 0"
  by (simp add: rnd_def)

lemma rnd_pos_eq:
  "0 < x \<Longrightarrow> rnd p x = of_int (rhe (x / 2 powi (ilog2 x - int p + 1))) * 2 powi (ilog2 x - int p + 1)"
  by (simp add: rnd_def Let_def)

lemma rnd_nonneg [intro]: "0 \<le> x \<Longrightarrow> 0 \<le> rnd p x"
  by (cases "x = 0") (simp_all add: rnd_pos_eq rhe_nonneg)

lemma two_powi_int: "0 \<le> k \<Longrightarrow> (2 :: rat) powi k = of_int (2 ^ nat k)"
  by (simp add: power_int_def)

lemma rnd_bin:
  assumes "0 < x" "1 \<le> p"
  shows "2 powi (ilog2 x) \<le> rnd p x" and "rnd p x \<le> 2 powi (ilog2 x + 1)"
proof -
  let ?q = "(2 :: rat) powi (ilog2 x - int p + 1)"
  have q: "0 < ?q" by simp
  have "2 powi (ilog2 x) = 2 powi (int p - 1) * ?q" by (simp add: power_int_add [symmetric])
  then have lo: "2 powi (int p - 1) \<le> x / ?q" using ilog2_bounds(1) [OF assms(1)] q
    by (simp add: pos_le_divide_eq)
  have "2 powi (ilog2 x + 1) = 2 powi (int p) * ?q"
    by (simp add: power_int_add [symmetric] del: power_int_of_nat)
  then have hi: "x / ?q \<le> 2 powi (int p)" using ilog2_bounds(2) [OF assms(1)] q
    by (simp add: pos_divide_le_eq)
  have "2 ^ nat (int p - 1) \<le> rhe (x / ?q)"
    using rhe_mono [OF lo] assms(2) by (simp add: two_powi_int del: of_int_power)
  then have "(of_int (2 ^ nat (int p - 1)) :: rat) \<le> of_int (rhe (x / ?q))"
    by (simp only: of_int_le_iff)
  then have "2 powi (int p - 1) * ?q \<le> rnd p x" using assms q
    by (simp add: rnd_pos_eq two_powi_int del: of_int_power)
  then show "2 powi (ilog2 x) \<le> rnd p x" by (simp add: power_int_add [symmetric])
  have "rhe (x / ?q) \<le> 2 ^ p"
    using rhe_mono [OF hi] rhe_of_int [of "2 ^ p"] by simp
  then have "(of_int (rhe (x / ?q)) :: rat) \<le> of_int (2 ^ p)"
    by (simp only: of_int_le_iff)
  then have "of_int (rhe (x / ?q)) * ?q \<le> 2 ^ p * ?q"
    using q by (intro mult_right_mono) auto
  then have "rnd p x \<le> 2 powi (int p) * ?q" using assms
    by (simp add: rnd_pos_eq)
  then show "rnd p x \<le> 2 powi (ilog2 x + 1)"
    by (simp add: power_int_add [symmetric] del: power_int_of_nat)
qed

lemma rnd_mono:
  assumes "0 \<le> x" "x \<le> y" "1 \<le> p"
  shows "rnd p x \<le> rnd p y"
proof (cases "x = 0")
  case True
  with assms show ?thesis by (simp add: rnd_nonneg)
next
  case False
  with assms have x: "0 < x" and y: "0 < y" by simp_all
  show ?thesis
  proof (cases "ilog2 x = ilog2 y")
    case True
    have "x / 2 powi (ilog2 y - int p + 1) \<le> y / 2 powi (ilog2 y - int p + 1)"
      using assms by (intro divide_right_mono) auto
    then have "rhe (x / 2 powi (ilog2 y - int p + 1)) \<le> rhe (y / 2 powi (ilog2 y - int p + 1))"
      by (rule rhe_mono)
    then show ?thesis by (simp add: rnd_pos_eq x y True)
  next
    case False
    with ilog2_mono [OF x assms(2)] have "ilog2 x + 1 \<le> ilog2 y" by simp
    then have "(2 :: rat) powi (ilog2 x + 1) \<le> 2 powi (ilog2 y)" by (rule powi_mono)
    with rnd_bin(2) [OF x assms(3)] rnd_bin(1) [OF y assms(3)] show ?thesis by linarith
  qed
qed

lemma rnd_exact:
  assumes x: "x = of_int m * 2 powi e" and m: "0 \<le> m" "m \<le> 2 ^ p" and p: "1 \<le> p"
  shows "rnd p x = x"
proof (cases "m = 0")
  case True
  then show ?thesis by (simp add: x)
next
  case False
  with m have "1 \<le> m" by simp
  then have pos: "0 < x" by (simp add: x)
  let ?k = "ilog2 x - int p + 1"
  have "\<exists>n. x / 2 powi ?k = of_int n"
  proof (cases "m = 2 ^ p")
    case True
    then have "x = 2 powi (int p + e)" by (simp add: x power_int_add)
    then have "ilog2 x = int p + e"
      by (intro ilog2_unique) (simp_all add: powi_strict_mono)
    then have "x / 2 powi ?k = 2 powi (int p - 1)"
      by (simp add: \<open>x = 2 powi (int p + e)\<close> power_int_diff [symmetric])
    then show ?thesis using p by (metis of_nat_1 of_nat_le_iff diff_ge_0_iff_ge two_powi_int)
  next
    case False
    with m(2) have "m < 2 ^ p" by simp
    then have "(of_int m :: rat) < of_int (2 ^ p)" by (simp only: of_int_less_iff)
    then have "x < 2 powi (int p) * 2 powi e" unfolding x by (intro mult_strict_right_mono) simp_all
    then have "x < 2 powi (int p + e)" by (simp add: power_int_add)
    with ilog2_bounds(1) [OF pos] have "(2 :: rat) powi (ilog2 x) < 2 powi (int p + e)" by linarith
    then have "ilog2 x < int p + e" using powi_mono [of "int p + e" "ilog2 x"] by fastforce
    then have "0 \<le> e - ?k" by simp
    moreover have "x / 2 powi ?k = of_int m * 2 powi (e - ?k)"
      by (simp add: x power_int_diff)
    ultimately show ?thesis by (metis of_int_mult two_powi_int)
  qed
  then obtain n where n: "x / 2 powi ?k = of_int n" by blast
  have "rnd p x = of_int (rhe (of_int n)) * 2 powi ?k" using rnd_pos_eq [OF pos] n by simp
  also have "\<dots> = (x / 2 powi ?k) * 2 powi ?k" by (simp only: rhe_of_int n)
  also have "\<dots> = x" by simp
  finally show ?thesis .
qed

lemma rnd_of_int: "0 \<le> m \<Longrightarrow> m \<le> 2 ^ p \<Longrightarrow> 1 \<le> p \<Longrightarrow> rnd p (of_int m) = of_int m"
  by (rule rnd_exact [where e = 0]) simp_all

lemma rnd_upper: "0 \<le> x \<Longrightarrow> 1 \<le> p \<Longrightarrow> rnd p x \<le> x * (1 + 1 / 2 ^ p)"
proof (cases "x = 0")
  case False
  assume "0 \<le> x" "1 \<le> p"
  with False have pos: "0 < x" by simp
  let ?q = "(2 :: rat) powi (ilog2 x - int p + 1)"
  have "\<bar>of_int (rhe (x / ?q)) - x / ?q\<bar> \<le> 1 / 2" by (rule rhe_error)
  then have "of_int (rhe (x / ?q)) \<le> x / ?q + 1 / 2" by linarith
  then have "of_int (rhe (x / ?q)) * ?q \<le> (x / ?q + 1 / 2) * ?q"
    by (intro mult_right_mono) auto
  also have "\<dots> = x + ?q / 2" by (simp add: field_simps)
  also have "?q / 2 = 2 powi (ilog2 x) / 2 ^ p" by (simp add: power_int_add power_int_diff)
  also have "\<dots> \<le> x / 2 ^ p" using ilog2_bounds(1) [OF pos] by (intro divide_right_mono) auto
  finally show ?thesis using rnd_pos_eq [OF pos, of p] by (simp add: field_simps)
qed simp

lemma rnd_le_representable:
  assumes "0 \<le> x" "x \<le> of_int m" "0 \<le> m" "m \<le> 2 ^ p" "1 \<le> p"
  shows "rnd p x \<le> of_int m"
  using rnd_mono [of x "of_int m" p] rnd_of_int [of m p] assms by simp

subsection \<open>Conversions\<close>

text \<open>
  A conversion from floating point to an integer type drops the fraction; \<open>llround\<close> of the
  C library rounds to the nearest integer, halfway cases away from zero. When the result
  does not fit \<open>int64_t\<close> it is unspecified; the model has the value x86-64 produces.
\<close>

definition ctrunc :: "rat \<Rightarrow> int" where
  "ctrunc x = (if 0 \<le> x then \<lfloor>x\<rfloor> else \<lceil>x\<rceil>)"

definition i64_or_indefinite :: "int \<Rightarrow> int64" where
  "i64_or_indefinite n = (if in_i64 n then n else - (2 ^ 63))"

definition llround :: "rat \<Rightarrow> int64" where
  "llround x = i64_or_indefinite (if 0 \<le> x then \<lfloor>x + 1 / 2\<rfloor> else \<lceil>x - 1 / 2\<rceil>)"

definition f_to_u64 :: "cfloat \<Rightarrow> u64" where
  "f_to_u64 x = word_of_int (ctrunc x)"

definition f_to_i64 :: "cfloat \<Rightarrow> int64" where
  "f_to_i64 x = i64_or_indefinite (ctrunc x)"

abbreviation u64_f32 :: "u64 \<Rightarrow> cfloat" where "u64_f32 w \<equiv> f32 (of_int (uint w))"
abbreviation u64_f64 :: "u64 \<Rightarrow> cfloat" where "u64_f64 w \<equiv> f64 (of_int (uint w))"

lemma ctrunc_nonneg: "0 \<le> x \<Longrightarrow> 0 \<le> ctrunc x"
  by (simp add: ctrunc_def)

lemma ctrunc_le: "0 \<le> x \<Longrightarrow> of_int (ctrunc x) \<le> x"
  by (simp add: ctrunc_def)

lemma uint_f_to_u64: "0 \<le> x \<Longrightarrow> x < 2 ^ 64 \<Longrightarrow> uint (f_to_u64 x) = ctrunc x"
proof -
  assume x: "0 \<le> x" "x < 2 ^ 64"
  then have "\<lfloor>x\<rfloor> < 2 ^ 64" by (simp add: floor_less_iff)
  with x show ?thesis by (simp add: f_to_u64_def ctrunc_def uint_word_of_int)
qed

lemma uint_f_to_u64_le:
  fixes w :: u64
  assumes "0 \<le> x" "x \<le> of_int (uint w)"
  shows "uint (f_to_u64 x) \<le> uint w"
proof -
  have "(of_int (uint w) :: rat) < of_int (2 ^ 64)"
    using uint_less_2p64 [of w] by (simp only: of_int_less_iff) simp
  then have "x < 2 ^ 64" using assms(2) by simp
  with assms(1) have "uint (f_to_u64 x) = ctrunc x" by (rule uint_f_to_u64)
  with ctrunc_le [OF assms(1)] assms(2) show ?thesis
    by (metis of_int_le_iff order_trans)
qed

lemma in_i64_indefinite [simp]: "in_i64 (i64_or_indefinite n)"
  by (simp add: i64_or_indefinite_def in_i64_def)

lemma in_i64_llround [simp]: "in_i64 (llround x)"
  by (simp add: llround_def)

lemma llround_of_int: "in_i64 n \<Longrightarrow> llround (of_int n) = n"
proof -
  have "\<lfloor>of_int n + 1 / 2 :: rat\<rfloor> = n" and "\<lceil>of_int n - 1 / 2 :: rat\<rceil> = n" by linarith+
  then show "in_i64 n \<Longrightarrow> llround (of_int n) = n" by (simp add: llround_def i64_or_indefinite_def)
qed

lemma llround_eq:
  assumes "0 \<le> x" "x \<le> 2 ^ 62" shows "llround x = \<lfloor>x + 1 / 2\<rfloor>"
proof -
  have "0 \<le> \<lfloor>x + 1 / 2\<rfloor>" using assms by simp
  moreover have "\<lfloor>x + 1 / 2\<rfloor> < 2 ^ 63" using assms by (simp add: floor_less_iff)
  ultimately show ?thesis using assms by (simp add: llround_def i64_or_indefinite_def in_i64_def)
qed

lemma llround_nonneg: "0 \<le> x \<Longrightarrow> x \<le> 2 ^ 62 \<Longrightarrow> 0 \<le> llround x"
  by (simp add: llround_eq)

lemma llround_mono: "0 \<le> x \<Longrightarrow> x \<le> y \<Longrightarrow> y \<le> 2 ^ 62 \<Longrightarrow> llround x \<le> llround y"
  by (simp add: llround_eq floor_mono)

lemma rnd_lower: "0 \<le> x \<Longrightarrow> 1 \<le> p \<Longrightarrow> x * (1 - 1 / 2 ^ p) \<le> rnd p x"
proof (cases "x = 0")
  case False
  assume "0 \<le> x" "1 \<le> p"
  with False have pos: "0 < x" by simp
  let ?q = "(2 :: rat) powi (ilog2 x - int p + 1)"
  have "\<bar>of_int (rhe (x / ?q)) - x / ?q\<bar> \<le> 1 / 2" by (rule rhe_error)
  then have "x / ?q - 1 / 2 \<le> of_int (rhe (x / ?q))" by linarith
  then have "(x / ?q - 1 / 2) * ?q \<le> of_int (rhe (x / ?q)) * ?q"
    by (intro mult_right_mono) auto
  moreover have "(x / ?q - 1 / 2) * ?q = x - ?q / 2" by (simp add: field_simps)
  ultimately have "x - ?q / 2 \<le> rnd p x" by (simp only: rnd_pos_eq [OF pos])
  moreover have "?q / 2 = 2 powi (ilog2 x) / 2 ^ p" by (simp add: power_int_add power_int_diff)
  moreover have "\<dots> \<le> x / 2 ^ p" using ilog2_bounds(1) [OF pos] by (intro divide_right_mono) auto
  ultimately have "x - x / 2 ^ p \<le> rnd p x" by linarith
  then show ?thesis by (simp add: right_diff_distrib)
qed simp

lemma rnd_le_pow2:
  assumes "0 \<le> x" "x \<le> 2 ^ k" "1 \<le> p" shows "rnd p x \<le> 2 ^ k"
proof -
  have e: "(2 :: rat) ^ k = of_int 1 * 2 powi (int k)" by simp
  have "rnd p (2 ^ k) = 2 ^ k" by (rule rnd_exact [OF e]) (use assms(3) in simp_all)
  with rnd_mono [OF assms] show ?thesis by simp
qed

lemma rnd_ge_int:
  assumes "of_int m \<le> x" "0 \<le> m" "m \<le> 2 ^ p" "1 \<le> p" shows "of_int m \<le> rnd p x"
  using rnd_mono [of "of_int m" x p] rnd_of_int [of m p] assms by simp

end
