(* ===== verification/Quic_Time.thy ===== *)
theory Quic_Time
  imports Machine_Float
begin

section \<open>Points in time, time differences and wall time\<close>

text \<open>
  \<open>QuicTime\<close>, \<open>QuicTime::Delta\<close> and \<open>QuicWallTime\<close> of \<open>quic/quic_time.h\<close> and \<open>.cc\<close>, and
  \<open>QuicTimeAccumulator\<close> of \<open>quic/quic_time_accumulator.h\<close>. A \<open>QuicTime\<close> and a \<open>Delta\<close> hold
  an \<open>int64_t\<close> number of microseconds, a \<open>QuicWallTime\<close> a \<open>uint64_t\<close>. The comparison operators
  compare those numbers. The lemmas show on which arguments the saturating operations of
  \<open>QuicWallTime\<close> saturate, and that the accumulator adds up the closed intervals.
\<close>

type_synonym quic_time = int64
type_synonym time_delta = int64
type_synonym wall_time = u64

subsection \<open>Time differences\<close>

definition kQuicInfiniteTimeUs :: int64 where "kQuicInfiniteTimeUs = int64_max"
definition delta_Zero :: time_delta where "delta_Zero = 0"
definition delta_Infinite :: time_delta where "delta_Infinite = kQuicInfiniteTimeUs"

definition FromSeconds :: "int64 \<Rightarrow> time_delta" where
  "FromSeconds secs = i64 (i64 (secs * 1000) * 1000)"

definition FromMilliseconds :: "int64 \<Rightarrow> time_delta" where
  "FromMilliseconds ms = i64 (ms * 1000)"

definition FromMicroseconds :: "int64 \<Rightarrow> time_delta" where
  "FromMicroseconds us = us"

definition ToSeconds :: "time_delta \<Rightarrow> cfloat" where
  "ToSeconds d = f32 (f32 (f32 (of_int d) / 1000) / 1000)"

definition ToMilliseconds :: "time_delta \<Rightarrow> int64" where
  "ToMilliseconds d = d sdiv 1000"

definition ToMicroseconds :: "time_delta \<Rightarrow> int64" where
  "ToMicroseconds d = d"

definition delta_IsZero :: "time_delta \<Rightarrow> bool" where
  "delta_IsZero d \<longleftrightarrow> d = 0"

definition delta_IsInfinite :: "time_delta \<Rightarrow> bool" where
  "delta_IsInfinite d \<longleftrightarrow> d = kQuicInfiniteTimeUs"

definition delta_plus :: "time_delta \<Rightarrow> time_delta \<Rightarrow> time_delta" where
  "delta_plus a b = i64 (a + b)"

definition delta_minus :: "time_delta \<Rightarrow> time_delta \<Rightarrow> time_delta" where
  "delta_minus a b = i64 (a - b)"

definition delta_mult :: "time_delta \<Rightarrow> int \<Rightarrow> time_delta" where
  "delta_mult a n = i64 (a * n)"

definition delta_mult_f64 :: "time_delta \<Rightarrow> cfloat \<Rightarrow> time_delta" where
  "delta_mult_f64 a f = llround (f64 (f64 (of_int a) * f))"

definition delta_shl :: "time_delta \<Rightarrow> nat \<Rightarrow> time_delta" where
  "delta_shl a n = i64 (a * 2 ^ n)"

definition delta_shr :: "time_delta \<Rightarrow> nat \<Rightarrow> time_delta" where
  "delta_shr a n = a div 2 ^ n"

subsection \<open>Points in time\<close>

definition time_Zero :: quic_time where "time_Zero = 0"
definition time_Infinite :: quic_time where "time_Infinite = kQuicInfiniteTimeUs"

definition time_IsInitialized :: "quic_time \<Rightarrow> bool" where
  "time_IsInitialized t \<longleftrightarrow> 0 \<noteq> t"

definition GetUint64 :: "quic_time \<Rightarrow> u64" where
  "GetUint64 t = u64_of t"

definition time_plus :: "quic_time \<Rightarrow> time_delta \<Rightarrow> quic_time" where
  "time_plus t d = i64 (t + d)"

definition time_minus :: "quic_time \<Rightarrow> time_delta \<Rightarrow> quic_time" where
  "time_minus t d = i64 (t - d)"

definition time_diff :: "quic_time \<Rightarrow> quic_time \<Rightarrow> time_delta" where
  "time_diff s t = i64 (s - t)"

lemmas time_arith = delta_plus_def delta_minus_def delta_mult_def delta_shl_def delta_shr_def
  time_plus_def time_minus_def time_diff_def

lemmas time_consts = delta_Zero_def delta_Infinite_def time_Zero_def time_Infinite_def
  kQuicInfiniteTimeUs_def delta_IsZero_def delta_IsInfinite_def time_IsInitialized_def

lemma in_i64_time_diff [simp]: "in_i64 (time_diff s t)"
  by (simp add: time_diff_def)

lemma time_diff_zero_iff: "in_i64 s \<Longrightarrow> in_i64 t \<Longrightarrow> time_diff s t = 0 \<longleftrightarrow> s = t"
  by (simp add: time_diff_def i64_diff_eq_0_iff)

lemma time_diff_nonneg: "0 \<le> t \<Longrightarrow> t \<le> s \<Longrightarrow> in_i64 s \<Longrightarrow> time_diff s t = s - t"
  by (simp add: time_diff_def in_i64_def i64_id)

lemma time_plus_diff: "in_i64 s \<Longrightarrow> time_plus t (time_diff s t) = s"
  by (simp add: time_plus_def time_diff_def i64_id)

subsection \<open>Wall time\<close>

definition FromUNIXSeconds :: "u64 \<Rightarrow> wall_time" where "FromUNIXSeconds s = s * 1000000"
definition FromUNIXMicroseconds :: "u64 \<Rightarrow> wall_time" where "FromUNIXMicroseconds us = us"
definition ToUNIXSeconds :: "wall_time \<Rightarrow> u64" where "ToUNIXSeconds w = w div 1000000"
definition ToUNIXMicroseconds :: "wall_time \<Rightarrow> u64" where "ToUNIXMicroseconds w = w"
definition wall_IsAfter :: "wall_time \<Rightarrow> wall_time \<Rightarrow> bool" where "wall_IsAfter w v \<longleftrightarrow> v < w"
definition wall_IsBefore :: "wall_time \<Rightarrow> wall_time \<Rightarrow> bool" where "wall_IsBefore w v \<longleftrightarrow> w < v"
definition wall_IsZero :: "wall_time \<Rightarrow> bool" where "wall_IsZero w \<longleftrightarrow> w = 0"

definition AbsoluteDifference :: "wall_time \<Rightarrow> wall_time \<Rightarrow> time_delta" where
  "AbsoluteDifference w v =
     (let d = (if v < w then w - v else v - w);
          d = (if u64_of int64_max < d then u64_of int64_max else d)
      in FromMicroseconds (i64_of d))"

definition wall_Add :: "wall_time \<Rightarrow> time_delta \<Rightarrow> wall_time" where
  "wall_Add w delta =
     (let microseconds = w + u64_of (ToMicroseconds delta)
      in if microseconds < w then 0xFFFFFFFFFFFFFFFF else microseconds)"

definition wall_Subtract :: "wall_time \<Rightarrow> time_delta \<Rightarrow> wall_time" where
  "wall_Subtract w delta =
     (let microseconds = w - u64_of (ToMicroseconds delta)
      in if w < microseconds then 0 else microseconds)"

definition wall_diff :: "wall_time \<Rightarrow> wall_time \<Rightarrow> time_delta" where
  "wall_diff w v = FromMicroseconds (i64_of (w - v))"

lemma uint_u64_of_mod: "uint (u64_of x) = x mod 2 ^ 64"
  by (simp add: u64_of_def uint_word_of_int)

lemma wall_Add_uint:
  assumes "- (2 ^ 63) \<le> delta" "delta < 2 ^ 63"
  shows "uint (wall_Add w delta) =
    (if 0 \<le> delta then min (2 ^ 64 - 1) (uint w + delta)
     else if - delta \<le> uint w then 2 ^ 64 - 1
     else uint w + delta + 2 ^ 64)"
proof -
  have w: "0 \<le> uint w" "uint w < 2 ^ 64" by simp_all
  have s: "uint (w + u64_of delta) = (uint w + delta) mod 2 ^ 64"
    by (simp add: uint_word_ariths uint_u64_of_mod mod_simps)
  have pow: "(2 :: int) ^ 64 = 2 * 2 ^ 63" "0 < (2 :: int) ^ 63" by simp_all
  consider "0 \<le> delta" "uint w + delta < 2 ^ 64" | "0 \<le> delta" "2 ^ 64 \<le> uint w + delta"
    | "delta < 0" "- delta \<le> uint w" | "delta < 0" "uint w < - delta" by linarith
  then show ?thesis
  proof cases
    case 1
    then have "(uint w + delta) mod 2 ^ 64 = uint w + delta" using w by simp
    with 1 s show ?thesis by (simp add: wall_Add_def ToMicroseconds_def Let_def u64_less_iff)
  next
    case 2
    have "(uint w + delta) mod 2 ^ 64 = (uint w + delta - 2 ^ 64) mod 2 ^ 64" by simp
    also have "\<dots> = uint w + delta - 2 ^ 64" 
      using 2 w assms pow by (intro mod_pos_pos_trivial) linarith+
    finally have "(uint w + delta) mod 2 ^ 64 = uint w + delta - 2 ^ 64" .
    with 2 s w assms show ?thesis
      by (simp add: wall_Add_def ToMicroseconds_def Let_def u64_less_iff)
  next
    case 3
    then have "(uint w + delta) mod 2 ^ 64 = uint w + delta"
      using w by (intro mod_pos_pos_trivial) linarith+
    with 3 s show ?thesis by (simp add: wall_Add_def ToMicroseconds_def Let_def u64_less_iff)
  next
    case 4
    then have "(uint w + delta) mod 2 ^ 64 = (uint w + delta + 2 ^ 64) mod 2 ^ 64" by simp
    also have "\<dots> = uint w + delta + 2 ^ 64"
      using 4 w assms pow by (intro mod_pos_pos_trivial) linarith+
    finally have u: "uint (w + u64_of delta) = uint w + delta + 2 ^ 64" using s by simp
    have "\<not> 0 \<le> delta" "\<not> - delta \<le> uint w" using 4 by simp_all
    moreover have "\<not> w + u64_of delta < w" unfolding u64_less_iff u using assms pow by linarith
    ultimately show ?thesis using u by (simp add: wall_Add_def ToMicroseconds_def Let_def)
  qed
qed

lemma wall_Subtract_uint:
  assumes "0 \<le> delta" "delta < 2 ^ 63"
  shows "uint (wall_Subtract w delta) = max 0 (uint w - delta)"
proof -
  have d: "uint (u64_of delta) = delta" using assms by (simp add: uint_u64_of)
  have pow: "0 \<le> uint w" "uint w < 2 ^ 64" "(2 :: int) ^ 64 = 2 * 2 ^ 63" "0 < (2 :: int) ^ 63"
    by simp_all
  show ?thesis
  proof (cases "delta \<le> uint w")
    case True
    then have "u64_of delta \<le> w" by (simp add: u64_le_iff d)
    then have "uint (w - u64_of delta) = uint w - delta" by (simp add: nowrap d)
    with True assms show ?thesis
      by (simp add: wall_Subtract_def ToMicroseconds_def Let_def u64_less_iff)
  next
    case False
    then have "uint (w - u64_of delta) = (uint w - delta) mod 2 ^ 64"
      by (simp add: uint_word_ariths d)
    also have "\<dots> = (uint w - delta + 2 ^ 64) mod 2 ^ 64" by simp
    also have "\<dots> = uint w - delta + 2 ^ 64"
      using False assms pow by (intro mod_pos_pos_trivial) linarith+
    finally show ?thesis
      using False assms by (simp add: wall_Subtract_def ToMicroseconds_def Let_def u64_less_iff)
  qed
qed

lemma AbsoluteDifference_eq: "AbsoluteDifference w v = min int64_max \<bar>uint w - uint v\<bar>"
proof -
  define d where "d = (if v < w then w - v else v - w)"
  have d: "uint d = \<bar>uint w - uint v\<bar>"
    by (auto simp: d_def u64_less_iff nowrap u64_le_iff)
  have m: "uint (u64_of int64_max) = int64_max" by (simp add: int64_max_def uint_u64_of)
  show ?thesis
    unfolding AbsoluteDifference_def d_def [symmetric] Let_def FromMicroseconds_def
    using d m by (auto simp: u64_less_iff i64_of_small int64_max_def)
qed

subsection \<open>The accumulator of elapsed times\<close>

record time_accumulator =
  ta_total_elapsed :: time_delta
  ta_last_start_time :: quic_time

definition NotRunningSentinel :: quic_time where "NotRunningSentinel = time_Infinite"

definition ta_init :: time_accumulator where
  "ta_init = \<lparr>ta_total_elapsed = delta_Zero, ta_last_start_time = NotRunningSentinel\<rparr>"

definition ta_IsRunning :: "time_accumulator \<Rightarrow> bool" where
  "ta_IsRunning a \<longleftrightarrow> ta_last_start_time a \<noteq> NotRunningSentinel"

definition ta_Start :: "quic_time \<Rightarrow> time_accumulator \<Rightarrow> time_accumulator" where
  "ta_Start now a = a\<lparr>ta_last_start_time := now\<rparr>"

definition ta_Stop :: "quic_time \<Rightarrow> time_accumulator \<Rightarrow> time_accumulator" where
  "ta_Stop now a =
     (let a = (if ta_last_start_time a < now
               then a\<lparr>ta_total_elapsed := delta_plus (ta_total_elapsed a) (time_diff now (ta_last_start_time a))\<rparr>
               else a)
      in a\<lparr>ta_last_start_time := NotRunningSentinel\<rparr>)"

definition ta_GetTotalElapsedTime :: "time_accumulator \<Rightarrow> time_delta" where
  "ta_GetTotalElapsedTime a = ta_total_elapsed a"

definition ta_GetTotalElapsedTime_now :: "quic_time \<Rightarrow> time_accumulator \<Rightarrow> time_delta" where
  "ta_GetTotalElapsedTime_now now a =
     (if \<not> ta_IsRunning a then ta_total_elapsed a
      else if now \<le> ta_last_start_time a then ta_total_elapsed a
      else delta_plus (ta_total_elapsed a) (time_diff now (ta_last_start_time a)))"

lemma ta_Stop_not_running [simp]: "\<not> ta_IsRunning (ta_Stop now a)"
  by (simp add: ta_Stop_def ta_IsRunning_def Let_def)

lemma ta_Stop_total:
  "in_i64 now \<Longrightarrow> ta_GetTotalElapsedTime (ta_Stop now a) = ta_GetTotalElapsedTime_now now a"
  by (auto simp: ta_Stop_def ta_GetTotalElapsedTime_def ta_GetTotalElapsedTime_now_def Let_def
      ta_IsRunning_def NotRunningSentinel_def time_consts int64_max_def in_i64_def)

lemma ta_interval_total:
  "in_i64 e \<Longrightarrow> ta_total_elapsed (ta_Stop e (ta_Start s a)) = i64 (ta_total_elapsed a + max 0 (e - s))
    \<or> e \<le> s \<and> ta_total_elapsed (ta_Stop e (ta_Start s a)) = ta_total_elapsed a"
  by (auto simp: ta_Stop_def ta_Start_def Let_def time_arith)

lemma ta_intervals_total:
  "list_all (\<lambda>(s, e). in_i64 s \<and> in_i64 e) ivs
    \<Longrightarrow> i64 (ta_total_elapsed (fold (\<lambda>(s, e) a. ta_Stop e (ta_Start s a)) ivs a))
      = i64 (ta_total_elapsed a + (\<Sum>(s, e)\<leftarrow>ivs. max 0 (e - s)))"
proof (induction ivs arbitrary: a)
  case (Cons iv ivs)
  obtain s e where iv: "iv = (s, e)" by (cases iv)
  have step: "i64 (ta_total_elapsed (ta_Stop e (ta_Start s a))) = i64 (ta_total_elapsed a + max 0 (e - s))"
    by (auto simp: ta_Stop_def ta_Start_def Let_def time_arith max_def)
  have cong: "i64 (x + r) = i64 (y + r)" if "i64 x = i64 y" for x y r
    by (metis that i64_add_left)
  show ?case
    using Cons.IH [of "ta_Stop e (ta_Start s a)"] Cons.prems cong [OF step]
    by (simp add: iv add.assoc)
qed simp

subsection \<open>Properties\<close>

text \<open>An accumulator started and stopped for a list of intervals has gained exactly the sum of their
  lengths, an interval that ends before it starts counting as empty (modulo the width of a delta).\<close>

theorem accumulator_sums_intervals:
  assumes "list_all (\<lambda>(s, e). in_i64 s \<and> in_i64 e) ivs"
  shows "i64 (ta_GetTotalElapsedTime (fold (\<lambda>(s, e) a. ta_Stop e (ta_Start s a)) ivs ta_init))
    = i64 (\<Sum>(s, e)\<leftarrow>ivs. max 0 (e - s))"
  using ta_intervals_total [OF assms, of ta_init] by (simp add: ta_GetTotalElapsedTime_def ta_init_def time_consts)

lemma accumulator_sums_intervals_witness:
  "i64 (ta_GetTotalElapsedTime (fold (\<lambda>(s, e) a. ta_Stop e (ta_Start s a)) [(10, 30), (50, 40), (60, 65)] ta_init)) = 25"
  using accumulator_sums_intervals [of "[(10, 30), (50, 40), (60, 65)]"] by (simp add: in_i64_def i64_small)

text \<open>Adding a negative delta to a wall time gives the latest representable time instead of an earlier
  one: the sum wraps above the old value, which the code takes for an overflow.\<close>

theorem wall_add_negative_saturates:
  assumes "- (2 ^ 63) < delta" "delta < 0" "- delta \<le> uint w"
  shows "uint (wall_Add w delta) = 2 ^ 64 - 1 \<and> uint (wall_Subtract w (- delta)) = uint w + delta"
  using wall_Add_uint [of delta w] wall_Subtract_uint [of "- delta" w] assms by simp

lemma wall_add_negative_saturates_witness:
  "uint (wall_Add (FromUNIXSeconds 5) (- 1)) = 2 ^ 64 - 1 \<and> uint (wall_Subtract (FromUNIXSeconds 5) 1) = 4999999"
  using wall_add_negative_saturates [of "- 1" "FromUNIXSeconds 5"] by (simp add: FromUNIXSeconds_def)

end
