(* ===== verification/Quic_Bandwidth.thy ===== *)
theory Quic_Bandwidth
  imports Quic_Time
begin

section \<open>Bandwidth\<close>

text \<open>
  \<open>QuicBandwidth\<close> of \<open>quic/quic_bandwidth.h\<close>: a number of bits per second, an \<open>int64_t\<close> that
  the only constructor keeps non-negative. \<open>kNumMicrosPerSecond\<close> is a \<open>uint64_t\<close>, so the
  divisions by it are unsigned. The lemmas bound a transfer over a period by the bandwidth,
  relate the rate of a transfer to its bytes, and bound the scaling by a gain.
\<close>

type_synonym bandwidth = int64

definition kNumMicrosPerSecond :: u64 where "kNumMicrosPerSecond = 1000 * 1000"

definition mk_bandwidth :: "int64 \<Rightarrow> bandwidth" where
  "mk_bandwidth bits_per_second = (if 0 \<le> bits_per_second then bits_per_second else 0)"

definition bw_Zero :: bandwidth where "bw_Zero = mk_bandwidth 0"
definition bw_Infinite :: bandwidth where "bw_Infinite = mk_bandwidth int64_max"
definition FromBitsPerSecond :: "int64 \<Rightarrow> bandwidth" where "FromBitsPerSecond b = mk_bandwidth b"
definition FromKBitsPerSecond :: "int64 \<Rightarrow> bandwidth" where
  "FromKBitsPerSecond k = mk_bandwidth (i64 (k * 1000))"
definition FromBytesPerSecond :: "int64 \<Rightarrow> bandwidth" where
  "FromBytesPerSecond b = mk_bandwidth (i64 (b * 8))"
definition FromKBytesPerSecond :: "int64 \<Rightarrow> bandwidth" where
  "FromKBytesPerSecond k = mk_bandwidth (i64 (k * 8000))"

text \<open>\<open>None\<close>: a division by zero.\<close>

definition FromBytesAndTimeDelta :: "byte_count \<Rightarrow> time_delta \<Rightarrow> bandwidth option" where
  "FromBytesAndTimeDelta bytes delta =
     (if bytes = 0 then Some (mk_bandwidth 0)
      else let num_micro_bits = i64_of (8 * bytes * kNumMicrosPerSecond)
           in if num_micro_bits < ToMicroseconds delta then Some (mk_bandwidth 1)
              else if ToMicroseconds delta = 0 then None
              else Some (mk_bandwidth (num_micro_bits sdiv ToMicroseconds delta)))"

definition ToBitsPerSecond :: "bandwidth \<Rightarrow> int64" where "ToBitsPerSecond b = b"
definition ToKBitsPerSecond :: "bandwidth \<Rightarrow> int64" where "ToKBitsPerSecond b = b sdiv 1000"
definition ToBytesPerSecond :: "bandwidth \<Rightarrow> int64" where "ToBytesPerSecond b = b sdiv 8"
definition ToKBytesPerSecond :: "bandwidth \<Rightarrow> int64" where "ToKBytesPerSecond b = b sdiv 8000"

definition ToBytesPerPeriod :: "bandwidth \<Rightarrow> time_delta \<Rightarrow> byte_count" where
  "ToBytesPerPeriod b time_period =
     u64_of (i64 (b * ToMicroseconds time_period) sdiv 8) div kNumMicrosPerSecond"

definition ToKBytesPerPeriod :: "bandwidth \<Rightarrow> time_delta \<Rightarrow> int64" where
  "ToKBytesPerPeriod b time_period =
     i64_of (u64_of (i64 (b * ToMicroseconds time_period) sdiv 8000) div kNumMicrosPerSecond)"

definition bw_IsZero :: "bandwidth \<Rightarrow> bool" where "bw_IsZero b \<longleftrightarrow> b = 0"
definition bw_IsInfinite :: "bandwidth \<Rightarrow> bool" where "bw_IsInfinite b \<longleftrightarrow> b = ToBitsPerSecond bw_Infinite"

definition TransferTime :: "bandwidth \<Rightarrow> byte_count \<Rightarrow> time_delta" where
  "TransferTime b bytes =
     (if b = 0 then delta_Zero
      else FromMicroseconds (i64_of (bytes * 8 * kNumMicrosPerSecond div u64_of b)))"

definition bw_plus :: "bandwidth \<Rightarrow> bandwidth \<Rightarrow> bandwidth" where "bw_plus a b = mk_bandwidth (i64 (a + b))"
definition bw_minus :: "bandwidth \<Rightarrow> bandwidth \<Rightarrow> bandwidth" where "bw_minus a b = mk_bandwidth (i64 (a - b))"

text \<open>\<open>operator*(QuicBandwidth, float)\<close>: the integer operand is converted to \<open>float\<close>.\<close>

definition bw_mult :: "bandwidth \<Rightarrow> cfloat \<Rightarrow> bandwidth" where
  "bw_mult b g = mk_bandwidth (llround (f32 (f32 (of_int b) * g)))"

definition bw_times_delta :: "bandwidth \<Rightarrow> time_delta \<Rightarrow> byte_count" where
  "bw_times_delta b d = ToBytesPerPeriod b d"

subsection \<open>Values stay non-negative and in range\<close>

definition bw_ok :: "bandwidth \<Rightarrow> bool" where
  "bw_ok b \<longleftrightarrow> 0 \<le> b \<and> b < 2 ^ 63"

lemma bw_ok_mk: "in_i64 x \<Longrightarrow> bw_ok (mk_bandwidth x)"
  by (simp add: bw_ok_def mk_bandwidth_def in_i64_def)

lemma mk_bandwidth_id [simp]: "0 \<le> x \<Longrightarrow> mk_bandwidth x = x"
  by (simp add: mk_bandwidth_def)

lemma mk_bandwidth_nonneg [simp]: "0 \<le> mk_bandwidth x"
  by (simp add: mk_bandwidth_def)

lemma bw_ok_arith [simp]:
  "bw_ok bw_Zero" "bw_ok bw_Infinite" "bw_ok (bw_plus a b)" "bw_ok (bw_minus a b)" "bw_ok (bw_mult a g)"
  unfolding bw_Zero_def bw_Infinite_def bw_plus_def bw_minus_def bw_mult_def
  by (rule bw_ok_mk, simp add: in_i64_def int64_max_def,
      rule bw_ok_mk, simp add: in_i64_def int64_max_def)
    (intro bw_ok_mk in_i64_i64 in_i64_llround)+

lemma sdiv_range: "in_i64 a \<Longrightarrow> b \<noteq> 0 \<Longrightarrow> a \<noteq> - (2 ^ 63) \<Longrightarrow> in_i64 (a sdiv b)"
proof -
  assume a: "in_i64 a" "b \<noteq> 0" "a \<noteq> - (2 ^ 63)"
  have "\<bar>a\<bar> div \<bar>b\<bar> \<le> \<bar>a\<bar>" using a(2) by (intro int_div_le) auto
  moreover have "0 \<le> \<bar>a\<bar> div \<bar>b\<bar>" using a(2) by (simp add: pos_imp_zdiv_nonneg_iff)
  ultimately have "\<bar>a sdiv b\<bar> \<le> \<bar>a\<bar>"
    by (auto simp: signed_divide_int_def abs_mult sgn_if)
  with a(1,3) show ?thesis by (auto simp: in_i64_def)
qed

lemma bw_ok_FromBytesAndTimeDelta: "FromBytesAndTimeDelta bytes delta = Some b \<Longrightarrow> 0 \<le> b"
  by (auto simp: FromBytesAndTimeDelta_def Let_def split: if_splits)

subsection \<open>Transfers\<close>

lemma uint_micro_bits:
  "uint bytes * 8000000 < 2 ^ 63 \<Longrightarrow> uint (8 * bytes * kNumMicrosPerSecond) = uint bytes * 8000000"
  by (simp add: kNumMicrosPerSecond_def uint_word_ariths mod_simps)

lemma FromBytesAndTimeDelta_eq:
  assumes "uint bytes * 8000000 < 2 ^ 63" "0 < delta"
  shows "FromBytesAndTimeDelta bytes delta =
    Some (if bytes = 0 then 0 else max 1 (uint bytes * 8000000 div delta))"
proof (cases "bytes = 0")
  case True
  then show ?thesis by (simp add: FromBytesAndTimeDelta_def)
next
  case False
  define n where "n = uint bytes * 8000000"
  have "0 < uint bytes" using False by (simp add: uint_pos)
  then have n: "0 < n" by (simp add: n_def)
  have "uint (8 * bytes * kNumMicrosPerSecond) < 2 ^ 63" using assms uint_micro_bits [of bytes] by simp
  then have w: "i64_of (8 * bytes * kNumMicrosPerSecond) = n"
    using uint_micro_bits [OF assms(1)] by (simp add: i64_of_small n_def)
  show ?thesis
  proof (cases "n < delta")
    case True
    then have "n div delta = 0" using n by simp
    with True False w show ?thesis
      by (simp add: FromBytesAndTimeDelta_def ToMicroseconds_def n_def)
  next
    case F: False
    then have "1 \<le> n div delta" using assms(2) zdiv_mono1 [of delta n delta] by simp
    with F False w assms(2) n show ?thesis
      by (simp add: FromBytesAndTimeDelta_def ToMicroseconds_def n_def sdiv_nonneg)
  qed
qed

text \<open>The bytes a bandwidth lets through in a period, when the product does not overflow.\<close>

lemma uint_ToBytesPerPeriod:
  assumes "0 \<le> b" "0 \<le> d" "b * d < 2 ^ 63"
  shows "uint (ToBytesPerPeriod b d) = b * d div 8000000"
proof -
  have p: "0 \<le> b * d" using assms by simp
  then have "i64 (b * d) = b * d" using assms by (intro i64_id in_i64_nonneg)
  moreover have "uint (u64_of (b * d div 8)) = b * d div 8"
    using p assms by (intro uint_u64_of) (auto simp: div_int_pos_iff)
  ultimately show ?thesis using p
    by (simp add: ToBytesPerPeriod_def ToMicroseconds_def sdiv_nonneg uint_div_distrib
        kNumMicrosPerSecond_def zdiv_zmult2_eq [symmetric])
qed

lemma ToBytesPerPeriod_mono:
  assumes "0 \<le> b" "b \<le> c" "0 \<le> d" "c * d < 2 ^ 63"
  shows "ToBytesPerPeriod b d \<le> ToBytesPerPeriod c d"
proof -
  have "b * d \<le> c * d" using assms by (intro mult_right_mono) auto
  with assms show ?thesis
    by (simp add: u64_le_iff uint_ToBytesPerPeriod zdiv_mono1)
qed

lemma TransferTime_eq:
  assumes "0 < b" "b < 2 ^ 63" "uint bytes * 8000000 < 2 ^ 63"
  shows "TransferTime b bytes = uint bytes * 8000000 div b"
proof -
  have "uint (bytes * 8 * kNumMicrosPerSecond) = uint bytes * 8000000"
    using uint_micro_bits [OF assms(3)] by (simp add: mult.commute mult.left_commute)
  moreover have "uint (u64_of b) = b" using assms by (simp add: uint_u64_of)
  ultimately have u: "uint (bytes * 8 * kNumMicrosPerSecond div u64_of b) = uint bytes * 8000000 div b"
    by (simp add: uint_div_distrib)
  have "uint bytes * 8000000 div b \<le> uint bytes * 8000000"
    using assms by (intro int_div_le) auto
  moreover have "uint bytes * 8000000 < 2 ^ 63" using assms(3) by simp
  ultimately have "uint (bytes * 8 * kNumMicrosPerSecond div u64_of b) < 2 ^ 63" using u by simp
  then show ?thesis using assms(1) u
    by (simp add: TransferTime_def FromMicroseconds_def i64_of_small)
qed

lemma transfer_within_period:
  assumes "0 < b" "b < 2 ^ 63" "0 \<le> d" "b * d < 2 ^ 63"
  shows "TransferTime b (ToBytesPerPeriod b d) \<le> d"
proof -
  have bd: "0 \<le> b * d" using assms by simp
  have u: "uint (ToBytesPerPeriod b d) = b * d div 8000000"
    using assms by (intro uint_ToBytesPerPeriod) auto
  have le: "b * d div 8000000 * 8000000 \<le> b * d" by simp
  then have "uint (ToBytesPerPeriod b d) * 8000000 < 2 ^ 63" using u assms(4) by linarith
  then have "TransferTime b (ToBytesPerPeriod b d) = (b * d div 8000000 * 8000000) div b"
    using TransferTime_eq [OF assms(1,2)] u by simp
  also have "\<dots> \<le> (b * d) div b" using assms(1) le by (intro zdiv_mono1) auto
  finally show ?thesis using assms(1) by simp
qed

subsection \<open>Scaling by a gain\<close>

lemma bw_mult_small:
  assumes "0 \<le> b" "b \<le> 2 ^ 24" "0 \<le> g" "of_int b * g \<le> 2 ^ 60"
  shows "bw_mult b g = llround (f32 (of_int b * g))"
proof -
  have "f32 (of_int b * g) \<le> of_int b * g * (1 + 1 / 2 ^ 24)"
    using assms by (intro rnd_upper) auto
  also have "\<dots> \<le> 2 ^ 60 * (1 + 1 / 2 ^ 24)" using assms by (intro mult_right_mono) auto
  also have "\<dots> \<le> (2 ^ 62 :: rat)" by simp
  finally have "0 \<le> llround (f32 (of_int b * g))"
    using assms by (intro llround_nonneg rnd_nonneg) auto
  with assms show ?thesis by (simp add: bw_mult_def rnd_of_int)
qed

lemma bw_mult_one: "0 \<le> b \<Longrightarrow> b \<le> 2 ^ 24 \<Longrightarrow> bw_mult b 1 = b"
  by (simp add: bw_mult_def rnd_of_int llround_of_int in_i64_def)

lemma bw_mult_mono:
  assumes "0 \<le> b" "b \<le> c" "0 \<le> g" "f32 (f32 (of_int c) * g) \<le> 2 ^ 62"
  shows "bw_mult b g \<le> bw_mult c g"
proof -
  have "f32 (of_int b) \<le> f32 (of_int c)" using assms by (intro rnd_mono) auto
  then have "f32 (of_int b) * g \<le> f32 (of_int c) * g" using assms by (intro mult_right_mono) auto
  then have m: "f32 (f32 (of_int b) * g) \<le> f32 (f32 (of_int c) * g)"
    using assms by (intro rnd_mono) (auto intro!: mult_nonneg_nonneg rnd_nonneg)
  have "llround (f32 (f32 (of_int b) * g)) \<le> llround (f32 (f32 (of_int c) * g))"
    using assms m by (intro llround_mono) (auto intro!: mult_nonneg_nonneg rnd_nonneg)
  then show ?thesis by (simp add: bw_mult_def mk_bandwidth_def)
qed

lemma bw_mult_Infinite_one: "bw_mult bw_Infinite 1 = 0"
proof -
  have "f32 9223372036854775807 = 9223372036854775808"
  proof (rule antisym)
    have "f32 9223372036854775807 \<le> f32 9223372036854775808" by (intro rnd_mono) auto
    also have "f32 9223372036854775808 = (9223372036854775808 :: rat)"
      by (rule rnd_exact [where m = 1 and e = 63]) auto
    finally show "f32 9223372036854775807 \<le> 9223372036854775808" .
  next
    have "\<lfloor>9223372036854775807 / 549755813888 :: rat\<rfloor> = 16777215" by (simp add: floor_eq_iff)
    then show "9223372036854775808 \<le> f32 9223372036854775807"
      by (simp add: rnd_def Let_def log2_quot_def zlog2.simps rhe_def)
  qed
  moreover have "f32 9223372036854775808 = (9223372036854775808 :: rat)"
    by (rule rnd_exact [where m = 1 and e = 63]) auto
  ultimately show ?thesis
    by (simp add: bw_mult_def bw_Infinite_def int64_max_def llround_def i64_or_indefinite_def
        in_i64_def mk_bandwidth_def)
qed

lemma bw_mult_shrinks:
  assumes "0 \<le> b" "b \<le> 2 ^ 62" "0 \<le> g" "g \<le> 3 / 4"
  shows "bw_mult b g \<le> b"
proof (cases "b = 0")
  case True
  then show ?thesis by (simp add: bw_mult_def mk_bandwidth_def llround_def i64_or_indefinite_def in_i64_def)
next
  case False
  let ?b = "of_int b :: rat" and ?e = "1 + 1 / 2 ^ 24 :: rat"
  let ?x = "f32 (f32 ?b * g)"
  have b: "1 \<le> b" "1 \<le> ?b" using False assms(1) by simp_all
  have bb: "?b \<le> 2 ^ 62" using assms(2) by (metis of_int_le_iff of_int_numeral of_int_power)
  have "0 \<le> f32 ?b" using b by (intro rnd_nonneg) simp
  then have nn: "0 \<le> f32 ?b * g" using assms by simp
  have "f32 ?b * g \<le> ?b * ?e * (3 / 4)"
    using rnd_upper [of ?b 24] b assms \<open>0 \<le> f32 ?b\<close> by (intro mult_mono) auto
  then have "f32 ?b * g * ?e \<le> ?b * ?e * (3 / 4) * ?e" by (intro mult_right_mono) auto
  then have "?x \<le> ?b * ?e * (3 / 4) * ?e"
    using rnd_upper [OF nn, of 24] by linarith
  then have x: "?x < ?b * (4 / 5)" using b by (auto simp: field_simps)
  have x0: "0 \<le> ?x" using nn by (rule rnd_nonneg)
  have "?x \<le> 2 ^ 62" using x b bb by linarith
  then have "bw_mult b g = \<lfloor>?x + 1 / 2\<rfloor>"
    using x0 by (simp add: bw_mult_def mk_bandwidth_def llround_eq)
  also have "\<dots> \<le> b"
  proof -
    have "?x + 1 / 2 < of_int b + 1" using x b by linarith
    then show ?thesis by (simp add: floor_le_iff)
  qed
  finally show ?thesis .
qed

subsection \<open>Properties\<close>

text \<open>The bytes that a bandwidth lets through in a period can be transferred at that bandwidth within
  the period, and they are the exact quotient, as long as the product fits 63 bits.\<close>

theorem transfer_fits_period:
  assumes "0 < b" "b < 2 ^ 63" "0 \<le> d" "b * d < 2 ^ 63"
  shows "uint (ToBytesPerPeriod b d) = b * d div 8000000 \<and> TransferTime b (ToBytesPerPeriod b d) \<le> d"
  using transfer_within_period [OF assms] uint_ToBytesPerPeriod [of b d] assms by simp

lemma transfer_fits_period_witness:
  "uint (ToBytesPerPeriod 10000000 50000) = 62500 \<and> TransferTime 10000000 (ToBytesPerPeriod 10000000 50000) \<le> 50000"
  using transfer_fits_period [of 10000000 50000] by simp

text \<open>The bandwidth of some bytes in some time is defined for every time but zero; it is the rounded
  down quotient in bits per second, and at least one bit per second where there are bytes.\<close>

theorem bandwidth_of_bytes_and_time:
  assumes "uint bytes * 8000000 < 2 ^ 63" "0 < delta"
  shows "FromBytesAndTimeDelta bytes delta = Some (if bytes = 0 then 0 else max 1 (uint bytes * 8000000 div delta))
    \<and> (bytes \<noteq> 0 \<longrightarrow> FromBytesAndTimeDelta bytes 0 = None)"
proof -
  have "i64_of (8 * bytes * kNumMicrosPerSecond) = uint bytes * 8000000"
    using uint_micro_bits [OF assms(1)] assms(1) by (simp add: i64_of_small)
  then have "bytes \<noteq> 0 \<longrightarrow> FromBytesAndTimeDelta bytes 0 = None"
    using uint_pos [of bytes] by (simp add: FromBytesAndTimeDelta_def ToMicroseconds_def)
  with FromBytesAndTimeDelta_eq [OF assms] show ?thesis by blast
qed

lemma bandwidth_of_bytes_and_time_witness:
  "FromBytesAndTimeDelta 1460 50000 = Some 233600 \<and> FromBytesAndTimeDelta 1460 0 = None"
  using bandwidth_of_bytes_and_time [of 1460 50000] by simp

text \<open>The infinite bandwidth multiplied by one is the zero bandwidth: the product leaves the range of
  the rounding function, whose result the constructor takes for a negative bandwidth.\<close>

theorem infinite_bandwidth_times_one_is_zero: "bw_mult bw_Infinite 1 = bw_Zero"
  using bw_mult_Infinite_one by (simp add: bw_Zero_def)

end
