(* ===== verification/Unacked_Map.thy ===== *)
theory Unacked_Map
  imports Circular_Deque Packet_Number Quic_Time
begin

section \<open>The map of unacked packets\<close>

text \<open>
  \<open>QuicTransmissionInfo\<close> and \<open>QuicUnackedPacketMap\<close> of \<open>quic/quic_unacked_packet_map.h\<close> and
  \<open>.cc\<close>, with the packet types of \<open>quic/quic_types.h\<close> and \<open>packet/packet.h\<close> they use. The
  sent packets are in a deque; the packet number of an entry is \<open>least_unacked_\<close> plus its
  position. An access at a packet number outside the deque is undefined (\<open>None\<close>), and so
  is a loop that does not end.

  The lemmas show that \<open>bytes_in_flight_\<close> and \<open>packets_in_flight_\<close> are the sum and the
  number of the packets marked in flight after every operation, that entries sit at the
  position of their packet number, and what the removal of obsolete packets keeps.
\<close>

subsection \<open>Packets\<close>

datatype sent_packet_state = OUTSTANDING | NEVER_SENT | ACKED | UNACKABLE | NEUTERED
  | HANDSHAKE_RETRANSMITTED | LOST | TLP_RETRANSMITTED | RTO_RETRANSMITTED | PTO_RETRANSMITTED
  | PROBE_RETRANSMITTED | NOT_CONTRIBUTING_RTT

datatype perspective = IS_SERVER | IS_CLIENT

datatype packet_number_space = INITIAL_DATA | HANDSHAKE_DATA | APPLICATION_DATA
  | NUM_PACKET_NUMBER_SPACES

primrec pns_index :: "packet_number_space \<Rightarrow> nat" where
  "pns_index INITIAL_DATA = 0"
| "pns_index HANDSHAKE_DATA = 1"
| "pns_index APPLICATION_DATA = 2"
| "pns_index NUM_PACKET_NUMBER_SPACES = 3"

record transmission_info =
  ti_packet_number :: packet_number
  ti_sent_time :: quic_time
  ti_bytes_sent :: u16
  ti_in_flight :: bool
  ti_state :: sent_packet_state
  ti_first_sent_after_loss :: packet_number

definition ti_default :: transmission_info where
  "ti_default = \<lparr>ti_packet_number = UninitializedPacketNumber, ti_sent_time = time_Zero,
     ti_bytes_sent = 0, ti_in_flight = False, ti_state = OUTSTANDING,
     ti_first_sent_after_loss = UninitializedPacketNumber\<rparr>"

definition ti_new :: "packet_number \<Rightarrow> quic_time \<Rightarrow> u16 \<Rightarrow> transmission_info" where
  "ti_new number sent_time bytes_sent = \<lparr>ti_packet_number = number, ti_sent_time = sent_time,
     ti_bytes_sent = bytes_sent, ti_in_flight = False, ti_state = OUTSTANDING,
     ti_first_sent_after_loss = UninitializedPacketNumber\<rparr>"

record serialized_packet =
  sp_packet_number :: packet_number
  sp_encrypted_length :: u16
  sp_send_time :: quic_time

record acked_packet =
  ap_packet_number :: packet_number
  ap_bytes_acked :: u16
  ap_receive_timestamp :: quic_time

record lost_packet =
  lp_packet_number :: packet_number
  lp_bytes_lost :: u16

definition WillStreamFrameLengthSumWrapAround :: "u16 \<Rightarrow> u16 \<Rightarrow> bool" where
  "WillStreamFrameLengthSumWrapAround lhs rhs \<longleftrightarrow> 0xFFFF - lhs < rhs"

subsection \<open>State and operations\<close>

record unacked_map =
  um_perspective :: perspective
  um_largest_sent_packet :: packet_number
  um_largest_sent_retransmittable_packets :: "packet_number list"
  um_largest_sent_largest_acked :: packet_number
  um_largest_acked :: packet_number
  um_largest_acked_packets :: "packet_number list"
  um_unacked_packets :: "transmission_info deque"
  um_least_unacked :: packet_number
  um_bytes_in_flight :: byte_count
  um_bytes_in_flight_per_space :: "byte_count list"
  um_packets_in_flight :: packet_count
  um_last_inflight_packet_sent_time :: quic_time
  um_last_inflight_packets_sent_time :: "quic_time list"
  um_last_crypto_packet_sent_time :: quic_time
  um_supports_multiple_spaces :: bool

definition FirstSendingPacketNumber :: packet_number where
  "FirstSendingPacketNumber = 1"

definition um_new :: "perspective \<Rightarrow> unacked_map" where
  "um_new perspective = \<lparr>um_perspective = perspective,
     um_largest_sent_packet = UninitializedPacketNumber,
     um_largest_sent_retransmittable_packets = replicate 3 UninitializedPacketNumber,
     um_largest_sent_largest_acked = UninitializedPacketNumber,
     um_largest_acked = UninitializedPacketNumber,
     um_largest_acked_packets = replicate 3 UninitializedPacketNumber,
     um_unacked_packets = dq_new, um_least_unacked = FirstSendingPacketNumber,
     um_bytes_in_flight = 0, um_bytes_in_flight_per_space = [0, 0, 0], um_packets_in_flight = 0,
     um_last_inflight_packet_sent_time = time_Zero,
     um_last_inflight_packets_sent_time = [time_Zero, time_Zero, time_Zero],
     um_last_crypto_packet_sent_time = time_Zero, um_supports_multiple_spaces = False\<rparr>"

definition um_empty :: "unacked_map \<Rightarrow> bool" where
  "um_empty m \<longleftrightarrow> dq_empty (um_unacked_packets m)"

text \<open>The position of a packet in the deque.\<close>

definition um_offset :: "unacked_map \<Rightarrow> packet_number \<Rightarrow> nat" where
  "um_offset m pn = unat (pn_diff pn (um_least_unacked m))"

definition um_end_number :: "unacked_map \<Rightarrow> packet_number" where
  "um_end_number m = pn_plus (um_least_unacked m) (of_nat (dq_size (um_unacked_packets m)))"

partial_function (option) um_fill_loop :: "packet_number \<Rightarrow> unacked_map \<Rightarrow> unacked_map option" where
  "um_fill_loop packet_number m =
     (if um_end_number m < packet_number
      then um_fill_loop packet_number
        (m\<lparr>um_unacked_packets :=
           dq_emplace_back (ti_default\<lparr>ti_state := NEVER_SENT\<rparr>) (um_unacked_packets m)\<rparr>)
      else Some m)"

definition AddSentPacket :: "serialized_packet \<Rightarrow> quic_time \<Rightarrow> bool \<Rightarrow> unacked_map \<Rightarrow> unacked_map option" where
  "AddSentPacket packet sent_time set_in_flight m = do {
     let packet_number = sp_packet_number packet;
     let bytes_sent = sp_encrypted_length packet;
     m \<leftarrow> um_fill_loop packet_number m;
     let info = ti_new packet_number sent_time bytes_sent;
     let m = m\<lparr>um_largest_sent_packet := packet_number\<rparr>;
     let (m, info) =
       (if set_in_flight
        then (m\<lparr>um_bytes_in_flight := um_bytes_in_flight m + ucast bytes_sent,
                um_packets_in_flight := um_packets_in_flight m + 1,
                um_last_inflight_packet_sent_time := sent_time\<rparr>, info\<lparr>ti_in_flight := True\<rparr>)
        else (m, info));
     Some (m\<lparr>um_unacked_packets := dq_emplace_back info (um_unacked_packets m)\<rparr>) }"

definition IncreaseLargestAcked :: "packet_number \<Rightarrow> unacked_map \<Rightarrow> unacked_map" where
  "IncreaseLargestAcked largest_acked m = m\<lparr>um_largest_acked := largest_acked\<rparr>"

definition MaybeUpdateLargestAckedOfPacketNumberSpace ::
    "packet_number_space \<Rightarrow> packet_number \<Rightarrow> unacked_map \<Rightarrow> unacked_map option" where
  "MaybeUpdateLargestAckedOfPacketNumberSpace space pn m =
     (let i = pns_index space in
      if i < length (um_largest_acked_packets m)
      then Some (m\<lparr>um_largest_acked_packets :=
        (um_largest_acked_packets m)[i := UpdateMax (um_largest_acked_packets m ! i) pn]\<rparr>)
      else None)"

definition IsAckable :: "sent_packet_state \<Rightarrow> bool" where
  "IsAckable state \<longleftrightarrow> state \<noteq> NEVER_SENT \<and> state \<noteq> ACKED \<and> state \<noteq> UNACKABLE"

definition IsPacketUsefulForMeasuringRtt :: "packet_number \<Rightarrow> transmission_info \<Rightarrow> bool" where
  "IsPacketUsefulForMeasuringRtt packet_number info \<longleftrightarrow> IsAckable (ti_state info)"

definition IsPacketUsefulForCongestionControl :: "transmission_info \<Rightarrow> bool" where
  "IsPacketUsefulForCongestionControl info \<longleftrightarrow> ti_in_flight info"

definition IsPacketUseless :: "packet_number \<Rightarrow> transmission_info \<Rightarrow> bool" where
  "IsPacketUseless packet_number info \<longleftrightarrow>
     \<not> IsPacketUsefulForMeasuringRtt packet_number info \<and> \<not> IsPacketUsefulForCongestionControl info"

definition GetTransmissionInfo :: "packet_number \<Rightarrow> unacked_map \<Rightarrow> transmission_info option" where
  "GetTransmissionInfo pn m = dq_at (um_unacked_packets m) (um_offset m pn)"

text \<open>Assignment through the pointer \<open>GetMutableTransmissionInfo\<close> returns.\<close>

definition um_set_info :: "packet_number \<Rightarrow> transmission_info \<Rightarrow> unacked_map \<Rightarrow> unacked_map option" where
  "um_set_info pn info m = do {
     d \<leftarrow> dq_set (um_offset m pn) info (um_unacked_packets m);
     Some (m\<lparr>um_unacked_packets := d\<rparr>) }"

definition IsUnacked :: "packet_number \<Rightarrow> unacked_map \<Rightarrow> bool option" where
  "IsUnacked packet_number m =
     (if packet_number < um_least_unacked m \<or> um_end_number m \<le> packet_number then Some False
      else do {
        info \<leftarrow> dq_at (um_unacked_packets m) (um_offset m packet_number);
        Some (\<not> IsPacketUseless packet_number info) })"

definition RemoveFromInFlight :: "packet_number \<Rightarrow> unacked_map \<Rightarrow> unacked_map option" where
  "RemoveFromInFlight packet_number m = do {
     info \<leftarrow> GetTransmissionInfo packet_number m;
     if ti_in_flight info
     then um_set_info packet_number (info\<lparr>ti_in_flight := False\<rparr>)
       (m\<lparr>um_bytes_in_flight := um_bytes_in_flight m - ucast (ti_bytes_sent info),
          um_packets_in_flight := um_packets_in_flight m - 1\<rparr>)
     else Some m }"

definition um_set_state :: "packet_number \<Rightarrow> sent_packet_state \<Rightarrow> unacked_map \<Rightarrow> unacked_map option" where
  "um_set_state packet_number st m = do {
     info \<leftarrow> GetTransmissionInfo packet_number m;
     um_set_info packet_number (info\<lparr>ti_state := st\<rparr>) m }"

definition HasInFlightPackets :: "unacked_map \<Rightarrow> bool" where
  "HasInFlightPackets m \<longleftrightarrow> 0 < um_bytes_in_flight m"

partial_function (option) RemoveObsoletePackets :: "unacked_map \<Rightarrow> unacked_map option" where
  "RemoveObsoletePackets m =
     (if dq_empty (um_unacked_packets m) then Some m
      else Option.bind (dq_front (um_unacked_packets m)) (\<lambda>info.
        if \<not> IsPacketUseless (um_least_unacked m) info then Some m
        else Option.bind (dq_pop_front (um_unacked_packets m)) (\<lambda>d.
          RemoveObsoletePackets
            (m\<lparr>um_unacked_packets := d, um_least_unacked := pn_inc (um_least_unacked m)\<rparr>))))"

fun count_unacked :: "packet_number \<Rightarrow> transmission_info list \<Rightarrow> nat \<Rightarrow> nat" where
  "count_unacked packet_number [] n = n"
| "count_unacked packet_number (info # infos) n =
     count_unacked (pn_inc packet_number) infos
       (if \<not> IsPacketUseless packet_number info then n + 1 else n)"

definition GetNumUnackedPacketsDebugOnly :: "unacked_map \<Rightarrow> nat option" where
  "GetNumUnackedPacketsDebugOnly m = do {
     infos \<leftarrow> dq_elements (um_unacked_packets m);
     Some (count_unacked (um_least_unacked m) infos 0) }"

definition kDefaultTCPMSS :: byte_count where "kDefaultTCPMSS = 1460"

fun two_in_flight :: "transmission_info list \<Rightarrow> nat \<Rightarrow> bool" where
  "two_in_flight [] num_in_flight = False"
| "two_in_flight (info # infos) num_in_flight =
     (let num_in_flight = (if ti_in_flight info then num_in_flight + 1 else num_in_flight)
      in if 1 < num_in_flight then True else two_in_flight infos num_in_flight)"

definition HasMultipleInFlightPackets :: "unacked_map \<Rightarrow> bool option" where
  "HasMultipleInFlightPackets m =
     (if kDefaultTCPMSS < um_bytes_in_flight m then Some True
      else do {
        infos \<leftarrow> dq_elements (um_unacked_packets m);
        Some (two_in_flight (rev infos) 0) })"

definition GetFirstInFlightTransmissionInfo :: "unacked_map \<Rightarrow> transmission_info option option" where
  "GetFirstInFlightTransmissionInfo m = do {
     infos \<leftarrow> dq_elements (um_unacked_packets m);
     Some (List.find ti_in_flight infos) }"

definition GetFirstInFlightTransmissionInfoOfSpace ::
    "packet_number_space \<Rightarrow> unacked_map \<Rightarrow> transmission_info option option" where
  "GetFirstInFlightTransmissionInfoOfSpace space m = do {
     infos \<leftarrow> dq_elements (um_unacked_packets m);
     Some (List.find ti_in_flight infos) }"

definition GetLastInFlightPacketSentTime :: "unacked_map \<Rightarrow> quic_time" where
  "GetLastInFlightPacketSentTime m = um_last_inflight_packet_sent_time m"
definition GetLastCryptoPacketSentTime :: "unacked_map \<Rightarrow> quic_time" where
  "GetLastCryptoPacketSentTime m = um_last_crypto_packet_sent_time m"
definition GetLeastUnacked :: "unacked_map \<Rightarrow> packet_number" where
  "GetLeastUnacked m = um_least_unacked m"

definition GetLargestAckedOfPacketNumberSpace :: "packet_number_space \<Rightarrow> unacked_map \<Rightarrow> packet_number" where
  "GetLargestAckedOfPacketNumberSpace space m =
     (if 3 \<le> pns_index space then UninitializedPacketNumber
      else um_largest_acked_packets m ! pns_index space)"

definition GetLastInFlightPacketSentTimeOfSpace :: "packet_number_space \<Rightarrow> unacked_map \<Rightarrow> quic_time" where
  "GetLastInFlightPacketSentTimeOfSpace space m =
     (if 3 \<le> pns_index space then time_Zero
      else um_last_inflight_packets_sent_time m ! pns_index space)"

definition GetLargestSentRetransmittableOfPacketNumberSpace ::
    "packet_number_space \<Rightarrow> unacked_map \<Rightarrow> packet_number" where
  "GetLargestSentRetransmittableOfPacketNumberSpace space m =
     (if 3 \<le> pns_index space then UninitializedPacketNumber
      else um_largest_sent_retransmittable_packets m ! pns_index space)"

definition EnableMultiplePacketNumberSpacesSupport :: "unacked_map \<Rightarrow> unacked_map" where
  "EnableMultiplePacketNumberSpacesSupport m =
     (if um_supports_multiple_spaces m then m
      else if IsInitialized (um_largest_sent_packet m) then m
      else m\<lparr>um_supports_multiple_spaces := True\<rparr>)"

definition ReserveInitialCapacity :: "nat \<Rightarrow> unacked_map \<Rightarrow> unacked_map" where
  "ReserveInitialCapacity n m = m\<lparr>um_unacked_packets := dq_reserve n (um_unacked_packets m)\<rparr>"

subsection \<open>The packets in flight\<close>

definition flight_bytes :: "transmission_info list \<Rightarrow> u64" where
  "flight_bytes xs = (\<Sum>info\<leftarrow>xs. if ti_in_flight info then ucast (ti_bytes_sent info) else 0)"

definition flight_count :: "transmission_info list \<Rightarrow> nat" where
  "flight_count xs = length (List.filter ti_in_flight xs)"

definition hole :: transmission_info where
  "hole = ti_default\<lparr>ti_state := NEVER_SENT\<rparr>"

lemma hole_simps [simp]: "\<not> ti_in_flight hole" "ti_packet_number hole = UninitializedPacketNumber"
  "ti_state hole = NEVER_SENT"
  by (simp_all add: hole_def ti_default_def)

lemma flight_simps [simp]:
  "flight_bytes [] = 0" "flight_count [] = 0"
  "flight_bytes (x # xs) = (if ti_in_flight x then ucast (ti_bytes_sent x) else 0) + flight_bytes xs"
  "flight_count (x # xs) = (if ti_in_flight x then 1 else 0) + flight_count xs"
  "flight_bytes (xs @ ys) = flight_bytes xs + flight_bytes ys"
  "flight_count (xs @ ys) = flight_count xs + flight_count ys"
  "flight_bytes (replicate n hole) = 0" "flight_count (replicate n hole) = 0"
  by (auto simp: flight_bytes_def flight_count_def sum_list_replicate)

lemma flight_clear:
  "k < length xs \<Longrightarrow> ti_in_flight (xs ! k)
    \<Longrightarrow> flight_bytes (xs[k := (xs ! k)\<lparr>ti_in_flight := False\<rparr>]) = flight_bytes xs - ucast (ti_bytes_sent (xs ! k))
      \<and> Suc (flight_count (xs[k := (xs ! k)\<lparr>ti_in_flight := False\<rparr>])) = flight_count xs"
proof (induction xs arbitrary: k)
  case (Cons x xs)
  then show ?case by (cases k) (auto simp: algebra_simps)
qed simp

lemma flight_same:
  "k < length xs \<Longrightarrow> ti_in_flight y = ti_in_flight (xs ! k) \<Longrightarrow> ti_bytes_sent y = ti_bytes_sent (xs ! k)
    \<Longrightarrow> flight_bytes (xs[k := y]) = flight_bytes xs \<and> flight_count (xs[k := y]) = flight_count xs"
proof (induction xs arbitrary: k)
  case (Cons x xs)
  then show ?case by (cases k) auto
qed simp

text \<open>As long as the sum does not wrap around, the byte counter is zero only without bytes.\<close>

lemma unat_flight_bytes:
  "(\<Sum>info\<leftarrow>xs. if ti_in_flight info then unat (ti_bytes_sent info) else 0) < 2 ^ 64
    \<Longrightarrow> unat (flight_bytes xs) = (\<Sum>info\<leftarrow>xs. if ti_in_flight info then unat (ti_bytes_sent info) else 0)"
proof (induction xs)
  case (Cons x xs)
  let ?u = "\<lambda>xs. \<Sum>info\<leftarrow>xs. if ti_in_flight info then unat (ti_bytes_sent info) else 0"
  have u: "unat (ucast (ti_bytes_sent x) :: u64) = unat (ti_bytes_sent x)"
    by (rule unat_ucast_u16)
  have IH: "unat (flight_bytes xs) = ?u xs" using Cons by simp
  show ?case
  proof (cases "ti_in_flight x")
    case True
    then have "unat (ucast (ti_bytes_sent x) + flight_bytes xs) = unat (ti_bytes_sent x) + ?u xs"
      using Cons.prems IH u by (subst unat_u64_plus) simp_all
    with True show ?thesis by simp
  qed (use IH in simp)
qed simp

subsection \<open>The invariant\<close>

definition um_state :: "unacked_map \<Rightarrow> transmission_info list \<Rightarrow> bool" where
  "um_state m xs \<longleftrightarrow> dq_rep (um_unacked_packets m) xs
     \<and> unat (um_least_unacked m) + length xs < 2 ^ 64 - 1
     \<and> um_bytes_in_flight m = flight_bytes xs
     \<and> um_packets_in_flight m = of_nat (flight_count xs)
     \<and> (\<forall>i < length xs. ti_packet_number (xs ! i) = UninitializedPacketNumber
          \<or> unat (ti_packet_number (xs ! i)) = unat (um_least_unacked m) + i)
     \<and> (if IsInitialized (um_largest_sent_packet m)
        then unat (um_largest_sent_packet m) + 1 = unat (um_least_unacked m) + length xs
        else xs = [])"

definition um_list :: "unacked_map \<Rightarrow> transmission_info list" where
  "um_list m = dq_list (um_unacked_packets m)"

definition um_inv :: "unacked_map \<Rightarrow> bool" where
  "um_inv m \<longleftrightarrow> um_state m (um_list m)"

lemma um_state_iff: "um_state m xs \<longleftrightarrow> um_inv m \<and> um_list m = xs"
  by (auto simp: um_inv_def um_list_def um_state_def dq_rep_list)

lemma um_stateD:
  assumes "um_state m xs"
  shows "dq_rep (um_unacked_packets m) xs" "unat (um_least_unacked m) + length xs < 2 ^ 64 - 1"
    "um_bytes_in_flight m = flight_bytes xs" "um_packets_in_flight m = of_nat (flight_count xs)"
  using assms by (simp_all add: um_state_def)

lemma um_state_new: "um_state (um_new p) []"
  by (simp add: um_state_def um_new_def dq_rep_new FirstSendingPacketNumber_def IsInitialized_def)

lemma um_offset_unat:
  "um_least_unacked m \<le> pn \<Longrightarrow> um_offset m pn = unat pn - unat (um_least_unacked m)"
  by (simp add: um_offset_def pn_diff_def unat_sub)

lemma um_end_unat:
  assumes "um_state m xs"
  shows "unat (um_end_number m) = unat (um_least_unacked m) + length xs"
proof -
  have "unat (of_nat (length xs) :: u64) = length xs"
    using um_stateD(2) [OF assms] by (intro unat_of_nat_u64) simp
  then show ?thesis
    using um_stateD(1,2) [OF assms]
    by (simp add: um_end_number_def pn_plus_def dq_rep_size nowrap)
qed

text \<open>The packet numbers the deque covers, and the entry of each.\<close>

definition um_covers :: "unacked_map \<Rightarrow> packet_number \<Rightarrow> bool" where
  "um_covers m pn \<longleftrightarrow> um_least_unacked m \<le> pn \<and> pn < um_end_number m"

definition um_info :: "unacked_map \<Rightarrow> packet_number \<Rightarrow> transmission_info option" where
  "um_info m pn = (if um_covers m pn then Some (um_list m ! um_offset m pn) else None)"

lemma um_covers_offset:
  assumes "um_state m xs" "um_covers m pn"
  shows "um_offset m pn < length xs"
  using assms um_end_unat [OF assms(1)]
  by (auto simp: um_covers_def um_offset_unat word_less_nat_alt word_le_nat_alt)

lemma um_info_state: "um_state m xs \<Longrightarrow> um_covers m pn \<Longrightarrow> um_info m pn = Some (xs ! um_offset m pn)"
  by (simp add: um_info_def um_state_iff)

lemma GetTransmissionInfo_info:
  assumes "um_inv m" "um_covers m pn"
  shows "GetTransmissionInfo pn m = um_info m pn"
proof -
  have st: "um_state m (um_list m)" using assms(1) by (simp add: um_inv_def)
  show ?thesis
    using um_info_state [OF st assms(2)] um_covers_offset [OF st assms(2)] um_stateD(1) [OF st]
    by (simp add: GetTransmissionInfo_def dq_rep_at)
qed

lemma IsUnacked_info:
  assumes "um_inv m"
  shows "IsUnacked pn m = Some (case um_info m pn of None \<Rightarrow> False
    | Some info \<Rightarrow> \<not> IsPacketUseless pn info)"
proof (cases "um_covers m pn")
  case True
  with GetTransmissionInfo_info [OF assms True] show ?thesis
    by (auto simp: IsUnacked_def GetTransmissionInfo_def um_covers_def um_info_def)
next
  case False
  then show ?thesis by (auto simp: IsUnacked_def um_covers_def um_info_def)
qed

subsection \<open>Sending a packet\<close>

lemma um_fill_loop_state:
  assumes "dq_rep (um_unacked_packets m) xs" "unat (um_least_unacked m) + length xs + n < 2 ^ 64"
    "unat pn = unat (um_least_unacked m) + length xs + n"
  shows "\<exists>d. um_fill_loop pn m = Some (m\<lparr>um_unacked_packets := d\<rparr>) \<and> dq_rep d (xs @ replicate n hole)"
  using assms
proof (induction n arbitrary: m xs)
  case (0 m xs)
  have "unat (of_nat (length xs) :: u64) = length xs" using 0 by (intro unat_of_nat_u64) simp
  then have "unat (um_end_number m) = unat pn"
    using 0 by (simp add: um_end_number_def pn_plus_def dq_rep_size nowrap)
  then have "\<not> um_end_number m < pn" by (simp add: word_less_nat_alt)
  then have "um_fill_loop pn m = Some (m\<lparr>um_unacked_packets := um_unacked_packets m\<rparr>)"
    by (simp add: um_fill_loop.simps)
  with 0 show ?case by (intro exI [of _ "um_unacked_packets m"]) simp
next
  case (Suc n m xs)
  have "unat (of_nat (length xs) :: u64) = length xs" using Suc.prems by (intro unat_of_nat_u64) simp
  then have "unat (um_end_number m) < unat pn"
    using Suc.prems by (simp add: um_end_number_def pn_plus_def dq_rep_size nowrap)
  then have lt: "um_end_number m < pn" by (simp add: word_less_nat_alt)
  let ?m = "m\<lparr>um_unacked_packets := dq_emplace_back hole (um_unacked_packets m)\<rparr>"
  have step: "um_fill_loop pn m = um_fill_loop pn ?m"
    using lt by (simp add: um_fill_loop.simps [of pn m] hole_def)
  have "\<exists>d. um_fill_loop pn ?m = Some (?m\<lparr>um_unacked_packets := d\<rparr>)
      \<and> dq_rep d ((xs @ [hole]) @ replicate n hole)"
    using Suc.prems dq_rep_emplace_back [OF Suc.prems(1), of hole] by (intro Suc.IH) simp_all
  with step show ?case by (simp add: replicate_app_Cons_same)
qed

lemma AddSentPacket_state:
  assumes st: "um_state m xs"
    and pn: "um_end_number m \<le> sp_packet_number p" "unat (sp_packet_number p) < 2 ^ 64 - 2"
  defines "k \<equiv> unat (sp_packet_number p) - (unat (um_least_unacked m) + length xs)"
  shows "\<exists>m'. AddSentPacket p t inflight m = Some m'
    \<and> um_state m' (xs @ replicate k hole
        @ [(ti_new (sp_packet_number p) t (sp_encrypted_length p))\<lparr>ti_in_flight := inflight\<rparr>])
    \<and> um_least_unacked m' = um_least_unacked m \<and> um_largest_sent_packet m' = sp_packet_number p
    \<and> um_largest_acked m' = um_largest_acked m"
proof -
  let ?pn = "sp_packet_number p"
  let ?info = "(ti_new ?pn t (sp_encrypted_length p))\<lparr>ti_in_flight := inflight\<rparr>"
  note upn = pn(2)
  have le: "unat (um_least_unacked m) + length xs \<le> unat ?pn"
    using pn(1) um_end_unat [OF st] by (simp add: word_le_nat_alt)
  then have eq: "unat ?pn = unat (um_least_unacked m) + length xs + k" by (simp only: k_def le_add_diff_inverse)
  moreover have "unat (um_least_unacked m) + length xs + k < 2 ^ 64"
    unfolding eq [symmetric] using upn by linarith
  ultimately obtain d where d: "um_fill_loop ?pn m = Some (m\<lparr>um_unacked_packets := d\<rparr>)"
      "dq_rep d (xs @ replicate k hole)"
    using um_fill_loop_state [OF um_stateD(1) [OF st]] by blast
  define m' where "m' = m\<lparr>um_unacked_packets := dq_emplace_back ?info d, um_largest_sent_packet := ?pn,
    um_bytes_in_flight := um_bytes_in_flight m + (if inflight then ucast (sp_encrypted_length p) else 0),
    um_packets_in_flight := um_packets_in_flight m + (if inflight then 1 else 0),
    um_last_inflight_packet_sent_time := (if inflight then t else um_last_inflight_packet_sent_time m)\<rparr>"
  have "AddSentPacket p t inflight m = Some m'"
    by (cases inflight) (simp_all add: AddSentPacket_def d(1) m'_def Let_def ti_new_def)
  moreover have "um_state m' (xs @ replicate k hole @ [?info])"
  proof -
    have rep: "dq_rep (dq_emplace_back ?info d) (xs @ replicate k hole @ [?info])"
      using dq_rep_emplace_back [OF d(2)] by simp
    have num: "ti_packet_number ((xs @ replicate k hole @ [?info]) ! i) = UninitializedPacketNumber
        \<or> unat (ti_packet_number ((xs @ replicate k hole @ [?info]) ! i)) = unat (um_least_unacked m) + i"
      if "i < length (xs @ replicate k hole @ [?info])" for i
    proof -
      have "i < length xs + k + 1" using that by simp
      then consider "i < length xs" | "length xs \<le> i" "i < length xs + k" | "i = length xs + k"
        by linarith
      then show ?thesis
      proof cases
        case 1
        then show ?thesis using st by (auto simp: um_state_def nth_append)
      next
        case 2
        then show ?thesis by (auto simp: nth_append)
      next
        case 3
        then show ?thesis using eq by (simp add: nth_append ti_new_def)
      qed
    qed
    have init: "IsInitialized ?pn" using pn(2) by (simp add: init_unat)
    have fl: "flight_bytes (xs @ replicate k hole @ [?info]) = um_bytes_in_flight m
          + (if inflight then ucast (sp_encrypted_length p) else 0)"
        "of_nat (flight_count (xs @ replicate k hole @ [?info])) = um_packets_in_flight m + (if inflight then 1 else 0)"
      using um_stateD(3,4) [OF st] by (auto simp: ti_new_def)
    show ?thesis
      unfolding um_state_def using rep num init fl eq upn by (simp add: m'_def)
  qed
  ultimately show ?thesis by (simp add: m'_def)
qed

subsection \<open>Changing an entry\<close>

lemma um_set_info_state:
  assumes st: "um_state m xs" and c: "um_covers m pn"
  shows "\<exists>d. um_set_info pn info m = Some (m\<lparr>um_unacked_packets := d\<rparr>)
    \<and> dq_rep d (xs[um_offset m pn := info])"
  using dq_rep_set [OF um_stateD(1) [OF st] um_covers_offset [OF st c], of info]
  by (auto simp: um_set_info_def)

text \<open>The map with the entry of \<open>pn\<close> replaced.\<close>

lemma um_state_update:
  assumes st: "um_state m xs" and k: "k < length xs" and d: "dq_rep d (xs[k := info])"
    and f: "ti_packet_number info = ti_packet_number (xs ! k)"
    and b: "b = flight_bytes (xs[k := info])" and n: "n = of_nat (flight_count (xs[k := info]))"
  shows "um_state (m\<lparr>um_unacked_packets := d, um_bytes_in_flight := b, um_packets_in_flight := n\<rparr>)
    (xs[k := info])"
proof -
  have "ti_packet_number (xs[k := info] ! i) = ti_packet_number (xs ! i)" if "i < length xs" for i
    using that f by (cases "i = k") simp_all
  with st d show ?thesis unfolding um_state_def b n by auto
qed

lemma RemoveFromInFlight_state:
  assumes st: "um_state m xs" and c: "um_covers m pn"
  defines "k \<equiv> um_offset m pn"
  shows "\<exists>m'. RemoveFromInFlight pn m = Some m' \<and> um_state m' (xs[k := (xs ! k)\<lparr>ti_in_flight := False\<rparr>])
    \<and> um_least_unacked m' = um_least_unacked m \<and> um_largest_sent_packet m' = um_largest_sent_packet m
    \<and> um_largest_acked m' = um_largest_acked m"
proof -
  have k: "k < length xs" unfolding k_def by (rule um_covers_offset [OF st c])
  have g: "GetTransmissionInfo pn m = Some (xs ! k)"
    using GetTransmissionInfo_info [of m pn] um_info_state [OF st c] st c
    by (simp add: um_state_iff k_def)
  show ?thesis
  proof (cases "ti_in_flight (xs ! k)")
    case False
    then have "(xs ! k)\<lparr>ti_in_flight := False\<rparr> = xs ! k" by simp
    then have "xs[k := (xs ! k)\<lparr>ti_in_flight := False\<rparr>] = xs" by (simp only: list_update_id)
    then show ?thesis using g False st by (simp add: RemoveFromInFlight_def)
  next
    case True
    let ?m = "m\<lparr>um_bytes_in_flight := um_bytes_in_flight m - ucast (ti_bytes_sent (xs ! k)),
          um_packets_in_flight := um_packets_in_flight m - 1\<rparr>"
    let ?i = "(xs ! k)\<lparr>ti_in_flight := False\<rparr>"
    obtain d where d: "dq_set k ?i (um_unacked_packets m) = Some d" "dq_rep d (xs[k := ?i])"
      using dq_rep_set [OF um_stateD(1) [OF st] k] by blast
    have o: "um_offset ?m pn = k" by (simp add: um_offset_def k_def)
    note fl = flight_clear [OF k True]
    have n: "of_nat (flight_count xs) - 1 = (of_nat (flight_count (xs[k := ?i])) :: u64)"
      using fl by (metis add_diff_cancel_left' of_nat_Suc)
    have "RemoveFromInFlight pn m = Some (m\<lparr>um_unacked_packets := d,
        um_bytes_in_flight := flight_bytes (xs[k := ?i]),
        um_packets_in_flight := of_nat (flight_count (xs[k := ?i]))\<rparr>)"
      using g True d(1) o fl n um_stateD(3,4) [OF st]
      by (simp add: RemoveFromInFlight_def um_set_info_def)
    with um_state_update [OF st k d(2)] show ?thesis by simp
  qed
qed

lemma um_set_state_state:
  assumes st: "um_state m xs" and c: "um_covers m pn"
  defines "k \<equiv> um_offset m pn"
  shows "\<exists>m'. um_set_state pn s m = Some m' \<and> um_state m' (xs[k := (xs ! k)\<lparr>ti_state := s\<rparr>])
    \<and> um_least_unacked m' = um_least_unacked m \<and> um_largest_sent_packet m' = um_largest_sent_packet m
    \<and> um_largest_acked m' = um_largest_acked m"
proof -
  have k: "k < length xs" unfolding k_def by (rule um_covers_offset [OF st c])
  have g: "GetTransmissionInfo pn m = Some (xs ! k)"
    using GetTransmissionInfo_info [of m pn] um_info_state [OF st c] st c
    by (simp add: um_state_iff k_def)
  let ?i = "(xs ! k)\<lparr>ti_state := s\<rparr>"
  obtain d where d: "um_set_info pn ?i m = Some (m\<lparr>um_unacked_packets := d\<rparr>)" "dq_rep d (xs[k := ?i])"
    using um_set_info_state [OF st c] unfolding k_def by blast
  have fl: "flight_bytes (xs[k := ?i]) = flight_bytes xs \<and> flight_count (xs[k := ?i]) = flight_count xs"
    by (rule flight_same [OF k]) simp_all
  have "um_state (m\<lparr>um_unacked_packets := d\<rparr>) (xs[k := ?i])"
    using um_state_update [OF st k d(2) _ refl refl] fl um_stateD(3,4) [OF st]
    by (auto simp: um_state_def split: if_splits)
  with g d(1) show ?thesis by (simp add: um_set_state_def)
qed

subsection \<open>Removing obsolete packets\<close>

definition useless :: "transmission_info \<Rightarrow> bool" where
  "useless info \<longleftrightarrow> \<not> IsAckable (ti_state info) \<and> \<not> ti_in_flight info"

lemma IsPacketUseless_iff: "IsPacketUseless pn info \<longleftrightarrow> useless info"
  by (simp add: IsPacketUseless_def useless_def IsPacketUsefulForMeasuringRtt_def
      IsPacketUsefulForCongestionControl_def)

lemma RemoveObsoletePackets_state:
  "um_state m xs \<Longrightarrow> \<exists>m'. RemoveObsoletePackets m = Some m' \<and> um_state m' (dropWhile useless xs)
    \<and> unat (um_least_unacked m') = unat (um_least_unacked m) + length (takeWhile useless xs)
    \<and> um_largest_sent_packet m' = um_largest_sent_packet m \<and> um_largest_acked m' = um_largest_acked m
    \<and> um_bytes_in_flight m' = um_bytes_in_flight m \<and> um_end_number m' = um_end_number m"
proof (induction xs arbitrary: m)
  case Nil
  then have "dq_empty (um_unacked_packets m)" using dq_rep_empty [OF um_stateD(1) [OF Nil]] by simp
  with Nil show ?case by (simp add: RemoveObsoletePackets.simps)
next
  case (Cons x xs)
  note st = Cons.prems
  note rep = um_stateD(1) [OF st]
  have ne: "\<not> dq_empty (um_unacked_packets m)" using dq_rep_empty [OF rep] by simp
  have fr: "dq_front (um_unacked_packets m) = Some x" using dq_rep_front [OF rep] by simp
  show ?case
  proof (cases "useless x")
    case False
    with ne fr st show ?thesis by (simp add: RemoveObsoletePackets.simps [of m] IsPacketUseless_iff)
  next
    case True
    obtain d where d: "dq_pop_front (um_unacked_packets m) = Some d" "dq_rep d xs"
      using dq_rep_pop_front [OF rep] by auto
    let ?m = "m\<lparr>um_unacked_packets := d, um_least_unacked := pn_inc (um_least_unacked m)\<rparr>"
    have b: "unat (pn_inc (um_least_unacked m)) = Suc (unat (um_least_unacked m))"
      using um_stateD(2) [OF st] by (intro unat_pn_inc) simp
    have "um_state ?m xs"
      using st d(2) True b unfolding um_state_def useless_def
      by (auto simp: less_Suc_eq_0_disj split: if_splits)
    from Cons.IH [OF this] um_end_unat [OF this] um_end_unat [OF st] b
    have "\<exists>m'. RemoveObsoletePackets ?m = Some m' \<and> um_state m' (dropWhile useless xs)
      \<and> unat (um_least_unacked m') = Suc (unat (um_least_unacked m)) + length (takeWhile useless xs)
      \<and> um_largest_sent_packet m' = um_largest_sent_packet m \<and> um_largest_acked m' = um_largest_acked m
      \<and> um_bytes_in_flight m' = um_bytes_in_flight m \<and> um_end_number m' = um_end_number m"
      by (auto simp: word_unat_eq_iff)
    moreover have "RemoveObsoletePackets m = RemoveObsoletePackets ?m"
      using ne fr True d by (simp add: RemoveObsoletePackets.simps [of m] IsPacketUseless_iff)
    ultimately show ?thesis using True by simp
  qed
qed

subsection \<open>Queries\<close>

lemma count_unacked_length:
  "count_unacked pn infos n = n + length (List.filter (\<lambda>i. \<not> useless i) infos)"
  by (induction infos arbitrary: pn n) (auto simp: IsPacketUseless_iff)

lemma two_in_flight_count: "n \<le> 1 \<Longrightarrow> two_in_flight infos n \<longleftrightarrow> 1 < n + flight_count infos"
  by (induction infos arbitrary: n) (auto simp: Let_def)

lemma flight_count_rev [simp]: "flight_count (rev xs) = flight_count xs"
  by (simp add: flight_count_def rev_filter [symmetric])

lemma HasMultipleInFlightPackets_state:
  "um_state m xs \<Longrightarrow> HasMultipleInFlightPackets m
    = Some (kDefaultTCPMSS < flight_bytes xs \<or> 1 < flight_count xs)"
  using dq_rep_elements [OF um_stateD(1), of m xs] um_stateD(3) [of m xs]
  by (auto simp: HasMultipleInFlightPackets_def two_in_flight_count)

lemma GetNumUnackedPacketsDebugOnly_state:
  "um_state m xs \<Longrightarrow> GetNumUnackedPacketsDebugOnly m = Some (length (List.filter (\<lambda>i. \<not> useless i) xs))"
  using dq_rep_elements [OF um_stateD(1), of m xs]
  by (simp add: GetNumUnackedPacketsDebugOnly_def count_unacked_length)

lemma flight_sum_zero:
  "(\<Sum>info\<leftarrow>xs. if ti_in_flight info then unat (ti_bytes_sent info) else 0) = 0
    \<longleftrightarrow> (\<forall>info \<in> set xs. ti_in_flight info \<longrightarrow> unat (ti_bytes_sent info) = 0)"
  by (induction xs) auto

lemma HasInFlightPackets_state:
  assumes st: "um_state m xs"
    and small: "(\<Sum>info\<leftarrow>xs. if ti_in_flight info then unat (ti_bytes_sent info) else 0) < 2 ^ 64"
    and pos: "\<And>info. info \<in> set xs \<Longrightarrow> ti_in_flight info \<Longrightarrow> ti_bytes_sent info \<noteq> 0"
  shows "HasInFlightPackets m \<longleftrightarrow> (\<exists>info \<in> set xs. ti_in_flight info)"
proof -
  have "HasInFlightPackets m \<longleftrightarrow> 0 < unat (flight_bytes xs)"
    using um_stateD(3) [OF st] by (simp add: HasInFlightPackets_def word_less_nat_alt)
  also have "\<dots> \<longleftrightarrow> (\<Sum>info\<leftarrow>xs. if ti_in_flight info then unat (ti_bytes_sent info) else 0) \<noteq> 0"
    by (simp only: unat_flight_bytes [OF small] neq0_conv)
  also have "\<dots> \<longleftrightarrow> (\<exists>info \<in> set xs. ti_in_flight info)"
    unfolding flight_sum_zero using pos by (auto simp: unat_eq_0)
  finally show ?thesis .
qed

subsection \<open>Histories of operations\<close>

text \<open>
  The abstract state is the packet number of the first entry and the list of entries. A step is
  undefined where the map must not be called: a packet number that is not new, or one outside of
  the entries.
\<close>

datatype um_op = SendPacket serialized_packet quic_time bool | Retire packet_number
  | MarkAs packet_number sent_packet_state | DropObsolete

type_synonym um_spec = "nat \<times> transmission_info list"

fun um_step :: "um_op \<Rightarrow> unacked_map \<Rightarrow> unacked_map option" where
  "um_step (SendPacket p t fl) m = AddSentPacket p t fl m"
| "um_step (Retire pn) m = RemoveFromInFlight pn m"
| "um_step (MarkAs pn st) m = um_set_state pn st m"
| "um_step DropObsolete m = RemoveObsoletePackets m"

fun um_spec_step :: "um_op \<Rightarrow> um_spec \<Rightarrow> um_spec option" where
  "um_spec_step (SendPacket p t fl) (b, xs) =
     (let n = unat (sp_packet_number p)
      in if b + length xs \<le> n \<and> n < 2 ^ 64 - 2
         then Some (b, xs @ replicate (n - (b + length xs)) hole
           @ [(ti_new (sp_packet_number p) t (sp_encrypted_length p))\<lparr>ti_in_flight := fl\<rparr>])
         else None)"
| "um_spec_step (Retire pn) (b, xs) =
     (let k = unat pn - b
      in if b \<le> unat pn \<and> k < length xs then Some (b, xs[k := (xs ! k)\<lparr>ti_in_flight := False\<rparr>]) else None)"
| "um_spec_step (MarkAs pn st) (b, xs) =
     (let k = unat pn - b
      in if b \<le> unat pn \<and> k < length xs then Some (b, xs[k := (xs ! k)\<lparr>ti_state := st\<rparr>]) else None)"
| "um_spec_step DropObsolete (b, xs) = Some (b + length (takeWhile useless xs), dropWhile useless xs)"

fun um_run :: "um_op list \<Rightarrow> unacked_map \<Rightarrow> unacked_map option" where
  "um_run [] m = Some m"
| "um_run (c # cs) m = Option.bind (um_step c m) (um_run cs)"

fun um_spec_run :: "um_op list \<Rightarrow> um_spec \<Rightarrow> um_spec option" where
  "um_spec_run [] x = Some x"
| "um_spec_run (c # cs) x = Option.bind (um_spec_step c x) (um_spec_run cs)"

lemma um_run_append: "um_run (cs @ ds) m = Option.bind (um_run cs m) (um_run ds)"
  by (induction cs arbitrary: m) (auto split: Option.bind_splits)

definition um_abs :: "unacked_map \<Rightarrow> um_spec \<Rightarrow> bool" where
  "um_abs m x \<longleftrightarrow> um_state m (snd x) \<and> unat (um_least_unacked m) = fst x"

lemma um_abs_covers:
  assumes "um_abs m (b, xs)"
  shows "um_covers m pn \<longleftrightarrow> b \<le> unat pn \<and> unat pn - b < length xs"
    and "b \<le> unat pn \<Longrightarrow> um_offset m pn = unat pn - b"
proof -
  have st: "um_state m xs" "unat (um_least_unacked m) = b" using assms by (simp_all add: um_abs_def)
  show "um_covers m pn \<longleftrightarrow> b \<le> unat pn \<and> unat pn - b < length xs"
    using um_end_unat [OF st(1)] st(2) by (auto simp: um_covers_def pn_le_unat pn_less_unat)
  show "um_offset m pn = unat pn - b" if "b \<le> unat pn"
    using st(2) that by (simp add: um_offset_unat pn_le_unat)
qed

lemma um_step_refines:
  assumes "um_spec_step c x = Some y" "um_abs m x"
  shows "\<exists>m'. um_step c m = Some m' \<and> um_abs m' y"
proof -
  obtain b xs where x: "x = (b, xs)" by (cases x)
  have st: "um_state m xs" "unat (um_least_unacked m) = b" and ab: "um_abs m (b, xs)"
    using assms(2) x by (simp_all add: um_abs_def)
  show ?thesis
  proof (cases c)
    case (SendPacket p t fl)
    then have n: "b + length xs \<le> unat (sp_packet_number p)" "unat (sp_packet_number p) < 2 ^ 64 - 2"
      "y = (b, xs @ replicate (unat (sp_packet_number p) - (b + length xs)) hole
           @ [(ti_new (sp_packet_number p) t (sp_encrypted_length p))\<lparr>ti_in_flight := fl\<rparr>])"
      using assms(1) x by (auto simp: Let_def split: if_splits)
    have "um_end_number m \<le> sp_packet_number p" using n(1) st um_end_unat [OF st(1)] by (simp add: pn_le_unat)
    from AddSentPacket_state [OF st(1) this n(2), of t fl] st(2) n(3) SendPacket show ?thesis
      by (auto simp: um_abs_def)
  next
    case (Retire pn)
    then have n: "b \<le> unat pn" "unat pn - b < length xs"
      "y = (b, xs[unat pn - b := (xs ! (unat pn - b))\<lparr>ti_in_flight := False\<rparr>])"
      using assms(1) x by (auto simp: Let_def split: if_splits)
    then have "um_covers m pn" using um_abs_covers(1) [OF ab] by simp
    from RemoveFromInFlight_state [OF st(1) this] um_abs_covers(2) [OF ab n(1)] n(3) st(2) Retire show ?thesis
      by (auto simp: um_abs_def)
  next
    case (MarkAs pn s)
    then have n: "b \<le> unat pn" "unat pn - b < length xs"
      "y = (b, xs[unat pn - b := (xs ! (unat pn - b))\<lparr>ti_state := s\<rparr>])"
      using assms(1) x by (auto simp: Let_def split: if_splits)
    then have "um_covers m pn" using um_abs_covers(1) [OF ab] by simp
    from um_set_state_state [OF st(1) this, of s] um_abs_covers(2) [OF ab n(1)] n(3) st(2) MarkAs show ?thesis
      by (auto simp: um_abs_def)
  next
    case DropObsolete
    with assms(1) x RemoveObsoletePackets_state [OF st(1)] st(2) show ?thesis by (auto simp: um_abs_def)
  qed
qed

lemma um_run_refines:
  "um_spec_run cs x = Some y \<Longrightarrow> um_abs m x \<Longrightarrow> \<exists>m'. um_run cs m = Some m' \<and> um_abs m' y"
proof (induction cs arbitrary: x m)
  case (Cons c cs)
  then obtain z where z: "um_spec_step c x = Some z" "um_spec_run cs z = Some y" by (auto simp: bind_Some_iff)
  from um_step_refines [OF z(1) Cons.prems(2)] obtain m1 where "um_step c m = Some m1" "um_abs m1 z" by blast
  with Cons.IH [OF z(2)] show ?case by simp
qed simp

lemma um_abs_new: "um_abs (um_new p) (1, [])"
  by (simp add: um_abs_def um_state_new) (simp add: um_new_def FirstSendingPacketNumber_def)

subsection \<open>Properties\<close>

text \<open>C19. Along every history in which packet numbers only grow and only tracked packets are touched, no
  operation of the map fails, every tracked packet has the entry of the specification, and the
  bytes and packets in flight are those of the entries marked in flight.\<close>

theorem unacked_map_implements_list:
  assumes "um_spec_run cs (1, []) = Some (b, xs)"
  shows "\<exists>m. um_run cs (um_new persp) = Some m \<and> unat (um_least_unacked m) = b
    \<and> um_bytes_in_flight m = (\<Sum>info\<leftarrow>xs. if ti_in_flight info then ucast (ti_bytes_sent info) else 0)
    \<and> um_packets_in_flight m = of_nat (length (filter ti_in_flight xs))
    \<and> (\<forall>pn. IsUnacked pn m = Some (b \<le> unat pn \<and> unat pn - b < length xs \<and> \<not> useless (xs ! (unat pn - b))))
    \<and> (\<forall>pn. b \<le> unat pn \<longrightarrow> unat pn - b < length xs \<longrightarrow> GetTransmissionInfo pn m = Some (xs ! (unat pn - b)))"
proof -
  from um_run_refines [OF assms um_abs_new] obtain m where
    m: "um_run cs (um_new persp) = Some m" "um_abs m (b, xs)" by blast
  then have st: "um_state m xs" "unat (um_least_unacked m) = b" by (simp_all add: um_abs_def)
  then have inv: "um_inv m" by (simp add: um_state_iff)
  have info: "um_info m pn = (if b \<le> unat pn \<and> unat pn - b < length xs then Some (xs ! (unat pn - b)) else None)" for pn
    using um_abs_covers [OF m(2), of pn] st(1) by (auto simp: um_info_def um_state_iff)
  have "GetTransmissionInfo pn m = Some (xs ! (unat pn - b))" if "b \<le> unat pn" "unat pn - b < length xs" for pn
    using GetTransmissionInfo_info [OF inv, of pn] info [of pn] that um_abs_covers(1) [OF m(2), of pn] by simp
  moreover have "IsUnacked pn m = Some (b \<le> unat pn \<and> unat pn - b < length xs \<and> \<not> useless (xs ! (unat pn - b)))" for pn
    using IsUnacked_info [OF inv, of pn] info [of pn] by (auto simp: IsPacketUseless_iff)
  ultimately show ?thesis
    using m(1) st um_stateD(3,4) [OF st(1)] by (simp add: flight_bytes_def flight_count_def)
qed

lemma unacked_map_implements_list_witness:
  "\<exists>m. um_run [SendPacket \<lparr>sp_packet_number = 1, sp_encrypted_length = 1000, sp_send_time = 0\<rparr> 10 True,
      SendPacket \<lparr>sp_packet_number = 3, sp_encrypted_length = 500, sp_send_time = 0\<rparr> 20 True,
      Retire 1, MarkAs 1 ACKED, DropObsolete] (um_new IS_CLIENT) = Some m
    \<and> unat (um_least_unacked m) = 3 \<and> um_bytes_in_flight m = 500 \<and> um_packets_in_flight m = 1"
proof -
  have "um_spec_run [SendPacket \<lparr>sp_packet_number = 1, sp_encrypted_length = 1000, sp_send_time = 0\<rparr> 10 True,
      SendPacket \<lparr>sp_packet_number = 3, sp_encrypted_length = 500, sp_send_time = 0\<rparr> 20 True,
      Retire 1, MarkAs 1 ACKED, DropObsolete] (1, [])
    = Some (3, [(ti_new 3 20 500)\<lparr>ti_in_flight := True\<rparr>])"
    by (simp add: Let_def ti_new_def useless_def hole_def ti_default_def IsAckable_def)
  from unacked_map_implements_list [OF this, of IS_CLIENT] show ?thesis by (auto simp: ti_new_def)
qed

end
