(* ===== verification/Bandwidth_Sampler.thy ===== *)
theory Bandwidth_Sampler
  imports Indexed_Queue Windowed_Filter Quic_Bandwidth Unacked_Map
begin

section \<open>The bandwidth sampler\<close>

text \<open>
  \<open>MaxAckHeightTracker\<close> and \<open>BandwidthSampler\<close> of \<open>congestion_control/bandwidth_sampler.h\<close>
  and \<open>.cc\<close>. A snapshot of the sampler's counters is stored for every packet sent; when a
  packet is acked, the bandwidth sample is the smaller of the send rate and the ack rate
  since the snapshot. The pointer to the map of unacked packets is only used to compute
  values that are then dropped, so the model leaves it out.

  The lemmas show that no operation fails (no division by zero, no access outside the
  candidates of the A0 point), what each does to the counters, how a congestion event
  combines the samples of its packets, and what the ack height tracker computes.
\<close>

subsection \<open>Data\<close>

record send_time_state =
  sts_is_valid :: bool
  sts_is_app_limited :: bool
  sts_total_bytes_sent :: byte_count
  sts_total_bytes_acked :: byte_count
  sts_total_bytes_lost :: byte_count
  sts_bytes_in_flight :: byte_count

definition sts_invalid :: send_time_state where
  "sts_invalid = \<lparr>sts_is_valid = False, sts_is_app_limited = False, sts_total_bytes_sent = 0,
     sts_total_bytes_acked = 0, sts_total_bytes_lost = 0, sts_bytes_in_flight = 0\<rparr>"

record bandwidth_sample =
  smp_bandwidth :: bandwidth
  smp_rtt :: time_delta
  smp_state_at_send :: send_time_state

definition smp_none :: bandwidth_sample where
  "smp_none = \<lparr>smp_bandwidth = bw_Zero, smp_rtt = delta_Zero, smp_state_at_send = sts_invalid\<rparr>"

record ack_point =
  pt_ack_time :: quic_time
  pt_total_bytes_acked :: byte_count

definition pt_default :: ack_point where
  "pt_default = \<lparr>pt_ack_time = time_Zero, pt_total_bytes_acked = 0\<rparr>"

record recent_ack_points =
  rap_0 :: ack_point
  rap_1 :: ack_point

definition rap_Update :: "quic_time \<Rightarrow> byte_count \<Rightarrow> recent_ack_points \<Rightarrow> recent_ack_points" where
  "rap_Update ack_time total_bytes_acked r =
     (let r = (if ack_time < pt_ack_time (rap_1 r)
               then r\<lparr>rap_1 := (rap_1 r)\<lparr>pt_ack_time := ack_time\<rparr>\<rparr>
               else if pt_ack_time (rap_1 r) < ack_time
               then r\<lparr>rap_0 := rap_1 r, rap_1 := (rap_1 r)\<lparr>pt_ack_time := ack_time\<rparr>\<rparr>
               else r)
      in r\<lparr>rap_1 := (rap_1 r)\<lparr>pt_total_bytes_acked := total_bytes_acked\<rparr>\<rparr>)"

definition rap_Clear :: "recent_ack_points \<Rightarrow> recent_ack_points" where
  "rap_Clear r = \<lparr>rap_0 = pt_default, rap_1 = pt_default\<rparr>"

definition MostRecentPoint :: "recent_ack_points \<Rightarrow> ack_point" where
  "MostRecentPoint r = rap_1 r"

definition LessRecentPoint :: "recent_ack_points \<Rightarrow> ack_point" where
  "LessRecentPoint r = (if pt_total_bytes_acked (rap_0 r) \<noteq> 0 then rap_0 r else rap_1 r)"

subsection \<open>The ack height tracker\<close>

record ack_height_tracker =
  aht_filter :: "byte_count wfilter"
  aht_epoch_start_time :: quic_time
  aht_epoch_bytes :: byte_count
  aht_num_epochs :: u64

definition aht_new :: "round_trip_count \<Rightarrow> ack_height_tracker" where
  "aht_new initial_filter_window = \<lparr>aht_filter = wf_new initial_filter_window 0 0,
     aht_epoch_start_time = time_Zero, aht_epoch_bytes = 0, aht_num_epochs = 0\<rparr>"

definition aht_Get :: "ack_height_tracker \<Rightarrow> byte_count" where
  "aht_Get t = wf_GetBest (aht_filter t)"

definition aht_SetFilterWindowLength :: "round_trip_count \<Rightarrow> ack_height_tracker \<Rightarrow> ack_height_tracker" where
  "aht_SetFilterWindowLength n t = t\<lparr>aht_filter := wf_SetWindowLength n (aht_filter t)\<rparr>"

definition aht_Reset :: "byte_count \<Rightarrow> round_trip_count \<Rightarrow> ack_height_tracker \<Rightarrow> ack_height_tracker" where
  "aht_Reset new_height new_time t = t\<lparr>aht_filter := wf_Reset new_height new_time (aht_filter t)\<rparr>"

definition aht_Update :: "bandwidth \<Rightarrow> round_trip_count \<Rightarrow> quic_time \<Rightarrow> byte_count \<Rightarrow> ack_height_tracker
    \<Rightarrow> ack_height_tracker \<times> byte_count" where
  "aht_Update bandwidth_estimate round_trip_count ack_time bytes_acked t =
     (if aht_epoch_start_time t = time_Zero
      then (t\<lparr>aht_epoch_bytes := bytes_acked, aht_epoch_start_time := ack_time,
              aht_num_epochs := aht_num_epochs t + 1\<rparr>, 0)
      else let expected_bytes_acked =
                 bw_times_delta bandwidth_estimate (time_diff ack_time (aht_epoch_start_time t));
               extra_bytes_acked = aht_epoch_bytes t - expected_bytes_acked
           in (t\<lparr>aht_filter := wf_Update MaxFilter extra_bytes_acked round_trip_count (aht_filter t)\<rparr>,
               extra_bytes_acked))"

subsection \<open>The sampler\<close>

record conn_state =
  sps_sent_time :: quic_time
  sps_size :: byte_count
  sps_total_bytes_sent_at_last_acked_packet :: byte_count
  sps_last_acked_packet_sent_time :: quic_time
  sps_last_acked_packet_ack_time :: quic_time
  sps_send_time_state :: send_time_state

record bandwidth_sampler =
  bs_total_bytes_sent :: byte_count
  bs_total_bytes_acked :: byte_count
  bs_total_bytes_lost :: byte_count
  bs_total_bytes_neutered :: byte_count
  bs_total_bytes_sent_at_last_acked_packet :: byte_count
  bs_last_acked_packet_sent_time :: quic_time
  bs_last_acked_packet_ack_time :: quic_time
  bs_last_sent_packet :: packet_number
  bs_is_app_limited :: bool
  bs_end_of_app_limited_phase :: packet_number
  bs_connection_state_map :: "conn_state pnqueue"
  bs_recent_ack_points :: recent_ack_points
  bs_a0_candidates :: "ack_point deque"
  bs_max_tracked_packets :: packet_count
  bs_max_ack_height_tracker :: ack_height_tracker
  bs_total_bytes_acked_after_last_ack_event :: byte_count
  bs_overestimate_avoidance :: bool

definition bs_new :: "round_trip_count \<Rightarrow> bandwidth_sampler" where
  "bs_new max_height_tracker_window_length = \<lparr>bs_total_bytes_sent = 0, bs_total_bytes_acked = 0,
     bs_total_bytes_lost = 0, bs_total_bytes_neutered = 0,
     bs_total_bytes_sent_at_last_acked_packet = 0, bs_last_acked_packet_sent_time = time_Zero,
     bs_last_acked_packet_ack_time = time_Zero, bs_last_sent_packet = UninitializedPacketNumber,
     bs_is_app_limited = True, bs_end_of_app_limited_phase = UninitializedPacketNumber,
     bs_connection_state_map = pq_new,
     bs_recent_ack_points = \<lparr>rap_0 = pt_default, rap_1 = pt_default\<rparr>,
     bs_a0_candidates = dq_new, bs_max_tracked_packets = 1000,
     bs_max_ack_height_tracker = aht_new max_height_tracker_window_length,
     bs_total_bytes_acked_after_last_ack_event = 0, bs_overestimate_avoidance = False\<rparr>"

definition EnableOverestimateAvoidance :: "bandwidth_sampler \<Rightarrow> bandwidth_sampler" where
  "EnableOverestimateAvoidance s =
     (if bs_overestimate_avoidance s then s else s\<lparr>bs_overestimate_avoidance := True\<rparr>)"

definition mk_conn_state ::
    "quic_time \<Rightarrow> byte_count \<Rightarrow> byte_count \<Rightarrow> bandwidth_sampler \<Rightarrow> conn_state" where
  "mk_conn_state sent_time sz bytes_in_flight s = \<lparr>sps_sent_time = sent_time, sps_size = sz,
     sps_total_bytes_sent_at_last_acked_packet = bs_total_bytes_sent_at_last_acked_packet s,
     sps_last_acked_packet_sent_time = bs_last_acked_packet_sent_time s,
     sps_last_acked_packet_ack_time = bs_last_acked_packet_ack_time s,
     sps_send_time_state = \<lparr>sts_is_valid = True, sts_is_app_limited = bs_is_app_limited s,
       sts_total_bytes_sent = bs_total_bytes_sent s, sts_total_bytes_acked = bs_total_bytes_acked s,
       sts_total_bytes_lost = bs_total_bytes_lost s, sts_bytes_in_flight = bytes_in_flight\<rparr>\<rparr>"

definition bs_OnPacketSent :: "quic_time \<Rightarrow> packet_number \<Rightarrow> byte_count \<Rightarrow> byte_count \<Rightarrow> bandwidth_sampler
    \<Rightarrow> bandwidth_sampler option" where
  "bs_OnPacketSent sent_time packet_number bytes bytes_in_flight s = do {
     let s = s\<lparr>bs_last_sent_packet := packet_number\<rparr>;
     let s = s\<lparr>bs_total_bytes_sent := bs_total_bytes_sent s + bytes\<rparr>;
     s \<leftarrow> (if bytes_in_flight = 0 then do {
            let s = s\<lparr>bs_last_acked_packet_ack_time := sent_time\<rparr>;
            s \<leftarrow> (if bs_overestimate_avoidance s then do {
                   let r = rap_Update sent_time (bs_total_bytes_acked s)
                             (rap_Clear (bs_recent_ack_points s));
                   d \<leftarrow> dq_clear (bs_a0_candidates s);
                   Some (s\<lparr>bs_recent_ack_points := r,
                           bs_a0_candidates := dq_emplace_back (MostRecentPoint r) d\<rparr>) }
                 else Some s);
            Some (s\<lparr>bs_total_bytes_sent_at_last_acked_packet := bs_total_bytes_sent s,
                    bs_last_acked_packet_sent_time := sent_time\<rparr>) }
          else Some s);
     (q, success) \<leftarrow> pq_Emplace packet_number
       (mk_conn_state sent_time bytes (bytes_in_flight + bytes) s) (bs_connection_state_map s);
     Some (s\<lparr>bs_connection_state_map := q\<rparr>) }"

definition SentPacketToSendTimeState :: "conn_state \<Rightarrow> send_time_state" where
  "SentPacketToSendTimeState p = (sps_send_time_state p)\<lparr>sts_is_valid := True\<rparr>"

definition bs_OnPacketLost :: "packet_number \<Rightarrow> u16 \<Rightarrow> bandwidth_sampler
    \<Rightarrow> (bandwidth_sampler \<times> send_time_state) option" where
  "bs_OnPacketLost packet_number bytes_lost s = do {
     let s = s\<lparr>bs_total_bytes_lost := bs_total_bytes_lost s + ucast bytes_lost\<rparr>;
     e \<leftarrow> GetEntry packet_number (bs_connection_state_map s);
     Some (s, case e of None \<Rightarrow> sts_invalid | Some p \<Rightarrow> SentPacketToSendTimeState p) }"

text \<open>
  The loop of \<open>ChooseA0Point\<close> over the candidates \<open>i, i + 1, \<dots>\<close>: the chosen point and the
  number of candidates to drop.
\<close>

fun choose_a0_loop :: "byte_count \<Rightarrow> ack_point deque \<Rightarrow> nat \<Rightarrow> nat \<Rightarrow> (ack_point \<times> nat) option" where
  "choose_a0_loop tot d i 0 = do {
     p \<leftarrow> dq_back d;
     Some (p, dq_size d - 1) }"
| "choose_a0_loop tot d i (Suc n) = do {
     c \<leftarrow> dq_at d i;
     if tot < pt_total_bytes_acked c
     then do { p \<leftarrow> dq_at d (i - 1); Some (p, i - 1) }
     else choose_a0_loop tot d (i + 1) n }"

definition ChooseA0Point :: "byte_count \<Rightarrow> bandwidth_sampler \<Rightarrow> (bandwidth_sampler \<times> ack_point option) option" where
  "ChooseA0Point total_bytes_acked s =
     (let d = bs_a0_candidates s in
      if dq_empty d then Some (s, None)
      else if dq_size d = 1 then do { p \<leftarrow> dq_front d; Some (s, Some p) }
      else do {
        (p, n) \<leftarrow> choose_a0_loop total_bytes_acked d 1 (dq_size d - 1);
        (d, _) \<leftarrow> dq_pop_front_n n d;
        Some (s\<lparr>bs_a0_candidates := d\<rparr>, Some p) })"

text \<open>\<open>OnPacketAcknowledgedInner\<close>: first the counters, then the sample.\<close>

definition ack_counters :: "quic_time \<Rightarrow> packet_number \<Rightarrow> conn_state \<Rightarrow> bandwidth_sampler \<Rightarrow> bandwidth_sampler" where
  "ack_counters ack_time packet_number p s =
     (let s = s\<lparr>bs_total_bytes_acked := bs_total_bytes_acked s + sps_size p,
                bs_total_bytes_sent_at_last_acked_packet := sts_total_bytes_sent (sps_send_time_state p),
                bs_last_acked_packet_sent_time := sps_sent_time p,
                bs_last_acked_packet_ack_time := ack_time\<rparr>;
          s = (if bs_overestimate_avoidance s
               then s\<lparr>bs_recent_ack_points := rap_Update ack_time (bs_total_bytes_acked s) (bs_recent_ack_points s)\<rparr>
               else s)
      in if bs_is_app_limited s
            \<and> (\<not> IsInitialized (bs_end_of_app_limited_phase s)
               \<or> bs_end_of_app_limited_phase s < packet_number)
         then s\<lparr>bs_is_app_limited := False\<rparr> else s)"

definition ack_sample :: "quic_time \<Rightarrow> conn_state \<Rightarrow> bandwidth_sampler
    \<Rightarrow> (bandwidth_sampler \<times> bandwidth_sample) option" where
  "ack_sample ack_time p s =
    (if sps_last_acked_packet_sent_time p = time_Zero then Some (s, smp_none)
     else do {
       send_rate \<leftarrow> (if sps_last_acked_packet_sent_time p < sps_sent_time p
         then FromBytesAndTimeDelta
           (sts_total_bytes_sent (sps_send_time_state p) - sps_total_bytes_sent_at_last_acked_packet p)
           (time_diff (sps_sent_time p) (sps_last_acked_packet_sent_time p))
         else Some bw_Infinite);
       let tot = sts_total_bytes_acked (sps_send_time_state p);
       (s, choice) \<leftarrow> (if bs_overestimate_avoidance s then ChooseA0Point tot s else Some (s, None));
       let a0 = (case choice of Some a \<Rightarrow> a
         | None \<Rightarrow> \<lparr>pt_ack_time = sps_last_acked_packet_ack_time p, pt_total_bytes_acked = tot\<rparr>);
       if ack_time \<le> pt_ack_time a0 then Some (s, smp_none)
       else do {
         ack_rate \<leftarrow> FromBytesAndTimeDelta (bs_total_bytes_acked s - pt_total_bytes_acked a0)
           (time_diff ack_time (pt_ack_time a0));
         Some (s, \<lparr>smp_bandwidth = min send_rate ack_rate, smp_rtt = time_diff ack_time (sps_sent_time p),
                   smp_state_at_send = SentPacketToSendTimeState p\<rparr>) } })"

definition OnPacketAcknowledgedInner :: "quic_time \<Rightarrow> packet_number \<Rightarrow> conn_state \<Rightarrow> bandwidth_sampler
    \<Rightarrow> (bandwidth_sampler \<times> bandwidth_sample) option" where
  "OnPacketAcknowledgedInner ack_time packet_number p s =
     ack_sample ack_time p (ack_counters ack_time packet_number p s)"

definition bs_OnPacketAcknowledged :: "quic_time \<Rightarrow> packet_number \<Rightarrow> bandwidth_sampler
    \<Rightarrow> (bandwidth_sampler \<times> bandwidth_sample) option" where
  "bs_OnPacketAcknowledged ack_time packet_number s = do {
     e \<leftarrow> GetEntry packet_number (bs_connection_state_map s);
     case e of None \<Rightarrow> Some (s, smp_none)
     | Some p \<Rightarrow> OnPacketAcknowledgedInner ack_time packet_number p s }"

record congestion_event_sample =
  ces_sample_max_bandwidth :: bandwidth
  ces_sample_is_app_limited :: bool
  ces_sample_rtt :: time_delta
  ces_sample_max_inflight :: byte_count
  ces_last_packet_send_state :: send_time_state
  ces_extra_acked :: byte_count

definition ces_new :: congestion_event_sample where
  "ces_new = \<lparr>ces_sample_max_bandwidth = bw_Zero, ces_sample_is_app_limited = False,
     ces_sample_rtt = delta_Infinite, ces_sample_max_inflight = 0,
     ces_last_packet_send_state = sts_invalid, ces_extra_acked = 0\<rparr>"

definition OnAckEventEnd :: "bandwidth \<Rightarrow> round_trip_count \<Rightarrow> bandwidth_sampler
    \<Rightarrow> bandwidth_sampler \<times> byte_count" where
  "OnAckEventEnd bandwidth_estimate round_trip_count s =
     (let newly_acked_bytes = bs_total_bytes_acked s - bs_total_bytes_acked_after_last_ack_event s
      in if newly_acked_bytes = 0 then (s, 0)
         else let s = s\<lparr>bs_total_bytes_acked_after_last_ack_event := bs_total_bytes_acked s\<rparr>;
                  (t, extra_acked) = aht_Update bandwidth_estimate round_trip_count
                    (bs_last_acked_packet_ack_time s) newly_acked_bytes (bs_max_ack_height_tracker s);
                  s = s\<lparr>bs_max_ack_height_tracker := t\<rparr>;
                  s = (if bs_overestimate_avoidance s \<and> extra_acked = 0
                       then s\<lparr>bs_a0_candidates :=
                              dq_emplace_back (LessRecentPoint (bs_recent_ack_points s)) (bs_a0_candidates s)\<rparr>
                       else s)
              in (s, extra_acked))"

fun lost_loop :: "lost_packet list \<Rightarrow> send_time_state \<Rightarrow> bandwidth_sampler
    \<Rightarrow> (bandwidth_sampler \<times> send_time_state) option" where
  "lost_loop [] last_lost s = Some (s, last_lost)"
| "lost_loop (l # ls) last_lost s = do {
     (s, st) \<leftarrow> bs_OnPacketLost (lp_packet_number l) (lp_bytes_lost l) s;
     lost_loop ls (if sts_is_valid st then st else last_lost) s }"

definition add_sample :: "byte_count \<Rightarrow> bandwidth_sample \<Rightarrow> congestion_event_sample \<Rightarrow> congestion_event_sample" where
  "add_sample total_bytes_acked sample e =
     (let e = (if \<not> delta_IsZero (smp_rtt sample)
               then e\<lparr>ces_sample_rtt := min (ces_sample_rtt e) (smp_rtt sample)\<rparr> else e);
          e = (if ces_sample_max_bandwidth e < smp_bandwidth sample
               then e\<lparr>ces_sample_max_bandwidth := smp_bandwidth sample,
                      ces_sample_is_app_limited := sts_is_app_limited (smp_state_at_send sample)\<rparr>
               else e);
          inflight_sample = total_bytes_acked - sts_total_bytes_acked (smp_state_at_send sample)
      in if ces_sample_max_inflight e < inflight_sample
         then e\<lparr>ces_sample_max_inflight := inflight_sample\<rparr> else e)"

fun acked_loop :: "quic_time \<Rightarrow> acked_packet list \<Rightarrow> send_time_state \<Rightarrow> congestion_event_sample
    \<Rightarrow> bandwidth_sampler \<Rightarrow> (bandwidth_sampler \<times> send_time_state \<times> congestion_event_sample) option" where
  "acked_loop ack_time [] last_acked e s = Some (s, last_acked, e)"
| "acked_loop ack_time (p # ps) last_acked e s = do {
     (s, sample) \<leftarrow> bs_OnPacketAcknowledged ack_time (ap_packet_number p) s;
     if \<not> sts_is_valid (smp_state_at_send sample) then acked_loop ack_time ps last_acked e s
     else acked_loop ack_time ps (smp_state_at_send sample) (add_sample (bs_total_bytes_acked s) sample e) s }"

definition bs_OnCongestionEvent :: "quic_time \<Rightarrow> acked_packet list \<Rightarrow> lost_packet list \<Rightarrow> bandwidth
    \<Rightarrow> bandwidth \<Rightarrow> round_trip_count \<Rightarrow> bandwidth_sampler
    \<Rightarrow> (bandwidth_sampler \<times> congestion_event_sample) option" where
  "bs_OnCongestionEvent ack_time acked_packets lost_packets max_bandwidth est_bandwidth_upper_bound
      round_trip_count s = do {
     (s, last_lost) \<leftarrow> lost_loop lost_packets sts_invalid s;
     if acked_packets = [] then Some (s, ces_new\<lparr>ces_last_packet_send_state := last_lost\<rparr>)
     else do {
       (s, last_acked, e) \<leftarrow> acked_loop ack_time acked_packets sts_invalid ces_new s;
       let e = e\<lparr>ces_last_packet_send_state :=
         (if \<not> sts_is_valid last_lost then last_acked
          else if \<not> sts_is_valid last_acked then last_lost
          else if ap_packet_number (last acked_packets) < lp_packet_number (last lost_packets)
          then last_lost else last_acked)\<rparr>;
       let max_bandwidth = max max_bandwidth (ces_sample_max_bandwidth e);
       let (s, extra_acked) = OnAckEventEnd (min est_bandwidth_upper_bound max_bandwidth) round_trip_count s;
       Some (s, e\<lparr>ces_extra_acked := extra_acked\<rparr>) } }"

definition bs_OnAppLimited :: "bandwidth_sampler \<Rightarrow> bandwidth_sampler" where
  "bs_OnAppLimited s = s\<lparr>bs_is_app_limited := True, bs_end_of_app_limited_phase := bs_last_sent_packet s\<rparr>"

definition bs_RemoveObsoletePackets :: "packet_number \<Rightarrow> bandwidth_sampler \<Rightarrow> bandwidth_sampler option" where
  "bs_RemoveObsoletePackets least_unacked s = do {
     q \<leftarrow> pq_RemoveUpTo least_unacked (bs_connection_state_map s);
     Some (s\<lparr>bs_connection_state_map := q\<rparr>) }"

definition bs_max_ack_height :: "bandwidth_sampler \<Rightarrow> byte_count" where
  "bs_max_ack_height s = aht_Get (bs_max_ack_height_tracker s)"

definition SetMaxAckHeightTrackerWindowLength :: "round_trip_count \<Rightarrow> bandwidth_sampler \<Rightarrow> bandwidth_sampler" where
  "SetMaxAckHeightTrackerWindowLength n s =
     s\<lparr>bs_max_ack_height_tracker := aht_SetFilterWindowLength n (bs_max_ack_height_tracker s)\<rparr>"

definition ResetMaxAckHeightTracker :: "byte_count \<Rightarrow> round_trip_count \<Rightarrow> bandwidth_sampler \<Rightarrow> bandwidth_sampler" where
  "ResetMaxAckHeightTracker h t s =
     s\<lparr>bs_max_ack_height_tracker := aht_Reset h t (bs_max_ack_height_tracker s)\<rparr>"

subsection \<open>The invariant\<close>

definition sps_ok :: "conn_state \<Rightarrow> bool" where
  "sps_ok p \<longleftrightarrow> in_i64 (sps_sent_time p) \<and> in_i64 (sps_last_acked_packet_sent_time p)
     \<and> in_i64 (sps_last_acked_packet_ack_time p)"

definition bs_inv :: "bandwidth_sampler \<Rightarrow> bool" where
  "bs_inv s \<longleftrightarrow> pq_inv (bs_connection_state_map s) \<and> dq_inv (bs_a0_candidates s)
     \<and> in_i64 (bs_last_acked_packet_sent_time s) \<and> in_i64 (bs_last_acked_packet_ack_time s)
     \<and> (\<forall>pn p. pq_map (bs_connection_state_map s) pn = Some p \<longrightarrow> sps_ok p)
     \<and> (\<forall>a \<in> set (dq_list (bs_a0_candidates s)). in_i64 (pt_ack_time a))
     \<and> in_i64 (pt_ack_time (rap_0 (bs_recent_ack_points s)))
     \<and> in_i64 (pt_ack_time (rap_1 (bs_recent_ack_points s)))"

lemma bs_inv_new: "bs_inv (bs_new w)"
  unfolding bs_inv_def bs_new_def
  by (simp only: bandwidth_sampler.simps recent_ack_points.simps, intro conjI)
    (simp_all add: dq_inv_def dq_rep_list [OF dq_rep_new] dq_rep_new pt_default_def time_consts in_i64_def)

lemma FromBytesAndTimeDelta_total: "d \<noteq> 0 \<Longrightarrow> \<exists>b. FromBytesAndTimeDelta bytes d = Some b \<and> 0 \<le> b"
  by (auto simp: FromBytesAndTimeDelta_def Let_def ToMicroseconds_def)

lemma rap_Update_ok:
  "in_i64 t \<Longrightarrow> in_i64 (pt_ack_time (rap_0 r)) \<Longrightarrow> in_i64 (pt_ack_time (rap_1 r))
    \<Longrightarrow> in_i64 (pt_ack_time (rap_0 (rap_Update t b r))) \<and> in_i64 (pt_ack_time (rap_1 (rap_Update t b r)))"
  unfolding rap_Update_def Let_def
  by (cases "t < pt_ack_time (rap_1 r)"; cases "pt_ack_time (rap_1 r) < t"; simp)

subsection \<open>Sending and losing packets\<close>

lemma dq_inv_emplace:
  "dq_inv d \<Longrightarrow> dq_inv (dq_emplace_back v d) \<and> dq_list (dq_emplace_back v d) = dq_list d @ [v]"
  using dq_rep_emplace_back [OF dq_inv_rep, of d v] by (simp add: dq_rep_iff)

lemma pq_Emplace_inv:
  assumes "pq_inv q" "IsInitialized pn"
  shows "\<exists>q' b. pq_Emplace pn v q = Some (q', b) \<and> pq_inv q'
    \<and> pq_map q' = (if b then (pq_map q)(pn \<mapsto> v) else pq_map q)
    \<and> (b \<longleftrightarrow> pq_IsEmpty q \<or> pq_last_packet q < pn)"
proof (cases "pq_IsEmpty q \<or> pq_last_packet q < pn")
  case True
  with pq_Emplace_map [OF assms True, of v] show ?thesis by auto
next
  case False
  then have "pq_Emplace pn v q = Some (q, False)"
    by (intro pq_Emplace_reject) (simp add: linorder_not_less)
  with assms False show ?thesis by (intro exI [of _ q] exI [of _ False]) simp
qed

lemma bs_OnPacketSent_inv:
  assumes inv: "bs_inv s" and t: "in_i64 sent_time" and pn: "IsInitialized pn"
  shows "\<exists>s'. bs_OnPacketSent sent_time pn bytes bif s = Some s' \<and> bs_inv s'
    \<and> bs_total_bytes_sent s' = bs_total_bytes_sent s + bytes
    \<and> bs_total_bytes_acked s' = bs_total_bytes_acked s
    \<and> bs_total_bytes_lost s' = bs_total_bytes_lost s
    \<and> bs_last_sent_packet s' = pn \<and> bs_is_app_limited s' = bs_is_app_limited s"
proof -
  have "dq_inv (bs_a0_candidates s)" using inv by (simp add: bs_inv_def)
  from dq_rep_clear [OF dq_inv_rep [OF this]]
  obtain d where d: "dq_clear (bs_a0_candidates s) = Some d" "dq_rep d []" by blast
  then have dl: "dq_inv d" "dq_list d = []" by (simp_all add: dq_rep_iff)
  define r where "r = rap_Update sent_time (bs_total_bytes_acked s) (rap_Clear (bs_recent_ack_points s))"
  have c: "in_i64 (pt_ack_time (rap_0 (rap_Clear (bs_recent_ack_points s))))"
    "in_i64 (pt_ack_time (rap_1 (rap_Clear (bs_recent_ack_points s))))"
    by (simp_all add: rap_Clear_def pt_default_def time_Zero_def in_i64_def)
  have r: "in_i64 (pt_ack_time (rap_0 r))" "in_i64 (pt_ack_time (rap_1 r))"
    unfolding r_def using rap_Update_ok [OF t c] by blast+
  let ?s1 = "s\<lparr>bs_last_sent_packet := pn, bs_total_bytes_sent := bs_total_bytes_sent s + bytes\<rparr>"
  define s2 where "s2 = (if bif = 0 then
      (if bs_overestimate_avoidance s
       then ?s1\<lparr>bs_last_acked_packet_ack_time := sent_time, bs_recent_ack_points := r,
              bs_a0_candidates := dq_emplace_back (MostRecentPoint r) d,
              bs_total_bytes_sent_at_last_acked_packet := bs_total_bytes_sent s + bytes,
              bs_last_acked_packet_sent_time := sent_time\<rparr>
       else ?s1\<lparr>bs_last_acked_packet_ack_time := sent_time,
              bs_total_bytes_sent_at_last_acked_packet := bs_total_bytes_sent s + bytes,
              bs_last_acked_packet_sent_time := sent_time\<rparr>)
      else ?s1)"
  have inv2: "bs_inv s2"
  proof -
    have "in_i64 (pt_ack_time (MostRecentPoint r))" using r by (simp add: MostRecentPoint_def)
    with inv t r dl dq_inv_emplace [OF dl(1), of "MostRecentPoint r"] show ?thesis
      unfolding s2_def bs_inv_def by (cases "bif = 0"; cases "bs_overestimate_avoidance s"; simp)
  qed
  let ?p = "mk_conn_state sent_time bytes (bif + bytes) s2"
  have ok: "sps_ok ?p" using inv2 t by (simp add: sps_ok_def mk_conn_state_def bs_inv_def)
  have q2: "bs_connection_state_map s2 = bs_connection_state_map s" by (simp add: s2_def)
  have "pq_inv (bs_connection_state_map s)" using inv by (simp add: bs_inv_def)
  from pq_Emplace_inv [OF this pn, of ?p]
  obtain q b where q: "pq_Emplace pn ?p (bs_connection_state_map s) = Some (q, b)" "pq_inv q"
      "pq_map q = (if b then (pq_map (bs_connection_state_map s))(pn \<mapsto> ?p)
                   else pq_map (bs_connection_state_map s))"
    by (elim exE conjE) (rule that)
  have "bs_OnPacketSent sent_time pn bytes bif s
      = Option.bind (pq_Emplace pn ?p (bs_connection_state_map s2))
          (\<lambda>(q, success). Some (s2\<lparr>bs_connection_state_map := q\<rparr>))"
    unfolding bs_OnPacketSent_def s2_def r_def
    by (cases "bif = 0"; cases "bs_overestimate_avoidance s")
      (simp_all add: Let_def d(1))
  then have "bs_OnPacketSent sent_time pn bytes bif s = Some (s2\<lparr>bs_connection_state_map := q\<rparr>)"
    by (simp only: q2 q(1) Option.bind.simps prod.case)
  moreover have "bs_inv (s2\<lparr>bs_connection_state_map := q\<rparr>)"
    using inv2 q(2,3) ok q2 by (auto simp: bs_inv_def)
  moreover have "bs_total_bytes_sent s2 = bs_total_bytes_sent s + bytes"
    "bs_total_bytes_acked s2 = bs_total_bytes_acked s" "bs_total_bytes_lost s2 = bs_total_bytes_lost s"
    "bs_last_sent_packet s2 = pn" "bs_is_app_limited s2 = bs_is_app_limited s"
    by (simp_all add: s2_def)
  ultimately show ?thesis by simp
qed

lemma bs_OnPacketLost_eq:
  "bs_inv s \<Longrightarrow> bs_OnPacketLost pn n s
    = Some (s\<lparr>bs_total_bytes_lost := bs_total_bytes_lost s + ucast n\<rparr>,
        case pq_map (bs_connection_state_map s) pn of None \<Rightarrow> sts_invalid | Some p \<Rightarrow> SentPacketToSendTimeState p)"
  by (simp add: bs_OnPacketLost_def bs_inv_def GetEntry_map)

lemma bs_inv_lost [simp]: "bs_inv (s\<lparr>bs_total_bytes_lost := n\<rparr>) = bs_inv s"
  by (simp add: bs_inv_def)

lemma lost_loop_eq:
  "bs_inv s \<Longrightarrow> \<exists>st. lost_loop ls l0 s
    = Some (s\<lparr>bs_total_bytes_lost := bs_total_bytes_lost s + (\<Sum>l\<leftarrow>ls. ucast (lp_bytes_lost l))\<rparr>, st)"
proof (induction ls arbitrary: s l0)
  case (Cons l ls)
  let ?s = "s\<lparr>bs_total_bytes_lost := bs_total_bytes_lost s + ucast (lp_bytes_lost l)\<rparr>"
  have "bs_inv ?s" using Cons.prems by simp
  from Cons.IH [OF this] bs_OnPacketLost_eq [OF Cons.prems] show ?case
    by (simp add: add.assoc)
qed simp

subsection \<open>The A0 point\<close>

lemma choose_a0_loop_spec:
  assumes "dq_rep d xs" "1 \<le> i" "i + n = length xs"
  shows "\<exists>j. choose_a0_loop t d i n = Some (xs ! j, j) \<and> i \<le> Suc j \<and> j < length xs
    \<and> (\<forall>m. i \<le> m \<longrightarrow> m \<le> j \<longrightarrow> pt_total_bytes_acked (xs ! m) \<le> t)
    \<and> (Suc j < length xs \<longrightarrow> t < pt_total_bytes_acked (xs ! Suc j))"
  using assms
proof (induction n arbitrary: i)
  case 0
  then have "xs \<noteq> []" by auto
  then have "choose_a0_loop t d i 0 = Some (xs ! (length xs - 1), length xs - 1)"
    using 0 dq_rep_back [OF 0(1)] dq_rep_size [OF 0(1)] by (simp add: last_conv_nth)
  with 0 show ?case by (intro exI [of _ "length xs - 1"]) auto
next
  case (Suc n)
  have at: "dq_at d i = Some (xs ! i)" "dq_at d (i - 1) = Some (xs ! (i - 1))"
    using Suc.prems by (auto intro!: dq_rep_at)
  show ?case
  proof (cases "t < pt_total_bytes_acked (xs ! i)")
    case True
    then show ?thesis using at Suc.prems by (intro exI [of _ "i - 1"]) auto
  next
    case False
    from Suc.IH [of "i + 1"] Suc.prems obtain j where j:
      "choose_a0_loop t d (i + 1) n = Some (xs ! j, j)" "i + 1 \<le> Suc j" "j < length xs"
      "\<forall>m. i + 1 \<le> m \<longrightarrow> m \<le> j \<longrightarrow> pt_total_bytes_acked (xs ! m) \<le> t"
      "Suc j < length xs \<longrightarrow> t < pt_total_bytes_acked (xs ! Suc j)" by auto
    have "\<forall>m. i \<le> m \<longrightarrow> m \<le> j \<longrightarrow> pt_total_bytes_acked (xs ! m) \<le> t"
      using j(4) False by (metis Suc_eq_plus1 le_antisym not_less not_less_eq_eq)
    with at j False show ?thesis by (intro exI [of _ j]) auto
  qed
qed

lemma ChooseA0Point_spec:
  assumes "dq_rep (bs_a0_candidates s) xs"
  shows "if xs = [] then ChooseA0Point t s = Some (s, None)
    else \<exists>j d. ChooseA0Point t s = Some (s\<lparr>bs_a0_candidates := d\<rparr>, Some (xs ! j)) \<and> dq_rep d (drop j xs)
      \<and> j < length xs \<and> (\<forall>m. 1 \<le> m \<longrightarrow> m \<le> j \<longrightarrow> pt_total_bytes_acked (xs ! m) \<le> t)
      \<and> (Suc j < length xs \<longrightarrow> t < pt_total_bytes_acked (xs ! Suc j) )"
proof -
  note e = dq_rep_empty [OF assms] and sz = dq_rep_size [OF assms] and fr = dq_rep_front [OF assms]
  consider "xs = []" | x where "xs = [x]" | "1 < length xs"
    by (cases xs; cases "tl xs") auto
  then show ?thesis
  proof cases
    case 1
    then show ?thesis using e by (simp add: ChooseA0Point_def Let_def)
  next
    case (2 x)
    have "ChooseA0Point t s = Some (s\<lparr>bs_a0_candidates := bs_a0_candidates s\<rparr>, Some (xs ! 0))"
      using 2 e sz fr by (simp add: ChooseA0Point_def Let_def)
    then show ?thesis using 2 assms
      by (auto intro!: exI [of _ 0] exI [of _ "bs_a0_candidates s"])
  next
    case 3
    obtain j where j: "choose_a0_loop t (bs_a0_candidates s) 1 (length xs - 1) = Some (xs ! j, j)"
      "j < length xs" "\<forall>m. 1 \<le> m \<longrightarrow> m \<le> j \<longrightarrow> pt_total_bytes_acked (xs ! m) \<le> t"
      "Suc j < length xs \<longrightarrow> t < pt_total_bytes_acked (xs ! Suc j)"
    proof -
      have "1 + (length xs - 1) = length xs" using 3 by simp
      from choose_a0_loop_spec [OF assms order_refl this, of t] that show ?thesis by blast
    qed
    obtain d where d: "dq_pop_front_n j (bs_a0_candidates s) = Some (d, min j (length xs))" "dq_rep d (drop j xs)"
      using dq_rep_pop_front_n [OF assms] by blast
    have "xs \<noteq> []" "length xs \<noteq> 1" using 3 by auto
    with e sz j(1) d(1) have "ChooseA0Point t s = Some (s\<lparr>bs_a0_candidates := d\<rparr>, Some (xs ! j))"
      by (simp add: ChooseA0Point_def Let_def)
    with d(2) j(2-4) \<open>xs \<noteq> []\<close> show ?thesis by auto
  qed
qed

subsection \<open>Acknowledgements\<close>

lemma ack_counters_simps [simp]:
  "bs_total_bytes_acked (ack_counters t pn p s) = bs_total_bytes_acked s + sps_size p"
  "bs_total_bytes_sent (ack_counters t pn p s) = bs_total_bytes_sent s"
  "bs_total_bytes_lost (ack_counters t pn p s) = bs_total_bytes_lost s"
  "bs_connection_state_map (ack_counters t pn p s) = bs_connection_state_map s"
  "bs_a0_candidates (ack_counters t pn p s) = bs_a0_candidates s"
  "bs_last_acked_packet_ack_time (ack_counters t pn p s) = t"
  "bs_last_acked_packet_sent_time (ack_counters t pn p s) = sps_sent_time p"
  "bs_overestimate_avoidance (ack_counters t pn p s) = bs_overestimate_avoidance s"
  "bs_max_ack_height_tracker (ack_counters t pn p s) = bs_max_ack_height_tracker s"
  by (simp_all add: ack_counters_def Let_def)

lemma ack_counters_app_limited:
  "bs_is_app_limited (ack_counters t pn p s) \<longleftrightarrow> bs_is_app_limited s
    \<and> IsInitialized (bs_end_of_app_limited_phase s) \<and> pn \<le> bs_end_of_app_limited_phase s"
  by (auto simp: ack_counters_def Let_def linorder_not_less)

lemma bs_inv_ack_counters:
  assumes "bs_inv s" "sps_ok p" "in_i64 t"
  shows "bs_inv (ack_counters t pn p s)"
proof -
  have r: "bs_recent_ack_points (ack_counters t pn p s) =
      (if bs_overestimate_avoidance s
       then rap_Update t (bs_total_bytes_acked s + sps_size p) (bs_recent_ack_points s)
       else bs_recent_ack_points s)"
    by (simp add: ack_counters_def Let_def)
  have "in_i64 (pt_ack_time (rap_0 (bs_recent_ack_points s)))"
    "in_i64 (pt_ack_time (rap_1 (bs_recent_ack_points s)))" using assms by (simp_all add: bs_inv_def)
  note u = rap_Update_ok [OF assms(3) this, of "bs_total_bytes_acked s + sps_size p"]
  show ?thesis
    using assms u unfolding bs_inv_def sps_ok_def r by (cases "bs_overestimate_avoidance s") simp_all
qed

lemma ack_sample_inv:
  assumes inv: "bs_inv s" and p: "sps_ok p" and t: "in_i64 ack_time"
  shows "\<exists>d smp. ack_sample ack_time p s = Some (s\<lparr>bs_a0_candidates := d\<rparr>, smp)
    \<and> bs_inv (s\<lparr>bs_a0_candidates := d\<rparr>) \<and> 0 \<le> smp_bandwidth smp
    \<and> (smp = smp_none \<or> smp_state_at_send smp = SentPacketToSendTimeState p
         \<and> smp_rtt smp = time_diff ack_time (sps_sent_time p))"
proof -
  let ?P = "sps_last_acked_packet_sent_time p"
  have id: "s\<lparr>bs_a0_candidates := bs_a0_candidates s\<rparr> = s" by simp
  have none: "0 \<le> smp_bandwidth smp_none" by (simp add: smp_none_def bw_Zero_def)
  obtain send_rate where sr: "(if ?P < sps_sent_time p
         then FromBytesAndTimeDelta
           (sts_total_bytes_sent (sps_send_time_state p) - sps_total_bytes_sent_at_last_acked_packet p)
           (time_diff (sps_sent_time p) ?P)
         else Some bw_Infinite) = Some send_rate" "0 \<le> send_rate"
  proof (cases "?P < sps_sent_time p")
    case True
    then have "time_diff (sps_sent_time p) ?P \<noteq> 0"
      using p time_diff_zero_iff [of "sps_sent_time p" ?P] by (simp add: sps_ok_def)
    from FromBytesAndTimeDelta_total [OF this] True show ?thesis by (metis that)
  next
    case False
    then show ?thesis by (intro that [of bw_Infinite]) (simp_all add: bw_Infinite_def)
  qed
  let ?tot = "sts_total_bytes_acked (sps_send_time_state p)"
  have dq: "dq_inv (bs_a0_candidates s)" using inv by (simp add: bs_inv_def)
  obtain d choice where ch: "(if bs_overestimate_avoidance s then ChooseA0Point ?tot s else Some (s, None))
      = Some (s\<lparr>bs_a0_candidates := d\<rparr>, choice)" "bs_inv (s\<lparr>bs_a0_candidates := d\<rparr>)"
      "\<And>a. choice = Some a \<Longrightarrow> in_i64 (pt_ack_time a)"
  proof (cases "bs_overestimate_avoidance s \<and> dq_list (bs_a0_candidates s) \<noteq> []")
    case False
    then have "(if bs_overestimate_avoidance s then ChooseA0Point ?tot s else Some (s, None)) = Some (s, None)"
      using ChooseA0Point_spec [OF dq_inv_rep [OF dq], of ?tot] by auto
    with inv show ?thesis by (intro that [of "bs_a0_candidates s" None]) simp_all
  next
    case True
    with ChooseA0Point_spec [OF dq_inv_rep [OF dq], of ?tot] obtain j d where jd:
      "ChooseA0Point ?tot s = Some (s\<lparr>bs_a0_candidates := d\<rparr>, Some (dq_list (bs_a0_candidates s) ! j))"
      "dq_rep d (drop j (dq_list (bs_a0_candidates s)))" "j < length (dq_list (bs_a0_candidates s))"
      by auto
    have mem: "\<forall>a \<in> set (dq_list (bs_a0_candidates s)). in_i64 (pt_ack_time a)"
      using inv by (simp add: bs_inv_def)
    have "bs_inv (s\<lparr>bs_a0_candidates := d\<rparr>)"
    proof -
      have "\<forall>a \<in> set (drop j (dq_list (bs_a0_candidates s))). in_i64 (pt_ack_time a)"
        using mem by (meson in_set_dropD)
      with inv jd(2) show ?thesis by (simp add: bs_inv_def dq_rep_iff)
    qed
    with True jd mem show ?thesis by (intro that [of d]) auto
  qed
  let ?a0 = "case choice of Some a \<Rightarrow> a
    | None \<Rightarrow> \<lparr>pt_ack_time = sps_last_acked_packet_ack_time p, pt_total_bytes_acked = ?tot\<rparr>"
  have a0: "in_i64 (pt_ack_time ?a0)" using ch(3) p by (cases choice) (simp_all add: sps_ok_def)
  consider "?P = time_Zero" | "?P \<noteq> time_Zero" "ack_time \<le> pt_ack_time ?a0"
    | "?P \<noteq> time_Zero" "\<not> ack_time \<le> pt_ack_time ?a0" by blast
  then show ?thesis
  proof cases
    case 1
    then have "ack_sample ack_time p s = Some (s\<lparr>bs_a0_candidates := bs_a0_candidates s\<rparr>, smp_none)"
      by (simp add: ack_sample_def)
    with inv none show ?thesis by (intro exI [of _ "bs_a0_candidates s"] exI [of _ smp_none]) simp
  next
    case 2
    then have "ack_sample ack_time p s = Some (s\<lparr>bs_a0_candidates := d\<rparr>, smp_none)"
      using sr(1) ch(1) by (simp add: ack_sample_def Let_def)
    with ch(2) none show ?thesis by blast
  next
    case 3
    then have "time_diff ack_time (pt_ack_time ?a0) \<noteq> 0"
      using a0 t time_diff_zero_iff [of ack_time "pt_ack_time ?a0"] by simp
    then obtain ack_rate where ar: "FromBytesAndTimeDelta
        (bs_total_bytes_acked s - pt_total_bytes_acked ?a0) (time_diff ack_time (pt_ack_time ?a0)) = Some ack_rate"
        "0 \<le> ack_rate"
      using FromBytesAndTimeDelta_total by blast
    let ?smp = "\<lparr>smp_bandwidth = min send_rate ack_rate, smp_rtt = time_diff ack_time (sps_sent_time p),
      smp_state_at_send = SentPacketToSendTimeState p\<rparr>"
    have "ack_sample ack_time p s = Some (s\<lparr>bs_a0_candidates := d\<rparr>, ?smp)"
      using 3 sr(1) ch(1) ar(1) by (simp add: ack_sample_def Let_def)
    with ch(2) sr(2) ar(2) show ?thesis
      by (intro exI [of _ d] exI [of _ ?smp]) simp
  qed
qed

text \<open>The size the sampler adds for an acked packet number.\<close>

definition acked_size :: "bandwidth_sampler \<Rightarrow> packet_number \<Rightarrow> byte_count" where
  "acked_size s pn = (case pq_map (bs_connection_state_map s) pn of None \<Rightarrow> 0 | Some p \<Rightarrow> sps_size p)"

lemma bs_OnPacketAcknowledged_inv:
  assumes inv: "bs_inv s" and t: "in_i64 ack_time"
  shows "\<exists>s' smp. bs_OnPacketAcknowledged ack_time pn s = Some (s', smp) \<and> bs_inv s'
    \<and> bs_total_bytes_acked s' = bs_total_bytes_acked s + acked_size s pn
    \<and> bs_total_bytes_sent s' = bs_total_bytes_sent s \<and> bs_total_bytes_lost s' = bs_total_bytes_lost s
    \<and> bs_connection_state_map s' = bs_connection_state_map s
    \<and> bs_max_ack_height_tracker s' = bs_max_ack_height_tracker s
    \<and> (bs_is_app_limited s' \<longrightarrow> bs_is_app_limited s) \<and> 0 \<le> smp_bandwidth smp"
proof (cases "pq_map (bs_connection_state_map s) pn")
  case None
  moreover have "GetEntry pn (bs_connection_state_map s) = Some None"
    using inv None by (simp add: bs_inv_def GetEntry_map)
  ultimately show ?thesis using inv
    by (simp add: bs_OnPacketAcknowledged_def acked_size_def smp_none_def bw_Zero_def)
next
  case (Some p)
  then have ok: "sps_ok p" using inv by (auto simp: bs_inv_def)
  from ack_sample_inv [OF bs_inv_ack_counters [OF inv ok t] ok t, of pn]
  obtain d smp where d: "ack_sample ack_time p (ack_counters ack_time pn p s)
      = Some ((ack_counters ack_time pn p s)\<lparr>bs_a0_candidates := d\<rparr>, smp)"
    "bs_inv ((ack_counters ack_time pn p s)\<lparr>bs_a0_candidates := d\<rparr>)" "0 \<le> smp_bandwidth smp" by blast
  have "GetEntry pn (bs_connection_state_map s) = Some (Some p)"
    using inv Some by (simp add: bs_inv_def GetEntry_map)
  then have "bs_OnPacketAcknowledged ack_time pn s
      = Some ((ack_counters ack_time pn p s)\<lparr>bs_a0_candidates := d\<rparr>, smp)"
    using d(1) by (simp add: bs_OnPacketAcknowledged_def OnPacketAcknowledgedInner_def)
  with d(2,3) Some show ?thesis by (simp add: acked_size_def ack_counters_app_limited)
qed

lemma add_sample_mono:
  "ces_sample_max_bandwidth e \<le> ces_sample_max_bandwidth (add_sample b smp e)"
  "smp_bandwidth smp \<le> ces_sample_max_bandwidth (add_sample b smp e)"
  "ces_sample_rtt (add_sample b smp e) \<le> ces_sample_rtt e"
  by (simp_all add: add_sample_def Let_def)

lemma add_sample_rtt_nonzero: "ces_sample_rtt e \<noteq> 0 \<Longrightarrow> ces_sample_rtt (add_sample b smp e) \<noteq> 0"
  by (auto simp: add_sample_def Let_def delta_IsZero_def delta_Zero_def min_def)

lemma acked_loop_inv:
  assumes "bs_inv s" "in_i64 ack_time"
  shows "\<exists>s' st e'. acked_loop ack_time ps st0 e s = Some (s', st, e') \<and> bs_inv s'
    \<and> bs_total_bytes_acked s' = bs_total_bytes_acked s + (\<Sum>p\<leftarrow>ps. acked_size s (ap_packet_number p))
    \<and> bs_total_bytes_sent s' = bs_total_bytes_sent s \<and> bs_total_bytes_lost s' = bs_total_bytes_lost s
    \<and> bs_connection_state_map s' = bs_connection_state_map s
    \<and> bs_max_ack_height_tracker s' = bs_max_ack_height_tracker s
    \<and> (bs_is_app_limited s' \<longrightarrow> bs_is_app_limited s)
    \<and> ces_sample_max_bandwidth e \<le> ces_sample_max_bandwidth e'
    \<and> ces_sample_rtt e' \<le> ces_sample_rtt e
    \<and> (ces_sample_rtt e \<noteq> 0 \<longrightarrow> ces_sample_rtt e' \<noteq> 0)"
  using assms
proof (induction ps arbitrary: s st0 e)
  case (Cons p ps)
  let ?pn = "ap_packet_number p"
  from bs_OnPacketAcknowledged_inv [OF Cons.prems, of ?pn] obtain s1 smp where a:
    "bs_OnPacketAcknowledged ack_time ?pn s = Some (s1, smp)" "bs_inv s1"
    "bs_total_bytes_acked s1 = bs_total_bytes_acked s + acked_size s ?pn"
    "bs_total_bytes_sent s1 = bs_total_bytes_sent s" "bs_total_bytes_lost s1 = bs_total_bytes_lost s"
    "bs_connection_state_map s1 = bs_connection_state_map s"
    "bs_max_ack_height_tracker s1 = bs_max_ack_height_tracker s"
    "bs_is_app_limited s1 \<longrightarrow> bs_is_app_limited s"
    by (elim exE conjE) (rule that)
  define st1 where "st1 = (if sts_is_valid (smp_state_at_send smp) then smp_state_at_send smp else st0)"
  define e1 where "e1 = (if sts_is_valid (smp_state_at_send smp)
    then add_sample (bs_total_bytes_acked s1) smp e else e)"
  have step: "acked_loop ack_time (p # ps) st0 e s = acked_loop ack_time ps st1 e1 s1"
    using a(1) by (simp add: st1_def e1_def)
  have e1: "ces_sample_max_bandwidth e \<le> ces_sample_max_bandwidth e1" "ces_sample_rtt e1 \<le> ces_sample_rtt e"
    "ces_sample_rtt e \<noteq> 0 \<longrightarrow> ces_sample_rtt e1 \<noteq> 0"
    by (simp_all add: e1_def add_sample_mono add_sample_rtt_nonzero)
  have sz: "acked_size s1 = acked_size s" by (simp add: acked_size_def [abs_def] a(6))
  from Cons.IH [OF a(2) Cons.prems(2), of st1 e1] obtain s' st e' where r:
    "acked_loop ack_time ps st1 e1 s1 = Some (s', st, e')" "bs_inv s'"
    "bs_total_bytes_acked s' = bs_total_bytes_acked s1 + (\<Sum>p\<leftarrow>ps. acked_size s1 (ap_packet_number p))"
    "bs_total_bytes_sent s' = bs_total_bytes_sent s1" "bs_total_bytes_lost s' = bs_total_bytes_lost s1"
    "bs_connection_state_map s' = bs_connection_state_map s1"
    "bs_max_ack_height_tracker s' = bs_max_ack_height_tracker s1"
    "bs_is_app_limited s' \<longrightarrow> bs_is_app_limited s1"
    "ces_sample_max_bandwidth e1 \<le> ces_sample_max_bandwidth e'" "ces_sample_rtt e' \<le> ces_sample_rtt e1"
    "ces_sample_rtt e1 \<noteq> 0 \<longrightarrow> ces_sample_rtt e' \<noteq> 0"
    by (elim exE conjE) (rule that)
  show ?case
    unfolding step using r a e1 sz
    by (intro exI [of _ s'] exI [of _ st] exI [of _ e']) (simp add: add.assoc)
qed (simp add: acked_loop.simps)

lemma OnAckEventEnd_inv:
  assumes "bs_inv s" and "OnAckEventEnd b r s = (s', x)"
  shows "bs_inv s'" "bs_total_bytes_acked s' = bs_total_bytes_acked s"
    "bs_total_bytes_sent s' = bs_total_bytes_sent s" "bs_total_bytes_lost s' = bs_total_bytes_lost s"
    "bs_connection_state_map s' = bs_connection_state_map s"
    "bs_is_app_limited s' = bs_is_app_limited s"
proof -
  have l: "in_i64 (pt_ack_time (LessRecentPoint (bs_recent_ack_points s)))" and dq: "dq_inv (bs_a0_candidates s)"
    using assms(1) by (simp_all add: bs_inv_def LessRecentPoint_def)
  note e = dq_inv_emplace [OF dq, of "LessRecentPoint (bs_recent_ack_points s)"]
  have "bs_inv s' \<and> bs_total_bytes_acked s' = bs_total_bytes_acked s
    \<and> bs_total_bytes_sent s' = bs_total_bytes_sent s \<and> bs_total_bytes_lost s' = bs_total_bytes_lost s
    \<and> bs_connection_state_map s' = bs_connection_state_map s
    \<and> bs_is_app_limited s' = bs_is_app_limited s"
    using assms l e
    by (auto simp: OnAckEventEnd_def Let_def bs_inv_def split: prod.splits if_splits)
  then show "bs_inv s'" "bs_total_bytes_acked s' = bs_total_bytes_acked s"
    "bs_total_bytes_sent s' = bs_total_bytes_sent s" "bs_total_bytes_lost s' = bs_total_bytes_lost s"
    "bs_connection_state_map s' = bs_connection_state_map s"
    "bs_is_app_limited s' = bs_is_app_limited s" by blast+
qed

lemma bs_OnCongestionEvent_inv:
  assumes inv: "bs_inv s" and t: "in_i64 ack_time"
  shows "\<exists>s' e. bs_OnCongestionEvent ack_time acked lost mb ub r s = Some (s', e) \<and> bs_inv s'
    \<and> bs_total_bytes_acked s' = bs_total_bytes_acked s + (\<Sum>p\<leftarrow>acked. acked_size s (ap_packet_number p))
    \<and> bs_total_bytes_lost s' = bs_total_bytes_lost s + (\<Sum>l\<leftarrow>lost. ucast (lp_bytes_lost l))
    \<and> bs_total_bytes_sent s' = bs_total_bytes_sent s
    \<and> bs_connection_state_map s' = bs_connection_state_map s
    \<and> (bs_is_app_limited s' \<longrightarrow> bs_is_app_limited s)
    \<and> 0 \<le> ces_sample_max_bandwidth e \<and> ces_sample_rtt e \<noteq> 0"
proof -
  let ?s1 = "s\<lparr>bs_total_bytes_lost := bs_total_bytes_lost s + (\<Sum>l\<leftarrow>lost. ucast (lp_bytes_lost l))\<rparr>"
  obtain last_lost where l: "lost_loop lost sts_invalid s = Some (?s1, last_lost)"
    using lost_loop_eq [OF inv] by blast
  have inv1: "bs_inv ?s1" using inv by simp
  have new: "0 \<le> ces_sample_max_bandwidth ces_new" "ces_sample_rtt ces_new \<noteq> 0"
    by (simp_all add: ces_new_def bw_Zero_def delta_Infinite_def kQuicInfiniteTimeUs_def int64_max_def)
  show ?thesis
  proof (cases "acked = []")
    case True
    with l inv1 new show ?thesis by (simp add: bs_OnCongestionEvent_def)
  next
    case False
    from acked_loop_inv [OF inv1 t, of acked sts_invalid ces_new] obtain s2 st e where a:
      "acked_loop ack_time acked sts_invalid ces_new ?s1 = Some (s2, st, e)" "bs_inv s2"
      "bs_total_bytes_acked s2 = bs_total_bytes_acked ?s1 + (\<Sum>p\<leftarrow>acked. acked_size ?s1 (ap_packet_number p))"
      "bs_total_bytes_sent s2 = bs_total_bytes_sent ?s1" "bs_total_bytes_lost s2 = bs_total_bytes_lost ?s1"
      "bs_connection_state_map s2 = bs_connection_state_map ?s1"
      "bs_is_app_limited s2 \<longrightarrow> bs_is_app_limited ?s1"
      "ces_sample_max_bandwidth ces_new \<le> ces_sample_max_bandwidth e"
      "ces_sample_rtt ces_new \<noteq> 0 \<longrightarrow> ces_sample_rtt e \<noteq> 0"
      by (elim exE conjE) (rule that)
    define mb' where "mb' = min ub (max mb (ces_sample_max_bandwidth e))"
    obtain s3 x where o: "OnAckEventEnd mb' r s2 = (s3, x)" by (cases "OnAckEventEnd mb' r s2")
    note oo = OnAckEventEnd_inv [OF a(2) o]
    have sz: "acked_size ?s1 = acked_size s" by (simp add: acked_size_def [abs_def])
    let ?st = "if \<not> sts_is_valid last_lost then st else if \<not> sts_is_valid st then last_lost
      else if ap_packet_number (last acked) < lp_packet_number (last lost) then last_lost else st"
    let ?e = "e\<lparr>ces_last_packet_send_state := ?st, ces_extra_acked := x\<rparr>"
    have "bs_OnCongestionEvent ack_time acked lost mb ub r s = Some (s3, ?e)"
      using False l a(1) o by (simp add: bs_OnCongestionEvent_def Let_def mb'_def)
    with oo a(3-9) sz new show ?thesis
      by (intro exI [of _ s3] exI [of _ ?e]) simp
  qed
qed

lemma bs_RemoveObsoletePackets_inv:
  assumes "bs_inv s"
  shows "\<exists>s'. bs_RemoveObsoletePackets pn s = Some s' \<and> bs_inv s'
    \<and> pq_map (bs_connection_state_map s') = (\<lambda>p. if p < pn then None else pq_map (bs_connection_state_map s) p)
    \<and> s' = s\<lparr>bs_connection_state_map := bs_connection_state_map s'\<rparr>"
proof -
  have "pq_inv (bs_connection_state_map s)" using assms by (simp add: bs_inv_def)
  from pq_RemoveUpTo_map [OF this, of pn] obtain q where q:
    "pq_RemoveUpTo pn (bs_connection_state_map s) = Some q" "pq_inv q"
    "pq_map q = (\<lambda>p. if p < pn then None else pq_map (bs_connection_state_map s) p)" by blast
  then have "bs_inv (s\<lparr>bs_connection_state_map := q\<rparr>)"
    using assms by (simp add: bs_inv_def)
  with q show ?thesis by (simp add: bs_RemoveObsoletePackets_def)
qed

lemma bs_inv_app_limited: "bs_inv s \<Longrightarrow> bs_inv (bs_OnAppLimited s)"
  by (simp add: bs_inv_def bs_OnAppLimited_def)

subsection \<open>The ack height\<close>

text \<open>
  Once the first aggregation epoch started, neither its start nor its bytes change, and the
  extra bytes are those first bytes minus everything expected since then, modulo \<open>2\<^sup>6\<^sup>4\<close>.
\<close>

lemma aht_Update_epoch:
  assumes "aht_epoch_start_time t \<noteq> 0"
  shows "aht_epoch_start_time (fst (aht_Update b r time n t)) = aht_epoch_start_time t"
    "aht_epoch_bytes (fst (aht_Update b r time n t)) = aht_epoch_bytes t"
    "aht_num_epochs (fst (aht_Update b r time n t)) = aht_num_epochs t"
    "snd (aht_Update b r time n t) =
      aht_epoch_bytes t - bw_times_delta b (time_diff time (aht_epoch_start_time t))"
  using assms by (simp_all add: aht_Update_def time_consts Let_def)

lemma aht_Update_wraps:
  assumes "aht_epoch_start_time t \<noteq> 0"
    and "aht_epoch_bytes t < bw_times_delta b (time_diff time (aht_epoch_start_time t))"
  shows "uint (snd (aht_Update b r time n t)) =
    2 ^ 64 - (uint (bw_times_delta b (time_diff time (aht_epoch_start_time t))) - uint (aht_epoch_bytes t))"
proof -
  let ?e = "bw_times_delta b (time_diff time (aht_epoch_start_time t))"
  have lt: "uint (aht_epoch_bytes t) < uint ?e" using assms(2) by (simp add: u64_less_iff)
  have "uint (aht_epoch_bytes t - ?e) = (uint (aht_epoch_bytes t) - uint ?e) mod 2 ^ 64"
    by (simp add: uint_word_ariths)
  also have "\<dots> = (uint (aht_epoch_bytes t) - uint ?e + 2 ^ 64) mod 2 ^ 64" by simp
  also have "\<dots> = uint (aht_epoch_bytes t) - uint ?e + 2 ^ 64"
  proof (rule mod_pos_pos_trivial)
    have "uint ?e < 2 ^ 64" "0 \<le> uint (aht_epoch_bytes t)" by simp_all
    then show "0 \<le> uint (aht_epoch_bytes t) - uint ?e + 2 ^ 64" by linarith
    show "uint (aht_epoch_bytes t) - uint ?e + 2 ^ 64 < 2 ^ 64" using lt by linarith
  qed
  finally show ?thesis using aht_Update_epoch(4) [OF assms(1)] by simp
qed

subsection \<open>Histories\<close>

datatype bs_input = SentBytes quic_time packet_number byte_count byte_count
  | AckedLost quic_time "acked_packet list" "lost_packet list" bandwidth bandwidth round_trip_count
  | AppLimited | Forget packet_number

fun bs_input_ok :: "bs_input \<Rightarrow> bool" where
  "bs_input_ok (SentBytes t pn n bif) \<longleftrightarrow> in_i64 t \<and> IsInitialized pn"
| "bs_input_ok (AckedLost t acked lost mb ub r) \<longleftrightarrow> in_i64 t"
| "bs_input_ok _ \<longleftrightarrow> True"

fun bs_handle :: "bs_input \<Rightarrow> bandwidth_sampler \<Rightarrow> bandwidth_sampler option" where
  "bs_handle (SentBytes t pn n bif) s = bs_OnPacketSent t pn n bif s"
| "bs_handle (AckedLost t acked lost mb ub r) s = map_option fst (bs_OnCongestionEvent t acked lost mb ub r s)"
| "bs_handle AppLimited s = Some (bs_OnAppLimited s)"
| "bs_handle (Forget pn) s = bs_RemoveObsoletePackets pn s"

fun bs_run :: "bs_input list \<Rightarrow> bandwidth_sampler \<Rightarrow> bandwidth_sampler option" where
  "bs_run [] s = Some s"
| "bs_run (i # is) s = Option.bind (bs_handle i s) (bs_run is)"

fun bytes_sent :: "bs_input \<Rightarrow> byte_count" where
  "bytes_sent (SentBytes t pn n bif) = n"
| "bytes_sent _ = 0"

fun bytes_lost :: "bs_input \<Rightarrow> byte_count" where
  "bytes_lost (AckedLost t acked lost mb ub r) = (\<Sum>l\<leftarrow>lost. ucast (lp_bytes_lost l))"
| "bytes_lost _ = 0"

lemma bs_handle_spec:
  assumes "bs_inv s" "bs_input_ok i"
  shows "\<exists>s'. bs_handle i s = Some s' \<and> bs_inv s' \<and> bs_total_bytes_sent s' = bs_total_bytes_sent s + bytes_sent i
    \<and> bs_total_bytes_lost s' = bs_total_bytes_lost s + bytes_lost i"
proof (cases i)
  case (SentBytes t pn n bif)
  with assms bs_OnPacketSent_inv [OF assms(1), of t pn n bif] show ?thesis by auto
next
  case (AckedLost t acked lost mb ub r)
  with assms bs_OnCongestionEvent_inv [OF assms(1), of t acked lost mb ub r] show ?thesis by auto
next
  case AppLimited
  then show ?thesis using bs_inv_app_limited [OF assms(1)] by (simp add: bs_OnAppLimited_def)
next
  case (Forget pn)
  from bs_RemoveObsoletePackets_inv [OF assms(1), of pn] obtain s' where
    s': "bs_RemoveObsoletePackets pn s = Some s'" "bs_inv s'" "s' = s\<lparr>bs_connection_state_map := bs_connection_state_map s'\<rparr>" by blast
  have "bs_total_bytes_sent s' = bs_total_bytes_sent s" "bs_total_bytes_lost s' = bs_total_bytes_lost s"
    by (subst s'(3), simp)+
  with s' Forget show ?thesis by simp
qed

lemma bs_run_spec:
  "bs_inv s \<Longrightarrow> list_all bs_input_ok is \<Longrightarrow> \<exists>s'. bs_run is s = Some s' \<and> bs_inv s'
    \<and> bs_total_bytes_sent s' = bs_total_bytes_sent s + (\<Sum>i\<leftarrow>is. bytes_sent i)
    \<and> bs_total_bytes_lost s' = bs_total_bytes_lost s + (\<Sum>i\<leftarrow>is. bytes_lost i)"
proof (induction "is" arbitrary: s)
  case (Cons i "is")
  then have ok: "bs_input_ok i" "list_all bs_input_ok is" by simp_all
  from bs_handle_spec [OF Cons.prems(1) ok(1)] obtain s1 where s1: "bs_handle i s = Some s1" "bs_inv s1"
    "bs_total_bytes_sent s1 = bs_total_bytes_sent s + bytes_sent i" "bs_total_bytes_lost s1 = bs_total_bytes_lost s + bytes_lost i" by blast
  from Cons.IH [OF s1(2) ok(2)] s1 show ?case by (auto simp: algebra_simps)
qed simp

subsection \<open>Properties\<close>

text \<open>C29. The sampler never fails, and its totals of bytes sent and lost are the sums over its inputs
  (modulo the width of the counters), whatever packets are acked, lost or forgotten in between.\<close>

theorem sampler_accounts_bytes:
  assumes "list_all bs_input_ok is"
  shows "\<exists>s. bs_run is (bs_new w) = Some s \<and> bs_inv s
    \<and> bs_total_bytes_sent s = (\<Sum>i\<leftarrow>is. bytes_sent i) \<and> bs_total_bytes_lost s = (\<Sum>i\<leftarrow>is. bytes_lost i)"
  using bs_run_spec [OF bs_inv_new assms] by (simp add: bs_new_def)

lemma sampler_accounts_bytes_witness:
  "\<exists>s. bs_run [SentBytes 1000 1 1460 0, SentBytes 2000 2 1000 1460,
      AckedLost 9000 [\<lparr>ap_packet_number = 2, ap_bytes_acked = 1000, ap_receive_timestamp = 0\<rparr>]
        [\<lparr>lp_packet_number = 1, lp_bytes_lost = 1460\<rparr>] 0 0 1, Forget 2] (bs_new 10) = Some s
    \<and> bs_total_bytes_sent s = 2460 \<and> bs_total_bytes_lost s = 1460"
  using sampler_accounts_bytes [of "[SentBytes 1000 1 1460 0, SentBytes 2000 2 1000 1460,
      AckedLost 9000 [\<lparr>ap_packet_number = 2, ap_bytes_acked = 1000, ap_receive_timestamp = 0\<rparr>]
        [\<lparr>lp_packet_number = 1, lp_bytes_lost = 1460\<rparr>] 0 0 1, Forget 2]" 10]
  by (auto simp: in_i64_def IsInitialized_def UninitializedPacketNumber_def)


definition example_conn_state :: conn_state where
  "example_conn_state = \<lparr>sps_sent_time = 30000, sps_size = 1000, sps_total_bytes_sent_at_last_acked_packet = 1000,
     sps_last_acked_packet_sent_time = 10000, sps_last_acked_packet_ack_time = 20000,
     sps_send_time_state = \<lparr>sts_is_valid = True, sts_is_app_limited = False, sts_total_bytes_sent = 6000,
       sts_total_bytes_acked = 0, sts_total_bytes_lost = 0, sts_bytes_in_flight = 5000\<rparr>\<rparr>"


text \<open>With overestimate avoidance, the ack rate starts at the most recent candidate point that had no more
  bytes acked than the packet saw when it was sent, and the candidates before it are dropped.\<close>

theorem a0_point_is_most_recent:
  assumes "dq_rep (bs_a0_candidates s) xs" "xs \<noteq> []" "sorted (List.map pt_total_bytes_acked xs)"
    and "pt_total_bytes_acked (hd xs) \<le> n"
  shows "\<exists>j d. ChooseA0Point n s = Some (s\<lparr>bs_a0_candidates := d\<rparr>, Some (xs ! j)) \<and> dq_rep d (drop j xs)
    \<and> j < length xs \<and> pt_total_bytes_acked (xs ! j) \<le> n
    \<and> (\<forall>i < length xs. j < i \<longrightarrow> n < pt_total_bytes_acked (xs ! i))"
proof -
  from ChooseA0Point_spec [OF assms(1), of n] assms(2) obtain j d where
    c: "ChooseA0Point n s = Some (s\<lparr>bs_a0_candidates := d\<rparr>, Some (xs ! j))" "dq_rep d (drop j xs)" "j < length xs"
    "\<forall>m. 1 \<le> m \<longrightarrow> m \<le> j \<longrightarrow> pt_total_bytes_acked (xs ! m) \<le> n"
    "Suc j < length xs \<longrightarrow> n < pt_total_bytes_acked (xs ! Suc j)" by auto
  have "pt_total_bytes_acked (xs ! j) \<le> n" using c(4) assms(2,4) by (cases "j = 0") (auto simp: hd_conv_nth)
  moreover have "n < pt_total_bytes_acked (xs ! i)" if "i < length xs" "j < i" for i
  proof -
    have "pt_total_bytes_acked (xs ! Suc j) \<le> pt_total_bytes_acked (xs ! i)"
      using sorted_nth_mono [OF assms(3), of "Suc j" i] that by simp
    with c(5) that show ?thesis by auto
  qed
  ultimately show ?thesis using c(1-3) by blast
qed

lemma a0_point_is_most_recent_witness:
  "\<exists>s d. ChooseA0Point 5 s = Some (s\<lparr>bs_a0_candidates := d\<rparr>, Some \<lparr>pt_ack_time = 20, pt_total_bytes_acked = 4\<rparr>)"
proof -
  let ?xs = "[\<lparr>pt_ack_time = 10, pt_total_bytes_acked = 2\<rparr>, \<lparr>pt_ack_time = 20, pt_total_bytes_acked = 4\<rparr>,
    \<lparr>pt_ack_time = 30, pt_total_bytes_acked = 6\<rparr>]"
  have r: "dq_rep (bs_a0_candidates ((bs_new 10)\<lparr>bs_a0_candidates := fold dq_emplace_back ?xs dq_new\<rparr>)) ?xs"
    using dq_rep_fold_emplace_back [OF dq_rep_new, of ?xs] by simp
  let ?s = "(bs_new 10)\<lparr>bs_a0_candidates := fold dq_emplace_back ?xs dq_new\<rparr>"
  have "?xs \<noteq> []" "sorted (List.map pt_total_bytes_acked ?xs)" "pt_total_bytes_acked (hd ?xs) \<le> 5" by simp_all
  from a0_point_is_most_recent [OF r this] obtain j d where
    c: "ChooseA0Point 5 ?s = Some (?s\<lparr>bs_a0_candidates := d\<rparr>, Some (?xs ! j))" and
    j: "j < length ?xs" "pt_total_bytes_acked (?xs ! j) \<le> 5"
      "\<forall>i < length ?xs. j < i \<longrightarrow> 5 < pt_total_bytes_acked (?xs ! i)" by blast
  have "j = 0 \<or> j = 1 \<or> j = 2" using j(1) by (simp, linarith)
  moreover have "j \<noteq> 0" using j(3) [THEN spec, of 1] by auto
  moreover have "j \<noteq> 2" using j(2) by auto
  ultimately have "?xs ! j = \<lparr>pt_ack_time = 20, pt_total_bytes_acked = 4\<rparr>" by auto
  with c show ?thesis by metis
qed

text \<open>The bytes of an ack aggregation epoch are never accumulated: from the second ack on, the extra bytes
  are the bytes of the first ack minus everything expected since then, and they wrap to almost
  \<open>2\<^sup>6\<^sup>4\<close> once more is expected than that first ack brought.\<close>

theorem ack_height_wraps:
  assumes "aht_epoch_start_time t \<noteq> 0"
    and "aht_epoch_bytes t < bw_times_delta b (time_diff time (aht_epoch_start_time t))"
  shows "aht_epoch_bytes (fst (aht_Update b r time n t)) = aht_epoch_bytes t
    \<and> uint (snd (aht_Update b r time n t)) = 2 ^ 64
        - (uint (bw_times_delta b (time_diff time (aht_epoch_start_time t))) - uint (aht_epoch_bytes t))"
  using aht_Update_wraps [OF assms] aht_Update_epoch(2) [OF assms(1)] by simp

lemma ack_height_wraps_witness:
  "uint (snd (aht_Update 8000000 2 51000 1460 ((aht_new 10)\<lparr>aht_epoch_start_time := 1000, aht_epoch_bytes := 1460\<rparr>)))
    = 2 ^ 64 - 48540"
proof -
  have "uint (bw_times_delta 8000000 (time_diff 51000 1000)) = 50000"
    using uint_ToBytesPerPeriod [of 8000000 50000] by (simp add: bw_times_delta_def time_diff_def i64_small)
  then show ?thesis
    using ack_height_wraps [of "(aht_new 10)\<lparr>aht_epoch_start_time := 1000, aht_epoch_bytes := 1460\<rparr>" 8000000 51000 2 1460]
    by (simp add: u64_less_iff)
qed

end
