(* ===== verification/Rtt_Stats.thy ===== *)
theory Rtt_Stats
  imports Quic_Time
begin

section \<open>Round-trip time statistics\<close>

text \<open>
  \<open>RttStats\<close> of \<open>congestion_control/rtt_stats.h\<close> and \<open>.cc\<close>. The weights are \<open>float\<close>
  constants; the smoothed RTT uses \<open>Delta::operator*(double, Delta)\<close>, the mean deviation
  plain \<open>float\<close> arithmetic and a truncating conversion. \<open>sqrt\<close> of the C library is an
  argument, and \<open>pow(x, 2)\<close> the correctly rounded square.

  The lemmas show that once a valid sample arrived all statistics stay positive, that
  \<open>min_rtt\<close> is the minimum of the samples, and that the smoothed RTT is the weighted mean up
  to one microsecond.
\<close>

definition kAlpha :: cfloat where "kAlpha = 1 / 8"
definition kOneMinusAlpha :: cfloat where "kOneMinusAlpha = f32 (1 - kAlpha)"
definition kBeta :: cfloat where "kBeta = 1 / 4"
definition kOneMinusBeta :: cfloat where "kOneMinusBeta = f32 (1 - kBeta)"
definition kInitialRttMs :: int where "kInitialRttMs = 100"

record deviation_calculator =
  sdc_has_valid :: bool
  sdc_m2 :: cfloat

definition sdc_OnNewRttSample :: "time_delta \<Rightarrow> time_delta \<Rightarrow> deviation_calculator \<Rightarrow> deviation_calculator" where
  "sdc_OnNewRttSample rtt_sample smoothed_rtt c =
     (let new_value = f64 (of_int (ToMicroseconds rtt_sample))
      in if delta_IsZero smoothed_rtt then c
         else let delta = f64 (new_value - f64 (of_int (ToMicroseconds smoothed_rtt)))
              in c\<lparr>sdc_has_valid := True,
                   sdc_m2 := f64 (f64 (kOneMinusBeta * sdc_m2 c) + f64 (kBeta * f64 (delta * delta)))\<rparr>)"

definition CalculateStandardDeviation :: "(cfloat \<Rightarrow> cfloat) \<Rightarrow> deviation_calculator \<Rightarrow> time_delta" where
  "CalculateStandardDeviation c_sqrt c = FromMicroseconds (f_to_i64 (c_sqrt (sdc_m2 c)))"

record rtt_stats =
  rs_latest_rtt :: time_delta
  rs_min_rtt :: time_delta
  rs_smoothed_rtt :: time_delta
  rs_previous_srtt :: time_delta
  rs_mean_deviation :: time_delta
  rs_standard_deviation_calculator :: deviation_calculator
  rs_calculate_standard_deviation :: bool
  rs_initial_rtt :: time_delta
  rs_last_update_time :: quic_time

definition rs_new :: rtt_stats where
  "rs_new = \<lparr>rs_latest_rtt = delta_Zero, rs_min_rtt = delta_Zero, rs_smoothed_rtt = delta_Zero,
     rs_previous_srtt = delta_Zero, rs_mean_deviation = delta_Zero,
     rs_standard_deviation_calculator = \<lparr>sdc_has_valid = False, sdc_m2 = 0\<rparr>,
     rs_calculate_standard_deviation = False, rs_initial_rtt = FromMilliseconds kInitialRttMs,
     rs_last_update_time = time_Zero\<rparr>"

definition SmoothedOrInitialRtt :: "rtt_stats \<Rightarrow> time_delta" where
  "SmoothedOrInitialRtt r = (if delta_IsZero (rs_smoothed_rtt r) then rs_initial_rtt r else rs_smoothed_rtt r)"

definition MinOrInitialRtt :: "rtt_stats \<Rightarrow> time_delta" where
  "MinOrInitialRtt r = (if delta_IsZero (rs_min_rtt r) then rs_initial_rtt r else rs_min_rtt r)"

definition set_initial_rtt :: "time_delta \<Rightarrow> rtt_stats \<Rightarrow> rtt_stats" where
  "set_initial_rtt initial_rtt r =
     (if ToMicroseconds initial_rtt \<le> 0 then r else r\<lparr>rs_initial_rtt := initial_rtt\<rparr>)"

definition EnableStandardDeviationCalculation :: "rtt_stats \<Rightarrow> rtt_stats" where
  "EnableStandardDeviationCalculation r = r\<lparr>rs_calculate_standard_deviation := True\<rparr>"

definition ExpireSmoothedMetrics :: "rtt_stats \<Rightarrow> rtt_stats" where
  "ExpireSmoothedMetrics r =
     (let r = r\<lparr>rs_mean_deviation := max (rs_mean_deviation r)
                (FromMicroseconds (i64 \<bar>ToMicroseconds (delta_minus (rs_smoothed_rtt r) (rs_latest_rtt r))\<bar>))\<rparr>
      in r\<lparr>rs_smoothed_rtt := max (rs_smoothed_rtt r) (rs_latest_rtt r)\<rparr>)"

text \<open>The new smoothed RTT and the new mean deviation.\<close>

definition ewma_rtt :: "time_delta \<Rightarrow> time_delta \<Rightarrow> time_delta" where
  "ewma_rtt srtt rtt_sample =
     delta_plus (delta_mult_f64 srtt kOneMinusAlpha) (delta_mult_f64 rtt_sample kAlpha)"

definition ewma_deviation :: "time_delta \<Rightarrow> time_delta \<Rightarrow> time_delta \<Rightarrow> time_delta" where
  "ewma_deviation mean_deviation srtt rtt_sample =
     FromMicroseconds (f_to_i64 (f32 (f32 (kOneMinusBeta * f32 (of_int (ToMicroseconds mean_deviation)))
       + f32 (kBeta * f32 (of_int (i64 \<bar>ToMicroseconds (delta_minus srtt rtt_sample)\<bar>))))))"

definition UpdateRtt :: "time_delta \<Rightarrow> time_delta \<Rightarrow> quic_time \<Rightarrow> rtt_stats \<Rightarrow> rtt_stats" where
  "UpdateRtt send_delta ack_delay now r =
    (if delta_IsInfinite send_delta \<or> send_delta \<le> delta_Zero then r
     else
       let r = r\<lparr>rs_last_update_time := now\<rparr>;
           r = (if delta_IsZero (rs_min_rtt r) \<or> send_delta < rs_min_rtt r
                then r\<lparr>rs_min_rtt := send_delta\<rparr> else r);
           rtt_sample = send_delta;
           r = r\<lparr>rs_previous_srtt := rs_smoothed_rtt r\<rparr>;
           rtt_sample = (if ack_delay < rtt_sample \<and> ack_delay \<le> delta_minus rtt_sample (rs_min_rtt r)
                         then delta_minus rtt_sample ack_delay else rtt_sample);
           r = r\<lparr>rs_latest_rtt := rtt_sample\<rparr>;
           r = (if rs_calculate_standard_deviation r
                then r\<lparr>rs_standard_deviation_calculator :=
                       sdc_OnNewRttSample rtt_sample (rs_smoothed_rtt r) (rs_standard_deviation_calculator r)\<rparr>
                else r)
       in if delta_IsZero (rs_smoothed_rtt r)
          then r\<lparr>rs_smoothed_rtt := rtt_sample,
                 rs_mean_deviation := FromMicroseconds (ToMicroseconds rtt_sample sdiv 2)\<rparr>
          else r\<lparr>rs_mean_deviation := ewma_deviation (rs_mean_deviation r) (rs_smoothed_rtt r) rtt_sample,
                 rs_smoothed_rtt := ewma_rtt (rs_smoothed_rtt r) rtt_sample\<rparr>)"

definition rs_OnConnectionMigration :: "rtt_stats \<Rightarrow> rtt_stats" where
  "rs_OnConnectionMigration r = r\<lparr>rs_latest_rtt := delta_Zero, rs_min_rtt := delta_Zero,
     rs_smoothed_rtt := delta_Zero, rs_mean_deviation := delta_Zero,
     rs_initial_rtt := FromMilliseconds kInitialRttMs\<rparr>"

definition GetStandardOrMeanDeviation :: "(cfloat \<Rightarrow> cfloat) \<Rightarrow> rtt_stats \<Rightarrow> time_delta" where
  "GetStandardOrMeanDeviation c_sqrt r =
     (if \<not> sdc_has_valid (rs_standard_deviation_calculator r) then rs_mean_deviation r
      else CalculateStandardDeviation c_sqrt (rs_standard_deviation_calculator r))"

definition rs_CloneFrom :: "rtt_stats \<Rightarrow> rtt_stats \<Rightarrow> rtt_stats" where
  "rs_CloneFrom stats r = \<lparr>rs_latest_rtt = rs_latest_rtt stats, rs_min_rtt = rs_min_rtt stats,
     rs_smoothed_rtt = rs_smoothed_rtt stats, rs_previous_srtt = rs_previous_srtt stats,
     rs_mean_deviation = rs_mean_deviation stats,
     rs_standard_deviation_calculator = rs_standard_deviation_calculator stats,
     rs_calculate_standard_deviation = rs_calculate_standard_deviation stats,
     rs_initial_rtt = rs_initial_rtt stats, rs_last_update_time = rs_last_update_time stats\<rparr>"

subsection \<open>The weighted means\<close>

text \<open>Times up to \<open>2\<^sup>5\<^sup>0\<close> microseconds, about 35 years.\<close>

definition rtt_max :: int where "rtt_max = 2 ^ 50"

lemma f64_int_scaled:
  assumes "0 \<le> m" "m \<le> 2 ^ 53"
  shows "f64 (of_int m / 2 ^ k) = of_int m / 2 ^ k"
proof (rule rnd_exact [where m = m and e = "- int k"])
  show "(of_int m / 2 ^ k :: rat) = of_int m * 2 powi (- int k)"
    by (simp add: power_int_minus divide_inverse)
qed (use assms in auto)

lemma kOneMinusAlpha_eq: "kOneMinusAlpha = 7 / 8"
  using rnd_exact [of "7 / 8" 7 "- 3" 24] by (simp add: kOneMinusAlpha_def kAlpha_def power_int_minus)

lemma kOneMinusBeta_eq: "kOneMinusBeta = 3 / 4"
  using rnd_exact [of "3 / 4" 3 "- 2" 24] by (simp add: kOneMinusBeta_def kBeta_def power_int_minus)

lemma delta_mult_eighths:
  assumes "0 \<le> x" "x \<le> rtt_max" "0 \<le> w" "w \<le> 8"
  shows "delta_mult_f64 x (of_int w / 8) = (2 * w * x + 8) div 16"
proof -
  have x: "f64 (of_int x) = of_int x" using assms by (intro rnd_of_int) (auto simp: rtt_max_def)
  have le: "x * w \<le> rtt_max * 8" using assms by (intro mult_mono) (auto simp: rtt_max_def)
  have "f64 (of_int (x * w) / 2 ^ 3) = of_int (x * w) / 2 ^ 3"
    using assms le by (intro f64_int_scaled) (auto simp: rtt_max_def)
  then have p: "f64 (of_int x * (of_int w / 8)) = of_int (x * w) / 8" by simp
  have "(of_int (x * w) :: rat) \<le> of_int (rtt_max * 8)" using le by (simp only: of_int_le_iff)
  then have hi: "(of_int (x * w) / 8 :: rat) \<le> 2 ^ 62" by (simp add: rtt_max_def)
  have "llround (of_int (x * w) / 8) = \<lfloor>of_int (x * w) / 8 + 1 / 2 :: rat\<rfloor>"
    using assms hi by (intro llround_eq) auto
  also have "of_int (x * w) / 8 + 1 / 2 = (of_int (2 * w * x + 8) / of_int 16 :: rat)"
    by (simp add: field_simps)
  also have "\<lfloor>\<dots>\<rfloor> = (2 * w * x + 8) div 16" by (rule floor_divide_of_int_eq)
  finally show ?thesis unfolding delta_mult_f64_def x p .
qed

lemma ewma_rtt_eq:
  assumes "0 \<le> srtt" "srtt \<le> rtt_max" "0 \<le> sample" "sample \<le> rtt_max"
  shows "ewma_rtt srtt sample = (14 * srtt + 8) div 16 + (2 * sample + 8) div 16"
proof -
  have "delta_mult_f64 srtt kOneMinusAlpha = (14 * srtt + 8) div 16"
    using delta_mult_eighths [of srtt 7] assms by (simp add: kOneMinusAlpha_eq)
  moreover have "delta_mult_f64 sample kAlpha = (2 * sample + 8) div 16"
    using delta_mult_eighths [of sample 1] assms by (simp add: kAlpha_def)
  moreover have "0 \<le> (14 * srtt + 8) div 16" "(14 * srtt + 8) div 16 \<le> (14 * rtt_max + 8) div 16"
    using assms by (auto intro!: zdiv_mono1 int_div_nonneg)
  moreover have "0 \<le> (2 * sample + 8) div 16" "(2 * sample + 8) div 16 \<le> (2 * rtt_max + 8) div 16"
    using assms by (auto intro!: zdiv_mono1 int_div_nonneg)
  ultimately show ?thesis
    by (simp add: ewma_rtt_def delta_plus_def i64_small rtt_max_def)
qed

lemma ewma_rtt_mean:
  assumes "0 \<le> srtt" "srtt \<le> rtt_max" "0 \<le> sample" "sample \<le> rtt_max"
  shows "\<bar>8 * ewma_rtt srtt sample - (7 * srtt + sample)\<bar> \<le> 8"
  using ewma_rtt_eq [OF assms] by linarith

lemma ewma_rtt_range:
  assumes "0 < srtt" "srtt \<le> rtt_max" "0 < sample" "sample \<le> rtt_max"
  shows "0 < ewma_rtt srtt sample" "ewma_rtt srtt sample \<le> rtt_max"
proof -
  have e: "ewma_rtt srtt sample = (14 * srtt + 8) div 16 + (2 * sample + 8) div 16"
    using assms by (intro ewma_rtt_eq) auto
  have "(14 * srtt + 8) div 16 \<le> (14 * rtt_max + 8) div 16" "(2 * sample + 8) div 16 \<le> (2 * rtt_max + 8) div 16"
    using assms by (auto intro!: zdiv_mono1)
  then show "ewma_rtt srtt sample \<le> rtt_max" by (simp add: e rtt_max_def)
  have "(14 * 1 + 8) div 16 \<le> (14 * srtt + 8) div 16" using assms by (intro zdiv_mono1) auto
  moreover have "0 \<le> (2 * sample + 8) div 16" using assms by (intro int_div_nonneg) auto
  ultimately show "0 < ewma_rtt srtt sample" by (simp add: e)
qed

lemma ewma_deviation_nonneg:
  assumes "0 \<le> dev" "dev \<le> rtt_max" "in_i64 srtt" "0 < srtt" "srtt \<le> rtt_max" "0 < sample" "sample \<le> rtt_max"
  shows "0 \<le> ewma_deviation dev srtt sample" "ewma_deviation dev srtt sample \<le> rtt_max"
proof -
  define a where "a = i64 \<bar>delta_minus srtt sample\<bar>"
  have d: "delta_minus srtt sample = srtt - sample"
    using assms unfolding delta_minus_def by (intro i64_id) (simp add: in_i64_def rtt_max_def)
  have a: "0 \<le> a" "a \<le> rtt_max"
    using assms unfolding a_def d by (auto simp: i64_small rtt_max_def)
  define x where "x = f32 (kOneMinusBeta * f32 (of_int dev))"
  define y where "y = f32 (kBeta * f32 (of_int a))"
  have exact: "f32 (of_int k * 2 powi 48) = of_int k * 2 powi 48" if "0 \<le> k" "k \<le> 4" for k
    by (rule rnd_exact [where m = k and e = 48]) (use that in auto)
  have R: "f32 (of_int n) \<le> (2 ^ 50 :: rat)" if "0 \<le> n" "n \<le> rtt_max" for n
  proof -
    have "f32 (of_int n) \<le> f32 (of_int (2 ^ 50))"
      using that by (intro rnd_mono) (auto simp: rtt_max_def simp flip: of_int_power)
    also have "\<dots> = 2 ^ 50" using exact [of 4] by (simp add: power_int_def)
    finally show ?thesis .
  qed
  have x: "0 \<le> x" "x \<le> 3 * 2 ^ 48"
  proof -
    show "0 \<le> x" unfolding x_def kOneMinusBeta_eq using assms by (auto intro!: rnd_nonneg)
    have "x \<le> f32 (of_int 3 * 2 powi 48)"
      unfolding x_def kOneMinusBeta_eq using R [OF assms(1,2)] assms(1)
      by (intro rnd_mono) (auto intro!: rnd_nonneg simp: power_int_def)
    then show "x \<le> 3 * 2 ^ 48" using exact [of 3] by (simp add: power_int_def)
  qed
  have y: "0 \<le> y" "y \<le> 2 ^ 48"
  proof -
    show "0 \<le> y" unfolding y_def kBeta_def using a by (auto intro!: rnd_nonneg)
    have "y \<le> f32 (of_int 1 * 2 powi 48)"
      unfolding y_def kBeta_def using R [OF a] a(1)
      by (intro rnd_mono) (auto intro!: rnd_nonneg simp: power_int_def)
    then show "y \<le> 2 ^ 48" using exact [of 1] by (simp add: power_int_def)
  qed
  have "f32 (x + y) \<le> f32 (of_int 4 * 2 powi 48)"
    using x y by (intro rnd_mono) (auto simp: power_int_def)
  then have hi: "f32 (x + y) \<le> 2 ^ 50" using exact [of 4] by (simp add: power_int_def)
  have lo: "0 \<le> f32 (x + y)" using x y by (auto intro!: rnd_nonneg)
  have e: "ewma_deviation dev srtt sample = f_to_i64 (f32 (x + y))"
    by (simp add: ewma_deviation_def x_def y_def a_def FromMicroseconds_def ToMicroseconds_def)
  have "ctrunc (f32 (x + y)) \<le> 2 ^ 50" using lo hi by (simp add: ctrunc_def floor_le_iff)
  moreover have "0 \<le> ctrunc (f32 (x + y))" using lo by (rule ctrunc_nonneg)
  ultimately show "0 \<le> ewma_deviation dev srtt sample" "ewma_deviation dev srtt sample \<le> rtt_max"
    by (simp_all add: e f_to_i64_def i64_or_indefinite_def in_i64_def rtt_max_def)
qed

subsection \<open>The invariant of the statistics\<close>

definition rtt_inv :: "rtt_stats \<Rightarrow> bool" where
  "rtt_inv r \<longleftrightarrow>
     (if rs_smoothed_rtt r = 0 then rs_min_rtt r = 0 \<and> rs_latest_rtt r = 0 \<and> rs_mean_deviation r = 0
      else 0 < rs_min_rtt r \<and> rs_min_rtt r \<le> rs_latest_rtt r \<and> rs_latest_rtt r \<le> rtt_max
        \<and> 0 < rs_smoothed_rtt r \<and> rs_smoothed_rtt r \<le> rtt_max
        \<and> 0 \<le> rs_mean_deviation r \<and> rs_mean_deviation r \<le> rtt_max)
     \<and> 0 < rs_initial_rtt r"

lemma rtt_inv_new: "rtt_inv rs_new"
  by (simp add: rtt_inv_def rs_new_def time_consts FromMilliseconds_def kInitialRttMs_def i64_def)

lemma UpdateRtt_ignored: "send_delta \<le> 0 \<or> send_delta = delta_Infinite \<Longrightarrow> UpdateRtt send_delta a now r = r"
  by (auto simp: UpdateRtt_def time_consts)

lemma UpdateRtt_min:
  assumes "0 < send_delta" "send_delta \<le> rtt_max"
  shows "rs_min_rtt (UpdateRtt send_delta a now r) =
    (if rs_min_rtt r = 0 then send_delta else min (rs_min_rtt r) send_delta)"
  using assms by (auto simp: UpdateRtt_def time_consts Let_def int64_max_def rtt_max_def min_def)

lemma rtt_inv_UpdateRtt:
  assumes inv: "rtt_inv r" and d: "send_delta \<le> rtt_max" "0 \<le> ack_delay"
  shows "rtt_inv (UpdateRtt send_delta ack_delay now r)"
proof (cases "0 < send_delta")
  case False
  then show ?thesis using inv by (simp add: UpdateRtt_ignored)
next
  case True
  define m where "m = (if rs_min_rtt r = 0 \<or> send_delta < rs_min_rtt r then send_delta else rs_min_rtt r)"
  define s where "s = (if ack_delay < send_delta \<and> ack_delay \<le> delta_minus send_delta m
    then delta_minus send_delta ack_delay else send_delta)"
  have m: "0 < m" "m \<le> send_delta" using inv True by (auto simp: m_def rtt_inv_def split: if_splits)
  have dm: "delta_minus send_delta x = send_delta - x" if "0 \<le> x" "x \<le> send_delta" for x
    using that d True unfolding delta_minus_def by (intro i64_id) (simp add: in_i64_def rtt_max_def)
  have s: "m \<le> s" "s \<le> rtt_max" using m d True by (auto simp: s_def dm)
  have not_inf: "send_delta \<noteq> int64_max" using d by (simp add: int64_max_def rtt_max_def)
  have fields:
    "rs_min_rtt (UpdateRtt send_delta ack_delay now r) = m"
    "rs_latest_rtt (UpdateRtt send_delta ack_delay now r) = s"
    "rs_initial_rtt (UpdateRtt send_delta ack_delay now r) = rs_initial_rtt r"
    "rs_smoothed_rtt (UpdateRtt send_delta ack_delay now r) =
       (if rs_smoothed_rtt r = 0 then s else ewma_rtt (rs_smoothed_rtt r) s)"
    "rs_mean_deviation (UpdateRtt send_delta ack_delay now r) =
       (if rs_smoothed_rtt r = 0 then s sdiv 2 else ewma_deviation (rs_mean_deviation r) (rs_smoothed_rtt r) s)"
    using True not_inf
    by (auto simp: UpdateRtt_def time_consts Let_def m_def s_def FromMicroseconds_def ToMicroseconds_def)
  show ?thesis
  proof (cases "rs_smoothed_rtt r = 0")
    case True
    have "s sdiv 2 = s div 2" using s m by (intro sdiv_nonneg) auto
    with s m inv True show ?thesis by (auto simp: rtt_inv_def fields)
  next
    case False
    then have r: "0 < rs_smoothed_rtt r" "rs_smoothed_rtt r \<le> rtt_max" "0 \<le> rs_mean_deviation r"
      "rs_mean_deviation r \<le> rtt_max" "0 < rs_initial_rtt r" "in_i64 (rs_smoothed_rtt r)"
      using inv by (auto simp: rtt_inv_def in_i64_def rtt_max_def)
    have "0 < s" using s m by simp
    note ewma_rtt_range [OF r(1,2) this s(2)] ewma_deviation_nonneg [OF r(3,4,6,1,2) \<open>0 < s\<close> s(2)]
    with s m r False show ?thesis by (auto simp: rtt_inv_def fields)
  qed
qed

subsection \<open>Histories of samples\<close>

fun rtt_samples :: "(time_delta \<times> time_delta \<times> quic_time) list \<Rightarrow> rtt_stats \<Rightarrow> rtt_stats" where
  "rtt_samples [] r = r"
| "rtt_samples ((send_delta, ack_delay, now) # xs) r = rtt_samples xs (UpdateRtt send_delta ack_delay now r)"

definition sample_ok :: "time_delta \<times> time_delta \<times> quic_time \<Rightarrow> bool" where
  "sample_ok x \<longleftrightarrow> fst x \<le> rtt_max \<and> 0 \<le> fst (snd x)"

text \<open>The least of the samples that count.\<close>

definition min_sample :: "time_delta \<Rightarrow> time_delta list \<Rightarrow> time_delta" where
  "min_sample m ds = fold (\<lambda>d m. if d \<le> 0 then m else if m = 0 then d else min m d) ds m"

lemma rtt_samples_spec:
  "rtt_inv r \<Longrightarrow> list_all sample_ok xs
    \<Longrightarrow> rtt_inv (rtt_samples xs r) \<and> rs_min_rtt (rtt_samples xs r) = min_sample (rs_min_rtt r) (List.map fst xs)"
proof (induction xs r rule: rtt_samples.induct)
  case (2 d a now xs r)
  then have inv: "rtt_inv (UpdateRtt d a now r)" by (intro rtt_inv_UpdateRtt) (auto simp: sample_ok_def)
  have "rs_min_rtt (UpdateRtt d a now r) = (if d \<le> 0 then rs_min_rtt r else if rs_min_rtt r = 0 then d else min (rs_min_rtt r) d)"
    using 2(3) UpdateRtt_min [of d a now r] UpdateRtt_ignored [of d a now r] by (simp add: sample_ok_def)
  with 2 inv show ?case by (simp add: min_sample_def)
qed (simp add: min_sample_def)

subsection \<open>Properties\<close>



text \<open>A sample moves the smoothed round trip time to within one microsecond of seven eighths of the
  old value plus one eighth of the adjusted sample: the two products are rounded one by one.\<close>

theorem smoothed_rtt_is_a_mean:
  assumes "rtt_inv r" "rs_smoothed_rtt r \<noteq> 0" "0 < send_delta" "send_delta \<le> rtt_max" "0 \<le> ack_delay"
  shows "\<bar>8 * rs_smoothed_rtt (UpdateRtt send_delta ack_delay now r)
    - (7 * rs_smoothed_rtt r + rs_latest_rtt (UpdateRtt send_delta ack_delay now r))\<bar> \<le> 8"
proof -
  let ?r' = "UpdateRtt send_delta ack_delay now r"
  have inv': "rtt_inv ?r'" by (rule rtt_inv_UpdateRtt [OF assms(1,4,5)])
  have s: "rs_smoothed_rtt ?r' = ewma_rtt (rs_smoothed_rtt r) (rs_latest_rtt ?r')"
    using assms(2-4) by (simp add: UpdateRtt_def time_consts Let_def int64_max_def rtt_max_def)
  have "0 \<le> rs_latest_rtt ?r'" "rs_latest_rtt ?r' \<le> rtt_max"
    using inv' by (auto simp: rtt_inv_def rtt_max_def split: if_splits)
  moreover have "0 \<le> rs_smoothed_rtt r" "rs_smoothed_rtt r \<le> rtt_max"
    using assms(1,2) by (auto simp: rtt_inv_def)
  ultimately show ?thesis unfolding s by (intro ewma_rtt_mean)
qed

lemma smoothed_rtt_is_a_mean_witness:
  "\<exists>r. rs_smoothed_rtt r = 50000 \<and> \<bar>8 * rs_smoothed_rtt (UpdateRtt 58000 0 9 r)
    - (7 * 50000 + rs_latest_rtt (UpdateRtt 58000 0 9 r))\<bar> \<le> 8"
proof -
  let ?r = "rs_new\<lparr>rs_min_rtt := 50000, rs_latest_rtt := 50000, rs_smoothed_rtt := 50000\<rparr>"
  have "rtt_inv ?r" using rtt_inv_new by (simp add: rtt_inv_def rtt_max_def rs_new_def time_consts)
  from smoothed_rtt_is_a_mean [OF this, of 58000 0 9] show ?thesis by (intro exI [of _ ?r]) (simp add: rtt_max_def)
qed

end
