(* ===== verification/Connection_Stats.thy ===== *)
theory Connection_Stats
  imports Quic_Time
begin

section \<open>Counters of the connection\<close>

text \<open>
  The counters of \<open>quic/quic_connection_stats.h\<close> that the modelled code writes. The structure
  is shared by the packet manager and its send algorithm through a pointer: an operation that
  writes to it takes it and returns it.
\<close>

record conn_stats =
  cs_packets_lost :: packet_count
  cs_packet_spuriously_detected_lost :: packet_count
  cs_slowstart_count :: u32
  cs_slowstart_num_rtts :: u32
  cs_slowstart_packets_sent :: packet_count
  cs_slowstart_bytes_sent :: byte_count
  cs_slowstart_packets_lost :: packet_count
  cs_slowstart_bytes_lost :: byte_count
  cs_slowstart_duration :: time_accumulator
  cs_bbr_num_cycles :: u32
  cs_bbr_num_short_cycles_for_reno_coexistence :: u32
  cs_bbr_exit_startup_due_to_loss :: bool
  cs_loss_timeout_count :: u64
  cs_rto_count :: u64
  cs_tcp_loss_events :: u32
  cs_has_non_app_limited_sample :: bool
  cs_overshooting_detected :: bool

definition cs_new :: conn_stats where
  "cs_new = \<lparr>cs_packets_lost = 0, cs_packet_spuriously_detected_lost = 0, cs_slowstart_count = 0,
     cs_slowstart_num_rtts = 0, cs_slowstart_packets_sent = 0, cs_slowstart_bytes_sent = 0,
     cs_slowstart_packets_lost = 0, cs_slowstart_bytes_lost = 0, cs_slowstart_duration = ta_init,
     cs_bbr_num_cycles = 0, cs_bbr_num_short_cycles_for_reno_coexistence = 0,
     cs_bbr_exit_startup_due_to_loss = False, cs_loss_timeout_count = 0, cs_rto_count = 0, cs_tcp_loss_events = 0,
     cs_has_non_app_limited_sample = False, cs_overshooting_detected = False\<rparr>"

end
