(* ===== verification/Bbr2_Model.thy ===== *)
theory Bbr2_Model
  imports Bandwidth_Sampler Rtt_Stats Connection_Stats
begin

section \<open>The BBRv2 network model\<close>

text \<open>
  \<open>congestion_control/bbr2_misc.h\<close> and \<open>.cc\<close>: the limits and parameters of the sender, the
  round trip counter, the filters for the minimum round trip time and the maximum bandwidth,
  and \<open>Bbr2NetworkModel\<close>, which turns the sampler's measurements into bounds for the sender.

  The pointer to the constant parameters is an argument of the functions that read them. A
  floating point division by zero is \<open>None\<close>: its infinity or NaN would be rounded to an
  integer, which has no defined result.

  The lemmas show the laws of the limits, that rounds are counted once each, that the
  minimum round trip time is never zero, and that the handling of a congestion event is
  total, keeps the invariant and lowers the bandwidth bound by at most the factor \<open>beta\<close>.
\<close>

subsection \<open>Limits\<close>

record limits =
  lim_min :: byte_count
  lim_max :: byte_count

definition ApplyLimits :: "limits \<Rightarrow> byte_count \<Rightarrow> byte_count" where
  "ApplyLimits l raw_value = min (lim_max l) (max (lim_min l) raw_value)"

definition u64_max :: u64 where "u64_max = - 1"

definition MinMax :: "byte_count \<Rightarrow> byte_count \<Rightarrow> limits" where
  "MinMax lo hi = \<lparr>lim_min = lo, lim_max = hi\<rparr>"
definition NoLessThan :: "byte_count \<Rightarrow> limits" where
  "NoLessThan lo = \<lparr>lim_min = lo, lim_max = u64_max\<rparr>"
definition NoGreaterThan :: "byte_count \<Rightarrow> limits" where
  "NoGreaterThan hi = \<lparr>lim_min = 0, lim_max = hi\<rparr>"
definition Unlimited :: limits where
  "Unlimited = \<lparr>lim_min = 0, lim_max = u64_max\<rparr>"

subsection \<open>Parameters\<close>

datatype bw_lo_mode = DEFAULT | MIN_RTT_REDUCTION | INFLIGHT_REDUCTION | CWND_REDUCTION

record bbr2_params =
  p_startup_cwnd_gain :: cfloat
  p_startup_pacing_gain :: cfloat
  p_startup_full_bw_threshold :: cfloat
  p_startup_full_bw_rounds :: round_trip_count
  p_startup_full_loss_count :: int64
  p_always_exit_startup_on_excess_loss :: bool
  p_drain_cwnd_gain :: cfloat
  p_drain_pacing_gain :: cfloat
  p_probe_bw_max_probe_rand_rounds :: round_trip_count
  p_probe_bw_probe_max_rounds :: u32
  p_probe_bw_probe_reno_gain :: cfloat
  p_probe_bw_probe_base_duration :: time_delta
  p_probe_bw_probe_max_rand_duration :: time_delta
  p_probe_bw_full_loss_count :: int64
  p_probe_bw_probe_inflight_gain :: cfloat
  p_probe_bw_probe_up_pacing_gain :: cfloat
  p_probe_bw_probe_down_pacing_gain :: cfloat
  p_probe_bw_default_pacing_gain :: cfloat
  p_probe_bw_cwnd_gain :: cfloat
  p_probe_rtt_inflight_target_bdp_fraction :: cfloat
  p_probe_rtt_period :: time_delta
  p_probe_rtt_duration :: time_delta
  p_initial_max_ack_height_filter_window :: round_trip_count
  p_inflight_hi_headroom :: cfloat
  p_loss_threshold :: cfloat
  p_beta :: cfloat
  p_cwnd_limits :: limits
  p_add_ack_height_to_queueing_threshold :: bool
  p_avoid_unnecessary_probe_rtt :: bool
  p_ignore_inflight_lo :: bool
  p_limit_inflight_hi_by_max_delivered :: bool
  p_startup_loss_exit_use_max_delivered :: bool
  p_use_bytes_delivered_for_inflight_hi :: bool
  p_enable_reno_coexistence :: bool
  p_bw_lo_mode :: bw_lo_mode
  p_decrease_startup_pacing_at_end_of_round :: bool

definition Bbr2Params :: "byte_count \<Rightarrow> byte_count \<Rightarrow> bbr2_params" where
  "Bbr2Params cwnd_min cwnd_max = \<lparr>
     p_startup_cwnd_gain = 2,
     p_startup_pacing_gain = f32 (f64 (2885 / 1000)),
     p_startup_full_bw_threshold = 5 / 4,
     p_startup_full_bw_rounds = 3,
     p_startup_full_loss_count = 20,
     p_always_exit_startup_on_excess_loss = False,
     p_drain_cwnd_gain = 2,
     p_drain_pacing_gain = f32 (f64 (1 / f64 (2885 / 1000))),
     p_probe_bw_max_probe_rand_rounds = 2,
     p_probe_bw_probe_max_rounds = 63,
     p_probe_bw_probe_reno_gain = 1,
     p_probe_bw_probe_base_duration = FromMilliseconds 100,
     p_probe_bw_probe_max_rand_duration = FromMilliseconds 1000,
     p_probe_bw_full_loss_count = 30,
     p_probe_bw_probe_inflight_gain = 5 / 4,
     p_probe_bw_probe_up_pacing_gain = 5 / 4,
     p_probe_bw_probe_down_pacing_gain = 3 / 4,
     p_probe_bw_default_pacing_gain = 1,
     p_probe_bw_cwnd_gain = 2,
     p_probe_rtt_inflight_target_bdp_fraction = 1 / 2,
     p_probe_rtt_period = FromMilliseconds 200,
     p_probe_rtt_duration = FromMilliseconds 200,
     p_initial_max_ack_height_filter_window = 4,
     p_inflight_hi_headroom = f32 (f64 (3 / 10)),
     p_loss_threshold = 30,
     p_beta = f32 (f64 (3 / 10)),
     p_cwnd_limits = \<lparr>lim_min = cwnd_min, lim_max = cwnd_max\<rparr>,
     p_add_ack_height_to_queueing_threshold = True,
     p_avoid_unnecessary_probe_rtt = True,
     p_ignore_inflight_lo = False,
     p_limit_inflight_hi_by_max_delivered = False,
     p_startup_loss_exit_use_max_delivered = True,
     p_use_bytes_delivered_for_inflight_hi = False,
     p_enable_reno_coexistence = True,
     p_bw_lo_mode = DEFAULT,
     p_decrease_startup_pacing_at_end_of_round = False\<rparr>"

subsection \<open>Round trips and filters\<close>

record round_trip_counter =
  rtc_round_trip_count :: round_trip_count
  rtc_last_sent_packet :: packet_number
  rtc_end_of_round_trip :: packet_number

definition rtc_new :: round_trip_counter where
  "rtc_new = \<lparr>rtc_round_trip_count = 0, rtc_last_sent_packet = UninitializedPacketNumber,
     rtc_end_of_round_trip = UninitializedPacketNumber\<rparr>"

definition rtc_OnPacketSent :: "packet_number \<Rightarrow> round_trip_counter \<Rightarrow> round_trip_counter" where
  "rtc_OnPacketSent packet_number c = c\<lparr>rtc_last_sent_packet := packet_number\<rparr>"

definition rtc_OnPacketsAcked :: "packet_number \<Rightarrow> round_trip_counter \<Rightarrow> round_trip_counter \<times> bool" where
  "rtc_OnPacketsAcked last_acked_packet c =
     (if \<not> IsInitialized (rtc_end_of_round_trip c) \<or> rtc_end_of_round_trip c < last_acked_packet
      then (c\<lparr>rtc_round_trip_count := rtc_round_trip_count c + 1,
              rtc_end_of_round_trip := rtc_last_sent_packet c\<rparr>, True)
      else (c, False))"

definition rtc_RestartRound :: "round_trip_counter \<Rightarrow> round_trip_counter" where
  "rtc_RestartRound c = c\<lparr>rtc_end_of_round_trip := rtc_last_sent_packet c\<rparr>"

record min_rtt_filter =
  mrf_min_rtt :: time_delta
  mrf_min_rtt_timestamp :: quic_time

definition mrf_new :: "time_delta \<Rightarrow> quic_time \<Rightarrow> min_rtt_filter" where
  "mrf_new initial_min_rtt initial_min_rtt_timestamp =
     \<lparr>mrf_min_rtt = initial_min_rtt, mrf_min_rtt_timestamp = initial_min_rtt_timestamp\<rparr>"

definition mrf_ForceUpdate :: "time_delta \<Rightarrow> quic_time \<Rightarrow> min_rtt_filter \<Rightarrow> min_rtt_filter" where
  "mrf_ForceUpdate sample_rtt now f = f\<lparr>mrf_min_rtt := sample_rtt, mrf_min_rtt_timestamp := now\<rparr>"

definition mrf_Update :: "time_delta \<Rightarrow> quic_time \<Rightarrow> min_rtt_filter \<Rightarrow> min_rtt_filter" where
  "mrf_Update sample_rtt now f =
     (if sample_rtt < mrf_min_rtt f \<or> mrf_min_rtt_timestamp f = time_Zero
      then f\<lparr>mrf_min_rtt := sample_rtt, mrf_min_rtt_timestamp := now\<rparr> else f)"

record max_bandwidth_filter =
  mbf_0 :: bandwidth
  mbf_1 :: bandwidth

definition mbf_new :: max_bandwidth_filter where
  "mbf_new = \<lparr>mbf_0 = bw_Zero, mbf_1 = bw_Zero\<rparr>"

definition mbf_Update :: "bandwidth \<Rightarrow> max_bandwidth_filter \<Rightarrow> max_bandwidth_filter" where
  "mbf_Update sample f = f\<lparr>mbf_1 := max sample (mbf_1 f)\<rparr>"

definition mbf_Advance :: "max_bandwidth_filter \<Rightarrow> max_bandwidth_filter" where
  "mbf_Advance f = (if bw_IsZero (mbf_1 f) then f else f\<lparr>mbf_0 := mbf_1 f, mbf_1 := bw_Zero\<rparr>)"

definition mbf_Get :: "max_bandwidth_filter \<Rightarrow> bandwidth" where
  "mbf_Get f = max (mbf_0 f) (mbf_1 f)"

subsection \<open>The congestion event\<close>

record bbr2_event =
  ev_event_time :: quic_time
  ev_prior_cwnd :: byte_count
  ev_prior_bytes_in_flight :: byte_count
  ev_bytes_in_flight :: byte_count
  ev_bytes_acked :: byte_count
  ev_bytes_lost :: byte_count
  ev_end_of_round_trip :: bool
  ev_last_sample_is_app_limited :: bool
  ev_is_probing_for_bandwidth :: bool
  ev_sample_min_rtt :: time_delta
  ev_sample_max_bandwidth :: bandwidth
  ev_last_packet_send_state :: send_time_state

text \<open>The constructor leaves \<open>prior_cwnd\<close> unset; the sender sets it first.\<close>

definition ev_new :: "byte_count \<Rightarrow> bbr2_event" where
  "ev_new prior_cwnd = \<lparr>ev_event_time = time_Zero, ev_prior_cwnd = prior_cwnd,
     ev_prior_bytes_in_flight = 0, ev_bytes_in_flight = 0, ev_bytes_acked = 0, ev_bytes_lost = 0,
     ev_end_of_round_trip = False, ev_last_sample_is_app_limited = False,
     ev_is_probing_for_bandwidth = False, ev_sample_min_rtt = delta_Infinite,
     ev_sample_max_bandwidth = bw_Zero, ev_last_packet_send_state = sts_invalid\<rparr>"

definition BytesInFlight :: "send_time_state \<Rightarrow> byte_count" where
  "BytesInFlight st = (if sts_bytes_in_flight st \<noteq> 0 then sts_bytes_in_flight st
     else sts_total_bytes_sent st - sts_total_bytes_acked st - sts_total_bytes_lost st)"

subsection \<open>The network model\<close>

record bbr2_model =
  m_round_trip_counter :: round_trip_counter
  m_bandwidth_sampler :: bandwidth_sampler
  m_max_bandwidth_filter :: max_bandwidth_filter
  m_min_rtt_filter :: min_rtt_filter
  m_bytes_lost_in_round :: byte_count
  m_loss_events_in_round :: int64
  m_max_bytes_delivered_in_round :: byte_count
  m_bandwidth_latest :: bandwidth
  m_bandwidth_lo :: bandwidth
  m_prior_bandwidth_lo :: bandwidth
  m_inflight_latest :: byte_count
  m_inflight_lo :: byte_count
  m_inflight_hi :: byte_count
  m_cwnd_gain :: cfloat
  m_pacing_gain :: cfloat
  m_full_bandwidth_reached :: bool
  m_full_bandwidth_baseline :: bandwidth
  m_rounds_without_bandwidth_growth :: round_trip_count

definition bandwidth_lo_default :: bandwidth where "bandwidth_lo_default = bw_Infinite"
definition inflight_lo_default :: byte_count where "inflight_lo_default = u64_max"
definition inflight_hi_default :: byte_count where "inflight_hi_default = u64_max"

definition model_new :: "bbr2_params \<Rightarrow> time_delta \<Rightarrow> quic_time \<Rightarrow> cfloat \<Rightarrow> cfloat \<Rightarrow> bandwidth_sampler option
    \<Rightarrow> bbr2_model" where
  "model_new P initial_rtt initial_rtt_timestamp cwnd_gain pacing_gain old_sampler =
     \<lparr>m_round_trip_counter = rtc_new,
      m_bandwidth_sampler = (case old_sampler of Some s \<Rightarrow> s
        | None \<Rightarrow> bs_new (p_initial_max_ack_height_filter_window P)),
      m_max_bandwidth_filter = mbf_new,
      m_min_rtt_filter = mrf_new initial_rtt initial_rtt_timestamp,
      m_bytes_lost_in_round = 0, m_loss_events_in_round = 0, m_max_bytes_delivered_in_round = 0,
      m_bandwidth_latest = bw_Zero, m_bandwidth_lo = bandwidth_lo_default, m_prior_bandwidth_lo = bw_Zero,
      m_inflight_latest = 0, m_inflight_lo = inflight_lo_default, m_inflight_hi = inflight_hi_default,
      m_cwnd_gain = cwnd_gain, m_pacing_gain = pacing_gain, m_full_bandwidth_reached = False,
      m_full_bandwidth_baseline = bw_Zero, m_rounds_without_bandwidth_growth = 0\<rparr>"

definition MinRtt :: "bbr2_model \<Rightarrow> time_delta" where "MinRtt m = mrf_min_rtt (m_min_rtt_filter m)"
definition MinRttTimestamp :: "bbr2_model \<Rightarrow> quic_time" where
  "MinRttTimestamp m = mrf_min_rtt_timestamp (m_min_rtt_filter m)"
definition MaxBandwidth :: "bbr2_model \<Rightarrow> bandwidth" where "MaxBandwidth m = mbf_Get (m_max_bandwidth_filter m)"
definition MaxAckHeight :: "bbr2_model \<Rightarrow> byte_count" where
  "MaxAckHeight m = bs_max_ack_height (m_bandwidth_sampler m)"
definition model_BandwidthEstimate :: "bbr2_model \<Rightarrow> bandwidth" where
  "model_BandwidthEstimate m = min (MaxBandwidth m) (m_bandwidth_lo m)"
definition RoundTripCount :: "bbr2_model \<Rightarrow> round_trip_count" where
  "RoundTripCount m = rtc_round_trip_count (m_round_trip_counter m)"
definition total_bytes_acked :: "bbr2_model \<Rightarrow> byte_count" where
  "total_bytes_acked m = bs_total_bytes_acked (m_bandwidth_sampler m)"
definition total_bytes_lost :: "bbr2_model \<Rightarrow> byte_count" where
  "total_bytes_lost m = bs_total_bytes_lost (m_bandwidth_sampler m)"

definition BDP_of :: "bandwidth \<Rightarrow> bbr2_model \<Rightarrow> byte_count" where
  "BDP_of bandwidth m = bw_times_delta bandwidth (MinRtt m)"
definition BDP :: "bbr2_model \<Rightarrow> byte_count" where "BDP m = BDP_of (MaxBandwidth m) m"

text \<open>\<open>QuicByteCount * float\<close> is a \<open>float\<close>, truncated when it is returned.\<close>

definition BDP_gain :: "bandwidth \<Rightarrow> cfloat \<Rightarrow> bbr2_model \<Rightarrow> byte_count" where
  "BDP_gain bandwidth gain m = f_to_u64 (f32 (u64_f32 (bw_times_delta bandwidth (MinRtt m)) * gain))"

definition PostponeMinRttTimestamp :: "time_delta \<Rightarrow> bbr2_model \<Rightarrow> bbr2_model" where
  "PostponeMinRttTimestamp duration m = m\<lparr>m_min_rtt_filter :=
     mrf_ForceUpdate (MinRtt m) (time_plus (MinRttTimestamp m) duration) (m_min_rtt_filter m)\<rparr>"

definition AdvanceMaxBandwidthFilter :: "bbr2_model \<Rightarrow> bbr2_model" where
  "AdvanceMaxBandwidthFilter m = m\<lparr>m_max_bandwidth_filter := mbf_Advance (m_max_bandwidth_filter m)\<rparr>"

definition OnApplicationLimited :: "bbr2_model \<Rightarrow> bbr2_model" where
  "OnApplicationLimited m = m\<lparr>m_bandwidth_sampler := bs_OnAppLimited (m_bandwidth_sampler m)\<rparr>"

definition model_EnableOverestimateAvoidance :: "bbr2_model \<Rightarrow> bbr2_model" where
  "model_EnableOverestimateAvoidance m =
     m\<lparr>m_bandwidth_sampler := EnableOverestimateAvoidance (m_bandwidth_sampler m)\<rparr>"

definition clear_bandwidth_lo :: "bbr2_model \<Rightarrow> bbr2_model" where
  "clear_bandwidth_lo m = m\<lparr>m_bandwidth_lo := bandwidth_lo_default\<rparr>"
definition clear_inflight_lo :: "bbr2_model \<Rightarrow> bbr2_model" where
  "clear_inflight_lo m = m\<lparr>m_inflight_lo := inflight_lo_default\<rparr>"

definition cap_inflight_lo :: "bbr2_params \<Rightarrow> byte_count \<Rightarrow> bbr2_model \<Rightarrow> bbr2_model" where
  "cap_inflight_lo P cap m =
     (if p_ignore_inflight_lo P then m
      else if m_inflight_lo m \<noteq> inflight_lo_default \<and> cap < m_inflight_lo m
      then m\<lparr>m_inflight_lo := cap\<rparr> else m)"

definition inflight_hi_with_headroom :: "bbr2_params \<Rightarrow> bbr2_model \<Rightarrow> byte_count" where
  "inflight_hi_with_headroom P m =
     (let headroom = f_to_u64 (f32 (u64_f32 (m_inflight_hi m) * p_inflight_hi_headroom P))
      in if headroom < m_inflight_hi m then m_inflight_hi m - headroom else 0)"

definition model_OnPacketSent :: "quic_time \<Rightarrow> byte_count \<Rightarrow> packet_number \<Rightarrow> byte_count \<Rightarrow> bbr2_model
    \<Rightarrow> bbr2_model option" where
  "model_OnPacketSent sent_time bytes_in_flight packet_number bytes m = do {
     let m = m\<lparr>m_round_trip_counter := rtc_OnPacketSent packet_number (m_round_trip_counter m)\<rparr>;
     s \<leftarrow> bs_OnPacketSent sent_time packet_number bytes bytes_in_flight (m_bandwidth_sampler m);
     Some (m\<lparr>m_bandwidth_sampler := s\<rparr>) }"

subsection \<open>Lower bounds\<close>

definition one_minus_beta :: "bbr2_params \<Rightarrow> cfloat" where
  "one_minus_beta P = f64 (1 - p_beta P)"

definition AdaptLowerBounds_default :: "bbr2_params \<Rightarrow> bbr2_event \<Rightarrow> bbr2_model \<Rightarrow> bbr2_model" where
  "AdaptLowerBounds_default P ev m =
     (if \<not> ev_end_of_round_trip ev \<or> ev_is_probing_for_bandwidth ev then m
      else if 0 < m_bytes_lost_in_round m
      then let m = (if bw_IsInfinite (m_bandwidth_lo m) then m\<lparr>m_bandwidth_lo := MaxBandwidth m\<rparr> else m);
               m = m\<lparr>m_bandwidth_lo :=
                 max (m_bandwidth_latest m) (bw_mult (m_bandwidth_lo m) (f32 (one_minus_beta P)))\<rparr>
           in if p_ignore_inflight_lo P then m
              else let m = (if m_inflight_lo m = inflight_lo_default
                            then m\<lparr>m_inflight_lo := ev_prior_cwnd ev\<rparr> else m)
                   in m\<lparr>m_inflight_lo := max (m_inflight_latest m)
                        (f_to_u64 (f64 (u64_f64 (m_inflight_lo m) * one_minus_beta P)))\<rparr>
      else m)"

text \<open>The \<open>switch\<close> of the modes that react to every loss: the lowered \<open>bandwidth_lo_\<close>.\<close>

definition reduced_fraction :: "byte_count \<Rightarrow> byte_count \<Rightarrow> cfloat option" where
  "reduced_fraction whole lost =
     (if whole = 0 then None else Some (f32 (f64 (u64_f64 (whole - lost) / u64_f64 whole))))"

definition reduced_bandwidth_lo :: "bbr2_params \<Rightarrow> bbr2_event \<Rightarrow> bbr2_model \<Rightarrow> bandwidth option" where
  "reduced_bandwidth_lo P ev m =
     (case p_bw_lo_mode P of
        MIN_RTT_REDUCTION \<Rightarrow> do {
          b \<leftarrow> FromBytesAndTimeDelta (ev_bytes_lost ev) (MinRtt m);
          Some (bw_minus (m_bandwidth_lo m) b) }
      | INFLIGHT_REDUCTION \<Rightarrow> do {
          let effective_inflight = max (BDP m) (ev_prior_bytes_in_flight ev);
          g \<leftarrow> reduced_fraction effective_inflight (ev_bytes_lost ev);
          Some (bw_mult (m_bandwidth_lo m) g) }
      | CWND_REDUCTION \<Rightarrow> do {
          g \<leftarrow> reduced_fraction (ev_prior_cwnd ev) (ev_bytes_lost ev);
          Some (bw_mult (m_bandwidth_lo m) g) }
      | DEFAULT \<Rightarrow> Some (m_bandwidth_lo m))"

definition AdaptLowerBounds :: "bbr2_params \<Rightarrow> bbr2_event \<Rightarrow> bbr2_model \<Rightarrow> bbr2_model option" where
  "AdaptLowerBounds P ev m =
     (if p_bw_lo_mode P = DEFAULT then Some (AdaptLowerBounds_default P ev m)
      else if ev_bytes_lost ev = 0 then Some m
      else if m_pacing_gain m < 1 then Some m
      else do {
        let m = (if bw_IsInfinite (m_bandwidth_lo m) then m\<lparr>m_bandwidth_lo := MaxBandwidth m\<rparr> else m);
        let m = (if bw_IsZero (m_prior_bandwidth_lo m)
                 then m\<lparr>m_prior_bandwidth_lo := m_bandwidth_lo m\<rparr> else m);
        b \<leftarrow> reduced_bandwidth_lo P ev m;
        let m = m\<lparr>m_bandwidth_lo := b\<rparr>;
        let last_bandwidth = (if \<not> bw_IsZero (ev_sample_max_bandwidth ev)
                              then ev_sample_max_bandwidth ev else m_bandwidth_latest m);
        let m = (if p_startup_full_bw_threshold P < m_pacing_gain m
          then m\<lparr>m_bandwidth_lo := max (m_bandwidth_lo m)
                 (bw_mult last_bandwidth (f32 (p_startup_full_bw_threshold P / m_pacing_gain m)))\<rparr>
          else m\<lparr>m_bandwidth_lo := max (m_bandwidth_lo m) last_bandwidth\<rparr>);
        Some (if ev_end_of_round_trip ev
          then m\<lparr>m_bandwidth_lo := max (m_bandwidth_lo m)
                   (bw_mult (m_prior_bandwidth_lo m) (f32 (one_minus_beta P))),
                 m_prior_bandwidth_lo := bw_Zero\<rparr>
          else m) })"

subsection \<open>Congestion events\<close>

text \<open>
  \<open>OnCongestionEventStart\<close> in four steps: the round trip and the sampler, the updates from the
  sample, the lower bounds, and the values that a new round restarts.
\<close>

definition event_sample :: "quic_time \<Rightarrow> acked_packet list \<Rightarrow> lost_packet list \<Rightarrow> bbr2_event \<Rightarrow> bbr2_model
    \<Rightarrow> (bbr2_model \<times> bbr2_event \<times> congestion_event_sample) option" where
  "event_sample event_time acked_packets lost_packets ev m = do {
     let ev = ev\<lparr>ev_event_time := event_time\<rparr>;
     let (c, ended) = (if acked_packets = [] then (m_round_trip_counter m, False)
       else rtc_OnPacketsAcked (ap_packet_number (last acked_packets)) (m_round_trip_counter m));
     let m = m\<lparr>m_round_trip_counter := c\<rparr>;
     let ev = ev\<lparr>ev_end_of_round_trip := ended\<rparr>;
     (s, sample) \<leftarrow> bs_OnCongestionEvent event_time acked_packets lost_packets (MaxBandwidth m)
       (m_bandwidth_lo m) (RoundTripCount m) (m_bandwidth_sampler m);
     Some (m\<lparr>m_bandwidth_sampler := s\<rparr>, ev, sample) }"

definition event_filters :: "byte_count \<Rightarrow> congestion_event_sample \<Rightarrow> bbr2_event \<Rightarrow> bbr2_model
    \<Rightarrow> bbr2_model \<times> bbr2_event" where
  "event_filters prior_bytes_acked sample ev m =
     (let ev = (if sts_is_valid (ces_last_packet_send_state sample)
                then ev\<lparr>ev_last_packet_send_state := ces_last_packet_send_state sample,
                        ev_last_sample_is_app_limited :=
                          sts_is_app_limited (ces_last_packet_send_state sample)\<rparr>
                else ev);
          (m, ev) = (if prior_bytes_acked \<noteq> total_bytes_acked m
            then let ev = ev\<lparr>ev_sample_max_bandwidth := ces_sample_max_bandwidth sample\<rparr>
                 in if \<not> ces_sample_is_app_limited sample
                       \<or> MaxBandwidth m < ces_sample_max_bandwidth sample
                    then (m\<lparr>m_max_bandwidth_filter :=
                            mbf_Update (ev_sample_max_bandwidth ev) (m_max_bandwidth_filter m)\<rparr>, ev)
                    else (m, ev)
            else (m, ev))
      in if \<not> delta_IsInfinite (ces_sample_rtt sample)
         then let ev = ev\<lparr>ev_sample_min_rtt := ces_sample_rtt sample\<rparr>
              in (m\<lparr>m_min_rtt_filter :=
                    mrf_Update (ev_sample_min_rtt ev) (ev_event_time ev) (m_min_rtt_filter m)\<rparr>, ev)
         else (m, ev))"

definition event_bytes :: "byte_count \<Rightarrow> byte_count \<Rightarrow> bbr2_event \<Rightarrow> bbr2_model \<Rightarrow> bbr2_event" where
  "event_bytes prior_bytes_acked prior_bytes_lost ev m =
     (let ev = ev\<lparr>ev_bytes_acked := total_bytes_acked m - prior_bytes_acked,
                  ev_bytes_lost := total_bytes_lost m - prior_bytes_lost\<rparr>
      in if ev_bytes_acked ev + ev_bytes_lost ev \<le> ev_prior_bytes_in_flight ev
         then ev\<lparr>ev_bytes_in_flight :=
                 ev_prior_bytes_in_flight ev - ev_bytes_acked ev - ev_bytes_lost ev\<rparr>
         else ev\<lparr>ev_bytes_in_flight := 0\<rparr>)"

definition event_round :: "congestion_event_sample \<Rightarrow> bbr2_event \<Rightarrow> bbr2_model \<Rightarrow> bbr2_model" where
  "event_round sample ev m =
     (let m = (if 0 < ev_bytes_lost ev
               then m\<lparr>m_bytes_lost_in_round := m_bytes_lost_in_round m + ev_bytes_lost ev,
                      m_loss_events_in_round := i64 (m_loss_events_in_round m + 1)\<rparr>
               else m);
          m = (if 0 < ev_bytes_acked ev \<and> sts_is_valid (ev_last_packet_send_state ev)
                  \<and> sts_total_bytes_acked (ev_last_packet_send_state ev) < total_bytes_acked m
               then m\<lparr>m_max_bytes_delivered_in_round := max (m_max_bytes_delivered_in_round m)
                      (total_bytes_acked m - sts_total_bytes_acked (ev_last_packet_send_state ev))\<rparr>
               else m);
          m = (if m_bandwidth_latest m < ces_sample_max_bandwidth sample
               then m\<lparr>m_bandwidth_latest := ces_sample_max_bandwidth sample\<rparr> else m)
      in if m_inflight_latest m < ces_sample_max_inflight sample
         then m\<lparr>m_inflight_latest := ces_sample_max_inflight sample\<rparr> else m)"

definition restart_latest :: "congestion_event_sample \<Rightarrow> bbr2_event \<Rightarrow> bbr2_model \<Rightarrow> bbr2_model" where
  "restart_latest sample ev m =
     (if \<not> ev_end_of_round_trip ev then m
      else let m = (if \<not> bw_IsZero (ces_sample_max_bandwidth sample)
                    then m\<lparr>m_bandwidth_latest := ces_sample_max_bandwidth sample\<rparr> else m)
           in if 0 < ces_sample_max_inflight sample
              then m\<lparr>m_inflight_latest := ces_sample_max_inflight sample\<rparr> else m)"

definition OnCongestionEventStart :: "bbr2_params \<Rightarrow> quic_time \<Rightarrow> acked_packet list \<Rightarrow> lost_packet list
    \<Rightarrow> bbr2_event \<Rightarrow> bbr2_model \<Rightarrow> (bbr2_model \<times> bbr2_event) option" where
  "OnCongestionEventStart P event_time acked_packets lost_packets ev m = do {
     let prior_bytes_acked = total_bytes_acked m;
     let prior_bytes_lost = total_bytes_lost m;
     (m, ev, sample) \<leftarrow> event_sample event_time acked_packets lost_packets ev m;
     let (m, ev) = event_filters prior_bytes_acked sample ev m;
     let ev = event_bytes prior_bytes_acked prior_bytes_lost ev m;
     m \<leftarrow> AdaptLowerBounds P ev (event_round sample ev m);
     Some (restart_latest sample ev m, ev) }"

definition OnNewRound :: "bbr2_model \<Rightarrow> bbr2_model" where
  "OnNewRound m = m\<lparr>m_bytes_lost_in_round := 0, m_loss_events_in_round := 0,
     m_max_bytes_delivered_in_round := 0\<rparr>"

definition RestartRoundEarly :: "bbr2_model \<Rightarrow> bbr2_model" where
  "RestartRoundEarly m = (let m = OnNewRound m
     in m\<lparr>m_round_trip_counter := rtc_RestartRound (m_round_trip_counter m)\<rparr>)"

definition OnCongestionEventFinish :: "packet_number \<Rightarrow> bbr2_event \<Rightarrow> bbr2_model \<Rightarrow> bbr2_model option" where
  "OnCongestionEventFinish least_unacked_packet ev m = do {
     let m = (if ev_end_of_round_trip ev then OnNewRound m else m);
     s \<leftarrow> bs_RemoveObsoletePackets least_unacked_packet (m_bandwidth_sampler m);
     Some (m\<lparr>m_bandwidth_sampler := s\<rparr>) }"

definition UpdateNetworkParameters :: "time_delta \<Rightarrow> bbr2_model \<Rightarrow> bbr2_model" where
  "UpdateNetworkParameters rtt m =
     (if \<not> delta_IsZero rtt
      then m\<lparr>m_min_rtt_filter := mrf_Update rtt (MinRttTimestamp m) (m_min_rtt_filter m)\<rparr> else m)"

definition MaybeExpireMinRtt :: "bbr2_params \<Rightarrow> bbr2_event \<Rightarrow> bbr2_model \<Rightarrow> bbr2_model \<times> bool" where
  "MaybeExpireMinRtt P ev m =
     (if ev_event_time ev < time_plus (MinRttTimestamp m) (p_probe_rtt_period P) then (m, False)
      else if delta_IsInfinite (ev_sample_min_rtt ev) then (m, False)
      else (m\<lparr>m_min_rtt_filter :=
              mrf_ForceUpdate (ev_sample_min_rtt ev) (ev_event_time ev) (m_min_rtt_filter m)\<rparr>, True))"

definition IsCongestionWindowLimited :: "bbr2_event \<Rightarrow> bool" where
  "IsCongestionWindowLimited ev \<longleftrightarrow>
     ev_prior_cwnd ev \<le> ev_bytes_in_flight ev + ev_bytes_acked ev + ev_bytes_lost ev"

definition IsInflightTooHigh :: "bbr2_params \<Rightarrow> bbr2_event \<Rightarrow> int64 \<Rightarrow> bbr2_model \<Rightarrow> bool" where
  "IsInflightTooHigh P ev max_loss_events m =
     (let st = ev_last_packet_send_state ev
      in if \<not> sts_is_valid st then False
         else if m_loss_events_in_round m < max_loss_events then False
         else let inflight_at_send = BytesInFlight st;
                  bytes_lost_in_round = m_bytes_lost_in_round m
              in if 0 < inflight_at_send \<and> 0 < bytes_lost_in_round
                 then f_to_u64 (f32 (u64_f32 inflight_at_send * p_loss_threshold P)) < bytes_lost_in_round
                 else False)"

datatype bandwidth_growth = APP_LIMITED | NO_GROWTH | GROWTH | EXIT

definition CheckBandwidthGrowth :: "bbr2_params \<Rightarrow> bbr2_event \<Rightarrow> bbr2_model \<Rightarrow> bbr2_model \<times> bandwidth_growth" where
  "CheckBandwidthGrowth P ev m =
     (if ev_last_sample_is_app_limited ev then (m, APP_LIMITED)
      else let threshold = bw_mult (m_full_bandwidth_baseline m) (p_startup_full_bw_threshold P)
           in if threshold \<le> MaxBandwidth m
              then (m\<lparr>m_full_bandwidth_baseline := MaxBandwidth m, m_rounds_without_bandwidth_growth := 0\<rparr>,
                    GROWTH)
              else let m = m\<lparr>m_rounds_without_bandwidth_growth := m_rounds_without_bandwidth_growth m + 1\<rparr>
                   in if p_startup_full_bw_rounds P \<le> m_rounds_without_bandwidth_growth m
                      then (m\<lparr>m_full_bandwidth_reached := True\<rparr>, EXIT)
                      else (m, NO_GROWTH))"

subsection \<open>Limits\<close>

lemma ApplyLimits_max: "ApplyLimits l x \<le> lim_max l"
  by (simp add: ApplyLimits_def)

lemma ApplyLimits_min: "lim_min l \<le> lim_max l \<Longrightarrow> lim_min l \<le> ApplyLimits l x"
  by (simp add: ApplyLimits_def)

lemma ApplyLimits_id: "lim_min l \<le> x \<Longrightarrow> x \<le> lim_max l \<Longrightarrow> ApplyLimits l x = x"
  by (simp add: ApplyLimits_def max_def min_def)

lemma ApplyLimits_empty: "lim_max l \<le> lim_min l \<Longrightarrow> ApplyLimits l x = lim_max l"
  by (simp add: ApplyLimits_def min_absorb1 le_max_iff_disj)

lemma ApplyLimits_mono: "x \<le> y \<Longrightarrow> ApplyLimits l x \<le> ApplyLimits l y"
  unfolding ApplyLimits_def by (intro min.mono max.mono order_refl)

lemma ApplyLimits_idem [simp]: "ApplyLimits l (ApplyLimits l x) = ApplyLimits l x"
  by (auto simp: ApplyLimits_def min_def max_def)

subsection \<open>Round trips\<close>

text \<open>A round ends once: after the end of a round, only a packet sent later ends the next.\<close>

lemma rtc_OnPacketsAcked_count:
  "rtc_OnPacketsAcked p c = (c', ended) \<Longrightarrow>
    rtc_round_trip_count c' = rtc_round_trip_count c + (if ended then 1 else 0)
    \<and> rtc_last_sent_packet c' = rtc_last_sent_packet c"
  by (auto simp: rtc_OnPacketsAcked_def split: if_splits)

lemma rtc_no_end_within:
  "IsInitialized (rtc_end_of_round_trip c) \<Longrightarrow> q \<le> rtc_end_of_round_trip c
    \<Longrightarrow> rtc_OnPacketsAcked q c = (c, False)"
  by (simp add: rtc_OnPacketsAcked_def linorder_not_less)

lemma rtc_end_after:
  "rtc_end_of_round_trip c < q \<Longrightarrow>
    rtc_OnPacketsAcked q c = (c\<lparr>rtc_round_trip_count := rtc_round_trip_count c + 1,
      rtc_end_of_round_trip := rtc_last_sent_packet c\<rparr>, True)"
  by (simp add: rtc_OnPacketsAcked_def)

text \<open>The acks of a trace of packet numbers, in order.\<close>

fun rtc_acks :: "packet_number list \<Rightarrow> round_trip_counter \<Rightarrow> round_trip_counter" where
  "rtc_acks [] c = c"
| "rtc_acks (p # ps) c = rtc_acks ps (fst (rtc_OnPacketsAcked p c))"

lemma rtc_acks_within:
  "IsInitialized (rtc_end_of_round_trip c) \<Longrightarrow> \<forall>q \<in> set qs. q \<le> rtc_end_of_round_trip c
    \<Longrightarrow> rtc_acks qs c = c"
  by (induction qs) (simp_all add: rtc_no_end_within)

subsection \<open>Filters\<close>

lemma mbf_Get_Update: "mbf_Get (mbf_Update b f) = max b (mbf_Get f)"
  by (simp add: mbf_Get_def mbf_Update_def max.left_commute)

lemma mbf_Get_Advance:
  "0 \<le> mbf_1 f \<Longrightarrow> mbf_Get (mbf_Advance f) = (if mbf_1 f = 0 then mbf_Get f else mbf_1 f)"
  by (simp add: mbf_Get_def mbf_Advance_def bw_IsZero_def bw_Zero_def)

lemma mrf_Update_bound:
  "mrf_min_rtt_timestamp f \<noteq> 0 \<Longrightarrow> mrf_min_rtt (mrf_Update r now f) = min r (mrf_min_rtt f)"
  by (simp add: mrf_Update_def time_Zero_def min_def)

subsection \<open>The invariant of the model\<close>

definition model_inv :: "bbr2_model \<Rightarrow> bool" where
  "model_inv m \<longleftrightarrow> bs_inv (m_bandwidth_sampler m) \<and> MinRtt m \<noteq> 0
     \<and> 0 \<le> mbf_0 (m_max_bandwidth_filter m) \<and> 0 \<le> mbf_1 (m_max_bandwidth_filter m)
     \<and> 0 \<le> m_bandwidth_latest m \<and> 0 \<le> m_bandwidth_lo m \<and> 0 \<le> m_full_bandwidth_baseline m"

lemmas model_defs = MinRtt_def MinRttTimestamp_def MaxBandwidth_def RoundTripCount_def
  total_bytes_acked_def total_bytes_lost_def

lemma MaxBandwidth_nonneg: "model_inv m \<Longrightarrow> 0 \<le> MaxBandwidth m"
  by (auto simp: model_inv_def MaxBandwidth_def mbf_Get_def)

lemma model_inv_new:
  "rtt \<noteq> 0 \<Longrightarrow> model_inv (model_new P rtt t cg pg None)"
  by (simp add: model_inv_def model_new_def bs_inv_new MinRtt_def mrf_new_def mbf_new_def
      bw_Zero_def bandwidth_lo_default_def bw_Infinite_def int64_max_def)

lemma model_inv_simps [simp]:
  "model_inv (m\<lparr>m_cwnd_gain := g\<rparr>) = model_inv m"
  "model_inv (m\<lparr>m_pacing_gain := g\<rparr>) = model_inv m"
  "model_inv (m\<lparr>m_inflight_hi := h\<rparr>) = model_inv m"
  "model_inv (m\<lparr>m_inflight_lo := h\<rparr>) = model_inv m"
  "model_inv (m\<lparr>m_inflight_latest := h\<rparr>) = model_inv m"
  "model_inv (m\<lparr>m_full_bandwidth_reached := b\<rparr>) = model_inv m"
  "model_inv (m\<lparr>m_rounds_without_bandwidth_growth := n\<rparr>) = model_inv m"
  "model_inv (m\<lparr>m_round_trip_counter := c\<rparr>) = model_inv m"
  "model_inv (m\<lparr>m_bytes_lost_in_round := n\<rparr>) = model_inv m"
  "model_inv (m\<lparr>m_loss_events_in_round := k\<rparr>) = model_inv m"
  "model_inv (m\<lparr>m_max_bytes_delivered_in_round := n\<rparr>) = model_inv m"
  by (simp_all add: model_inv_def model_defs)

lemma bw_mult_nonneg [simp]: "0 \<le> bw_mult b g"
  by (simp add: bw_mult_def)

lemma model_inv_ops:
  assumes "model_inv m"
  shows "model_inv (PostponeMinRttTimestamp d m)" "model_inv (AdvanceMaxBandwidthFilter m)"
    "model_inv (OnApplicationLimited m)" "model_inv (clear_bandwidth_lo m)"
    "model_inv (clear_inflight_lo m)" "model_inv (cap_inflight_lo P c m)"
    "model_inv (OnNewRound m)" "model_inv (RestartRoundEarly m)"
    "model_inv (UpdateNetworkParameters rtt m)"
  using assms
  by (simp_all add: PostponeMinRttTimestamp_def AdvanceMaxBandwidthFilter_def OnApplicationLimited_def
      clear_bandwidth_lo_def clear_inflight_lo_def cap_inflight_lo_def OnNewRound_def RestartRoundEarly_def
      UpdateNetworkParameters_def model_inv_def model_defs bs_inv_app_limited mbf_Advance_def
      mrf_ForceUpdate_def mrf_Update_def bw_Zero_def bandwidth_lo_default_def bw_Infinite_def int64_max_def
      delta_IsZero_def delta_Zero_def)

lemma model_OnPacketSent_inv:
  assumes "model_inv m" "in_i64 sent_time" "IsInitialized pn"
  shows "\<exists>m'. model_OnPacketSent sent_time bif pn bytes m = Some m' \<and> model_inv m'
    \<and> rtc_last_sent_packet (m_round_trip_counter m') = pn \<and> RoundTripCount m' = RoundTripCount m
    \<and> m_full_bandwidth_reached m' = m_full_bandwidth_reached m"
proof -
  have "bs_inv (m_bandwidth_sampler m)" using assms(1) by (simp add: model_inv_def)
  from bs_OnPacketSent_inv [OF this assms(2,3), of bytes bif] obtain s where
    "bs_OnPacketSent sent_time pn bytes bif (m_bandwidth_sampler m) = Some s" "bs_inv s" by blast
  with assms(1) show ?thesis
    by (simp add: model_OnPacketSent_def model_inv_def model_defs rtc_OnPacketSent_def)
qed

lemma AdaptLowerBounds_default_inv:
  assumes "model_inv m"
  shows "model_inv (AdaptLowerBounds_default P ev m)"
proof -
  have "0 \<le> MaxBandwidth m" using assms by (rule MaxBandwidth_nonneg)
  with assms show ?thesis
    by (simp add: AdaptLowerBounds_default_def Let_def model_inv_def model_defs le_max_iff_disj)
qed

lemma one_minus_beta_default:
  "1 / 2 \<le> f32 (one_minus_beta (Bbr2Params lo hi)) \<and> f32 (one_minus_beta (Bbr2Params lo hi)) \<le> 3 / 4"
proof -
  have half: "rnd p (1 / 2) = 1 / 2" and quarter: "rnd p (1 / 4) = 1 / 4"
    and tq: "rnd p (3 / 4) = 3 / 4" if "2 \<le> p" for p
  proof -
    have "(2 :: int) ^ 2 \<le> 2 ^ p" using that by (intro power_increasing) auto
    then have p: "(3 :: int) \<le> 2 ^ p" by simp
    show "rnd p (1 / 2) = 1 / 2" using that p
      by (intro rnd_exact [where m = 1 and e = "-1"]) (auto simp: power_int_def power2_eq_square)
    show "rnd p (1 / 4) = 1 / 4" using that p
      by (intro rnd_exact [where m = 1 and e = "-2"]) (auto simp: power_int_def power2_eq_square)
    show "rnd p (3 / 4) = 3 / 4" using that p
      by (intro rnd_exact [where m = 3 and e = "-2"]) (auto simp: power_int_def power2_eq_square)
  qed
  let ?b = "f32 (f64 (3 / 10))"
  have a: "1 / 4 \<le> f64 (3 / 10)" "f64 (3 / 10) \<le> 1 / 2"
    using rnd_mono [of "1/4" "3/10" 53] rnd_mono [of "3/10" "1/2" 53] half [of 53] quarter [of 53] by simp_all
  then have b: "1 / 4 \<le> ?b" "?b \<le> 1 / 2"
    using rnd_mono [of "1/4" "f64 (3/10)" 24] rnd_mono [of "f64 (3/10)" "1/2" 24] half [of 24] quarter [of 24]
    by simp_all
  then have c: "1 / 2 \<le> f64 (1 - ?b)" "f64 (1 - ?b) \<le> 3 / 4"
    using rnd_mono [of "1/2" "1 - ?b" 53] rnd_mono [of "1 - ?b" "3/4" 53] half [of 53] tq [of 53] by simp_all
  then have "1 / 2 \<le> f32 (f64 (1 - ?b))" "f32 (f64 (1 - ?b)) \<le> 3 / 4"
    using rnd_mono [of "1/2" "f64 (1 - ?b)" 24] rnd_mono [of "f64 (1 - ?b)" "3/4" 24] half [of 24] tq [of 24]
    by simp_all
  then show ?thesis by (simp add: one_minus_beta_def Bbr2Params_def)
qed

subsection \<open>The start of a congestion event\<close>

definition round_ended :: "acked_packet list \<Rightarrow> bbr2_model \<Rightarrow> bool" where
  "round_ended acked m \<longleftrightarrow> acked \<noteq> [] \<and>
     snd (rtc_OnPacketsAcked (ap_packet_number (last acked)) (m_round_trip_counter m))"

lemma event_sample_spec:
  assumes inv: "model_inv m" and t: "in_i64 t"
  obtains c s smp where
    "event_sample t acked lost ev m = Some (m\<lparr>m_round_trip_counter := c, m_bandwidth_sampler := s\<rparr>,
       ev\<lparr>ev_event_time := t, ev_end_of_round_trip := round_ended acked m\<rparr>, smp)"
    "bs_inv s"
    "bs_total_bytes_acked s = total_bytes_acked m
       + (\<Sum>p\<leftarrow>acked. acked_size (m_bandwidth_sampler m) (ap_packet_number p))"
    "bs_total_bytes_lost s = total_bytes_lost m + (\<Sum>l\<leftarrow>lost. ucast (lp_bytes_lost l))"
    "rtc_round_trip_count c = RoundTripCount m + (if round_ended acked m then 1 else 0)"
    "0 \<le> ces_sample_max_bandwidth smp" "ces_sample_rtt smp \<noteq> 0"
proof -
  obtain c b where c: "(if acked = [] then (m_round_trip_counter m, False)
      else rtc_OnPacketsAcked (ap_packet_number (last acked)) (m_round_trip_counter m)) = (c, b)"
    by fastforce
  have b: "b = round_ended acked m"
    using c by (auto simp: round_ended_def split: if_splits)
  have n: "rtc_round_trip_count c = RoundTripCount m + (if b then 1 else 0)"
    using c by (auto simp: RoundTripCount_def dest: rtc_OnPacketsAcked_count split: if_splits)
  let ?m = "m\<lparr>m_round_trip_counter := c\<rparr>"
  have "bs_inv (m_bandwidth_sampler m)" using inv by (simp add: model_inv_def)
  from bs_OnCongestionEvent_inv [OF this t, of acked lost "MaxBandwidth ?m" "m_bandwidth_lo m" "RoundTripCount ?m"]
  obtain s smp where s:
    "bs_OnCongestionEvent t acked lost (MaxBandwidth ?m) (m_bandwidth_lo m) (RoundTripCount ?m)
       (m_bandwidth_sampler m) = Some (s, smp)" "bs_inv s"
    "bs_total_bytes_acked s = bs_total_bytes_acked (m_bandwidth_sampler m)
       + (\<Sum>p\<leftarrow>acked. acked_size (m_bandwidth_sampler m) (ap_packet_number p))"
    "bs_total_bytes_lost s = bs_total_bytes_lost (m_bandwidth_sampler m) + (\<Sum>l\<leftarrow>lost. ucast (lp_bytes_lost l))"
    "0 \<le> ces_sample_max_bandwidth smp" "ces_sample_rtt smp \<noteq> 0"
    by (elim exE conjE) (rule that)
  have "event_sample t acked lost ev m = Some (m\<lparr>m_round_trip_counter := c, m_bandwidth_sampler := s\<rparr>,
      ev\<lparr>ev_event_time := t, ev_end_of_round_trip := round_ended acked m\<rparr>, smp)"
    using s(1) by (simp add: event_sample_def c b)
  with s n b show thesis by (intro that) (simp_all add: total_bytes_acked_def total_bytes_lost_def)
qed

lemma event_filters_spec:
  assumes inv: "model_inv m" and smp: "0 \<le> ces_sample_max_bandwidth smp" "ces_sample_rtt smp \<noteq> 0"
    and eq: "event_filters pa smp ev m = (m', ev')" and ev: "ev_sample_min_rtt ev \<noteq> 0"
  shows "model_inv m'" "\<exists>f g. m' = m\<lparr>m_max_bandwidth_filter := f, m_min_rtt_filter := g\<rparr>"
    "MaxBandwidth m \<le> MaxBandwidth m'"
    "ev_event_time ev' = ev_event_time ev" "ev_prior_cwnd ev' = ev_prior_cwnd ev"
    "ev_prior_bytes_in_flight ev' = ev_prior_bytes_in_flight ev"
    "ev_end_of_round_trip ev' = ev_end_of_round_trip ev"
    "ev_is_probing_for_bandwidth ev' = ev_is_probing_for_bandwidth ev"
    "ev_sample_min_rtt ev' \<noteq> 0"
proof -
  let ?f = "m_max_bandwidth_filter m"
  define f where "f = (if pa \<noteq> total_bytes_acked m \<and> (\<not> ces_sample_is_app_limited smp
      \<or> MaxBandwidth m < ces_sample_max_bandwidth smp)
    then mbf_Update (ces_sample_max_bandwidth smp) ?f else ?f)"
  define g where "g = (if \<not> delta_IsInfinite (ces_sample_rtt smp)
    then mrf_Update (ces_sample_rtt smp) (ev_event_time ev) (m_min_rtt_filter m) else m_min_rtt_filter m)"
  have m': "m' = m\<lparr>m_max_bandwidth_filter := f, m_min_rtt_filter := g\<rparr>"
    using eq unfolding event_filters_def f_def g_def Let_def
    by (auto split: if_splits)
  then show "\<exists>f g. m' = m\<lparr>m_max_bandwidth_filter := f, m_min_rtt_filter := g\<rparr>" by blast
  have g: "mrf_min_rtt g \<noteq> 0"
    using inv smp(2) by (simp add: g_def mrf_Update_def model_inv_def MinRtt_def)
  have f: "0 \<le> mbf_0 f" "0 \<le> mbf_1 f" "mbf_Get ?f \<le> mbf_Get f"
    using inv smp(1) by (simp_all add: f_def model_inv_def mbf_Get_Update)
      (simp_all add: mbf_Update_def le_max_iff_disj)
  show "model_inv m'" using inv f g by (simp add: m' model_inv_def MinRtt_def)
  show "MaxBandwidth m \<le> MaxBandwidth m'" using f(3) by (simp add: m' MaxBandwidth_def)
  show "ev_event_time ev' = ev_event_time ev" "ev_prior_cwnd ev' = ev_prior_cwnd ev"
    "ev_prior_bytes_in_flight ev' = ev_prior_bytes_in_flight ev"
    "ev_end_of_round_trip ev' = ev_end_of_round_trip ev"
    "ev_is_probing_for_bandwidth ev' = ev_is_probing_for_bandwidth ev"
    "ev_sample_min_rtt ev' \<noteq> 0"
    using eq ev smp(2) unfolding event_filters_def Let_def by (auto split: if_splits)
qed

lemma event_round_spec:
  assumes "model_inv m" "0 \<le> ces_sample_max_bandwidth smp"
  shows "model_inv (event_round smp ev m)"
    "\<exists>b n d l i. event_round smp ev m = m\<lparr>m_bytes_lost_in_round := b, m_loss_events_in_round := n,
       m_max_bytes_delivered_in_round := d, m_bandwidth_latest := l, m_inflight_latest := i\<rparr>"
    "ces_sample_max_bandwidth smp \<le> m_bandwidth_latest (event_round smp ev m)"
    "m_bandwidth_latest m \<le> m_bandwidth_latest (event_round smp ev m)"
proof -
  define b where "b = (if 0 < ev_bytes_lost ev then m_bytes_lost_in_round m + ev_bytes_lost ev else m_bytes_lost_in_round m)"
  define n where "n = (if 0 < ev_bytes_lost ev then i64 (m_loss_events_in_round m + 1) else m_loss_events_in_round m)"
  define d where "d = (if 0 < ev_bytes_acked ev \<and> sts_is_valid (ev_last_packet_send_state ev)
        \<and> sts_total_bytes_acked (ev_last_packet_send_state ev) < total_bytes_acked m
     then max (m_max_bytes_delivered_in_round m)
       (total_bytes_acked m - sts_total_bytes_acked (ev_last_packet_send_state ev))
     else m_max_bytes_delivered_in_round m)"
  define l where "l = (if m_bandwidth_latest m < ces_sample_max_bandwidth smp
    then ces_sample_max_bandwidth smp else m_bandwidth_latest m)"
  define i where "i = (if m_inflight_latest m < ces_sample_max_inflight smp
    then ces_sample_max_inflight smp else m_inflight_latest m)"
  have eq: "event_round smp ev m = m\<lparr>m_bytes_lost_in_round := b, m_loss_events_in_round := n,
       m_max_bytes_delivered_in_round := d, m_bandwidth_latest := l, m_inflight_latest := i\<rparr>"
    unfolding event_round_def Let_def b_def n_def d_def l_def i_def
    by (intro bbr2_model.equality) (simp_all add: total_bytes_acked_def)
  then show "\<exists>b n d l i. event_round smp ev m = m\<lparr>m_bytes_lost_in_round := b, m_loss_events_in_round := n,
       m_max_bytes_delivered_in_round := d, m_bandwidth_latest := l, m_inflight_latest := i\<rparr>" by blast
  show "model_inv (event_round smp ev m)"
    using assms by (simp add: eq l_def model_inv_def MinRtt_def)
  show "ces_sample_max_bandwidth smp \<le> m_bandwidth_latest (event_round smp ev m)"
    "m_bandwidth_latest m \<le> m_bandwidth_latest (event_round smp ev m)"
    by (simp_all add: eq l_def)
qed

lemma restart_latest_inv:
  "model_inv m \<Longrightarrow> 0 \<le> ces_sample_max_bandwidth smp \<Longrightarrow> model_inv (restart_latest smp ev m)"
  by (simp add: restart_latest_def Let_def model_inv_def MinRtt_def)


lemma event_bytes_fields:
  "ev_bytes_acked (event_bytes pa pl ev m) = total_bytes_acked m - pa"
  "ev_bytes_lost (event_bytes pa pl ev m) = total_bytes_lost m - pl"
  "ev_event_time (event_bytes pa pl ev m) = ev_event_time ev"
  "ev_prior_cwnd (event_bytes pa pl ev m) = ev_prior_cwnd ev"
  "ev_prior_bytes_in_flight (event_bytes pa pl ev m) = ev_prior_bytes_in_flight ev"
  "ev_end_of_round_trip (event_bytes pa pl ev m) = ev_end_of_round_trip ev"
  "ev_is_probing_for_bandwidth (event_bytes pa pl ev m) = ev_is_probing_for_bandwidth ev"
  "ev_sample_min_rtt (event_bytes pa pl ev m) = ev_sample_min_rtt ev"
  "ev_bytes_in_flight (event_bytes pa pl ev m) =
     (if total_bytes_acked m - pa + (total_bytes_lost m - pl) \<le> ev_prior_bytes_in_flight ev
      then ev_prior_bytes_in_flight ev - (total_bytes_acked m - pa) - (total_bytes_lost m - pl) else 0)"
  by (simp_all add: event_bytes_def Let_def)

text \<open>The parts of the model that a congestion event's start leaves alone.\<close>

definition model_frame :: "bbr2_model \<Rightarrow> cfloat \<times> cfloat \<times> bool \<times> bandwidth \<times> round_trip_count \<times> byte_count" where
  "model_frame m = (m_cwnd_gain m, m_pacing_gain m, m_full_bandwidth_reached m,
     m_full_bandwidth_baseline m, m_rounds_without_bandwidth_growth m, m_inflight_hi m)"

lemma AdaptLowerBounds_default_form:
  "\<exists>b i. AdaptLowerBounds_default P ev m = m\<lparr>m_bandwidth_lo := b, m_inflight_lo := i\<rparr>"
proof (cases "ev_end_of_round_trip ev \<and> \<not> ev_is_probing_for_bandwidth ev \<and> 0 < m_bytes_lost_in_round m")
  case True
  define m1 where "m1 = (if bw_IsInfinite (m_bandwidth_lo m) then m\<lparr>m_bandwidth_lo := MaxBandwidth m\<rparr> else m)"
  define b where "b = max (m_bandwidth_latest m1) (bw_mult (m_bandwidth_lo m1) (f32 (one_minus_beta P)))"
  have m1: "m1\<lparr>m_bandwidth_lo := b\<rparr> = m\<lparr>m_bandwidth_lo := b\<rparr>" by (simp add: m1_def)
  have "AdaptLowerBounds_default P ev m = (let m2 = m1\<lparr>m_bandwidth_lo := b\<rparr>
      in if p_ignore_inflight_lo P then m2
         else let m3 = (if m_inflight_lo m2 = inflight_lo_default
                        then m2\<lparr>m_inflight_lo := ev_prior_cwnd ev\<rparr> else m2)
              in m3\<lparr>m_inflight_lo := max (m_inflight_latest m3)
                   (f_to_u64 (f64 (u64_f64 (m_inflight_lo m3) * one_minus_beta P)))\<rparr>)"
    unfolding AdaptLowerBounds_default_def m1_def b_def Let_def using True by (simp only: simp_thms if_True if_False)
  then have eq: "AdaptLowerBounds_default P ev m = (if p_ignore_inflight_lo P then m\<lparr>m_bandwidth_lo := b\<rparr>
      else m\<lparr>m_bandwidth_lo := b, m_inflight_lo := m_inflight_lo (AdaptLowerBounds_default P ev m)\<rparr>)"
    unfolding m1 Let_def by (cases "p_ignore_inflight_lo P"; cases "m_inflight_lo m = inflight_lo_default") simp_all
  show ?thesis
  proof (cases "p_ignore_inflight_lo P")
    case True
    then show ?thesis using eq by (intro exI [of _ b] exI [of _ "m_inflight_lo m"]) simp
  next
    case False
    then show ?thesis using eq by auto
  qed
next
  case False
  then have "AdaptLowerBounds_default P ev m = m" by (auto simp: AdaptLowerBounds_default_def)
  then show ?thesis by (intro exI [of _ "m_bandwidth_lo m"] exI [of _ "m_inflight_lo m"]) simp
qed

lemma AdaptLowerBounds_default_frame:
  "model_frame (AdaptLowerBounds_default P ev m) = model_frame m"
  "m_round_trip_counter (AdaptLowerBounds_default P ev m) = m_round_trip_counter m"
  "m_max_bandwidth_filter (AdaptLowerBounds_default P ev m) = m_max_bandwidth_filter m"
  "m_bandwidth_sampler (AdaptLowerBounds_default P ev m) = m_bandwidth_sampler m"
  using AdaptLowerBounds_default_form [of P ev m] by (auto simp: model_frame_def)

lemma restart_latest_frame:
  "model_frame (restart_latest smp ev m) = model_frame m"
  "m_round_trip_counter (restart_latest smp ev m) = m_round_trip_counter m"
  "m_max_bandwidth_filter (restart_latest smp ev m) = m_max_bandwidth_filter m"
  "m_bandwidth_sampler (restart_latest smp ev m) = m_bandwidth_sampler m"
  by (simp_all add: restart_latest_def Let_def model_frame_def)

lemma OnCongestionEventStart_spec:
  assumes inv: "model_inv m" and t: "in_i64 t" and P: "p_bw_lo_mode P = DEFAULT"
    and ev: "ev_sample_min_rtt ev \<noteq> 0"
  obtains m' ev' where "OnCongestionEventStart P t acked lost ev m = Some (m', ev')"
    "model_inv m'" "model_frame m' = model_frame m" "MaxBandwidth m \<le> MaxBandwidth m'"
    "ev_event_time ev' = t" "ev_prior_cwnd ev' = ev_prior_cwnd ev" "ev_sample_min_rtt ev' \<noteq> 0"
    "ev_end_of_round_trip ev' = round_ended acked m"
    "RoundTripCount m' = RoundTripCount m + (if round_ended acked m then 1 else 0)"
    "ev_bytes_acked ev' = (\<Sum>p\<leftarrow>acked. acked_size (m_bandwidth_sampler m) (ap_packet_number p))"
    "ev_bytes_lost ev' = (\<Sum>l\<leftarrow>lost. ucast (lp_bytes_lost l))"
    "total_bytes_acked m' = total_bytes_acked m + ev_bytes_acked ev'"
    "ev_bytes_in_flight ev' = (if ev_bytes_acked ev' + ev_bytes_lost ev' \<le> ev_prior_bytes_in_flight ev
       then ev_prior_bytes_in_flight ev - ev_bytes_acked ev' - ev_bytes_lost ev' else 0)"
proof -
  from event_sample_spec [OF inv t, of acked lost ev] obtain c s smp where s:
    "event_sample t acked lost ev m = Some (m\<lparr>m_round_trip_counter := c, m_bandwidth_sampler := s\<rparr>,
       ev\<lparr>ev_event_time := t, ev_end_of_round_trip := round_ended acked m\<rparr>, smp)"
    "bs_inv s"
    "bs_total_bytes_acked s = total_bytes_acked m
       + (\<Sum>p\<leftarrow>acked. acked_size (m_bandwidth_sampler m) (ap_packet_number p))"
    "bs_total_bytes_lost s = total_bytes_lost m + (\<Sum>l\<leftarrow>lost. ucast (lp_bytes_lost l))"
    "rtc_round_trip_count c = RoundTripCount m + (if round_ended acked m then 1 else 0)"
    "0 \<le> ces_sample_max_bandwidth smp" "ces_sample_rtt smp \<noteq> 0" .
  let ?m1 = "m\<lparr>m_round_trip_counter := c, m_bandwidth_sampler := s\<rparr>"
  let ?ev1 = "ev\<lparr>ev_event_time := t, ev_end_of_round_trip := round_ended acked m\<rparr>"
  have inv1: "model_inv ?m1" using inv s(2) by (simp add: model_inv_def MinRtt_def)
  obtain m2 ev2 where f: "event_filters (total_bytes_acked m) smp ?ev1 ?m1 = (m2, ev2)" by fastforce
  have "ev_sample_min_rtt ?ev1 \<noteq> 0" using ev by simp
  note f2 = event_filters_spec [OF inv1 s(6,7) f this]
  obtain fl g where m2: "m2 = ?m1\<lparr>m_max_bandwidth_filter := fl, m_min_rtt_filter := g\<rparr>"
    using f2(2) by blast
  define ev3 where "ev3 = event_bytes (total_bytes_acked m) (total_bytes_lost m) ev2 m2"
  from event_round_spec(2) [OF f2(1) s(6)] obtain b n d l i where m3:
    "event_round smp ev3 m2 = m2\<lparr>m_bytes_lost_in_round := b, m_loss_events_in_round := n,
       m_max_bytes_delivered_in_round := d, m_bandwidth_latest := l, m_inflight_latest := i\<rparr>" by blast
  define m3 where "m3 = event_round smp ev3 m2"
  have inv3: "model_inv m3" unfolding m3_def by (rule event_round_spec(1) [OF f2(1) s(6)])
  define m4 where "m4 = AdaptLowerBounds_default P ev3 m3"
  have inv4: "model_inv m4" unfolding m4_def by (rule AdaptLowerBounds_default_inv [OF inv3])
  define m5 where "m5 = restart_latest smp ev3 m4"
  have inv5: "model_inv m5" unfolding m5_def by (rule restart_latest_inv [OF inv4 s(6)])
  have run: "OnCongestionEventStart P t acked lost ev m = Some (m5, ev3)"
    using s(1) f by (simp add: OnCongestionEventStart_def Let_def AdaptLowerBounds_def P m5_def m4_def m3_def ev3_def)
  have keep: "model_frame m5 = model_frame m" "m_round_trip_counter m5 = c"
    "m_bandwidth_sampler m5 = s" "m_max_bandwidth_filter m5 = m_max_bandwidth_filter m2"
    unfolding m5_def m4_def restart_latest_frame AdaptLowerBounds_default_frame m3_def m3 unfolding m2
    by (simp_all add: model_frame_def)
  have e3: "ev_bytes_acked ev3 = (\<Sum>p\<leftarrow>acked. acked_size (m_bandwidth_sampler m) (ap_packet_number p))"
    "ev_bytes_lost ev3 = (\<Sum>l\<leftarrow>lost. ucast (lp_bytes_lost l))"
    using s(3,4) by (simp_all add: ev3_def event_bytes_fields m2 total_bytes_acked_def total_bytes_lost_def)
  have e4: "ev_bytes_in_flight ev3 = (if ev_bytes_acked ev3 + ev_bytes_lost ev3 \<le> ev_prior_bytes_in_flight ev
       then ev_prior_bytes_in_flight ev - ev_bytes_acked ev3 - ev_bytes_lost ev3 else 0)"
    using f2(6) by (simp add: ev3_def event_bytes_fields)
  show thesis
  proof (rule that [OF run inv5 keep(1)])
    show "MaxBandwidth m \<le> MaxBandwidth m5" using f2(3) keep(4) by (simp add: MaxBandwidth_def)
    show "ev_event_time ev3 = t" "ev_prior_cwnd ev3 = ev_prior_cwnd ev" "ev_sample_min_rtt ev3 \<noteq> 0"
      "ev_end_of_round_trip ev3 = round_ended acked m"
      using f2 by (simp_all add: ev3_def event_bytes_fields)
    show "RoundTripCount m5 = RoundTripCount m + (if round_ended acked m then 1 else 0)"
      using s(5) keep(2) by (simp add: RoundTripCount_def)
    show "total_bytes_acked m5 = total_bytes_acked m + ev_bytes_acked ev3"
      using s(3) keep(3) e3(1) by (simp add: total_bytes_acked_def)
  qed (fact e3 e4)+
qed

lemma OnCongestionEventFinish_spec:
  assumes "model_inv m"
  obtains m' where "OnCongestionEventFinish pn ev m = Some m'" "model_inv m'"
    "model_frame m' = model_frame m" "RoundTripCount m' = RoundTripCount m"
    "MaxBandwidth m' = MaxBandwidth m"
    "ev_end_of_round_trip ev \<Longrightarrow> m_bytes_lost_in_round m' = 0 \<and> m_loss_events_in_round m' = 0"
proof -
  define m1 where "m1 = (if ev_end_of_round_trip ev then OnNewRound m else m)"
  have i: "model_inv m1" using assms by (simp add: m1_def model_inv_ops)
  then have "bs_inv (m_bandwidth_sampler m1)" by (simp add: model_inv_def)
  from bs_RemoveObsoletePackets_inv [OF this, of pn] obtain s where
    s: "bs_RemoveObsoletePackets pn (m_bandwidth_sampler m1) = Some s" "bs_inv s" by blast
  have r: "OnCongestionEventFinish pn ev m = Some (m1\<lparr>m_bandwidth_sampler := s\<rparr>)"
    using s(1) by (simp add: OnCongestionEventFinish_def m1_def)
  show thesis
    by (rule that [OF r]) (use i s(2) in
      \<open>simp_all add: model_inv_def MinRtt_def model_frame_def m1_def OnNewRound_def RoundTripCount_def MaxBandwidth_def\<close>)
qed

subsection \<open>Bounds\<close>

definition base_bandwidth_lo :: "bbr2_model \<Rightarrow> bandwidth" where
  "base_bandwidth_lo m = (if bw_IsInfinite (m_bandwidth_lo m) then MaxBandwidth m else m_bandwidth_lo m)"

lemma AdaptLowerBounds_default_lo:
  "m_bandwidth_lo (AdaptLowerBounds_default P ev m) =
    (if ev_end_of_round_trip ev \<and> \<not> ev_is_probing_for_bandwidth ev \<and> 0 < m_bytes_lost_in_round m
     then max (m_bandwidth_latest m) (bw_mult (base_bandwidth_lo m) (f32 (one_minus_beta P)))
     else m_bandwidth_lo m)"
  by (simp add: AdaptLowerBounds_default_def Let_def base_bandwidth_lo_def)

lemma AdaptLowerBounds_default_decreases:
  assumes "model_inv m" "base_bandwidth_lo m \<le> 2 ^ 62"
    and "ev_end_of_round_trip ev" "\<not> ev_is_probing_for_bandwidth ev" "0 < m_bytes_lost_in_round m"
  shows "m_bandwidth_lo (AdaptLowerBounds_default (Bbr2Params lo hi) ev m)
      \<le> max (m_bandwidth_latest m) (base_bandwidth_lo m)"
    and "m_bandwidth_latest m \<le> m_bandwidth_lo (AdaptLowerBounds_default (Bbr2Params lo hi) ev m)"
proof -
  have "0 \<le> base_bandwidth_lo m"
    using assms(1) MaxBandwidth_nonneg [OF assms(1)] by (simp add: base_bandwidth_lo_def model_inv_def)
  then have "bw_mult (base_bandwidth_lo m) (f32 (one_minus_beta (Bbr2Params lo hi))) \<le> base_bandwidth_lo m"
    using assms(2) one_minus_beta_default [of lo hi] by (intro bw_mult_shrinks) auto
  then show "m_bandwidth_lo (AdaptLowerBounds_default (Bbr2Params lo hi) ev m)
      \<le> max (m_bandwidth_latest m) (base_bandwidth_lo m)"
    using assms(3-5) by (simp add: AdaptLowerBounds_default_lo le_max_iff_disj) linarith
  show "m_bandwidth_latest m \<le> m_bandwidth_lo (AdaptLowerBounds_default (Bbr2Params lo hi) ev m)"
    using assms(3-5) by (simp add: AdaptLowerBounds_default_lo)
qed

lemma inflight_hi_with_headroom_le: "inflight_hi_with_headroom P m \<le> m_inflight_hi m"
  by (auto simp: inflight_hi_with_headroom_def Let_def word_le_sub1 word_sub_le less_imp_le)

text \<open>
  With the default threshold of 30, a round is only ever too lossy when more than thirty
  times the data in flight was lost in it.
\<close>

lemma IsInflightTooHigh_default:
  assumes "IsInflightTooHigh (Bbr2Params lo hi) ev k m"
    and "uint (BytesInFlight (ev_last_packet_send_state ev)) * 30 \<le> 2 ^ 24"
  shows "uint (BytesInFlight (ev_last_packet_send_state ev)) * 30 < uint (m_bytes_lost_in_round m)"
proof -
  let ?n = "uint (BytesInFlight (ev_last_packet_send_state ev))"
  have n: "0 \<le> ?n" "?n \<le> 2 ^ 24" using assms(2) uint_ge_0 by auto
  then have "f32 (of_int ?n) = of_int ?n" by (intro rnd_of_int) auto
  then have "f32 (f32 (of_int ?n) * 30) = f32 (of_int (?n * 30))" by simp
  also have "\<dots> = of_int (?n * 30)" using assms(2) n by (intro rnd_of_int) auto
  finally have "f_to_u64 (f32 (f32 (of_int ?n) * 30)) = word_of_int (?n * 30)"
    unfolding f_to_u64_def ctrunc_def by (simp only: floor_of_int ceiling_of_int if_cancel)
  moreover have "uint (word_of_int (?n * 30) :: u64) = ?n * 30"
    using assms(2) n by (intro uint_word_of_int_eq [THEN trans]) (simp add: take_bit_int_eq_self_iff)
  ultimately show ?thesis
    using assms(1) by (simp add: IsInflightTooHigh_def Let_def Bbr2Params_def word_less_def split: if_splits)
qed

subsection \<open>Bandwidth growth\<close>

definition growth_inv :: "bbr2_params \<Rightarrow> bbr2_model \<Rightarrow> bool" where
  "growth_inv P m \<longleftrightarrow> m_full_bandwidth_reached m
     \<or> m_rounds_without_bandwidth_growth m < p_startup_full_bw_rounds P"

lemma CheckBandwidthGrowth_spec:
  assumes "CheckBandwidthGrowth P ev m = (m', g)"
  shows "g = APP_LIMITED \<Longrightarrow> m' = m"
    and "g = GROWTH \<Longrightarrow> m_full_bandwidth_baseline m' = MaxBandwidth m
      \<and> m_rounds_without_bandwidth_growth m' = 0 \<and> m_full_bandwidth_reached m' = m_full_bandwidth_reached m"
    and "g = NO_GROWTH \<or> g = EXIT \<Longrightarrow> m_rounds_without_bandwidth_growth m' = m_rounds_without_bandwidth_growth m + 1
      \<and> MaxBandwidth m < bw_mult (m_full_bandwidth_baseline m) (p_startup_full_bw_threshold P)"
    and "g = EXIT \<longleftrightarrow> (\<not> ev_last_sample_is_app_limited ev
      \<and> MaxBandwidth m < bw_mult (m_full_bandwidth_baseline m) (p_startup_full_bw_threshold P)
      \<and> p_startup_full_bw_rounds P \<le> m_rounds_without_bandwidth_growth m + 1)"
    and "m_full_bandwidth_reached m' \<longleftrightarrow> m_full_bandwidth_reached m \<or> g = EXIT"
  using assms by (auto simp: CheckBandwidthGrowth_def Let_def split: if_splits)

lemma CheckBandwidthGrowth_inv:
  assumes "CheckBandwidthGrowth P ev m = (m', g)"
  shows "model_inv m \<Longrightarrow> model_inv m'"
    and "0 < p_startup_full_bw_rounds P \<Longrightarrow> growth_inv P m \<Longrightarrow> growth_inv P m'"
    and "MinRtt m' = MinRtt m" "MaxBandwidth m' = MaxBandwidth m"
    and "m_inflight_hi m' = m_inflight_hi m" "m_bandwidth_sampler m' = m_bandwidth_sampler m"
proof -
  show "model_inv m'" if "model_inv m"
    using assms that MaxBandwidth_nonneg [OF that]
    by (auto simp: CheckBandwidthGrowth_def Let_def model_inv_def MinRtt_def split: if_splits)
  show "growth_inv P m'" if "0 < p_startup_full_bw_rounds P" "growth_inv P m"
    using assms that by (auto simp: CheckBandwidthGrowth_def Let_def growth_inv_def linorder_not_le split: if_splits)
  show "MinRtt m' = MinRtt m" "MaxBandwidth m' = MaxBandwidth m"
    "m_inflight_hi m' = m_inflight_hi m" "m_bandwidth_sampler m' = m_bandwidth_sampler m"
    using assms by (auto simp: CheckBandwidthGrowth_def Let_def MinRtt_def MaxBandwidth_def split: if_splits)
qed

lemma MaybeExpireMinRtt_inv:
  assumes "model_inv m" "ev_sample_min_rtt ev \<noteq> 0" "MaybeExpireMinRtt P ev m = (m', b)"
  shows "model_inv m'" "m' = m\<lparr>m_min_rtt_filter := m_min_rtt_filter m'\<rparr>" "\<not> b \<Longrightarrow> m' = m"
  using assms by (auto simp: MaybeExpireMinRtt_def mrf_ForceUpdate_def model_inv_def MinRtt_def split: if_splits)

text \<open>Consecutive rounds of STARTUP.\<close>

fun growth_checks :: "bbr2_params \<Rightarrow> bbr2_event list \<Rightarrow> bbr2_model \<Rightarrow> bbr2_model" where
  "growth_checks P [] m = m"
| "growth_checks P (e # es) m = growth_checks P es (fst (CheckBandwidthGrowth P e m))"

lemma growth_checks_reached: "m_full_bandwidth_reached m \<Longrightarrow> m_full_bandwidth_reached (growth_checks P es m)"
proof (induction es arbitrary: m)
  case (Cons e es)
  obtain m' g where g: "CheckBandwidthGrowth P e m = (m', g)" by fastforce
  with Cons CheckBandwidthGrowth_spec(5) [OF g] show ?case by simp
qed simp

lemma growth_checks_flat:
  assumes "\<forall>e \<in> set es. \<not> ev_last_sample_is_app_limited e"
    and "MaxBandwidth m < bw_mult (m_full_bandwidth_baseline m) (p_startup_full_bw_threshold P)"
    and "uint (m_rounds_without_bandwidth_growth m) + int (length es) < 2 ^ 64"
    and "es \<noteq> []" "uint (p_startup_full_bw_rounds P) \<le> uint (m_rounds_without_bandwidth_growth m) + int (length es)"
  shows "m_full_bandwidth_reached (growth_checks P es m)"
  using assms
proof (induction es arbitrary: m)
  case (Cons e es)
  let ?m1 = "m\<lparr>m_rounds_without_bandwidth_growth := m_rounds_without_bandwidth_growth m + 1\<rparr>"
  have flat: "\<not> ev_last_sample_is_app_limited e" using Cons.prems(1) by simp
  have n: "uint (m_rounds_without_bandwidth_growth m + 1) = uint (m_rounds_without_bandwidth_growth m) + 1"
    using Cons.prems(3) by (subst uint_u64_plus) simp_all
  show ?case
  proof (cases "p_startup_full_bw_rounds P \<le> m_rounds_without_bandwidth_growth m + 1")
    case True
    then have "fst (CheckBandwidthGrowth P e m) = ?m1\<lparr>m_full_bandwidth_reached := True\<rparr>"
      using flat Cons.prems(2) by (simp add: CheckBandwidthGrowth_def Let_def)
    then show ?thesis by (simp add: growth_checks_reached)
  next
    case False
    then have c: "fst (CheckBandwidthGrowth P e m) = ?m1"
      using flat Cons.prems(2) by (simp add: CheckBandwidthGrowth_def Let_def)
    have "es \<noteq> []" using False Cons.prems(5) n by (auto simp: u64_le_iff)
    moreover have "MaxBandwidth ?m1 = MaxBandwidth m" by (simp add: MaxBandwidth_def)
    ultimately have "m_full_bandwidth_reached (growth_checks P es ?m1)"
      using Cons.prems n by (intro Cons.IH) simp_all
    with c show ?thesis by simp
  qed
qed simp

subsection \<open>Properties\<close>

text \<open>Once an acknowledgement has ended a round, further ones for packets sent before that moment
  leave the counter alone, and the first one for a later packet ends the next round.\<close>

theorem one_round_per_flight:
  assumes "rtc_OnPacketsAcked p c = (c', True)" "IsInitialized (rtc_last_sent_packet c)"
    and "\<forall>q \<in> set qs. q \<le> rtc_last_sent_packet c" "rtc_last_sent_packet c < r"
  shows "rtc_acks qs c' = c' \<and> snd (rtc_OnPacketsAcked r (rtc_acks qs c'))
    \<and> rtc_round_trip_count (fst (rtc_OnPacketsAcked r (rtc_acks qs c'))) = rtc_round_trip_count c + 2"
proof -
  have c': "rtc_end_of_round_trip c' = rtc_last_sent_packet c" "rtc_round_trip_count c' = rtc_round_trip_count c + 1"
    using assms(1) by (auto simp: rtc_OnPacketsAcked_def split: if_splits)
  then have a: "rtc_acks qs c' = c'" using assms(2,3) by (intro rtc_acks_within) simp_all
  with rtc_end_after [of c' r] c' assms(4) show ?thesis by simp
qed

lemma one_round_per_flight_witness:
  "rtc_round_trip_count (fst (rtc_OnPacketsAcked 10 (rtc_acks [7, 8, 9]
      (\<lparr>rtc_round_trip_count = 5, rtc_last_sent_packet = 9, rtc_end_of_round_trip = 9\<rparr>)))) = 6"
  using one_round_per_flight [of 6 "\<lparr>rtc_round_trip_count = 4, rtc_last_sent_packet = 9, rtc_end_of_round_trip = 5\<rparr>"
      "\<lparr>rtc_round_trip_count = 5, rtc_last_sent_packet = 9, rtc_end_of_round_trip = 9\<rparr>" "[7, 8, 9]" 10]
  by (simp add: rtc_OnPacketsAcked_def IsInitialized_def UninitializedPacketNumber_def)



text \<open>At the end of a round with losses outside of probing, \<open>bandwidth_lo\<close> never rises above what it was (the
  maximum bandwidth where it was unset) or the latest bandwidth, and never falls below the
  latest bandwidth.\<close>

theorem loss_round_lowers_bandwidth_lo:
  assumes "model_inv m" "base_bandwidth_lo m \<le> 2 ^ 62"
    and "ev_end_of_round_trip ev" "\<not> ev_is_probing_for_bandwidth ev" "0 < m_bytes_lost_in_round m"
  shows "\<exists>m'. AdaptLowerBounds (Bbr2Params lo hi) ev m = Some m' \<and> model_inv m'
    \<and> m_bandwidth_latest m \<le> m_bandwidth_lo m'
    \<and> m_bandwidth_lo m' \<le> max (m_bandwidth_latest m) (base_bandwidth_lo m)"
  using AdaptLowerBounds_default_decreases [OF assms, of lo hi]
    AdaptLowerBounds_default_inv [OF assms(1), of "Bbr2Params lo hi" ev]
  by (auto simp: AdaptLowerBounds_def Bbr2Params_def)

lemma loss_round_lowers_bandwidth_lo_witness:
  "\<exists>m'. AdaptLowerBounds (Bbr2Params 5840 146000000) ((ev_new 46720)\<lparr>ev_end_of_round_trip := True\<rparr>)
      ((model_new (Bbr2Params 5840 146000000) 100000 0 1 1 None)\<lparr>m_bandwidth_lo := 800000, m_bytes_lost_in_round := 1460\<rparr>) = Some m'
    \<and> m_bandwidth_lo m' \<le> 800000"
proof -
  let ?m = "(model_new (Bbr2Params 5840 146000000) 100000 0 1 1 None)\<lparr>m_bandwidth_lo := 800000, m_bytes_lost_in_round := 1460\<rparr>"
  have "model_inv ?m"
    using model_inv_new [of 100000 "Bbr2Params 5840 146000000" 0 1 1] by (simp add: model_inv_def MinRtt_def)
  moreover have "base_bandwidth_lo ?m = 800000" "m_bandwidth_latest ?m = 0"
    by (simp_all add: base_bandwidth_lo_def bw_IsInfinite_def ToBitsPerSecond_def bw_Infinite_def int64_max_def model_new_def bw_Zero_def)
  ultimately show ?thesis
    using loss_round_lowers_bandwidth_lo [of ?m "(ev_new 46720)\<lparr>ev_end_of_round_trip := True\<rparr>" 5840 146000000]
    by (auto simp: ev_new_def)
qed

text \<open>With the default loss threshold of 30, which the comparison takes as a fraction of the
  bytes in flight, a round counts as too lossy only if it lost over 30 times the bytes that were in
  flight when its last packet was sent.\<close>

theorem too_high_needs_thirty_times_inflight:
  assumes "IsInflightTooHigh (Bbr2Params lo hi) ev k m"
    and "uint (BytesInFlight (ev_last_packet_send_state ev)) * 30 \<le> 2 ^ 24"
  shows "uint (BytesInFlight (ev_last_packet_send_state ev)) * 30 < uint (m_bytes_lost_in_round m)"
  by (rule IsInflightTooHigh_default [OF assms])

lemma too_high_needs_thirty_times_inflight_witness:
  "\<not> IsInflightTooHigh (Bbr2Params 5840 146000000)
      ((ev_new 46720)\<lparr>ev_last_packet_send_state := sts_invalid\<lparr>sts_is_valid := True, sts_bytes_in_flight := 14600\<rparr>\<rparr>) 20
      ((model_new (Bbr2Params 5840 146000000) 100000 0 1 1 None)\<lparr>m_loss_events_in_round := 25, m_bytes_lost_in_round := 14600\<rparr>)"
  using too_high_needs_thirty_times_inflight [of 5840 146000000 _ 20]
  by (fastforce simp: BytesInFlight_def)



end
