(* ===== verification/Bbr2_Modes.thy ===== *)
theory Bbr2_Modes
  imports Bbr2_Model
begin

section \<open>The modes of the BBRv2 sender\<close>

text \<open>
  \<open>congestion_control/bbr2_startup\<close>, \<open>bbr2_drain\<close>, \<open>bbr2_probe_bw\<close> and \<open>bbr2_probe_rtt\<close>
  (\<open>.h\<close> and \<open>.cc\<close>). The mode objects keep a pointer to their sender and to its network
  model and change both, so every operation works on the sender's record, which is declared
  here with the four mode objects as components. The counters of the connection, reached
  through a pointer, are part of the record.

  \<open>RandomUint64\<close> reads the sequence of the values that \<open>rand()\<close> returns, a component of the
  state; a remainder by zero is \<open>None\<close>, and so is a shift or a division without a result.

  The lemmas show that no operation fails in a well-formed state, which of the phases of
  PROBE_BW follow each other, and where each mode can lead.
\<close>

datatype Bbr2Mode = STARTUP | DRAIN | PROBE_BW | PROBE_RTT

datatype CyclePhase = PROBE_NOT_STARTED | PROBE_UP | PROBE_DOWN | PROBE_CRUISE | PROBE_REFILL

datatype AdaptUpperBoundsResult = ADAPTED_OK | ADAPTED_PROBED_TOO_HIGH
  | NOT_ADAPTED_INFLIGHT_HIGH_NOT_SET | NOT_ADAPTED_INVALID_SAMPLE

record probe_cycle =
  c_cycle_start_time :: quic_time
  c_phase :: CyclePhase
  c_rounds_in_phase :: u64
  c_phase_start_time :: quic_time
  c_rounds_since_probe :: round_trip_count
  c_probe_wait_time :: time_delta
  c_probe_up_rounds :: u64
  c_probe_up_bytes :: byte_count
  c_probe_up_acked :: byte_count
  c_has_advanced_max_bw :: bool
  c_is_sample_from_probing :: bool

definition cycle_new :: probe_cycle where
  "cycle_new = \<lparr>c_cycle_start_time = time_Zero, c_phase = PROBE_NOT_STARTED, c_rounds_in_phase = 0,
     c_phase_start_time = time_Zero, c_rounds_since_probe = 0, c_probe_wait_time = delta_Zero,
     c_probe_up_rounds = 0, c_probe_up_bytes = u64_max, c_probe_up_acked = 0,
     c_has_advanced_max_bw = False, c_is_sample_from_probing = False\<rparr>"

record bbr2_sender =
  s2_mode :: Bbr2Mode
  s2_stats :: conn_stats
  s2_params :: bbr2_params
  s2_model :: bbr2_model
  s2_initial_cwnd :: byte_count
  s2_cwnd :: byte_count
  s2_pacing_rate :: bandwidth
  s2_last_quiescence_start :: quic_time
  su_max_bw_at_round_beginning :: bandwidth
  pb_cycle :: probe_cycle
  pb_last_cycle_probed_too_high :: bool
  pb_last_cycle_stopped_risky_probe :: bool
  pr_exit_time :: quic_time
  s2_last_sample_is_app_limited :: bool
  s2_rand :: "nat \<Rightarrow> u64"

definition upd_model :: "(bbr2_model \<Rightarrow> bbr2_model) \<Rightarrow> bbr2_sender \<Rightarrow> bbr2_sender" where
  "upd_model f s = s\<lparr>s2_model := f (s2_model s)\<rparr>"

definition upd_cycle :: "(probe_cycle \<Rightarrow> probe_cycle) \<Rightarrow> bbr2_sender \<Rightarrow> bbr2_sender" where
  "upd_cycle f s = s\<lparr>pb_cycle := f (pb_cycle s)\<rparr>"

definition upd_stats :: "(conn_stats \<Rightarrow> conn_stats) \<Rightarrow> bbr2_sender \<Rightarrow> bbr2_sender" where
  "upd_stats f s = s\<lparr>s2_stats := f (s2_stats s)\<rparr>"

subsection \<open>What the modes ask the sender\<close>

definition RandomUint64 :: "u64 \<Rightarrow> bbr2_sender \<Rightarrow> (bbr2_sender \<times> u64) option" where
  "RandomUint64 mx s = (if mx = 0 then None
     else Some (s\<lparr>s2_rand := (\<lambda>n. s2_rand s (Suc n))\<rparr>, s2_rand s 0 mod mx))"

definition GetMinimumCongestionWindow :: "bbr2_sender \<Rightarrow> byte_count" where
  "GetMinimumCongestionWindow s = lim_min (p_cwnd_limits (s2_params s))"

definition GetCongestionWindow :: "bbr2_sender \<Rightarrow> byte_count" where
  "GetCongestionWindow s = s2_cwnd s"

definition GetTargetBytesInflight :: "bbr2_sender \<Rightarrow> byte_count" where
  "GetTargetBytesInflight s =
     (let bdp = BDP_of (model_BandwidthEstimate (s2_model s)) (s2_model s)
      in min bdp (GetCongestionWindow s))"

subsection \<open>STARTUP\<close>

definition su_init :: "quic_time \<Rightarrow> bbr2_sender \<Rightarrow> bbr2_sender" where
  "su_init now s =
     (let s = upd_stats (\<lambda>c. c\<lparr>cs_slowstart_count := 1, cs_slowstart_duration := ta_Start now ta_init\<rparr>) s
      in upd_model (\<lambda>m. m\<lparr>m_pacing_gain := p_startup_pacing_gain (s2_params s),
                          m_cwnd_gain := p_startup_cwnd_gain (s2_params s)\<rparr>)
           (s\<lparr>su_max_bw_at_round_beginning := bw_Zero\<rparr>))"

definition su_Leave :: "quic_time \<Rightarrow> bbr2_sender \<Rightarrow> bbr2_sender" where
  "su_Leave now s = upd_model clear_bandwidth_lo
     (upd_stats (\<lambda>c. c\<lparr>cs_slowstart_duration := ta_Stop now (cs_slowstart_duration c)\<rparr>) s)"

definition su_GetCwndLimits :: "bbr2_sender \<Rightarrow> limits" where
  "su_GetCwndLimits s = NoGreaterThan (m_inflight_lo (s2_model s))"

definition CheckExcessiveLosses :: "bbr2_event \<Rightarrow> bbr2_sender \<Rightarrow> bbr2_sender" where
  "CheckExcessiveLosses ev s =
     (let m = s2_model s; P = s2_params s
      in if m_full_bandwidth_reached m then s
         else if IsInflightTooHigh P ev (p_startup_full_loss_count P) m
         then let h = BDP m;
                  h = (if p_startup_loss_exit_use_max_delivered P \<and> h < m_max_bytes_delivered_in_round m
                       then m_max_bytes_delivered_in_round m else h)
              in upd_stats (\<lambda>c. c\<lparr>cs_bbr_exit_startup_due_to_loss := True\<rparr>)
                   (upd_model (\<lambda>m. m\<lparr>m_inflight_hi := h, m_full_bandwidth_reached := True\<rparr>) s)
         else s)"

definition startup_gain :: "bbr2_params \<Rightarrow> bandwidth \<Rightarrow> bandwidth \<Rightarrow> cfloat" where
  "startup_gain P max_bw max_bw_at_round_beginning =
     (let bandwidth_ratio = f32 (max 1 (f64 (f64 (of_int (ToBitsPerSecond max_bw))
            / f64 (of_int (ToBitsPerSecond max_bw_at_round_beginning)))));
          new_gain = f32 (f32 (f32 (bandwidth_ratio - 1)
              * f32 (p_startup_pacing_gain P - p_startup_full_bw_threshold P))
            + p_startup_full_bw_threshold P)
      in min (p_startup_pacing_gain P) new_gain)"

definition DecreaseStartupPacing :: "bbr2_event \<Rightarrow> bbr2_sender \<Rightarrow> bbr2_sender" where
  "DecreaseStartupPacing ev s =
     (if p_decrease_startup_pacing_at_end_of_round (s2_params s)
         \<and> ev_end_of_round_trip ev \<and> \<not> ev_last_sample_is_app_limited ev
      then let s = (if bw_Zero < su_max_bw_at_round_beginning s
             then let s = upd_model (\<lambda>m. m\<lparr>m_pacing_gain :=
                        startup_gain (s2_params s) (MaxBandwidth m) (su_max_bw_at_round_beginning s)\<rparr>) s
                  in if m_bandwidth_lo (s2_model s)
                        < bw_mult (MaxBandwidth (s2_model s)) (m_pacing_gain (s2_model s))
                     then upd_model clear_bandwidth_lo s else s
             else s)
           in s\<lparr>su_max_bw_at_round_beginning := MaxBandwidth (s2_model s)\<rparr>
      else s)"

definition CheckStartupGrowth :: "bbr2_event \<Rightarrow> bbr2_sender \<Rightarrow> bbr2_sender" where
  "CheckStartupGrowth ev s =
     (if \<not> m_full_bandwidth_reached (s2_model s) \<and> ev_end_of_round_trip ev
      then let (m, bw_growth) = CheckBandwidthGrowth (s2_params s) ev (s2_model s);
               s = s\<lparr>s2_model := m\<rparr>
           in if p_always_exit_startup_on_excess_loss (s2_params s)
                 \<or> bw_growth = NO_GROWTH \<or> bw_growth = EXIT
              then CheckExcessiveLosses ev s else s
      else s)"

definition su_OnCongestionEvent :: "bbr2_event \<Rightarrow> bbr2_sender \<Rightarrow> bbr2_sender \<times> Bbr2Mode" where
  "su_OnCongestionEvent ev s =
     (let s = CheckStartupGrowth ev s;
          s = DecreaseStartupPacing ev s
      in (s, if m_full_bandwidth_reached (s2_model s) then DRAIN else STARTUP))"

subsection \<open>DRAIN\<close>

definition DrainTarget :: "bbr2_sender \<Rightarrow> byte_count" where
  "DrainTarget s = max (BDP (s2_model s)) (GetMinimumCongestionWindow s)"

definition dr_OnCongestionEvent :: "bbr2_event \<Rightarrow> bbr2_sender \<Rightarrow> bbr2_sender \<times> Bbr2Mode" where
  "dr_OnCongestionEvent ev s =
     (let s = upd_model (\<lambda>m. m\<lparr>m_pacing_gain := p_drain_pacing_gain (s2_params s),
                               m_cwnd_gain := p_drain_cwnd_gain (s2_params s)\<rparr>) s;
          drain_target = DrainTarget s
      in (s, if ev_bytes_in_flight ev \<le> drain_target then PROBE_BW else DRAIN))"

definition dr_GetCwndLimits :: "bbr2_sender \<Rightarrow> limits" where
  "dr_GetCwndLimits s = NoGreaterThan (m_inflight_lo (s2_model s))"

subsection \<open>PROBE_BW\<close>

definition pb_IsProbingForBandwidth :: "bbr2_sender \<Rightarrow> bool" where
  "pb_IsProbingForBandwidth s \<longleftrightarrow> c_phase (pb_cycle s) = PROBE_REFILL \<or> c_phase (pb_cycle s) = PROBE_UP"

definition pb_GetCwndLimits :: "bbr2_sender \<Rightarrow> limits" where
  "pb_GetCwndLimits s = (let m = s2_model s in
     if c_phase (pb_cycle s) = PROBE_CRUISE
     then NoGreaterThan (min (m_inflight_lo m) (inflight_hi_with_headroom (s2_params s) m))
     else NoGreaterThan (min (m_inflight_lo m) (m_inflight_hi m)))"

definition PacingGainForPhase :: "bbr2_params \<Rightarrow> CyclePhase \<Rightarrow> cfloat" where
  "PacingGainForPhase P phase =
     (if phase = PROBE_UP then p_probe_bw_probe_up_pacing_gain P
      else if phase = PROBE_DOWN then p_probe_bw_probe_down_pacing_gain P
      else p_probe_bw_default_pacing_gain P)"

definition ExitProbeDown :: "bbr2_sender \<Rightarrow> bbr2_sender" where
  "ExitProbeDown s =
     (if \<not> c_has_advanced_max_bw (pb_cycle s)
      then upd_cycle (\<lambda>c. c\<lparr>c_has_advanced_max_bw := True\<rparr>) (upd_model AdvanceMaxBandwidthFilter s)
      else s)"

definition EnterProbeDown :: "bool \<Rightarrow> bool \<Rightarrow> quic_time \<Rightarrow> bbr2_sender \<Rightarrow> bbr2_sender option" where
  "EnterProbeDown probed_too_high stopped_risky_probe now s = do {
     let s = s\<lparr>pb_last_cycle_probed_too_high := probed_too_high,
               pb_last_cycle_stopped_risky_probe := stopped_risky_probe\<rparr>;
     let s = upd_cycle (\<lambda>c. c\<lparr>c_cycle_start_time := now, c_phase := PROBE_DOWN,
               c_rounds_in_phase := 0, c_phase_start_time := now\<rparr>) s;
     let s = upd_stats (\<lambda>c. c\<lparr>cs_bbr_num_cycles := cs_bbr_num_cycles c + 1\<rparr>) s;
     let s = (if p_bw_lo_mode (s2_params s) \<noteq> DEFAULT then upd_model clear_bandwidth_lo s else s);
     (s, r) \<leftarrow> RandomUint64 (p_probe_bw_max_probe_rand_rounds (s2_params s)) s;
     let s = upd_cycle (\<lambda>c. c\<lparr>c_rounds_since_probe := r\<rparr>) s;
     (s, r) \<leftarrow> RandomUint64 (u64_of (ToMicroseconds (p_probe_bw_probe_max_rand_duration (s2_params s)))) s;
     let s = upd_cycle (\<lambda>c. c\<lparr>c_probe_wait_time :=
               delta_plus (p_probe_bw_probe_base_duration (s2_params s)) (FromMicroseconds (i64_of r)),
               c_probe_up_bytes := u64_max, c_has_advanced_max_bw := False\<rparr>) s;
     Some (upd_model RestartRoundEarly s) }"

definition EnterProbeCruise :: "quic_time \<Rightarrow> bbr2_sender \<Rightarrow> bbr2_sender" where
  "EnterProbeCruise now s =
     (let s = (if c_phase (pb_cycle s) = PROBE_DOWN then ExitProbeDown s else s);
          s = upd_model (\<lambda>m. cap_inflight_lo (s2_params s) (m_inflight_hi m) m) s
      in upd_cycle (\<lambda>c. c\<lparr>c_phase := PROBE_CRUISE, c_rounds_in_phase := 0, c_phase_start_time := now,
           c_is_sample_from_probing := False\<rparr>) s)"

definition EnterProbeRefill :: "u64 \<Rightarrow> quic_time \<Rightarrow> bbr2_sender \<Rightarrow> bbr2_sender" where
  "EnterProbeRefill probe_up_rounds now s =
     (let s = (if c_phase (pb_cycle s) = PROBE_DOWN then ExitProbeDown s else s);
          s = upd_cycle (\<lambda>c. c\<lparr>c_phase := PROBE_REFILL, c_rounds_in_phase := 0, c_phase_start_time := now,
                c_is_sample_from_probing := False\<rparr>) s;
          s = s\<lparr>pb_last_cycle_stopped_risky_probe := False\<rparr>;
          s = upd_model clear_inflight_lo (upd_model clear_bandwidth_lo s);
          s = upd_cycle (\<lambda>c. c\<lparr>c_probe_up_rounds := probe_up_rounds, c_probe_up_acked := 0\<rparr>) s
      in upd_model RestartRoundEarly s)"

text \<open>\<open>1 << probe_up_rounds\<close> is an \<open>int\<close> shift.\<close>

definition RaiseInflightHighSlope :: "bbr2_sender \<Rightarrow> bbr2_sender option" where
  "RaiseInflightHighSlope s =
     (let c = pb_cycle s
      in if 31 \<le> c_probe_up_rounds c then None
         else let growth_this_round = 2 ^ unat (c_probe_up_rounds c) :: u64;
                  probe_up_bytes = GetCongestionWindow s div growth_this_round
              in Some (upd_cycle (\<lambda>c. c\<lparr>c_probe_up_rounds := min (c_probe_up_rounds c + 1) 30,
                   c_probe_up_bytes := max probe_up_bytes kDefaultTCPMSS\<rparr>) s))"

definition EnterProbeUp :: "quic_time \<Rightarrow> bbr2_sender \<Rightarrow> bbr2_sender option" where
  "EnterProbeUp now s = do {
     let s = upd_cycle (\<lambda>c. c\<lparr>c_phase := PROBE_UP, c_rounds_in_phase := 0, c_phase_start_time := now,
               c_is_sample_from_probing := True\<rparr>) s;
     s \<leftarrow> RaiseInflightHighSlope s;
     Some (upd_model RestartRoundEarly s) }"

definition MaybeAdaptUpperBounds :: "bbr2_event \<Rightarrow> bbr2_sender \<Rightarrow> bbr2_sender \<times> AdaptUpperBoundsResult" where
  "MaybeAdaptUpperBounds ev s =
     (let st = ev_last_packet_send_state ev; P = s2_params s; m = s2_model s
      in if \<not> sts_is_valid st then (s, NOT_ADAPTED_INVALID_SAMPLE)
         else let inflight_at_send =
                    (if p_use_bytes_delivered_for_inflight_hi P \<and> sts_total_bytes_acked st \<le> total_bytes_acked m
                     then total_bytes_acked m - sts_total_bytes_acked st else BytesInFlight st)
              in if IsInflightTooHigh P ev (p_probe_bw_full_loss_count P) m
                 then if c_is_sample_from_probing (pb_cycle s)
                   then let s = upd_cycle (\<lambda>c. c\<lparr>c_is_sample_from_probing := False\<rparr>) s;
                            s = (if \<not> sts_is_app_limited st
                              then let inflight_target =
                                         f_to_u64 (f64 (u64_f64 (GetTargetBytesInflight s) * one_minus_beta P));
                                       h = max inflight_at_send inflight_target;
                                       h = (if p_limit_inflight_hi_by_max_delivered P
                                               \<and> h < m_max_bytes_delivered_in_round m
                                            then m_max_bytes_delivered_in_round m else h)
                                   in upd_model (\<lambda>m. m\<lparr>m_inflight_hi := h\<rparr>) s
                              else s)
                        in (s, ADAPTED_PROBED_TOO_HIGH)
                   else (s, ADAPTED_OK)
                 else if m_inflight_hi m = inflight_hi_default then (s, NOT_ADAPTED_INFLIGHT_HIGH_NOT_SET)
                 else (if m_inflight_hi m < inflight_at_send
                       then upd_model (\<lambda>m. m\<lparr>m_inflight_hi := inflight_at_send\<rparr>) s else s, ADAPTED_OK))"

definition HasCycleLasted :: "time_delta \<Rightarrow> bbr2_event \<Rightarrow> bbr2_sender \<Rightarrow> bool" where
  "HasCycleLasted duration ev s \<longleftrightarrow>
     duration < time_diff (ev_event_time ev) (c_cycle_start_time (pb_cycle s))"

definition HasPhaseLasted :: "time_delta \<Rightarrow> bbr2_event \<Rightarrow> bbr2_sender \<Rightarrow> bool" where
  "HasPhaseLasted duration ev s \<longleftrightarrow>
     duration < time_diff (ev_event_time ev) (c_phase_start_time (pb_cycle s))"

definition HasStayedLongEnoughInProbeDown :: "bbr2_event \<Rightarrow> bbr2_sender \<Rightarrow> bool" where
  "HasStayedLongEnoughInProbeDown ev s = HasPhaseLasted (MinRtt (s2_model s)) ev s"

definition IsTimeToProbeForRenoCoexistence :: "cfloat \<Rightarrow> bbr2_event \<Rightarrow> bbr2_sender \<Rightarrow> bool" where
  "IsTimeToProbeForRenoCoexistence probe_wait_fraction ev s =
     (let P = s2_params s in
      if \<not> p_enable_reno_coexistence P then False
      else let rounds = ucast (p_probe_bw_probe_max_rounds P) :: u64;
               rounds = (if 0 < p_probe_bw_probe_reno_gain P
                 then let target_bytes_inflight = GetTargetBytesInflight s;
                          reno_rounds = f_to_u64 (f32 (f32 (p_probe_bw_probe_reno_gain P
                            * u64_f32 target_bytes_inflight) / u64_f32 kDefaultTCPMSS))
                      in min rounds reno_rounds
                 else rounds)
           in f64 (u64_f64 rounds * probe_wait_fraction) \<le> u64_f64 (c_rounds_since_probe (pb_cycle s)))"

definition IsTimeToProbeBandwidth :: "bbr2_event \<Rightarrow> bbr2_sender \<Rightarrow> bbr2_sender \<times> bool" where
  "IsTimeToProbeBandwidth ev s =
     (if HasCycleLasted (c_probe_wait_time (pb_cycle s)) ev s then (s, True)
      else if IsTimeToProbeForRenoCoexistence 1 ev s
      then (upd_stats (\<lambda>c. c\<lparr>cs_bbr_num_short_cycles_for_reno_coexistence :=
              cs_bbr_num_short_cycles_for_reno_coexistence c + 1\<rparr>) s, True)
      else (s, False))"

definition ProbeInflightHighUpward :: "bbr2_event \<Rightarrow> bbr2_sender \<Rightarrow> bbr2_sender option" where
  "ProbeInflightHighUpward ev s =
     (if \<not> IsCongestionWindowLimited ev then Some s
      else if ev_prior_cwnd ev < m_inflight_hi (s2_model s) then Some s
      else do {
        let s = upd_cycle (\<lambda>c. c\<lparr>c_probe_up_acked := c_probe_up_acked c + ev_bytes_acked ev\<rparr>) s;
        let c = pb_cycle s;
        s \<leftarrow> (if c_probe_up_bytes c \<le> c_probe_up_acked c
          then if c_probe_up_bytes c = 0 then None
            else let delta = c_probe_up_acked c div c_probe_up_bytes c;
                     s = upd_cycle (\<lambda>c. c\<lparr>c_probe_up_acked := c_probe_up_acked c - delta * c_probe_up_bytes c\<rparr>) s;
                     new_inflight_hi = m_inflight_hi (s2_model s) + delta * kDefaultTCPMSS
                 in Some (if m_inflight_hi (s2_model s) < new_inflight_hi
                          then upd_model (\<lambda>m. m\<lparr>m_inflight_hi := new_inflight_hi\<rparr>) s else s)
          else Some s);
        if ev_end_of_round_trip ev then RaiseInflightHighSlope s else Some s })"

definition UpdateProbeDown :: "bbr2_event \<Rightarrow> bbr2_sender \<Rightarrow> bbr2_sender" where
  "UpdateProbeDown ev s =
     (let first_round = c_rounds_in_phase (pb_cycle s) = 1 \<and> ev_end_of_round_trip ev;
          s = (if first_round
               then let s = upd_cycle (\<lambda>c. c\<lparr>c_is_sample_from_probing := False\<rparr>) s
                    in if \<not> ev_last_sample_is_app_limited ev
                       then upd_cycle (\<lambda>c. c\<lparr>c_has_advanced_max_bw := True\<rparr>)
                              (upd_model AdvanceMaxBandwidthFilter s)
                       else s
               else s)
      in if first_round \<and> pb_last_cycle_stopped_risky_probe s \<and> \<not> pb_last_cycle_probed_too_high s
         then EnterProbeRefill 0 (ev_event_time ev) s
         else let (s, _) = MaybeAdaptUpperBounds ev s;
                  (s, probe) = IsTimeToProbeBandwidth ev s
              in if probe then EnterProbeRefill 0 (ev_event_time ev) s
                 else if HasStayedLongEnoughInProbeDown ev s then EnterProbeCruise (ev_event_time ev) s
                 else if inflight_hi_with_headroom (s2_params s) (s2_model s) < ev_bytes_in_flight ev then s
                 else if ev_bytes_in_flight ev < BDP (s2_model s) then EnterProbeCruise (ev_event_time ev) s
                 else s)"

definition UpdateProbeCruise :: "bbr2_event \<Rightarrow> bbr2_sender \<Rightarrow> bbr2_sender" where
  "UpdateProbeCruise ev s =
     (let (s, _) = MaybeAdaptUpperBounds ev s;
          (s, probe) = IsTimeToProbeBandwidth ev s
      in if probe then EnterProbeRefill 0 (ev_event_time ev) s else s)"

definition UpdateProbeRefill :: "bbr2_event \<Rightarrow> bbr2_sender \<Rightarrow> bbr2_sender option" where
  "UpdateProbeRefill ev s =
     (let (s, _) = MaybeAdaptUpperBounds ev s
      in if 0 < c_rounds_in_phase (pb_cycle s) \<and> ev_end_of_round_trip ev
         then EnterProbeUp (ev_event_time ev) s else Some s)"

text \<open>
  The code assigns to the threshold what is left of the first semicolon only, two segments
  and the ack height; the expression with the bandwidth-delay product that follows is
  evaluated and dropped.
\<close>

definition queuing_threshold :: "bbr2_sender \<Rightarrow> byte_count" where
  "queuing_threshold s = 2 * kDefaultTCPMSS + MaxAckHeight (s2_model s)"

definition UpdateProbeUp :: "byte_count \<Rightarrow> bbr2_event \<Rightarrow> bbr2_sender \<Rightarrow> bbr2_sender option" where
  "UpdateProbeUp prior_in_flight ev s =
     (let (s, r) = MaybeAdaptUpperBounds ev s
      in if r = ADAPTED_PROBED_TOO_HIGH then EnterProbeDown True False (ev_event_time ev) s
         else do {
           s \<leftarrow> ProbeInflightHighUpward ev s;
           let is_risky = (pb_last_cycle_probed_too_high s \<and> m_inflight_hi (s2_model s) \<le> prior_in_flight);
           let is_queuing = (\<not> is_risky \<and> 0 < c_rounds_in_phase (pb_cycle s)
                             \<and> queuing_threshold s \<le> ev_bytes_in_flight ev);
           if is_risky \<or> is_queuing then EnterProbeDown False is_risky (ev_event_time ev) s
           else Some s })"

definition pb_Enter :: "quic_time \<Rightarrow> bbr2_sender \<Rightarrow> bbr2_sender option" where
  "pb_Enter now s =
     (if c_phase (pb_cycle s) = PROBE_NOT_STARTED then EnterProbeDown False False now s
      else let s = upd_cycle (\<lambda>c. c\<lparr>c_cycle_start_time := now\<rparr>) s
           in if c_phase (pb_cycle s) = PROBE_CRUISE then Some (EnterProbeCruise now s)
              else if c_phase (pb_cycle s) = PROBE_REFILL
              then Some (EnterProbeRefill (c_probe_up_rounds (pb_cycle s)) now s)
              else Some s)"

definition pb_count_rounds :: "quic_time \<Rightarrow> bbr2_event \<Rightarrow> bbr2_sender \<Rightarrow> bbr2_sender" where
  "pb_count_rounds event_time ev s =
     (if ev_end_of_round_trip ev
      then upd_cycle (\<lambda>c.
        let c = (if c_cycle_start_time c \<noteq> event_time
                 then c\<lparr>c_rounds_since_probe := c_rounds_since_probe c + 1\<rparr> else c)
        in if c_phase_start_time c \<noteq> event_time
           then c\<lparr>c_rounds_in_phase := c_rounds_in_phase c + 1\<rparr> else c) s
      else s)"

definition pb_update_phase :: "byte_count \<Rightarrow> bbr2_event \<Rightarrow> bbr2_sender \<Rightarrow> (bbr2_sender \<times> bool) option" where
  "pb_update_phase prior_in_flight ev s =
     (case c_phase (pb_cycle s) of
        PROBE_UP \<Rightarrow> do { s \<leftarrow> UpdateProbeUp prior_in_flight ev s; Some (s, False) }
      | PROBE_DOWN \<Rightarrow>
          (let s = UpdateProbeDown ev s
           in if c_phase (pb_cycle s) \<noteq> PROBE_DOWN
              then let (m, expired) = MaybeExpireMinRtt (s2_params s) ev (s2_model s)
                   in Some (s\<lparr>s2_model := m\<rparr>, expired)
              else Some (s, False))
      | PROBE_CRUISE \<Rightarrow> Some (UpdateProbeCruise ev s, False)
      | PROBE_REFILL \<Rightarrow> do { s \<leftarrow> UpdateProbeRefill ev s; Some (s, False) }
      | PROBE_NOT_STARTED \<Rightarrow> Some (s, False))"

definition pb_OnCongestionEvent :: "byte_count \<Rightarrow> quic_time \<Rightarrow> bbr2_event \<Rightarrow> bbr2_sender
    \<Rightarrow> (bbr2_sender \<times> Bbr2Mode) option" where
  "pb_OnCongestionEvent prior_in_flight event_time ev s = do {
     let s = pb_count_rounds event_time ev s;
     (s, switch_to_probe_rtt) \<leftarrow> pb_update_phase prior_in_flight ev s;
     let s = (if \<not> switch_to_probe_rtt
              then upd_model (\<lambda>m. m\<lparr>m_pacing_gain := PacingGainForPhase (s2_params s) (c_phase (pb_cycle s)),
                     m_cwnd_gain := p_probe_bw_cwnd_gain (s2_params s)\<rparr>) s
              else s);
     Some (s, if switch_to_probe_rtt then PROBE_RTT else PROBE_BW) }"

definition pb_OnExitQuiescence :: "quic_time \<Rightarrow> quic_time \<Rightarrow> bbr2_sender \<Rightarrow> bbr2_sender \<times> Bbr2Mode" where
  "pb_OnExitQuiescence now quiescence_start_time s =
     (upd_model (PostponeMinRttTimestamp (time_diff now quiescence_start_time)) s, PROBE_BW)"

subsection \<open>PROBE_RTT\<close>

definition InflightTarget :: "bbr2_sender \<Rightarrow> byte_count" where
  "InflightTarget s = BDP_gain (MaxBandwidth (s2_model s))
     (p_probe_rtt_inflight_target_bdp_fraction (s2_params s)) (s2_model s)"

definition pr_Enter :: "bbr2_sender \<Rightarrow> bbr2_sender" where
  "pr_Enter s = (upd_model (\<lambda>m. m\<lparr>m_pacing_gain := 1, m_cwnd_gain := 1\<rparr>) s)\<lparr>pr_exit_time := time_Zero\<rparr>"

definition pr_OnCongestionEvent :: "bbr2_event \<Rightarrow> bbr2_sender \<Rightarrow> bbr2_sender \<times> Bbr2Mode" where
  "pr_OnCongestionEvent ev s =
     (if pr_exit_time s = time_Zero
      then (if ev_bytes_in_flight ev \<le> InflightTarget s
               \<or> ev_bytes_in_flight ev \<le> GetMinimumCongestionWindow s
            then s\<lparr>pr_exit_time := time_plus (ev_event_time ev) (p_probe_rtt_duration (s2_params s))\<rparr>
            else s, PROBE_RTT)
      else (s, if pr_exit_time s < ev_event_time ev then PROBE_BW else PROBE_RTT))"

definition pr_GetCwndLimits :: "bbr2_sender \<Rightarrow> limits" where
  "pr_GetCwndLimits s =
     (let inflight_upper_bound =
            min (m_inflight_lo (s2_model s)) (inflight_hi_with_headroom (s2_params s) (s2_model s))
      in NoGreaterThan (min inflight_upper_bound (InflightTarget s)))"

definition pr_OnExitQuiescence :: "quic_time \<Rightarrow> bbr2_sender \<Rightarrow> bbr2_sender \<times> Bbr2Mode" where
  "pr_OnExitQuiescence now s = (s, if pr_exit_time s < now then PROBE_BW else PROBE_RTT)"

subsection \<open>What every operation of a mode keeps\<close>

definition params_ok :: "bbr2_params \<Rightarrow> bool" where
  "params_ok P \<longleftrightarrow> p_bw_lo_mode P = DEFAULT \<and> p_probe_bw_max_probe_rand_rounds P \<noteq> 0
     \<and> u64_of (ToMicroseconds (p_probe_bw_probe_max_rand_duration P)) \<noteq> 0"

lemma params_ok_Bbr2Params: "params_ok (Bbr2Params lo hi)"
  by (simp add: params_ok_def Bbr2Params_def ToMicroseconds_def FromMilliseconds_def u64_of_def i64_def)

definition cycle_ok :: "probe_cycle \<Rightarrow> bool" where
  "cycle_ok c \<longleftrightarrow> c_probe_up_bytes c \<noteq> 0 \<and> c_probe_up_rounds c \<le> 30"

definition s2_frame :: "bbr2_sender \<Rightarrow> Bbr2Mode \<times> bbr2_params \<times> byte_count \<times> byte_count \<times> bandwidth \<times> quic_time
    \<times> bandwidth_sampler \<times> round_trip_count" where
  "s2_frame s = (s2_mode s, s2_params s, s2_initial_cwnd s, s2_cwnd s, s2_pacing_rate s,
     s2_last_quiescence_start s, m_bandwidth_sampler (s2_model s), RoundTripCount (s2_model s))"

definition keeps :: "bbr2_sender \<Rightarrow> bbr2_sender \<Rightarrow> bool" where
  "keeps s s' \<longleftrightarrow> s2_frame s' = s2_frame s
     \<and> (m_full_bandwidth_reached (s2_model s) \<longrightarrow> m_full_bandwidth_reached (s2_model s'))
     \<and> (model_inv (s2_model s) \<longrightarrow> model_inv (s2_model s'))
     \<and> (cycle_ok (pb_cycle s) \<longrightarrow> cycle_ok (pb_cycle s'))"

lemma keeps_refl [simp, intro!]: "keeps s s"
  by (simp add: keeps_def)

lemma keeps_trans [trans]: "keeps s s' \<Longrightarrow> keeps s' s'' \<Longrightarrow> keeps s s''"
  by (simp add: keeps_def)

lemma s2_frameD:
  "s2_frame s' = s2_frame s \<Longrightarrow> s2_mode s' = s2_mode s \<and> s2_params s' = s2_params s
    \<and> s2_initial_cwnd s' = s2_initial_cwnd s \<and> s2_cwnd s' = s2_cwnd s \<and> s2_pacing_rate s' = s2_pacing_rate s
    \<and> s2_last_quiescence_start s' = s2_last_quiescence_start s
    \<and> m_bandwidth_sampler (s2_model s') = m_bandwidth_sampler (s2_model s)
    \<and> RoundTripCount (s2_model s') = RoundTripCount (s2_model s)"
  by (simp add: s2_frame_def)

lemma keepsD:
  "keeps s s' \<Longrightarrow> s2_mode s' = s2_mode s" "keeps s s' \<Longrightarrow> s2_params s' = s2_params s"
  "keeps s s' \<Longrightarrow> s2_cwnd s' = s2_cwnd s" "keeps s s' \<Longrightarrow> s2_initial_cwnd s' = s2_initial_cwnd s"
  "keeps s s' \<Longrightarrow> m_bandwidth_sampler (s2_model s') = m_bandwidth_sampler (s2_model s)"
  "keeps s s' \<Longrightarrow> RoundTripCount (s2_model s') = RoundTripCount (s2_model s)"
  "keeps s s' \<Longrightarrow> m_full_bandwidth_reached (s2_model s) \<Longrightarrow> m_full_bandwidth_reached (s2_model s')"
  "keeps s s' \<Longrightarrow> model_inv (s2_model s) \<Longrightarrow> model_inv (s2_model s')"
  "keeps s s' \<Longrightarrow> cycle_ok (pb_cycle s) \<Longrightarrow> cycle_ok (pb_cycle s')"
  by (simp_all add: keeps_def s2_frame_def)

lemma keeps_upd_model:
  assumes "model_inv (s2_model s) \<Longrightarrow> model_inv (f (s2_model s))"
    and "m_bandwidth_sampler (f (s2_model s)) = m_bandwidth_sampler (s2_model s)"
    and "RoundTripCount (f (s2_model s)) = RoundTripCount (s2_model s)"
    and "m_full_bandwidth_reached (s2_model s) \<Longrightarrow> m_full_bandwidth_reached (f (s2_model s))"
  shows "keeps s (upd_model f s)"
  using assms by (simp add: keeps_def s2_frame_def upd_model_def)

lemma keeps_upd_cycle:
  assumes "cycle_ok (pb_cycle s) \<Longrightarrow> cycle_ok (f (pb_cycle s))"
  shows "keeps s (upd_cycle f s)"
  using assms by (simp add: keeps_def s2_frame_def upd_cycle_def)

lemma keeps_stats [simp]: "keeps s (upd_stats f s)"
  by (simp add: keeps_def s2_frame_def upd_stats_def)

lemma pb_cycle_upd [simp]:
  "pb_cycle (upd_model f s) = pb_cycle s" "pb_cycle (upd_stats g s) = pb_cycle s"
  "pb_cycle (upd_cycle h s) = h (pb_cycle s)"
  by (simp_all add: upd_model_def upd_stats_def upd_cycle_def)

lemma model_ops_keep [simp]:
  "m_bandwidth_sampler (clear_bandwidth_lo m) = m_bandwidth_sampler m"
  "m_bandwidth_sampler (clear_inflight_lo m) = m_bandwidth_sampler m"
  "m_bandwidth_sampler (AdvanceMaxBandwidthFilter m) = m_bandwidth_sampler m"
  "m_bandwidth_sampler (RestartRoundEarly m) = m_bandwidth_sampler m"
  "m_bandwidth_sampler (cap_inflight_lo P c m) = m_bandwidth_sampler m"
  "m_bandwidth_sampler (PostponeMinRttTimestamp d m) = m_bandwidth_sampler m"
  "RoundTripCount (clear_bandwidth_lo m) = RoundTripCount m"
  "RoundTripCount (clear_inflight_lo m) = RoundTripCount m"
  "RoundTripCount (AdvanceMaxBandwidthFilter m) = RoundTripCount m"
  "RoundTripCount (RestartRoundEarly m) = RoundTripCount m"
  "RoundTripCount (cap_inflight_lo P c m) = RoundTripCount m"
  "RoundTripCount (PostponeMinRttTimestamp d m) = RoundTripCount m"
  "m_full_bandwidth_reached (clear_bandwidth_lo m) = m_full_bandwidth_reached m"
  "m_full_bandwidth_reached (clear_inflight_lo m) = m_full_bandwidth_reached m"
  "m_full_bandwidth_reached (AdvanceMaxBandwidthFilter m) = m_full_bandwidth_reached m"
  "m_full_bandwidth_reached (RestartRoundEarly m) = m_full_bandwidth_reached m"
  "m_full_bandwidth_reached (cap_inflight_lo P c m) = m_full_bandwidth_reached m"
  "m_full_bandwidth_reached (PostponeMinRttTimestamp d m) = m_full_bandwidth_reached m"
  by (simp_all add: clear_bandwidth_lo_def clear_inflight_lo_def AdvanceMaxBandwidthFilter_def
      RestartRoundEarly_def OnNewRound_def cap_inflight_lo_def RoundTripCount_def rtc_RestartRound_def
      PostponeMinRttTimestamp_def)

lemma RoundTripCount_upd [simp]:
  "RoundTripCount (m\<lparr>m_inflight_hi := h\<rparr>) = RoundTripCount m"
  "RoundTripCount (m\<lparr>m_pacing_gain := a\<rparr>) = RoundTripCount m"
  "RoundTripCount (m\<lparr>m_cwnd_gain := a\<rparr>) = RoundTripCount m"
  "RoundTripCount (m\<lparr>m_full_bandwidth_reached := b\<rparr>) = RoundTripCount m"
  by (simp_all add: RoundTripCount_def)

lemma keeps_model_ops [simp]:
  "keeps s (upd_model clear_bandwidth_lo s)" "keeps s (upd_model clear_inflight_lo s)"
  "keeps s (upd_model AdvanceMaxBandwidthFilter s)" "keeps s (upd_model RestartRoundEarly s)"
  "keeps s (upd_model (\<lambda>m. cap_inflight_lo P (k m) m) s)"
  "keeps s (upd_model (\<lambda>m. m\<lparr>m_inflight_hi := h\<rparr>) s)"
  "keeps s (upd_model (\<lambda>m. m\<lparr>m_pacing_gain := a, m_cwnd_gain := b\<rparr>) s)"
  "keeps s (upd_model (PostponeMinRttTimestamp d) s)"
  by (rule keeps_upd_model; simp add: model_inv_ops)+

subsection \<open>STARTUP and DRAIN\<close>

lemma CheckExcessiveLosses_keeps:
  "keeps s (CheckExcessiveLosses ev s)" "pb_cycle (CheckExcessiveLosses ev s) = pb_cycle s"
  "pr_exit_time (CheckExcessiveLosses ev s) = pr_exit_time s"
  by (simp_all add: CheckExcessiveLosses_def Let_def keeps_def s2_frame_def upd_model_def upd_stats_def)

lemma CheckStartupGrowth_keeps:
  "keeps s (CheckStartupGrowth ev s)" "pb_cycle (CheckStartupGrowth ev s) = pb_cycle s"
proof -
  obtain m g where c: "CheckBandwidthGrowth (s2_params s) ev (s2_model s) = (m, g)" by fastforce
  have "RoundTripCount m = RoundTripCount (s2_model s)"
    using c by (auto simp: CheckBandwidthGrowth_def Let_def RoundTripCount_def split: if_splits)
  then have k: "keeps s (s\<lparr>s2_model := m\<rparr>)"
    using CheckBandwidthGrowth_inv [OF c] CheckBandwidthGrowth_spec(5) [OF c]
    by (simp add: keeps_def s2_frame_def)
  show "keeps s (CheckStartupGrowth ev s)"
    using k keeps_trans [OF k CheckExcessiveLosses_keeps(1)]
    by (simp add: CheckStartupGrowth_def c Let_def)
  show "pb_cycle (CheckStartupGrowth ev s) = pb_cycle s"
    by (simp add: CheckStartupGrowth_def c Let_def CheckExcessiveLosses_keeps)
qed

lemma DecreaseStartupPacing_keeps:
  "keeps s (DecreaseStartupPacing ev s)" "pb_cycle (DecreaseStartupPacing ev s) = pb_cycle s"
  by (simp_all add: DecreaseStartupPacing_def Let_def keeps_def s2_frame_def upd_model_def
      model_inv_ops MaxBandwidth_def)

lemma su_OnCongestionEvent_spec:
  assumes "su_OnCongestionEvent ev s = (s', nm)"
  shows "keeps s s'" "pb_cycle s' = pb_cycle s"
    "nm = (if m_full_bandwidth_reached (s2_model s') then DRAIN else STARTUP)"
  using assms keeps_trans [OF CheckStartupGrowth_keeps(1) DecreaseStartupPacing_keeps(1)]
  by (auto simp: su_OnCongestionEvent_def Let_def CheckStartupGrowth_keeps DecreaseStartupPacing_keeps)

lemma dr_OnCongestionEvent_spec:
  assumes "dr_OnCongestionEvent ev s = (s', nm)"
  shows "keeps s s'" "pb_cycle s' = pb_cycle s" "nm = DRAIN \<or> nm = PROBE_BW"
    "nm = PROBE_BW \<longleftrightarrow> ev_bytes_in_flight ev \<le> max (BDP (s2_model s)) (GetMinimumCongestionWindow s)"
proof -
  let ?s = "upd_model (\<lambda>m. m\<lparr>m_pacing_gain := p_drain_pacing_gain (s2_params s),
      m_cwnd_gain := p_drain_cwnd_gain (s2_params s)\<rparr>) s"
  have d: "DrainTarget ?s = max (BDP (s2_model s)) (GetMinimumCongestionWindow s)"
    by (simp add: DrainTarget_def BDP_def BDP_of_def MinRtt_def MaxBandwidth_def upd_model_def
        GetMinimumCongestionWindow_def)
  have "s' = ?s" "nm = (if ev_bytes_in_flight ev \<le> DrainTarget ?s then PROBE_BW else DRAIN)"
    using assms by (auto simp: dr_OnCongestionEvent_def Let_def)
  with d show "keeps s s'" "pb_cycle s' = pb_cycle s" "nm = DRAIN \<or> nm = PROBE_BW"
    "nm = PROBE_BW \<longleftrightarrow> ev_bytes_in_flight ev \<le> max (BDP (s2_model s)) (GetMinimumCongestionWindow s)"
    by (simp_all split: if_splits)
qed

lemma su_Leave_keeps: "keeps s (su_Leave now s)" "pb_cycle (su_Leave now s) = pb_cycle s"
  by (simp_all add: su_Leave_def keeps_trans [OF keeps_stats keeps_model_ops(1)])

lemma pr_OnCongestionEvent_spec:
  assumes "pr_OnCongestionEvent ev s = (s', nm)"
  shows "keeps s s'" "pb_cycle s' = pb_cycle s" "nm = PROBE_RTT \<or> nm = PROBE_BW"
    "nm = PROBE_BW \<Longrightarrow> pr_exit_time s \<noteq> 0 \<and> pr_exit_time s < ev_event_time ev \<and> s' = s"
  using assms by (auto simp: pr_OnCongestionEvent_def keeps_def s2_frame_def time_Zero_def split: if_splits)

lemma pr_Enter_spec: "keeps s (pr_Enter s)" "pb_cycle (pr_Enter s) = pb_cycle s" "pr_exit_time (pr_Enter s) = 0"
  by (simp_all add: pr_Enter_def keeps_def s2_frame_def upd_model_def time_Zero_def)

subsection \<open>The cycle of PROBE_BW\<close>

text \<open>The phases that can follow each other within PROBE_BW.\<close>

inductive cycle_step :: "CyclePhase \<Rightarrow> CyclePhase \<Rightarrow> bool" where
  down_cruise: "cycle_step PROBE_DOWN PROBE_CRUISE"
| down_refill: "cycle_step PROBE_DOWN PROBE_REFILL"
| cruise_refill: "cycle_step PROBE_CRUISE PROBE_REFILL"
| refill_up: "cycle_step PROBE_REFILL PROBE_UP"
| up_down: "cycle_step PROBE_UP PROBE_DOWN"

inductive_simps cycle_step_simps: "cycle_step p q"
inductive_cases cycle_step_DownE: "cycle_step PROBE_DOWN q"

abbreviation phase :: "bbr2_sender \<Rightarrow> CyclePhase" where "phase s \<equiv> c_phase (pb_cycle s)"

lemma keeps_flags [simp]:
  "keeps s (s\<lparr>pb_last_cycle_probed_too_high := a, pb_last_cycle_stopped_risky_probe := b\<rparr>)"
  "keeps s (s\<lparr>pb_last_cycle_stopped_risky_probe := b\<rparr>)"
  "keeps s (s\<lparr>s2_rand := r\<rparr>)"
  by (simp_all add: keeps_def s2_frame_def)

lemma keeps_cycle_fields [simp]:
  "keeps s (upd_cycle (\<lambda>c. c\<lparr>c_has_advanced_max_bw := b\<rparr>) s)"
  "keeps s (upd_cycle (\<lambda>c. c\<lparr>c_is_sample_from_probing := b\<rparr>) s)"
  "keeps s (upd_cycle (\<lambda>c. c\<lparr>c_rounds_since_probe := n\<rparr>) s)"
  "keeps s (upd_cycle (\<lambda>c. c\<lparr>c_probe_up_acked := g c\<rparr>) s)"
  "keeps s (upd_cycle (\<lambda>c. c\<lparr>c_cycle_start_time := t\<rparr>) s)"
  "keeps s (upd_cycle (\<lambda>c. c\<lparr>c_phase := p, c_rounds_in_phase := 0, c_phase_start_time := t,
     c_is_sample_from_probing := b\<rparr>) s)"
  "keeps s (upd_cycle (\<lambda>c. c\<lparr>c_cycle_start_time := t, c_phase := p, c_rounds_in_phase := 0,
     c_phase_start_time := t\<rparr>) s)"
  by (rule keeps_upd_cycle; simp add: cycle_ok_def)+

lemma upd_params [simp]:
  "s2_params (upd_model f s) = s2_params s" "s2_params (upd_cycle h s) = s2_params s"
  "s2_params (upd_stats g s) = s2_params s"
  "s2_rand (upd_model f s) = s2_rand s" "s2_rand (upd_cycle h s) = s2_rand s"
  "s2_rand (upd_stats g s) = s2_rand s"
  by (simp_all add: upd_model_def upd_cycle_def upd_stats_def)

lemma ExitProbeDown_keeps [simp]: "keeps s (ExitProbeDown s)" "phase (ExitProbeDown s) = phase s"
  by (simp_all add: ExitProbeDown_def keeps_trans [OF keeps_model_ops(3)])

lemma RandomUint64_Some: "mx \<noteq> 0 \<Longrightarrow>
  RandomUint64 mx s = Some (s\<lparr>s2_rand := (\<lambda>n. s2_rand s (Suc n))\<rparr>, s2_rand s 0 mod mx)"
  by (simp add: RandomUint64_def)

lemma EnterProbeDown_spec:
  assumes P: "params_ok (s2_params s)"
  obtains s' where "EnterProbeDown hi risky now s = Some s'" "keeps s s'" "phase s' = PROBE_DOWN"
    "c_cycle_start_time (pb_cycle s') = now" "c_phase_start_time (pb_cycle s') = now"
    "c_rounds_since_probe (pb_cycle s') < p_probe_bw_max_probe_rand_rounds (s2_params s)"
    "pb_last_cycle_probed_too_high s' = hi" "pb_last_cycle_stopped_risky_probe s' = risky"
    "c_probe_wait_time (pb_cycle s') = delta_plus (p_probe_bw_probe_base_duration (s2_params s))
       (FromMicroseconds (i64_of (s2_rand s 1 mod u64_of (p_probe_bw_probe_max_rand_duration (s2_params s)))))"
proof -
  let ?P = "s2_params s"
  let ?s1 = "s\<lparr>pb_last_cycle_probed_too_high := hi, pb_last_cycle_stopped_risky_probe := risky\<rparr>"
  let ?s2 = "upd_cycle (\<lambda>c. c\<lparr>c_cycle_start_time := now, c_phase := PROBE_DOWN,
               c_rounds_in_phase := 0, c_phase_start_time := now\<rparr>) ?s1"
  let ?s3 = "upd_stats (\<lambda>c. c\<lparr>cs_bbr_num_cycles := cs_bbr_num_cycles c + 1\<rparr>) ?s2"
  define r1 where "r1 = s2_rand s 0 mod p_probe_bw_max_probe_rand_rounds ?P"
  define r2 where "r2 = s2_rand s 1 mod u64_of (p_probe_bw_probe_max_rand_duration ?P)"
  let ?s4 = "upd_cycle (\<lambda>c. c\<lparr>c_rounds_since_probe := r1\<rparr>) (?s3\<lparr>s2_rand := (\<lambda>n. s2_rand s (Suc n))\<rparr>)"
  let ?s5 = "?s4\<lparr>s2_rand := (\<lambda>n. s2_rand s (Suc (Suc n)))\<rparr>"
  let ?w = "delta_plus (p_probe_bw_probe_base_duration ?P) (FromMicroseconds (i64_of r2))"
  let ?s6 = "upd_cycle (\<lambda>c. c\<lparr>c_probe_wait_time := ?w,
               c_probe_up_bytes := u64_max, c_has_advanced_max_bw := False\<rparr>) ?s5"
  have P': "p_bw_lo_mode ?P = DEFAULT" "p_probe_bw_max_probe_rand_rounds ?P \<noteq> 0"
    "u64_of (p_probe_bw_probe_max_rand_duration ?P) \<noteq> 0"
    using P by (simp_all add: params_ok_def ToMicroseconds_def)
  have run: "EnterProbeDown hi risky now s = Some (upd_model RestartRoundEarly ?s6)"
    using P' by (simp add: EnterProbeDown_def Let_def RandomUint64_def r1_def r2_def ToMicroseconds_def)
  have "keeps s ?s1" by simp
  also have "keeps ?s1 ?s2" by simp
  also have "keeps ?s2 ?s3" by simp
  also have "keeps ?s3 (?s3\<lparr>s2_rand := (\<lambda>n. s2_rand s (Suc n))\<rparr>)" by simp
  also have "keeps \<dots> ?s4" by simp
  also have "keeps ?s4 ?s5" by simp
  also have "keeps ?s5 ?s6" by (rule keeps_upd_cycle) (simp add: cycle_ok_def u64_max_def)
  also have "keeps ?s6 (upd_model RestartRoundEarly ?s6)" by simp
  finally have k: "keeps s (upd_model RestartRoundEarly ?s6)" .
  have l: "r1 < p_probe_bw_max_probe_rand_rounds ?P"
    using P'(2) by (simp add: r1_def word_mod_less_divisor word_gt_0)
  show thesis
    by (rule that [OF run k]) (use l in \<open>simp_all add: upd_cycle_def upd_model_def upd_stats_def r2_def\<close>)
qed

lemma EnterProbeCruise_spec:
  "keeps s (EnterProbeCruise now s)" "phase (EnterProbeCruise now s) = PROBE_CRUISE"
proof -
  define s1 where "s1 = (if phase s = PROBE_DOWN then ExitProbeDown s else s)"
  define s2 where "s2 = upd_model (\<lambda>m. cap_inflight_lo (s2_params s1) (m_inflight_hi m) m) s1"
  have "keeps s s1" by (simp add: s1_def)
  also have "keeps s1 s2" by (simp add: s2_def)
  also have "keeps s2 (EnterProbeCruise now s)" by (simp add: EnterProbeCruise_def Let_def s1_def s2_def)
  finally show "keeps s (EnterProbeCruise now s)" .
  show "phase (EnterProbeCruise now s) = PROBE_CRUISE" by (simp add: EnterProbeCruise_def Let_def)
qed

lemma EnterProbeRefill_spec:
  assumes "n \<le> 30"
  shows "keeps s (EnterProbeRefill n now s)" "phase (EnterProbeRefill n now s) = PROBE_REFILL"
    "m_bandwidth_lo (s2_model (EnterProbeRefill n now s)) = bandwidth_lo_default"
    "m_inflight_lo (s2_model (EnterProbeRefill n now s)) = inflight_lo_default"
proof -
  define s1 where "s1 = (if phase s = PROBE_DOWN then ExitProbeDown s else s)"
  define s2 where "s2 = upd_cycle (\<lambda>c. c\<lparr>c_phase := PROBE_REFILL, c_rounds_in_phase := 0,
      c_phase_start_time := now, c_is_sample_from_probing := False\<rparr>) s1"
  define s3 where "s3 = s2\<lparr>pb_last_cycle_stopped_risky_probe := False\<rparr>"
  define s4 where "s4 = upd_model clear_bandwidth_lo s3"
  define s5 where "s5 = upd_model clear_inflight_lo s4"
  define s6 where "s6 = upd_cycle (\<lambda>c. c\<lparr>c_probe_up_rounds := n, c_probe_up_acked := 0\<rparr>) s5"
  have eq: "EnterProbeRefill n now s = upd_model RestartRoundEarly s6"
    by (simp add: EnterProbeRefill_def Let_def s1_def s2_def s3_def s4_def s5_def s6_def)
  have "keeps s s1" by (simp add: s1_def)
  also have "keeps s1 s2" by (simp add: s2_def)
  also have "keeps s2 s3" by (simp add: s3_def)
  also have "keeps s3 s4" by (simp add: s4_def)
  also have "keeps s4 s5" by (simp add: s5_def)
  also have "keeps s5 s6" unfolding s6_def using assms by (intro keeps_upd_cycle) (simp add: cycle_ok_def)
  also have "keeps s6 (EnterProbeRefill n now s)" by (simp add: eq)
  finally show "keeps s (EnterProbeRefill n now s)" .
  show "phase (EnterProbeRefill n now s) = PROBE_REFILL"
    "m_bandwidth_lo (s2_model (EnterProbeRefill n now s)) = bandwidth_lo_default"
    "m_inflight_lo (s2_model (EnterProbeRefill n now s)) = inflight_lo_default"
    by (simp_all add: EnterProbeRefill_def Let_def upd_model_def upd_cycle_def clear_bandwidth_lo_def
        clear_inflight_lo_def RestartRoundEarly_def OnNewRound_def)
qed

lemma RaiseInflightHighSlope_spec:
  assumes "cycle_ok (pb_cycle s)"
  obtains s' where "RaiseInflightHighSlope s = Some s'" "keeps s s'" "phase s' = phase s"
    "kDefaultTCPMSS \<le> c_probe_up_bytes (pb_cycle s')"
proof -
  let ?f = "\<lambda>c. c\<lparr>c_probe_up_rounds := min (c_probe_up_rounds c + 1) 30,
     c_probe_up_bytes := max (GetCongestionWindow s div 2 ^ unat (c_probe_up_rounds (pb_cycle s))) kDefaultTCPMSS\<rparr>"
  have n: "\<not> 31 \<le> c_probe_up_rounds (pb_cycle s)"
  proof
    assume "31 \<le> c_probe_up_rounds (pb_cycle s)"
    with assms have "(31 :: u64) \<le> 30" by (meson cycle_ok_def order_trans)
    then show False by simp
  qed
  have k: "keeps s (upd_cycle ?f s)"
  proof (rule keeps_upd_cycle)
    have "kDefaultTCPMSS \<noteq> 0" by (simp add: kDefaultTCPMSS_def)
    then have "max x kDefaultTCPMSS \<noteq> 0" for x by (metis max.cobounded2 word_le_0_iff)
    then show "cycle_ok (?f (pb_cycle s))" by (simp add: cycle_ok_def)
  qed
  show thesis
    by (rule that [OF _ k]) (use n in \<open>simp_all add: RaiseInflightHighSlope_def Let_def\<close>)
qed

lemmas keeps_intros = keeps_model_ops [THEN keeps_trans [rotated]]
  keeps_cycle_fields [THEN keeps_trans [rotated]] keeps_stats [THEN keeps_trans [rotated]]

lemma EnterProbeUp_spec:
  assumes "cycle_ok (pb_cycle s)"
  obtains s' where "EnterProbeUp now s = Some s'" "keeps s s'" "phase s' = PROBE_UP"
proof -
  let ?s1 = "upd_cycle (\<lambda>c. c\<lparr>c_phase := PROBE_UP, c_rounds_in_phase := 0, c_phase_start_time := now,
      c_is_sample_from_probing := True\<rparr>) s"
  have k1: "keeps s ?s1" by simp
  then have "cycle_ok (pb_cycle ?s1)" using assms by (rule keepsD)
  from RaiseInflightHighSlope_spec [OF this] obtain s2 where
    s2: "RaiseInflightHighSlope ?s1 = Some s2" "keeps ?s1 s2" "phase s2 = phase ?s1" .
  note k1
  also note s2(2)
  also have "keeps s2 (upd_model RestartRoundEarly s2)" by simp
  finally have k: "keeps s (upd_model RestartRoundEarly s2)" .
  show thesis
    by (rule that [OF _ k]) (use s2 in \<open>simp_all add: EnterProbeUp_def Let_def\<close>)
qed

lemma MaybeAdaptUpperBounds_spec:
  assumes "MaybeAdaptUpperBounds ev s = (s', r)"
  shows "keeps s s'" "phase s' = phase s" "c_rounds_in_phase (pb_cycle s') = c_rounds_in_phase (pb_cycle s)"
    "r = ADAPTED_PROBED_TOO_HIGH \<Longrightarrow>
       IsInflightTooHigh (s2_params s) ev (p_probe_bw_full_loss_count (s2_params s)) (s2_model s)"
proof -
  have "keeps s s' \<and> phase s' = phase s \<and> c_rounds_in_phase (pb_cycle s') = c_rounds_in_phase (pb_cycle s)"
    using assms unfolding MaybeAdaptUpperBounds_def Let_def
    by (auto split: if_splits intro!: keeps_intros)
  then show "keeps s s'" "phase s' = phase s" "c_rounds_in_phase (pb_cycle s') = c_rounds_in_phase (pb_cycle s)"
    by blast+
  show "r = ADAPTED_PROBED_TOO_HIGH \<Longrightarrow>
      IsInflightTooHigh (s2_params s) ev (p_probe_bw_full_loss_count (s2_params s)) (s2_model s)"
    using assms unfolding MaybeAdaptUpperBounds_def Let_def by (auto split: if_splits)
qed

lemma IsTimeToProbeBandwidth_spec:
  "IsTimeToProbeBandwidth ev s = (s', b) \<Longrightarrow> keeps s s' \<and> pb_cycle s' = pb_cycle s"
  by (auto simp: IsTimeToProbeBandwidth_def split: if_splits)

lemma ProbeInflightHighUpward_spec:
  assumes c: "cycle_ok (pb_cycle s)"
  obtains s' where "ProbeInflightHighUpward ev s = Some s'" "keeps s s'" "phase s' = phase s"
proof (cases "IsCongestionWindowLimited ev \<and> \<not> ev_prior_cwnd ev < m_inflight_hi (s2_model s)")
  case False
  then have "ProbeInflightHighUpward ev s = Some s" by (auto simp: ProbeInflightHighUpward_def)
  then show thesis by (rule that) simp_all
next
  case True
  let ?s1 = "upd_cycle (\<lambda>c. c\<lparr>c_probe_up_acked := c_probe_up_acked c + ev_bytes_acked ev\<rparr>) s"
  let ?c = "pb_cycle ?s1"
  let ?d = "c_probe_up_acked ?c div c_probe_up_bytes ?c"
  let ?s2 = "upd_cycle (\<lambda>c. c\<lparr>c_probe_up_acked := c_probe_up_acked c - ?d * c_probe_up_bytes c\<rparr>) ?s1"
  let ?h = "m_inflight_hi (s2_model ?s2) + ?d * kDefaultTCPMSS"
  define s3 where "s3 = (if c_probe_up_bytes ?c \<le> c_probe_up_acked ?c
    then if m_inflight_hi (s2_model ?s2) < ?h then upd_model (\<lambda>m. m\<lparr>m_inflight_hi := ?h\<rparr>) ?s2 else ?s2
    else ?s1)"
  have k1: "keeps s ?s1" by simp
  have k2: "keeps ?s1 ?s2" by simp
  have k3: "keeps s s3"
    using k1 keeps_trans [OF k1 k2] keeps_trans [OF keeps_trans [OF k1 k2] keeps_model_ops(6)]
    by (simp add: s3_def)
  have p3: "phase s3 = phase s" by (simp add: s3_def)
  have nz: "c_probe_up_bytes ?c \<noteq> 0" using c by (simp add: cycle_ok_def)
  have run: "ProbeInflightHighUpward ev s = (if ev_end_of_round_trip ev then RaiseInflightHighSlope s3 else Some s3)"
    using True nz by (simp add: ProbeInflightHighUpward_def Let_def s3_def)
  show thesis
  proof (cases "ev_end_of_round_trip ev")
    case True
    have "cycle_ok (pb_cycle s3)" using k3 c by (rule keepsD)
    from RaiseInflightHighSlope_spec [OF this] obtain s4 where
      "RaiseInflightHighSlope s3 = Some s4" "keeps s3 s4" "phase s4 = phase s3" .
    with True run p3 show thesis by (intro that [of s4]) (auto intro: keeps_trans [OF k3])
  next
    case False
    with run k3 p3 show thesis by (intro that [of s3]) simp_all
  qed
qed

lemma UpdateProbeDown_spec:
  "keeps s (UpdateProbeDown ev s)"
  "phase s = PROBE_DOWN \<Longrightarrow> phase (UpdateProbeDown ev s) \<in> {PROBE_DOWN, PROBE_CRUISE, PROBE_REFILL}"
proof -
  define fr where "fr \<longleftrightarrow> c_rounds_in_phase (pb_cycle s) = 1 \<and> ev_end_of_round_trip ev"
  define s1 where "s1 = (if fr
      then let s = upd_cycle (\<lambda>c. c\<lparr>c_is_sample_from_probing := False\<rparr>) s
           in if \<not> ev_last_sample_is_app_limited ev
              then upd_cycle (\<lambda>c. c\<lparr>c_has_advanced_max_bw := True\<rparr>) (upd_model AdvanceMaxBandwidthFilter s)
              else s
      else s)"
  have k1: "keeps s s1" "phase s1 = phase s"
    unfolding s1_def Let_def
    by (auto intro!: keeps_intros)
  obtain s2 r where s2: "MaybeAdaptUpperBounds ev s1 = (s2, r)" by fastforce
  note m = MaybeAdaptUpperBounds_spec [OF s2]
  obtain s3 b where s3: "IsTimeToProbeBandwidth ev s2 = (s3, b)" by fastforce
  note i = IsTimeToProbeBandwidth_spec [OF s3]
  have k3: "keeps s s3" using keeps_trans [OF keeps_trans [OF k1(1) m(1)]] i by blast
  have p3: "phase s3 = phase s" using i m(2) k1(2) by simp
  let ?t = "ev_event_time ev"
  have "UpdateProbeDown ev s \<in> {EnterProbeRefill 0 ?t s1, EnterProbeRefill 0 ?t s3, EnterProbeCruise ?t s3, s3}"
    unfolding UpdateProbeDown_def Let_def fr_def [symmetric] s1_def [unfolded Let_def, symmetric] s2 s3 prod.case
    by auto
  then show "keeps s (UpdateProbeDown ev s)"
    "phase s = PROBE_DOWN \<Longrightarrow> phase (UpdateProbeDown ev s) \<in> {PROBE_DOWN, PROBE_CRUISE, PROBE_REFILL}"
    using k3 p3 keeps_trans [OF k1(1) EnterProbeRefill_spec(1) [of 0 s1 ?t]]
      keeps_trans [OF k3 EnterProbeRefill_spec(1) [of 0 s3 ?t]]
      keeps_trans [OF k3 EnterProbeCruise_spec(1) [of s3 ?t]]
      EnterProbeCruise_spec(2) EnterProbeRefill_spec(2) [of 0]
    by auto
qed

lemma UpdateProbeCruise_spec:
  "keeps s (UpdateProbeCruise ev s)" "phase (UpdateProbeCruise ev s) \<in> {phase s, PROBE_REFILL}"
proof -
  obtain s2 r where s2: "MaybeAdaptUpperBounds ev s = (s2, r)" by fastforce
  note m = MaybeAdaptUpperBounds_spec [OF s2]
  obtain s3 b where s3: "IsTimeToProbeBandwidth ev s2 = (s3, b)" by fastforce
  note i = IsTimeToProbeBandwidth_spec [OF s3]
  have k3: "keeps s s3" using keeps_trans [OF m(1)] i by blast
  show "keeps s (UpdateProbeCruise ev s)" "phase (UpdateProbeCruise ev s) \<in> {phase s, PROBE_REFILL}"
    using k3 keeps_trans [OF k3 EnterProbeRefill_spec(1) [of 0 s3 "ev_event_time ev"]] i m(2)
      EnterProbeRefill_spec(2) [of 0]
    by (simp_all add: UpdateProbeCruise_def s2 s3)
qed

lemma UpdateProbeRefill_spec:
  assumes "cycle_ok (pb_cycle s)"
  obtains s' where "UpdateProbeRefill ev s = Some s'" "keeps s s'" "phase s' \<in> {phase s, PROBE_UP}"
    "phase s' \<noteq> phase s \<Longrightarrow> ev_end_of_round_trip ev"
proof -
  obtain s2 r where s2: "MaybeAdaptUpperBounds ev s = (s2, r)" by fastforce
  note m = MaybeAdaptUpperBounds_spec [OF s2]
  have "cycle_ok (pb_cycle s2)" using m(1) assms by (rule keepsD)
  from EnterProbeUp_spec [OF this] obtain s3 where
    s3: "EnterProbeUp (ev_event_time ev) s2 = Some s3" "keeps s2 s3" "phase s3 = PROBE_UP" .
  show thesis
  proof (cases "0 < c_rounds_in_phase (pb_cycle s2) \<and> ev_end_of_round_trip ev")
    case True
    with s2 s3 keeps_trans [OF m(1) s3(2)] show thesis
      by (intro that [of s3]) (simp_all add: UpdateProbeRefill_def)
  next
    case False
    then have "UpdateProbeRefill ev s = Some s2" using s2 by (auto simp: UpdateProbeRefill_def)
    with m show thesis by (intro that [of s2]) simp_all
  qed
qed

lemma UpdateProbeUp_spec:
  assumes P: "params_ok (s2_params s)" and c: "cycle_ok (pb_cycle s)"
  obtains s' where "UpdateProbeUp prior ev s = Some s'" "keeps s s'" "phase s' \<in> {phase s, PROBE_DOWN}"
proof -
  obtain s2 r where s2: "MaybeAdaptUpperBounds ev s = (s2, r)" by fastforce
  note m = MaybeAdaptUpperBounds_spec [OF s2]
  let ?t = "ev_event_time ev"
  have P2: "params_ok (s2_params s2)" using P keepsD(2) [OF m(1)] by simp
  have c2: "cycle_ok (pb_cycle s2)" using m(1) c by (rule keepsD)
  show thesis
  proof (cases "r = ADAPTED_PROBED_TOO_HIGH")
    case True
    from EnterProbeDown_spec [OF P2] obtain s3 where
      s3: "EnterProbeDown True False ?t s2 = Some s3" "keeps s2 s3" "phase s3 = PROBE_DOWN" .
    with True s2 keeps_trans [OF m(1) s3(2)] show thesis
      by (intro that [of s3]) (simp_all add: UpdateProbeUp_def)
  next
    case False
    from ProbeInflightHighUpward_spec [OF c2] obtain s3 where
      s3: "ProbeInflightHighUpward ev s2 = Some s3" "keeps s2 s3" "phase s3 = phase s2" .
    have k3: "keeps s s3" using m(1) s3(2) by (rule keeps_trans)
    have P3: "params_ok (s2_params s3)" using P keepsD(2) [OF k3] by simp
    define ri where "ri \<longleftrightarrow> pb_last_cycle_probed_too_high s3 \<and> m_inflight_hi (s2_model s3) \<le> prior"
    define qu where "qu \<longleftrightarrow> \<not> ri \<and> 0 < c_rounds_in_phase (pb_cycle s3) \<and> queuing_threshold s3 \<le> ev_bytes_in_flight ev"
    have run: "UpdateProbeUp prior ev s = (if ri \<or> qu then EnterProbeDown False ri ?t s3 else Some s3)"
      using False s2 s3(1) by (auto simp: UpdateProbeUp_def Let_def ri_def qu_def)
    from EnterProbeDown_spec [OF P3] obtain s4 where
      s4: "EnterProbeDown False ri ?t s3 = Some s4" "keeps s3 s4" "phase s4 = PROBE_DOWN" .
    show thesis
      by (rule that [of "if ri \<or> qu then s4 else s3"])
        (use run s4 s3(3) m(2) k3 keeps_trans [OF k3 s4(2)] in simp_all)
  qed
qed

subsection \<open>A congestion event in PROBE_BW\<close>

lemma pb_count_rounds_spec: "keeps s (pb_count_rounds t ev s)" "phase (pb_count_rounds t ev s) = phase s"
proof -
  show "keeps s (pb_count_rounds t ev s)"
    unfolding pb_count_rounds_def by (auto intro!: keeps_upd_cycle simp: cycle_ok_def Let_def)
  show "phase (pb_count_rounds t ev s) = phase s" by (simp add: pb_count_rounds_def Let_def)
qed

lemma keeps_MaybeExpireMinRtt:
  assumes "MaybeExpireMinRtt P ev (s2_model s) = (m, b)" "ev_sample_min_rtt ev \<noteq> 0"
  shows "keeps s (s\<lparr>s2_model := m\<rparr>)"
proof -
  have "m_bandwidth_sampler m = m_bandwidth_sampler (s2_model s) \<and> RoundTripCount m = RoundTripCount (s2_model s)
    \<and> m_full_bandwidth_reached m = m_full_bandwidth_reached (s2_model s)"
    using assms by (auto simp: MaybeExpireMinRtt_def RoundTripCount_def split: if_splits)
  moreover have "model_inv (s2_model s) \<Longrightarrow> model_inv m"
    using MaybeExpireMinRtt_inv(1) [OF _ assms(2,1)] .
  ultimately show ?thesis by (simp add: keeps_def s2_frame_def)
qed

lemma pb_update_phase_spec:
  assumes P: "params_ok (s2_params s)" and c: "cycle_ok (pb_cycle s)" and ev: "ev_sample_min_rtt ev \<noteq> 0"
  obtains s' b where "pb_update_phase prior ev s = Some (s', b)" "keeps s s'"
    "phase s' = phase s \<or> cycle_step (phase s) (phase s')"
    "b \<longrightarrow> phase s = PROBE_DOWN \<and> phase s' \<in> {PROBE_CRUISE, PROBE_REFILL}"
proof (cases "phase s")
  case PROBE_NOT_STARTED
  then show thesis by (intro that [of s False]) (simp_all add: pb_update_phase_def)
next
  case PROBE_UP
  from UpdateProbeUp_spec [OF P c] obtain s1 where
    "UpdateProbeUp prior ev s = Some s1" "keeps s s1" "phase s1 \<in> {phase s, PROBE_DOWN}" .
  with PROBE_UP show thesis
    by (intro that [of s1 False]) (auto simp: pb_update_phase_def cycle_step_simps)
next
  case PROBE_CRUISE
  with UpdateProbeCruise_spec [where s = s and ev = ev] show thesis
    by (intro that [of "UpdateProbeCruise ev s" False]) (auto simp: pb_update_phase_def cycle_step_simps)
next
  case PROBE_REFILL
  from UpdateProbeRefill_spec [OF c] obtain s1 where
    "UpdateProbeRefill ev s = Some s1" "keeps s s1" "phase s1 \<in> {phase s, PROBE_UP}" .
  with PROBE_REFILL show thesis
    by (intro that [of s1 False]) (auto simp: pb_update_phase_def cycle_step_simps)
next
  case PROBE_DOWN
  let ?s1 = "UpdateProbeDown ev s"
  obtain m b where e: "MaybeExpireMinRtt (s2_params ?s1) ev (s2_model ?s1) = (m, b)" by fastforce
  note k1 = UpdateProbeDown_spec(1) [where s = s and ev = ev]
  note k2 = keeps_trans [OF k1 keeps_MaybeExpireMinRtt [OF e ev]]
  have p: "phase ?s1 \<in> {PROBE_DOWN, PROBE_CRUISE, PROBE_REFILL}" by (rule UpdateProbeDown_spec(2) [OF PROBE_DOWN])
  show thesis
  proof (cases "phase ?s1 = PROBE_DOWN")
    case True
    with PROBE_DOWN k1 show thesis by (intro that [of ?s1 False]) (simp_all add: pb_update_phase_def Let_def)
  next
    case False
    then have run: "pb_update_phase prior ev s = Some (?s1\<lparr>s2_model := m\<rparr>, b)"
      using PROBE_DOWN e by (simp add: pb_update_phase_def Let_def)
    show thesis
      by (rule that [OF run k2]) (use False PROBE_DOWN p in \<open>auto simp: cycle_step_simps\<close>)
  qed
qed

lemma pb_OnCongestionEvent_spec:
  assumes P: "params_ok (s2_params s)" and c: "cycle_ok (pb_cycle s)" and ev: "ev_sample_min_rtt ev \<noteq> 0"
  obtains s' nm where "pb_OnCongestionEvent prior t ev s = Some (s', nm)" "keeps s s'"
    "phase s' = phase s \<or> cycle_step (phase s) (phase s')"
    "nm = PROBE_BW \<or> nm = PROBE_RTT \<and> phase s = PROBE_DOWN \<and> phase s' \<in> {PROBE_CRUISE, PROBE_REFILL}"
    "nm = PROBE_BW \<longrightarrow> m_pacing_gain (s2_model s') = PacingGainForPhase (s2_params s) (phase s')"
proof -
  let ?s0 = "pb_count_rounds t ev s"
  note k0 = pb_count_rounds_spec(1) [where s = s and t = t and ev = ev]
  have P0: "params_ok (s2_params ?s0)" using P keepsD(2) [OF k0] by simp
  have c0: "cycle_ok (pb_cycle ?s0)" using k0 c by (rule keepsD)
  from pb_update_phase_spec [OF P0 c0 ev, of prior] obtain s1 b where s1:
    "pb_update_phase prior ev ?s0 = Some (s1, b)" "keeps ?s0 s1"
    "phase s1 = phase ?s0 \<or> cycle_step (phase ?s0) (phase s1)"
    "b \<longrightarrow> phase ?s0 = PROBE_DOWN \<and> phase s1 \<in> {PROBE_CRUISE, PROBE_REFILL}" .
  note k1 = keeps_trans [OF k0 s1(2)]
  define s2 where "s2 = (if \<not> b then upd_model (\<lambda>m. m\<lparr>m_pacing_gain := PacingGainForPhase (s2_params s1) (phase s1),
      m_cwnd_gain := p_probe_bw_cwnd_gain (s2_params s1)\<rparr>) s1 else s1)"
  have k2: "keeps s s2" using k1 by (auto simp: s2_def intro!: keeps_intros)
  have run: "pb_OnCongestionEvent prior t ev s = Some (s2, if b then PROBE_RTT else PROBE_BW)"
    using s1(1) by (simp add: pb_OnCongestionEvent_def Let_def s2_def)
  have "phase s2 = phase s1" by (simp add: s2_def)
  moreover have "\<not> b \<Longrightarrow> m_pacing_gain (s2_model s2) = PacingGainForPhase (s2_params s) (phase s1)"
    using keepsD(2) [OF k1] by (simp add: s2_def upd_model_def)
  ultimately show thesis
    using s1(3,4) by (intro that [OF run k2]) (auto simp: pb_count_rounds_spec)
qed

lemma pb_Enter_spec:
  assumes P: "params_ok (s2_params s)" and c: "cycle_ok (pb_cycle s)"
  obtains s' where "pb_Enter now s = Some s'" "keeps s s'"
    "phase s' = (if phase s = PROBE_NOT_STARTED then PROBE_DOWN else phase s)"
proof -
  let ?s1 = "upd_cycle (\<lambda>c. c\<lparr>c_cycle_start_time := now\<rparr>) s"
  from EnterProbeDown_spec [OF P, of False False now] obtain sd where
    sd: "EnterProbeDown False False now s = Some sd" "keeps s sd" "phase sd = PROBE_DOWN" .
  define s' where "s' = (if phase s = PROBE_NOT_STARTED then sd
    else if phase s = PROBE_CRUISE then EnterProbeCruise now ?s1
    else if phase s = PROBE_REFILL then EnterProbeRefill (c_probe_up_rounds (pb_cycle s)) now ?s1
    else ?s1)"
  have run: "pb_Enter now s = Some s'" using sd(1) by (simp add: pb_Enter_def s'_def Let_def)
  have k1: "keeps s ?s1" by simp
  have n: "c_probe_up_rounds (pb_cycle s) \<le> 30" using c by (simp add: cycle_ok_def)
  have k: "keeps s s'"
    using sd(2) k1 keeps_trans [OF k1 EnterProbeCruise_spec(1)] keeps_trans [OF k1 EnterProbeRefill_spec(1) [OF n]]
    by (simp add: s'_def)
  have "phase s' = (if phase s = PROBE_NOT_STARTED then PROBE_DOWN else phase s)"
    using sd(3) EnterProbeCruise_spec(2) EnterProbeRefill_spec(2) [OF n] by (simp add: s'_def)
  then show thesis by (rule that [OF run k])
qed

text \<open>Rounds of PROBE_UP that each raise the slope.\<close>

fun raise_slopes :: "nat \<Rightarrow> bbr2_sender \<Rightarrow> bbr2_sender option" where
  "raise_slopes 0 s = Some s"
| "raise_slopes (Suc n) s = Option.bind (RaiseInflightHighSlope s) (raise_slopes n)"

lemma raise_slope_step:
  assumes "unat (c_probe_up_rounds (pb_cycle s)) \<le> 30"
  obtains s' where "RaiseInflightHighSlope s = Some s'" "s2_cwnd s' = s2_cwnd s"
    "unat (c_probe_up_rounds (pb_cycle s')) = min 30 (Suc (unat (c_probe_up_rounds (pb_cycle s))))"
    "unat (c_probe_up_bytes (pb_cycle s')) = max (unat (s2_cwnd s) div 2 ^ unat (c_probe_up_rounds (pb_cycle s))) 1460"
proof -
  let ?r = "c_probe_up_rounds (pb_cycle s)"
  have le: "?r \<le> 30" "\<not> 31 \<le> ?r" using assms by (simp_all add: word_le_nat_alt)
  have r1: "unat (?r + 1) = Suc (unat ?r)" using assms by (simp add: unat_u64_plus)
  have "(2 :: nat) ^ unat ?r \<le> 2 ^ 30" using assms by (intro power_increasing) simp_all
  then have "(2 :: nat) ^ unat ?r < 2 ^ 64" by simp
  then have p: "unat ((2 :: u64) ^ unat ?r) = 2 ^ unat ?r" using unat_of_nat_u64 [of "2 ^ unat ?r"] by simp
  show thesis
    by (rule that [of "upd_cycle (\<lambda>c. c\<lparr>c_probe_up_rounds := min (c_probe_up_rounds c + 1) 30,
          c_probe_up_bytes := max (s2_cwnd s div 2 ^ unat ?r) kDefaultTCPMSS\<rparr>) s"])
      (use le r1 p in \<open>simp_all add: RaiseInflightHighSlope_def Let_def upd_cycle_def GetCongestionWindow_def
         kDefaultTCPMSS_def unat_div min_def max_def word_le_nat_alt\<close>)
qed

lemma raise_slopes_spec:
  assumes "unat (c_probe_up_rounds (pb_cycle s)) \<le> 30"
  shows "\<exists>s'. raise_slopes (Suc n) s = Some s' \<and> unat (c_probe_up_bytes (pb_cycle s'))
    = max (unat (s2_cwnd s) div 2 ^ min 30 (unat (c_probe_up_rounds (pb_cycle s)) + n)) 1460"
  using assms
proof (induction n arbitrary: s)
  case 0
  from raise_slope_step [OF 0] obtain s' where "RaiseInflightHighSlope s = Some s'"
    "unat (c_probe_up_bytes (pb_cycle s')) = max (unat (s2_cwnd s) div 2 ^ unat (c_probe_up_rounds (pb_cycle s))) 1460" .
  with 0 show ?case by simp
next
  case (Suc n)
  from raise_slope_step [OF Suc.prems] obtain s1 where s1: "RaiseInflightHighSlope s = Some s1" "s2_cwnd s1 = s2_cwnd s"
    "unat (c_probe_up_rounds (pb_cycle s1)) = min 30 (Suc (unat (c_probe_up_rounds (pb_cycle s))))" .
  have "min 30 (unat (c_probe_up_rounds (pb_cycle s1)) + n) = min 30 (unat (c_probe_up_rounds (pb_cycle s)) + Suc n)"
    using s1(3) by simp
  with Suc.IH [of s1] s1 show ?case by simp
qed

subsection \<open>Properties\<close>


text \<open>A state of the sender in PROBE_BW for the examples.\<close>

definition example_probe :: bbr2_sender where
  "example_probe = (let P = Bbr2Params 5840 146000000 in
     \<lparr>s2_mode = PROBE_BW, s2_stats = cs_new, s2_params = P, s2_model = model_new P 100000 0 1 1 None,
      s2_initial_cwnd = 46720, s2_cwnd = 46720, s2_pacing_rate = 0, s2_last_quiescence_start = 0,
      su_max_bw_at_round_beginning = 0, pb_cycle = cycle_new\<lparr>c_phase := PROBE_REFILL\<rparr>,
      pb_last_cycle_probed_too_high = False, pb_last_cycle_stopped_risky_probe = False, pr_exit_time = 0,
      s2_last_sample_is_app_limited = False, s2_rand = (\<lambda>n. of_nat n + 5)\<rparr>)"

lemma example_probe:
  "s2_params example_probe = Bbr2Params 5840 146000000" "params_ok (s2_params example_probe)"
  "cycle_ok (pb_cycle example_probe)" "phase example_probe = PROBE_REFILL" "s2_cwnd example_probe = 46720"
  "s2_rand example_probe = (\<lambda>n. of_nat n + 5)" "pr_exit_time example_probe = 0"
  "c_probe_up_rounds (pb_cycle example_probe) = 0"
  by (simp_all add: example_probe_def params_ok_Bbr2Params Let_def cycle_ok_def cycle_new_def u64_max_def)


text \<open>A new PROBE_DOWN phase draws the wait before the next probe from 100 ms up to 1100 ms
  (exclusive) and starts with zero or one round since the last probe, whatever \<open>rand\<close> returns.\<close>

theorem probe_wait_bounds:
  assumes "s2_params s = Bbr2Params lo hi"
  shows "\<exists>s'. EnterProbeDown too_high risky now s = Some s' \<and> phase s' = PROBE_DOWN
    \<and> 100000 \<le> c_probe_wait_time (pb_cycle s') \<and> c_probe_wait_time (pb_cycle s') < 1100000
    \<and> c_rounds_since_probe (pb_cycle s') < 2"
proof -
  have P: "params_ok (s2_params s)" by (simp add: assms params_ok_Bbr2Params)
  from EnterProbeDown_spec [OF P, of too_high risky now] obtain s' where
    e: "EnterProbeDown too_high risky now s = Some s'" "phase s' = PROBE_DOWN"
    "c_rounds_since_probe (pb_cycle s') < p_probe_bw_max_probe_rand_rounds (s2_params s)"
    "c_probe_wait_time (pb_cycle s') = delta_plus (p_probe_bw_probe_base_duration (s2_params s))
       (FromMicroseconds (i64_of (s2_rand s 1 mod u64_of (p_probe_bw_probe_max_rand_duration (s2_params s)))))" .
  have d: "p_probe_bw_probe_base_duration (s2_params s) = 100000"
    "u64_of (p_probe_bw_probe_max_rand_duration (s2_params s)) = 1000000"
    "p_probe_bw_max_probe_rand_rounds (s2_params s) = 2"
    by (simp_all add: assms Bbr2Params_def FromMilliseconds_def i64_def u64_of_def)
  define r where "r = uint (s2_rand s 1 mod (1000000 :: u64))"
  have r: "0 \<le> r" "r < 1000000" by (simp_all add: r_def uint_mod)
  then have "i64_of (s2_rand s 1 mod 1000000) = r" by (simp add: r_def i64_of_small)
  then have "c_probe_wait_time (pb_cycle s') = 100000 + r"
    using e(4) r unfolding d by (simp add: delta_plus_def FromMicroseconds_def i64_small)
  with e(1-3) d(3) r show ?thesis by auto
qed

lemma probe_wait_bounds_witness:
  "\<exists>s'. EnterProbeDown False False 51000 example_probe = Some s' \<and> c_probe_wait_time (pb_cycle s') < 1100000"
  using probe_wait_bounds [OF example_probe(1), of False False 51000] by blast

text \<open>In PROBE_UP the bytes to be acked for each increase of \<open>inflight_hi\<close> halve with every round: they are
  the window divided by a power of two that doubles from round to round, up to 30 doublings, and
  never less than one segment; the shift never reaches the width of \<open>int\<close>.\<close>

theorem probe_up_slope_doubles:
  assumes "c_probe_up_rounds (pb_cycle s) \<le> 30"
  shows "\<exists>s'. raise_slopes (Suc n) s = Some s' \<and> unat (c_probe_up_bytes (pb_cycle s'))
    = max (unat (s2_cwnd s) div 2 ^ min 30 (unat (c_probe_up_rounds (pb_cycle s)) + n)) 1460"
  using raise_slopes_spec [of s n] assms by (simp add: word_le_nat_alt)

lemma probe_up_slope_doubles_witness:
  "\<exists>s'. raise_slopes (Suc 2) example_probe = Some s' \<and> unat (c_probe_up_bytes (pb_cycle s')) = 11680"
  using probe_up_slope_doubles [of example_probe 2] example_probe(5,8) by (simp del: raise_slopes.simps)



end
