(* ===== verification/Send_Algorithm.thy ===== *)
theory Send_Algorithm
  imports Connection_Stats Unacked_Map Rtt_Stats Quic_Bandwidth
begin

section \<open>The interface of the congestion controllers\<close>

text \<open>
  \<open>SendAlgorithmInterface\<close> of \<open>congestion_control/send_algorithm_interface.h\<close>: its virtual
  functions are the fields of a record, a function table over the state \<open>'a\<close> of the
  congestion controller. What an implementation reads through its pointers to the round trip
  time statistics and to the map of unacked packets is an argument; the connection counters,
  which it also writes, are passed and returned. \<open>None\<close> is a step without a defined result.

  The locale \<open>send_algorithm\<close> is the contract its client, the packet manager, relies on: an
  invariant of the state that every call keeps, without failing.
\<close>

datatype congestion_control_type = kCubicBytes | kRenoBytes | kBBR | kPCC | kGoogCC | kBBRv2

record 'a send_algorithm_ops =
  sa_OnCongestionEvent :: "rtt_stats \<Rightarrow> unacked_map \<Rightarrow> bool \<Rightarrow> byte_count \<Rightarrow> quic_time
    \<Rightarrow> acked_packet list \<Rightarrow> lost_packet list \<Rightarrow> conn_stats \<times> 'a \<Rightarrow> (conn_stats \<times> 'a) option"
  sa_OnPacketSent :: "quic_time \<Rightarrow> byte_count \<Rightarrow> packet_number \<Rightarrow> byte_count
    \<Rightarrow> conn_stats \<times> 'a \<Rightarrow> (conn_stats \<times> 'a) option"
  sa_CanSend :: "byte_count \<Rightarrow> 'a \<Rightarrow> bool"
  sa_PacingRate :: "rtt_stats \<Rightarrow> byte_count \<Rightarrow> 'a \<Rightarrow> bandwidth option"
  sa_BandwidthEstimate :: "rtt_stats \<Rightarrow> 'a \<Rightarrow> bandwidth option"
  sa_GetCongestionWindow :: "'a \<Rightarrow> byte_count"
  sa_InSlowStart :: "'a \<Rightarrow> bool"
  sa_InRecovery :: "'a \<Rightarrow> bool"
  sa_GetCongestionControlType :: "'a \<Rightarrow> congestion_control_type"
  sa_GetSlowStartThreshold :: "'a \<Rightarrow> byte_count"
  sa_OnRetransmissionTimeout :: "bool \<Rightarrow> 'a \<Rightarrow> 'a"

text \<open>The maximal congestion window, in packets, that \<open>SendAlgorithmInterface::Create\<close> sets.\<close>

definition max_congestion_window :: packet_count where "max_congestion_window = 100000"

text \<open>The initial window, in packets, of \<open>quic_constants.h\<close>, that the manager passes to it.\<close>

definition kInitialCongestionWindow :: packet_count where "kInitialCongestionWindow = 32"

locale send_algorithm =
  fixes ops :: "'a send_algorithm_ops" and alg_ok :: "'a \<Rightarrow> bool"
  assumes on_packet_sent: "alg_ok a \<Longrightarrow> in_i64 t \<Longrightarrow> IsInitialized pn
      \<Longrightarrow> \<exists>st' a'. sa_OnPacketSent ops t bif pn n (st, a) = Some (st', a') \<and> alg_ok a'"
    and on_congestion_event: "alg_ok a \<Longrightarrow> in_i64 t \<Longrightarrow> rtt_inv r
      \<Longrightarrow> \<exists>st' a'. sa_OnCongestionEvent ops r m updated prior t acked lost (st, a) = Some (st', a') \<and> alg_ok a'"
    and on_retransmission_timeout: "alg_ok a \<Longrightarrow> alg_ok (sa_OnRetransmissionTimeout ops b a)"
    and pacing_rate: "alg_ok a \<Longrightarrow> rtt_inv r \<Longrightarrow> \<exists>b. sa_PacingRate ops r bif a = Some b"
    and window_positive: "alg_ok a \<Longrightarrow> 0 < sa_GetCongestionWindow ops a"

end
