(* ===== verification/Bbr2_Sender.thy ===== *)
theory Bbr2_Sender
  imports Bbr2_Modes Send_Algorithm
begin

section \<open>The BBRv2 sender\<close>

text \<open>
  \<open>congestion_control/bbr2_sender.h\<close> and \<open>.cc\<close>: the constructor, the dispatch to the current
  mode, the handling of sent packets and of congestion events with its loop over mode
  changes, the congestion window and the pacing rate. The pointer to the map of unacked
  packets is used for its least packet number only, which is an argument, and so are the
  round trip time statistics that the constructor reads. Logging is left out.

  The lemmas show that a congestion event is handled without failing, that the window stays
  within the configured limits, that the modes change only along the edges of the BBRv2 state
  machine, and that the loop ends because the mode is stable, before its cut-off.
\<close>

definition kDefaultMinimumCongestionWindow :: byte_count where
  "kDefaultMinimumCongestionWindow = 4 * kDefaultTCPMSS"

definition kInitialPacingGain :: cfloat where "kInitialPacingGain = f32 (2885 / 1000)"

definition kMaxModeChangesPerCongestionEvent :: nat where "kMaxModeChangesPerCongestionEvent = 4"

text \<open>
  \<open>junk\<close> stands for the two flags of the PROBE_BW mode that the constructor leaves unset.
\<close>

definition Bbr2Sender :: "quic_time \<Rightarrow> rtt_stats \<Rightarrow> packet_count \<Rightarrow> packet_count \<Rightarrow> conn_stats \<Rightarrow> (nat \<Rightarrow> u64)
    \<Rightarrow> bool \<times> bool \<Rightarrow> bbr2_sender option" where
  "Bbr2Sender now rs initial_cwnd_in_packets max_cwnd_in_packets stats rng junk = do {
     let P = Bbr2Params kDefaultMinimumCongestionWindow (max_cwnd_in_packets * kDefaultTCPMSS);
     let m = model_new P (SmoothedOrInitialRtt rs) (rs_last_update_time rs) 1 kInitialPacingGain None;
     let cwnd = ApplyLimits (p_cwnd_limits P) (initial_cwnd_in_packets * kDefaultTCPMSS);
     b \<leftarrow> FromBytesAndTimeDelta cwnd (SmoothedOrInitialRtt rs);
     let s = \<lparr>s2_mode = STARTUP, s2_stats = stats, s2_params = P, s2_model = m, s2_initial_cwnd = cwnd,
       s2_cwnd = cwnd, s2_pacing_rate = bw_mult b kInitialPacingGain, s2_last_quiescence_start = time_Zero,
       su_max_bw_at_round_beginning = bw_Zero, pb_cycle = cycle_new,
       pb_last_cycle_probed_too_high = fst junk, pb_last_cycle_stopped_risky_probe = snd junk,
       pr_exit_time = time_Zero, s2_last_sample_is_app_limited = False, s2_rand = rng\<rparr>;
     Some (su_init now s) }"

subsection \<open>Dispatch to the current mode\<close>

definition InSlowStart :: "bbr2_sender \<Rightarrow> bool" where "InSlowStart s \<longleftrightarrow> s2_mode s = STARTUP"

definition mode_IsProbingForBandwidth :: "bbr2_sender \<Rightarrow> bool" where
  "mode_IsProbingForBandwidth s = (case s2_mode s of STARTUP \<Rightarrow> True
     | PROBE_BW \<Rightarrow> pb_IsProbingForBandwidth s | DRAIN \<Rightarrow> False | PROBE_RTT \<Rightarrow> False)"

definition mode_OnCongestionEvent :: "byte_count \<Rightarrow> quic_time \<Rightarrow> bbr2_event \<Rightarrow> bbr2_sender
    \<Rightarrow> (bbr2_sender \<times> Bbr2Mode) option" where
  "mode_OnCongestionEvent prior_in_flight event_time ev s = (case s2_mode s of
       STARTUP \<Rightarrow> Some (su_OnCongestionEvent ev s)
     | PROBE_BW \<Rightarrow> pb_OnCongestionEvent prior_in_flight event_time ev s
     | DRAIN \<Rightarrow> Some (dr_OnCongestionEvent ev s)
     | PROBE_RTT \<Rightarrow> Some (pr_OnCongestionEvent ev s))"

definition mode_Leave :: "quic_time \<Rightarrow> bbr2_sender \<Rightarrow> bbr2_sender" where
  "mode_Leave now s = (case s2_mode s of STARTUP \<Rightarrow> su_Leave now s | PROBE_BW \<Rightarrow> s | DRAIN \<Rightarrow> s | PROBE_RTT \<Rightarrow> s)"

definition mode_Enter :: "quic_time \<Rightarrow> bbr2_sender \<Rightarrow> bbr2_sender option" where
  "mode_Enter now s = (case s2_mode s of STARTUP \<Rightarrow> Some s | PROBE_BW \<Rightarrow> pb_Enter now s
     | DRAIN \<Rightarrow> Some s | PROBE_RTT \<Rightarrow> Some (pr_Enter s))"

definition mode_OnExitQuiescence :: "quic_time \<Rightarrow> quic_time \<Rightarrow> bbr2_sender \<Rightarrow> bbr2_sender \<times> Bbr2Mode" where
  "mode_OnExitQuiescence now quiescence_start_time s = (case s2_mode s of
       STARTUP \<Rightarrow> (s, STARTUP) | PROBE_BW \<Rightarrow> pb_OnExitQuiescence now quiescence_start_time s
     | DRAIN \<Rightarrow> (s, DRAIN) | PROBE_RTT \<Rightarrow> pr_OnExitQuiescence now s)"

definition GetCwndLimitsByMode :: "bbr2_sender \<Rightarrow> limits" where
  "GetCwndLimitsByMode s = (case s2_mode s of STARTUP \<Rightarrow> su_GetCwndLimits s
     | PROBE_BW \<Rightarrow> pb_GetCwndLimits s | DRAIN \<Rightarrow> dr_GetCwndLimits s | PROBE_RTT \<Rightarrow> pr_GetCwndLimits s)"

definition switch_mode :: "quic_time \<Rightarrow> Bbr2Mode \<Rightarrow> bbr2_sender \<Rightarrow> bbr2_sender option" where
  "switch_mode now next_mode s = mode_Enter now ((mode_Leave now s)\<lparr>s2_mode := next_mode\<rparr>)"

subsection \<open>Pacing rate and congestion window\<close>

definition BandwidthEstimate :: "bbr2_sender \<Rightarrow> bandwidth" where
  "BandwidthEstimate s = model_BandwidthEstimate (s2_model s)"

definition PacingRate :: "bbr2_sender \<Rightarrow> bandwidth" where "PacingRate s = s2_pacing_rate s"

definition CanSend :: "byte_count \<Rightarrow> bbr2_sender \<Rightarrow> bool" where
  "CanSend bytes_in_flight s \<longleftrightarrow> bytes_in_flight < GetCongestionWindow s"

definition GetTargetCongestionWindow :: "cfloat \<Rightarrow> bbr2_sender \<Rightarrow> byte_count" where
  "GetTargetCongestionWindow gain s =
     max (BDP_gain (BandwidthEstimate s) gain (s2_model s)) (lim_min (p_cwnd_limits (s2_params s)))"

definition UpdatePacingRate :: "byte_count \<Rightarrow> bbr2_sender \<Rightarrow> bbr2_sender option" where
  "UpdatePacingRate bytes_acked s =
     (let m = s2_model s; P = s2_params s
      in if bw_IsZero (BandwidthEstimate s) then Some s
         else if total_bytes_acked m = bytes_acked
         then do { b \<leftarrow> FromBytesAndTimeDelta (s2_cwnd s) (MinRtt m); Some (s\<lparr>s2_pacing_rate := b\<rparr>) }
         else let target_rate = bw_mult (BandwidthEstimate s) (m_pacing_gain m)
              in if m_full_bandwidth_reached m then Some (s\<lparr>s2_pacing_rate := target_rate\<rparr>)
                 else if p_decrease_startup_pacing_at_end_of_round P \<and> m_pacing_gain m < p_startup_pacing_gain P
                 then Some (s\<lparr>s2_pacing_rate := target_rate\<rparr>)
                 else if p_bw_lo_mode P \<noteq> DEFAULT \<and> 0 < m_loss_events_in_round m
                 then Some (s\<lparr>s2_pacing_rate := target_rate\<rparr>)
                 else if s2_pacing_rate s < target_rate then Some (s\<lparr>s2_pacing_rate := target_rate\<rparr>)
                 else Some s)"

definition UpdateCongestionWindow :: "byte_count \<Rightarrow> bbr2_sender \<Rightarrow> bbr2_sender" where
  "UpdateCongestionWindow bytes_acked s =
     (let m = s2_model s;
          target_cwnd = GetTargetCongestionWindow (m_cwnd_gain m) s;
          prior_cwnd = s2_cwnd s;
          s = (if m_full_bandwidth_reached m
               then let target_cwnd = target_cwnd + MaxAckHeight m
                    in s\<lparr>s2_cwnd := min (prior_cwnd + bytes_acked) target_cwnd\<rparr>
               else if prior_cwnd < target_cwnd \<or> prior_cwnd < 2 * s2_initial_cwnd s
               then s\<lparr>s2_cwnd := prior_cwnd + bytes_acked\<rparr>
               else s);
          s = s\<lparr>s2_cwnd := ApplyLimits (GetCwndLimitsByMode s) (s2_cwnd s)\<rparr>
      in s\<lparr>s2_cwnd := ApplyLimits (p_cwnd_limits (s2_params s)) (s2_cwnd s)\<rparr>)"

subsection \<open>Packets and congestion events\<close>

definition OnEnterQuiescence :: "quic_time \<Rightarrow> bbr2_sender \<Rightarrow> bbr2_sender" where
  "OnEnterQuiescence now s = s\<lparr>s2_last_quiescence_start := now\<rparr>"

definition OnExitQuiescence :: "quic_time \<Rightarrow> bbr2_sender \<Rightarrow> bbr2_sender option" where
  "OnExitQuiescence now s =
     (if s2_last_quiescence_start s \<noteq> time_Zero then do {
        let (s, next_mode) = mode_OnExitQuiescence now (min now (s2_last_quiescence_start s)) s;
        s \<leftarrow> (if next_mode \<noteq> s2_mode s then switch_mode now next_mode s else Some s);
        Some (s\<lparr>s2_last_quiescence_start := time_Zero\<rparr>) }
      else Some s)"

definition s2_OnPacketSent :: "quic_time \<Rightarrow> byte_count \<Rightarrow> packet_number \<Rightarrow> byte_count \<Rightarrow> bbr2_sender
    \<Rightarrow> bbr2_sender option" where
  "s2_OnPacketSent sent_time bytes_in_flight packet_number bytes s = do {
     let s = (if InSlowStart s
       then upd_stats (\<lambda>c. c\<lparr>cs_slowstart_packets_sent := cs_slowstart_packets_sent c + 1,
              cs_slowstart_bytes_sent := cs_slowstart_bytes_sent c + bytes\<rparr>) s
       else s);
     s \<leftarrow> (if bytes_in_flight = 0 \<and> p_avoid_unnecessary_probe_rtt (s2_params s)
          then OnExitQuiescence sent_time s else Some s);
     m \<leftarrow> model_OnPacketSent sent_time bytes_in_flight packet_number bytes (s2_model s);
     Some (s\<lparr>s2_model := m\<rparr>) }"

text \<open>The loop over mode changes; the first argument is \<open>mode_changes_allowed\<close>.\<close>

fun mode_loop :: "nat \<Rightarrow> byte_count \<Rightarrow> quic_time \<Rightarrow> bbr2_event \<Rightarrow> bbr2_sender \<Rightarrow> bbr2_sender option" where
  "mode_loop allowed prior_in_flight event_time ev s = do {
     (s, next_mode) \<leftarrow> mode_OnCongestionEvent prior_in_flight event_time ev s;
     if next_mode = s2_mode s then Some s
     else do {
       s \<leftarrow> switch_mode event_time next_mode s;
       (case allowed of 0 \<Rightarrow> Some s | Suc n \<Rightarrow> mode_loop n prior_in_flight event_time ev s) } }"

declare mode_loop.simps [simp del]

definition slowstart_stats :: "lost_packet list \<Rightarrow> bbr2_event \<Rightarrow> bbr2_sender \<Rightarrow> bbr2_sender" where
  "slowstart_stats lost_packets ev s =
     (if InSlowStart s
      then let s = (if lost_packets \<noteq> []
             then upd_stats (\<lambda>c. c\<lparr>
                    cs_slowstart_packets_lost := cs_slowstart_packets_lost c + of_nat (length lost_packets),
                    cs_slowstart_bytes_lost := cs_slowstart_bytes_lost c + ev_bytes_lost ev\<rparr>) s
             else s)
           in if ev_end_of_round_trip ev
              then upd_stats (\<lambda>c. c\<lparr>cs_slowstart_num_rtts := cs_slowstart_num_rtts c + 1\<rparr>) s else s
      else s)"

definition s2_OnCongestionEvent :: "packet_number \<Rightarrow> byte_count \<Rightarrow> quic_time \<Rightarrow> acked_packet list
    \<Rightarrow> lost_packet list \<Rightarrow> bbr2_sender \<Rightarrow> bbr2_sender option" where
  "s2_OnCongestionEvent least_unacked prior_in_flight event_time acked_packets lost_packets s = do {
     let ev = (ev_new (s2_cwnd s))\<lparr>ev_prior_bytes_in_flight := prior_in_flight,
                ev_is_probing_for_bandwidth := mode_IsProbingForBandwidth s\<rparr>;
     (m, ev) \<leftarrow> OnCongestionEventStart (s2_params s) event_time acked_packets lost_packets ev (s2_model s);
     let s = slowstart_stats lost_packets ev (s\<lparr>s2_model := m\<rparr>);
     s \<leftarrow> mode_loop kMaxModeChangesPerCongestionEvent prior_in_flight event_time ev s;
     s \<leftarrow> UpdatePacingRate (ev_bytes_acked ev) s;
     let s = UpdateCongestionWindow (ev_bytes_acked ev) s;
     m \<leftarrow> OnCongestionEventFinish least_unacked ev (s2_model s);
     let s = s\<lparr>s2_model := m, s2_last_sample_is_app_limited := ev_last_sample_is_app_limited ev\<rparr>;
     Some (if ev_bytes_in_flight ev = 0 \<and> p_avoid_unnecessary_probe_rtt (s2_params s)
           then OnEnterQuiescence event_time s else s) }"

subsection \<open>Debug state\<close>

record debug_state =
  ds_mode :: Bbr2Mode
  ds_round_trip_count :: round_trip_count
  ds_bandwidth_hi :: bandwidth
  ds_bandwidth_lo :: bandwidth
  ds_bandwidth_est :: bandwidth
  ds_inflight_hi :: byte_count
  ds_inflight_lo :: byte_count
  ds_max_ack_height :: byte_count
  ds_min_rtt :: time_delta
  ds_min_rtt_timestamp :: quic_time
  ds_congestion_window :: byte_count
  ds_pacing_rate :: bandwidth
  ds_last_sample_is_app_limited :: bool
  ds_end_of_app_limited_phase :: packet_number
  ds_startup :: "bool \<times> bandwidth \<times> round_trip_count"
  ds_drain_target :: byte_count
  ds_probe_bw :: "CyclePhase \<times> quic_time \<times> quic_time"
  ds_probe_rtt :: "byte_count \<times> quic_time"

definition su_ExportDebugState :: "bbr2_sender \<Rightarrow> bool \<times> bandwidth \<times> round_trip_count" where
  "su_ExportDebugState s = (m_full_bandwidth_reached (s2_model s), m_full_bandwidth_baseline (s2_model s),
     m_rounds_without_bandwidth_growth (s2_model s))"

definition pb_ExportDebugState :: "bbr2_sender \<Rightarrow> CyclePhase \<times> quic_time \<times> quic_time" where
  "pb_ExportDebugState s = (c_phase (pb_cycle s), c_cycle_start_time (pb_cycle s), c_phase_start_time (pb_cycle s))"

definition pr_ExportDebugState :: "bbr2_sender \<Rightarrow> byte_count \<times> quic_time" where
  "pr_ExportDebugState s = (InflightTarget s, pr_exit_time s)"

definition ExportDebugState :: "bbr2_sender \<Rightarrow> debug_state" where
  "ExportDebugState s = (let m = s2_model s in \<lparr>ds_mode = s2_mode s, ds_round_trip_count = RoundTripCount m,
     ds_bandwidth_hi = MaxBandwidth m, ds_bandwidth_lo = m_bandwidth_lo m,
     ds_bandwidth_est = BandwidthEstimate s, ds_inflight_hi = m_inflight_hi m,
     ds_inflight_lo = m_inflight_lo m, ds_max_ack_height = MaxAckHeight m, ds_min_rtt = MinRtt m,
     ds_min_rtt_timestamp = MinRttTimestamp m, ds_congestion_window = s2_cwnd s,
     ds_pacing_rate = s2_pacing_rate s, ds_last_sample_is_app_limited = s2_last_sample_is_app_limited s,
     ds_end_of_app_limited_phase = bs_end_of_app_limited_phase (m_bandwidth_sampler m),
     ds_startup = su_ExportDebugState s, ds_drain_target = DrainTarget s,
     ds_probe_bw = pb_ExportDebugState s, ds_probe_rtt = pr_ExportDebugState s\<rparr>)"

subsection \<open>The state machine of modes\<close>

inductive mode_edge :: "Bbr2Mode \<Rightarrow> Bbr2Mode \<Rightarrow> bool" where
  startup_drain: "mode_edge STARTUP DRAIN"
| drain_probe_bw: "mode_edge DRAIN PROBE_BW"
| probe_bw_rtt: "mode_edge PROBE_BW PROBE_RTT"
| probe_rtt_bw: "mode_edge PROBE_RTT PROBE_BW"

inductive_simps mode_edge_simps: "mode_edge p q"
inductive_cases mode_edge_StartupE: "mode_edge p STARTUP"
inductive_cases mode_edge_DrainE: "mode_edge p DRAIN"

text \<open>Which phases of the PROBE_BW cycle go with a mode.\<close>

fun mode_ok :: "Bbr2Mode \<Rightarrow> CyclePhase \<Rightarrow> bool" where
  "mode_ok STARTUP p \<longleftrightarrow> p = PROBE_NOT_STARTED"
| "mode_ok DRAIN p \<longleftrightarrow> p = PROBE_NOT_STARTED"
| "mode_ok PROBE_BW p \<longleftrightarrow> p \<noteq> PROBE_NOT_STARTED"
| "mode_ok PROBE_RTT p \<longleftrightarrow> p = PROBE_CRUISE \<or> p = PROBE_REFILL"

definition s2_inv :: "bbr2_sender \<Rightarrow> bool" where
  "s2_inv s \<longleftrightarrow> params_ok (s2_params s) \<and> model_inv (s2_model s) \<and> cycle_ok (pb_cycle s)
     \<and> mode_ok (s2_mode s) (phase s)"

text \<open>The number of mode changes that one congestion event can still cause.\<close>

fun mode_rank :: "Bbr2Mode \<Rightarrow> CyclePhase \<Rightarrow> quic_time \<Rightarrow> nat" where
  "mode_rank STARTUP p t = 3"
| "mode_rank DRAIN p t = 2"
| "mode_rank PROBE_BW p t = (if p = PROBE_DOWN then 1 else 0)"
| "mode_rank PROBE_RTT p t = (if t \<noteq> 0 then 1 else 0)"

definition rank :: "bbr2_sender \<Rightarrow> nat" where "rank s = mode_rank (s2_mode s) (phase s) (pr_exit_time s)"

lemma rank_le: "rank s \<le> 3"
  by (cases "s2_mode s") (simp_all add: rank_def)

text \<open>What a congestion event keeps while the mode may change.\<close>

definition stays :: "bbr2_sender \<Rightarrow> bbr2_sender \<Rightarrow> bool" where
  "stays s s' \<longleftrightarrow> keeps s (s'\<lparr>s2_mode := s2_mode s\<rparr>)"

lemma keeps_stays: "keeps s s' \<Longrightarrow> stays s s'"
  by (simp add: stays_def keeps_def s2_frame_def)

lemma stays_trans [trans]: "stays s s' \<Longrightarrow> stays s' s'' \<Longrightarrow> stays s s''"
  by (simp add: stays_def keeps_def s2_frame_def)

lemma stays_mode: "stays s (s'\<lparr>s2_mode := q\<rparr>) = stays s s'" "stays (s\<lparr>s2_mode := q\<rparr>) s' = stays s s'"
  by (simp_all add: stays_def keeps_def s2_frame_def)

lemma staysD:
  assumes "stays s s'"
  shows "s2_params s' = s2_params s" "s2_cwnd s' = s2_cwnd s" "s2_initial_cwnd s' = s2_initial_cwnd s"
    "RoundTripCount (s2_model s') = RoundTripCount (s2_model s)"
    "m_bandwidth_sampler (s2_model s') = m_bandwidth_sampler (s2_model s)"
    "m_full_bandwidth_reached (s2_model s) \<Longrightarrow> m_full_bandwidth_reached (s2_model s')"
    "model_inv (s2_model s) \<Longrightarrow> model_inv (s2_model s')" "cycle_ok (pb_cycle s) \<Longrightarrow> cycle_ok (pb_cycle s')"
  using assms by (simp_all add: stays_def keeps_def s2_frame_def)

lemma s2_inv_stays: "s2_inv s \<Longrightarrow> stays s s' \<Longrightarrow> mode_ok (s2_mode s') (phase s') \<Longrightarrow> s2_inv s'"
  using staysD [of s s'] by (simp add: s2_inv_def)

lemma mode_event_spec:
  assumes inv: "s2_inv s" and ev: "ev_sample_min_rtt ev \<noteq> 0"
  obtains s' nm where "mode_OnCongestionEvent prior t ev s = Some (s', nm)" "keeps s s'"
    "nm = s2_mode s \<and> mode_ok nm (phase s')
      \<or> s2_mode s = STARTUP \<and> nm = DRAIN \<and> phase s' = PROBE_NOT_STARTED \<and> m_full_bandwidth_reached (s2_model s')
      \<or> s2_mode s = DRAIN \<and> nm = PROBE_BW \<and> phase s' = PROBE_NOT_STARTED
      \<or> s2_mode s = PROBE_BW \<and> nm = PROBE_RTT \<and> phase s = PROBE_DOWN \<and> phase s' \<in> {PROBE_CRUISE, PROBE_REFILL}
      \<or> s2_mode s = PROBE_RTT \<and> nm = PROBE_BW \<and> phase s' \<in> {PROBE_CRUISE, PROBE_REFILL} \<and> pr_exit_time s \<noteq> 0"
    "s2_mode s = PROBE_BW \<or> phase s' = phase s"
proof (cases "s2_mode s")
  case STARTUP
  obtain s' nm where e: "su_OnCongestionEvent ev s = (s', nm)" by fastforce
  note k = su_OnCongestionEvent_spec [OF e]
  have "phase s' = PROBE_NOT_STARTED" using inv STARTUP k(2) by (simp add: s2_inv_def)
  then show thesis using STARTUP e k by (intro that [of s' nm]) (simp_all add: mode_OnCongestionEvent_def s2_inv_def)
next
  case DRAIN
  obtain s' nm where e: "dr_OnCongestionEvent ev s = (s', nm)" by fastforce
  note k = dr_OnCongestionEvent_spec [OF e]
  have "phase s' = PROBE_NOT_STARTED" using inv DRAIN k(2) by (simp add: s2_inv_def)
  then show thesis using DRAIN e k by (intro that [of s' nm]) (auto simp: mode_OnCongestionEvent_def s2_inv_def)
next
  case PROBE_BW
  have i: "params_ok (s2_params s)" "cycle_ok (pb_cycle s)" "phase s \<noteq> PROBE_NOT_STARTED"
    using inv PROBE_BW by (simp_all add: s2_inv_def)
  from pb_OnCongestionEvent_spec [OF i(1,2) ev, of prior t] obtain s' nm where
    p: "pb_OnCongestionEvent prior t ev s = Some (s', nm)" "keeps s s'"
    "phase s' = phase s \<or> cycle_step (phase s) (phase s')"
    "nm = PROBE_BW \<or> nm = PROBE_RTT \<and> phase s = PROBE_DOWN \<and> phase s' \<in> {PROBE_CRUISE, PROBE_REFILL}" .
  have "phase s' \<noteq> PROBE_NOT_STARTED" using p(3) i(3) by (auto simp: cycle_step_simps)
  with PROBE_BW p show thesis by (intro that [of s' nm]) (auto simp: mode_OnCongestionEvent_def)
next
  case PROBE_RTT
  obtain s' nm where e: "pr_OnCongestionEvent ev s = (s', nm)" by fastforce
  note k = pr_OnCongestionEvent_spec [OF e]
  have "phase s' \<in> {PROBE_CRUISE, PROBE_REFILL}" using inv PROBE_RTT k(2) by (simp add: s2_inv_def)
  then show thesis using PROBE_RTT e k by (intro that [of s' nm]) (auto simp: mode_OnCongestionEvent_def)
qed

lemma switch_mode_spec:
  assumes P: "params_ok (s2_params s)" and c: "cycle_ok (pb_cycle s)" and q: "nm \<noteq> STARTUP"
  obtains s' where "switch_mode now nm s = Some s'" "stays s s'" "s2_mode s' = nm"
    "phase s' = (if nm = PROBE_BW \<and> phase s = PROBE_NOT_STARTED then PROBE_DOWN else phase s)"
    "nm = PROBE_RTT \<longrightarrow> pr_exit_time s' = 0"
proof -
  define s1 where "s1 = (mode_Leave now s)\<lparr>s2_mode := nm\<rparr>"
  have k0: "keeps s (mode_Leave now s)" "pb_cycle (mode_Leave now s) = pb_cycle s"
    by (cases "s2_mode s"; simp add: mode_Leave_def su_Leave_keeps)+
  have k1: "stays s s1" "pb_cycle s1 = pb_cycle s" "s2_mode s1 = nm"
    using k0 keeps_stays by (auto simp: s1_def stays_mode)
  have i: "params_ok (s2_params s1)" "cycle_ok (pb_cycle s1)"
    using P c staysD(1) [OF k1(1)] k1(2) by simp_all
  have sw: "switch_mode now nm s = mode_Enter now s1" by (simp add: switch_mode_def s1_def)
  show thesis
  proof (cases nm)
    case STARTUP then show thesis using q by simp
  next
    case DRAIN
    then show thesis using k1 sw by (intro that [of s1]) (simp_all add: mode_Enter_def)
  next
    case PROBE_BW
    from pb_Enter_spec [OF i, of now] obtain s2 where s2: "pb_Enter now s1 = Some s2" "keeps s1 s2"
      "phase s2 = (if phase s1 = PROBE_NOT_STARTED then PROBE_DOWN else phase s1)" .
    show thesis
      using PROBE_BW sw s2 k1 keepsD(1) [OF s2(2)] stays_trans [OF k1(1) keeps_stays [OF s2(2)]]
      by (intro that [of s2]) (auto simp: mode_Enter_def)
  next
    case PROBE_RTT
    then show thesis
      using k1 sw pr_Enter_spec [of s1] keepsD(1) [OF pr_Enter_spec(1) [of s1]] stays_trans [OF k1(1) keeps_stays [OF pr_Enter_spec(1)]]
      by (intro that [of "pr_Enter s1"]) (auto simp: mode_Enter_def)
  qed
qed

text \<open>One round of the loop: the mode is stable, or it changes along an edge and the rank falls.\<close>

lemma mode_round:
  assumes inv: "s2_inv s" and ev: "ev_sample_min_rtt ev \<noteq> 0"
  obtains (stable) s' where "mode_OnCongestionEvent prior t ev s = Some (s', s2_mode s')" "s2_mode s' = s2_mode s"
      "stays s s'" "s2_inv s'"
  | (change) s1 nm s' where "mode_OnCongestionEvent prior t ev s = Some (s1, nm)" "nm \<noteq> s2_mode s1"
      "switch_mode t nm s1 = Some s'" "stays s s'" "s2_inv s'" "mode_edge (s2_mode s) (s2_mode s')"
      "rank s' < rank s" "s2_mode s' \<noteq> STARTUP" "s2_mode s = STARTUP \<longrightarrow> m_full_bandwidth_reached (s2_model s')"
proof -
  from mode_event_spec [OF inv ev, of prior t] obtain s1 nm where
    e: "mode_OnCongestionEvent prior t ev s = Some (s1, nm)" "keeps s s1" and
    cases: "nm = s2_mode s \<and> mode_ok nm (phase s1)
      \<or> s2_mode s = STARTUP \<and> nm = DRAIN \<and> phase s1 = PROBE_NOT_STARTED \<and> m_full_bandwidth_reached (s2_model s1)
      \<or> s2_mode s = DRAIN \<and> nm = PROBE_BW \<and> phase s1 = PROBE_NOT_STARTED
      \<or> s2_mode s = PROBE_BW \<and> nm = PROBE_RTT \<and> phase s = PROBE_DOWN \<and> phase s1 \<in> {PROBE_CRUISE, PROBE_REFILL}
      \<or> s2_mode s = PROBE_RTT \<and> nm = PROBE_BW \<and> phase s1 \<in> {PROBE_CRUISE, PROBE_REFILL} \<and> pr_exit_time s \<noteq> 0" .
  have m1: "s2_mode s1 = s2_mode s" by (rule keepsD(1) [OF e(2)])
  have st1: "stays s s1" by (rule keeps_stays [OF e(2)])
  show thesis
  proof (cases "nm = s2_mode s")
    case True
    with cases have "mode_ok (s2_mode s1) (phase s1)" using m1 by auto
    from s2_inv_stays [OF inv st1 this] show thesis
      using e(1) True m1 st1 by (intro stable [of s1]) simp_all
  next
    case False
    with cases have nst: "nm \<noteq> STARTUP" by auto
    have i: "params_ok (s2_params s1)" "cycle_ok (pb_cycle s1)"
      using inv staysD(1,8) [OF st1] by (simp_all add: s2_inv_def)
    from switch_mode_spec [OF i nst, of t] obtain s' where s':
      "switch_mode t nm s1 = Some s'" "stays s1 s'" "s2_mode s' = nm"
      "phase s' = (if nm = PROBE_BW \<and> phase s1 = PROBE_NOT_STARTED then PROBE_DOWN else phase s1)"
      "nm = PROBE_RTT \<longrightarrow> pr_exit_time s' = 0" .
    note st = stays_trans [OF st1 s'(2)]
    have "mode_ok (s2_mode s') (phase s')" using False cases s'(3,4) by auto
    note inv' = s2_inv_stays [OF inv st this]
    have r: "rank s' < rank s" using False cases s'(3,4,5) by (auto simp: rank_def)
    have "mode_edge (s2_mode s) (s2_mode s')" using False cases s'(3) by (auto simp: mode_edge_simps)
    moreover have "s2_mode s = STARTUP \<longrightarrow> m_full_bandwidth_reached (s2_model s')"
      using False cases staysD(6) [OF s'(2)] by auto
    ultimately show thesis
      using e(1) False m1 s'(1,3) st inv' r nst by (intro change [of s1 nm s']) simp_all
  qed
qed

lemma mode_loop_spec:
  assumes "s2_inv s" "ev_sample_min_rtt ev \<noteq> 0"
  shows "\<exists>s1 s'. (\<forall>n \<ge> rank s. mode_loop n prior t ev s = Some s')
    \<and> mode_OnCongestionEvent prior t ev s1 = Some (s', s2_mode s')
    \<and> stays s s' \<and> s2_inv s' \<and> mode_edge\<^sup>*\<^sup>* (s2_mode s) (s2_mode s')
    \<and> (s2_mode s' = STARTUP \<longrightarrow> s2_mode s = STARTUP)
    \<and> (s2_mode s = STARTUP \<longrightarrow> s2_mode s' \<noteq> STARTUP \<longrightarrow> m_full_bandwidth_reached (s2_model s'))"
  using assms
proof (induction "rank s" arbitrary: s rule: less_induct)
  case less
  from less.prems show ?case
  proof (rule mode_round [where prior = prior and t = t])
    fix s' assume s': "mode_OnCongestionEvent prior t ev s = Some (s', s2_mode s')" "s2_mode s' = s2_mode s"
      "stays s s'" "s2_inv s'"
    then have "mode_loop n prior t ev s = Some s'" for n by (simp add: mode_loop.simps)
    with s' show ?case by (intro exI [of _ s] exI [of _ s']) simp
  next
    fix s1 nm s2
    assume c: "mode_OnCongestionEvent prior t ev s = Some (s1, nm)" "nm \<noteq> s2_mode s1"
      "switch_mode t nm s1 = Some s2" "stays s s2" "s2_inv s2" "mode_edge (s2_mode s) (s2_mode s2)"
      "rank s2 < rank s" "s2_mode s2 \<noteq> STARTUP" "s2_mode s = STARTUP \<longrightarrow> m_full_bandwidth_reached (s2_model s2)"
    from less.hyps [OF c(7) c(5) less.prems(2)] obtain s3 s' where
      r: "\<forall>n \<ge> rank s2. mode_loop n prior t ev s2 = Some s'"
      "mode_OnCongestionEvent prior t ev s3 = Some (s', s2_mode s')" "stays s2 s'" "s2_inv s'"
      "mode_edge\<^sup>*\<^sup>* (s2_mode s2) (s2_mode s')" "s2_mode s' = STARTUP \<longrightarrow> s2_mode s2 = STARTUP" by blast
    have "mode_loop n prior t ev s = Some s'" if "rank s \<le> n" for n
    proof (cases n)
      case 0 with that c(7) show ?thesis by simp
    next
      case (Suc k)
      with that c(7) have "rank s2 \<le> k" by simp
      with r(1) Suc c(1-3) show ?thesis by (simp add: mode_loop.simps [of "Suc k"])
    qed
    moreover have "m_full_bandwidth_reached (s2_model s')" if "s2_mode s = STARTUP"
      using that c(9) staysD(6) [OF r(3)] by simp
    moreover have "mode_edge\<^sup>*\<^sup>* (s2_mode s) (s2_mode s')"
      using c(6) r(5) by (rule converse_rtranclp_into_rtranclp)
    ultimately show ?case
      using r(2,4,6) c(8) stays_trans [OF c(4) r(3)] by (intro exI [of _ s3] exI [of _ s']) simp
  qed
qed

subsection \<open>The pacing rate and the window\<close>

lemma UpdatePacingRate_spec:
  assumes "model_inv (s2_model s)"
  obtains b where "UpdatePacingRate n s = Some (s\<lparr>s2_pacing_rate := b\<rparr>)"
proof -
  have "MinRtt (s2_model s) \<noteq> 0" using assms by (simp add: model_inv_def)
  from FromBytesAndTimeDelta_total [OF this, of "s2_cwnd s"] obtain b where
    b: "FromBytesAndTimeDelta (s2_cwnd s) (MinRtt (s2_model s)) = Some b" by blast
  define R where "R = range (\<lambda>b. Some (s\<lparr>s2_pacing_rate := b\<rparr>))"
  have "Some (s\<lparr>s2_pacing_rate := s2_pacing_rate s\<rparr>) \<in> R" unfolding R_def by (rule rangeI)
  then have R: "Some s \<in> R" "\<And>b. Some (s\<lparr>s2_pacing_rate := b\<rparr>) \<in> R" by (simp_all add: R_def)
  have "UpdatePacingRate n s \<in> R"
    using b by (simp add: UpdatePacingRate_def Let_def R)
  then have "\<exists>b. UpdatePacingRate n s = Some (s\<lparr>s2_pacing_rate := b\<rparr>)" by (auto simp: R_def)
  with that show thesis by blast
qed

lemma UpdateCongestionWindow_form: "\<exists>c. UpdateCongestionWindow n s = s\<lparr>s2_cwnd := c\<rparr>"
proof -
  have s: "s = s\<lparr>s2_cwnd := s2_cwnd s\<rparr>" by simp
  show ?thesis unfolding UpdateCongestionWindow_def Let_def
    by (cases "m_full_bandwidth_reached (s2_model s)") (simp_all, blast+)
qed

lemma UpdateCongestionWindow_frame [simp]:
  "s2_model (UpdateCongestionWindow n s) = s2_model s" "s2_params (UpdateCongestionWindow n s) = s2_params s"
  "s2_mode (UpdateCongestionWindow n s) = s2_mode s" "pb_cycle (UpdateCongestionWindow n s) = pb_cycle s"
  "s2_initial_cwnd (UpdateCongestionWindow n s) = s2_initial_cwnd s"
  using UpdateCongestionWindow_form [of n s] by auto

lemma GetCwndLimitsByMode_cwnd [simp]:
  "GetCwndLimitsByMode (s\<lparr>s2_cwnd := c\<rparr>) = GetCwndLimitsByMode s"
  by (cases "s2_mode s") (simp_all add: GetCwndLimitsByMode_def su_GetCwndLimits_def pb_GetCwndLimits_def
      dr_GetCwndLimits_def pr_GetCwndLimits_def InflightTarget_def Let_def)

lemma UpdateCongestionWindow_cwnd:
  obtains w where "s2_cwnd (UpdateCongestionWindow n s)
    = ApplyLimits (p_cwnd_limits (s2_params s)) (ApplyLimits (GetCwndLimitsByMode s) w)"
proof -
  have "\<exists>w. s2_cwnd (UpdateCongestionWindow n s)
    = ApplyLimits (p_cwnd_limits (s2_params s)) (ApplyLimits (GetCwndLimitsByMode s) w)"
    by (simp add: UpdateCongestionWindow_def Let_def) blast
  with that show thesis by blast
qed

lemma ApplyLimits_twice: "ApplyLimits l (ApplyLimits l' x) \<le> max (lim_min l) (lim_max l')"
  by (auto simp: ApplyLimits_def min_def max_def)

subsection \<open>Congestion events and packets\<close>

definition cwnd_ok :: "bbr2_sender \<Rightarrow> bool" where
  "cwnd_ok s \<longleftrightarrow> lim_min (p_cwnd_limits (s2_params s)) \<le> s2_cwnd s
     \<and> s2_cwnd s \<le> lim_max (p_cwnd_limits (s2_params s))"

lemma slowstart_stats_keeps: "keeps s (slowstart_stats lost ev s)" "pb_cycle (slowstart_stats lost ev s) = pb_cycle s"
  "pr_exit_time (slowstart_stats lost ev s) = pr_exit_time s"
  by (simp_all add: slowstart_stats_def Let_def keeps_def s2_frame_def upd_stats_def)

lemma ev_new_rtt [simp]: "ev_sample_min_rtt (ev_new c) \<noteq> 0"
  by (simp add: ev_new_def delta_Infinite_def kQuicInfiniteTimeUs_def int64_max_def)

text \<open>
  A congestion event in a sender that satisfies the invariant: it is handled, the invariant
  holds again, the mode moves along edges of the state machine, and the window is within the
  configured limits.
\<close>

lemma s2_OnCongestionEvent_spec:
  assumes inv: "s2_inv s" and t: "in_i64 t"
  obtains s' ev where "s2_OnCongestionEvent least prior t acked lost s = Some s'" "s2_inv s'"
    "mode_edge\<^sup>*\<^sup>* (s2_mode s) (s2_mode s')" "s2_mode s' = STARTUP \<longrightarrow> s2_mode s = STARTUP"
    "m_full_bandwidth_reached (s2_model s) \<longrightarrow> m_full_bandwidth_reached (s2_model s')"
    "s2_mode s = STARTUP \<longrightarrow> s2_mode s' \<noteq> STARTUP \<longrightarrow> m_full_bandwidth_reached (s2_model s')"
    "s2_params s' = s2_params s" "s2_initial_cwnd s' = s2_initial_cwnd s"
    "RoundTripCount (s2_model s') = RoundTripCount (s2_model s) + (if round_ended acked (s2_model s) then 1 else 0)"
    "\<exists>w. s2_cwnd s' = ApplyLimits (p_cwnd_limits (s2_params s)) w"
proof -
  define ev0 where "ev0 = (ev_new (s2_cwnd s))\<lparr>ev_prior_bytes_in_flight := prior,
    ev_is_probing_for_bandwidth := mode_IsProbingForBandwidth s\<rparr>"
  have ev0: "ev_sample_min_rtt ev0 \<noteq> 0" by (simp add: ev0_def)
  have m: "model_inv (s2_model s)" and P: "p_bw_lo_mode (s2_params s) = DEFAULT"
    using inv by (simp_all add: s2_inv_def params_ok_def)
  from OnCongestionEventStart_spec [OF m t P ev0, of acked lost] obtain m1 ev where
    s1: "OnCongestionEventStart (s2_params s) t acked lost ev0 (s2_model s) = Some (m1, ev)"
    "model_inv m1" "model_frame m1 = model_frame (s2_model s)" "ev_sample_min_rtt ev \<noteq> 0"
    "RoundTripCount m1 = RoundTripCount (s2_model s) + (if round_ended acked (s2_model s) then 1 else 0)" .
  define u where "u = slowstart_stats lost ev (s\<lparr>s2_model := m1\<rparr>)"
  note ku = slowstart_stats_keeps(1) [where s = "s\<lparr>s2_model := m1\<rparr>" and lost = lost and ev = ev, folded u_def]
  note fu = s2_frameD [OF ku [unfolded keeps_def, THEN conjunct1], simplified]
  have "model_inv (s2_model u)" using s1(2) keepsD(8) [OF ku] by simp
  then have "s2_inv u"
    using inv keepsD(1,2) [OF ku] slowstart_stats_keeps(2) [where s = "s\<lparr>s2_model := m1\<rparr>" and lost = lost and ev = ev]
    by (simp add: s2_inv_def u_def)
  from mode_loop_spec [OF this s1(4), of prior t] obtain v where
    v: "\<forall>n \<ge> rank u. mode_loop n prior t ev u = Some v" "stays u v" "s2_inv v"
    "mode_edge\<^sup>*\<^sup>* (s2_mode u) (s2_mode v)" "s2_mode v = STARTUP \<longrightarrow> s2_mode u = STARTUP"
    "s2_mode u = STARTUP \<longrightarrow> s2_mode v \<noteq> STARTUP \<longrightarrow> m_full_bandwidth_reached (s2_model v)" by blast
  have loop: "mode_loop kMaxModeChangesPerCongestionEvent prior t ev u = Some v"
    using v(1) rank_le [of u] by (simp add: kMaxModeChangesPerCongestionEvent_def)
  have mv: "model_inv (s2_model v)" using v(3) by (simp add: s2_inv_def)
  from UpdatePacingRate_spec [OF mv, of "ev_bytes_acked ev"] obtain b where
    pr: "UpdatePacingRate (ev_bytes_acked ev) v = Some (v\<lparr>s2_pacing_rate := b\<rparr>)" .
  define w where "w = UpdateCongestionWindow (ev_bytes_acked ev) (v\<lparr>s2_pacing_rate := b\<rparr>)"
  have mw: "s2_model w = s2_model v" "s2_params w = s2_params v" by (simp_all add: w_def)
  from OnCongestionEventFinish_spec [OF mv, of least ev] obtain m2 where
    m2: "OnCongestionEventFinish least ev (s2_model v) = Some m2" "model_inv m2"
    "model_frame m2 = model_frame (s2_model v)" "RoundTripCount m2 = RoundTripCount (s2_model v)" .
  define x where "x = w\<lparr>s2_model := m2, s2_last_sample_is_app_limited := ev_last_sample_is_app_limited ev\<rparr>"
  define y where "y = (if ev_bytes_in_flight ev = 0 \<and> p_avoid_unnecessary_probe_rtt (s2_params x)
    then OnEnterQuiescence t x else x)"
  have run: "s2_OnCongestionEvent least prior t acked lost s = Some y"
    using s1(1) loop pr m2(1) mw
    by (simp add: s2_OnCongestionEvent_def Let_def u_def [symmetric] w_def [symmetric] x_def y_def ev0_def)
  have y: "s2_model y = m2" "s2_params y = s2_params v" "pb_cycle y = pb_cycle v" "s2_mode y = s2_mode v"
    "s2_initial_cwnd y = s2_initial_cwnd v" "s2_cwnd y = s2_cwnd w"
    by (simp_all add: y_def x_def w_def OnEnterQuiescence_def)
  have inv': "s2_inv y" using v(3) m2(2) y(1-4) by (simp add: s2_inv_def)
  have fb: "m_full_bandwidth_reached m2 = m_full_bandwidth_reached (s2_model v)"
    using m2(3) by (simp add: model_frame_def)
  have fb1: "m_full_bandwidth_reached m1 = m_full_bandwidth_reached (s2_model s)"
    using s1(3) by (simp add: model_frame_def)
  from UpdateCongestionWindow_cwnd [where n = "ev_bytes_acked ev" and s = "v\<lparr>s2_pacing_rate := b\<rparr>"] obtain z where
    z: "s2_cwnd w = ApplyLimits (p_cwnd_limits (s2_params v)) z" by (auto simp: w_def)
  have mu: "s2_mode u = s2_mode s" "s2_params u = s2_params s" "s2_initial_cwnd u = s2_initial_cwnd s"
    using keepsD(1,2,4) [OF ku] by simp_all
  note sv = staysD [OF v(2)]
  show thesis
  proof (rule that [OF run inv'])
    show "mode_edge\<^sup>*\<^sup>* (s2_mode s) (s2_mode y)" "s2_mode y = STARTUP \<longrightarrow> s2_mode s = STARTUP"
      using v(4,5) y(4) mu(1) by simp_all
    show "m_full_bandwidth_reached (s2_model s) \<longrightarrow> m_full_bandwidth_reached (s2_model y)"
      using fb fb1 y(1) keepsD(7) [OF ku] sv(6) by simp
    show "s2_mode s = STARTUP \<longrightarrow> s2_mode y \<noteq> STARTUP \<longrightarrow> m_full_bandwidth_reached (s2_model y)"
      using v(6) fb y(1,4) mu(1) by simp
    show "s2_params y = s2_params s" "s2_initial_cwnd y = s2_initial_cwnd s" using y sv mu by simp_all
    show "RoundTripCount (s2_model y) = RoundTripCount (s2_model s) + (if round_ended acked (s2_model s) then 1 else 0)"
      using y(1) m2(4) sv(4) s1(5) keepsD(6) [OF ku] by simp
    show "\<exists>w. s2_cwnd y = ApplyLimits (p_cwnd_limits (s2_params s)) w"
      using y(6) z sv(1) mu(2) by auto
  qed
qed

text \<open>Both ways out of a quiescent period, and a packet sent.\<close>

definition same_window :: "bbr2_sender \<Rightarrow> bbr2_sender \<Rightarrow> bool" where
  "same_window s s' \<longleftrightarrow> s2_params s' = s2_params s \<and> s2_cwnd s' = s2_cwnd s
     \<and> s2_initial_cwnd s' = s2_initial_cwnd s \<and> RoundTripCount (s2_model s') = RoundTripCount (s2_model s)
     \<and> (m_full_bandwidth_reached (s2_model s) \<longrightarrow> m_full_bandwidth_reached (s2_model s'))"

lemma stays_same_window: "stays s s' \<Longrightarrow> same_window s s'"
  using staysD [of s s'] by (simp add: same_window_def)

lemma OnExitQuiescence_spec:
  assumes inv: "s2_inv s"
  obtains s' where "OnExitQuiescence now s = Some s'" "s2_inv s'" "same_window s s'"
    "s2_mode s' = s2_mode s \<or> s2_mode s = PROBE_RTT \<and> s2_mode s' = PROBE_BW"
proof (cases "s2_last_quiescence_start s = time_Zero")
  case True
  then show thesis using inv by (intro that [of s]) (simp_all add: OnExitQuiescence_def same_window_def)
next
  case False
  obtain s1 nm where e: "mode_OnExitQuiescence now (min now (s2_last_quiescence_start s)) s = (s1, nm)" by fastforce
  have k: "keeps s s1" "phase s1 = phase s" "nm = s2_mode s \<or> s2_mode s = PROBE_RTT \<and> nm = PROBE_BW"
    using e by (cases "s2_mode s"; auto simp: mode_OnExitQuiescence_def pb_OnExitQuiescence_def
        pr_OnExitQuiescence_def split: if_splits)+
  note m1 = keepsD(1) [OF k(1)] and st1 = keeps_stays [OF k(1)]
  have i: "params_ok (s2_params s1)" "cycle_ok (pb_cycle s1)" "mode_ok (s2_mode s) (phase s1)"
    using inv staysD(1,8) [OF st1] k(2) by (simp_all add: s2_inv_def)
  have "\<exists>s2. (if nm \<noteq> s2_mode s1 then switch_mode now nm s1 else Some s1) = Some s2 \<and> s2_inv s2 \<and> stays s s2
      \<and> s2_mode s2 = nm"
  proof (cases "nm = s2_mode s")
    case True
    with s2_inv_stays [OF inv st1] m1 i(3) st1 show ?thesis by simp
  next
    case False
    with k(3) have nm: "s2_mode s = PROBE_RTT" "nm = PROBE_BW" by auto
    then have "nm \<noteq> STARTUP" by simp
    from switch_mode_spec [OF i(1,2) this, of now] obtain s2 where s2: "switch_mode now nm s1 = Some s2"
      "stays s1 s2" "s2_mode s2 = nm"
      "phase s2 = (if nm = PROBE_BW \<and> phase s1 = PROBE_NOT_STARTED then PROBE_DOWN else phase s1)" .
    note st2 = stays_trans [OF st1 s2(2)]
    have "mode_ok (s2_mode s2) (phase s2)" using i(3) nm s2(3,4) by auto
    from s2_inv_stays [OF inv st2 this] show ?thesis using False m1 s2(1,3) st2 by simp
  qed
  then obtain s2 where s2: "(if nm \<noteq> s2_mode s1 then switch_mode now nm s1 else Some s1) = Some s2"
    "s2_inv s2" "stays s s2" "s2_mode s2 = nm" by blast
  let ?s' = "s2\<lparr>s2_last_quiescence_start := time_Zero\<rparr>"
  have run: "OnExitQuiescence now s = Some ?s'"
    using False e s2(1) by (simp add: OnExitQuiescence_def Let_def bind_Some_iff)
  show thesis
    by (rule that [OF run]) (use s2(2,4) stays_same_window [OF s2(3)] k(3) in \<open>auto simp: s2_inv_def same_window_def\<close>)
qed

lemma s2_OnPacketSent_spec:
  assumes inv: "s2_inv s" and t: "in_i64 t" and pn: "IsInitialized pn"
  obtains s' where "s2_OnPacketSent t bif pn n s = Some s'" "s2_inv s'" "same_window s s'"
    "s2_mode s' = s2_mode s \<or> s2_mode s = PROBE_RTT \<and> s2_mode s' = PROBE_BW"
    "rtc_last_sent_packet (m_round_trip_counter (s2_model s')) = pn"
proof -
  define u where "u = (if InSlowStart s
       then upd_stats (\<lambda>c. c\<lparr>cs_slowstart_packets_sent := cs_slowstart_packets_sent c + 1,
              cs_slowstart_bytes_sent := cs_slowstart_bytes_sent c + n\<rparr>) s
       else s)"
  have ku: "keeps s u" "phase u = phase s" by (simp_all add: u_def)
  have iu: "s2_inv u" using inv ku keepsD(1,2) [OF ku(1)] keepsD(8,9) [OF ku(1)] by (simp add: s2_inv_def)
  have "\<exists>v. (if bif = 0 \<and> p_avoid_unnecessary_probe_rtt (s2_params u) then OnExitQuiescence t u else Some u) = Some v
    \<and> s2_inv v \<and> same_window u v \<and> (s2_mode v = s2_mode u \<or> s2_mode u = PROBE_RTT \<and> s2_mode v = PROBE_BW)"
  proof (cases "bif = 0 \<and> p_avoid_unnecessary_probe_rtt (s2_params u)")
    case True
    from OnExitQuiescence_spec [OF iu, of t] obtain v where "OnExitQuiescence t u = Some v" "s2_inv v" "same_window u v"
      "s2_mode v = s2_mode u \<or> s2_mode u = PROBE_RTT \<and> s2_mode v = PROBE_BW" .
    with True show ?thesis by simp
  next
    case False
    then show ?thesis using iu by (intro exI [of _ u]) (auto simp: same_window_def)
  qed
  then obtain v where v: "(if bif = 0 \<and> p_avoid_unnecessary_probe_rtt (s2_params u) then OnExitQuiescence t u else Some u) = Some v"
    "s2_inv v" "same_window u v" "s2_mode v = s2_mode u \<or> s2_mode u = PROBE_RTT \<and> s2_mode v = PROBE_BW" by blast
  have "model_inv (s2_model v)" using v(2) by (simp add: s2_inv_def)
  from model_OnPacketSent_inv [OF this t pn, of bif n] obtain m where
    m: "model_OnPacketSent t bif pn n (s2_model v) = Some m" "model_inv m"
      "rtc_last_sent_packet (m_round_trip_counter m) = pn" "RoundTripCount m = RoundTripCount (s2_model v)"
      "m_full_bandwidth_reached m = m_full_bandwidth_reached (s2_model v)" by blast
  have run: "s2_OnPacketSent t bif pn n s = Some (v\<lparr>s2_model := m\<rparr>)"
    unfolding s2_OnPacketSent_def Let_def u_def [symmetric] by (simp add: v(1) m(1))
  show thesis
  proof (rule that [OF run])
    show "s2_inv (v\<lparr>s2_model := m\<rparr>)" using v(2) m(2) by (simp add: s2_inv_def)
    show "same_window s (v\<lparr>s2_model := m\<rparr>)"
      using v(3) m(4,5) stays_same_window [OF keeps_stays [OF ku(1)]] by (simp add: same_window_def)
  qed (use v(4) m(3) keepsD(1) [OF ku(1)] in simp_all)
qed

subsection \<open>The constructor\<close>

lemma SmoothedOrInitialRtt_pos: "rtt_inv r \<Longrightarrow> 0 < SmoothedOrInitialRtt r"
  by (auto simp: rtt_inv_def SmoothedOrInitialRtt_def delta_IsZero_def delta_Zero_def split: if_splits)

lemma Bbr2Sender_spec:
  assumes r: "rtt_inv r" and mx: "4 \<le> mx" "uint mx * 1460 < 2 ^ 64"
  obtains s where "Bbr2Sender now r cw mx stats rng junk = Some s" "s2_inv s" "cwnd_ok s" "s2_mode s = STARTUP"
    "s2_params s = Bbr2Params kDefaultMinimumCongestionWindow (mx * kDefaultTCPMSS)"
    "RoundTripCount (s2_model s) = 0" "\<not> m_full_bandwidth_reached (s2_model s)"
proof -
  let ?P = "Bbr2Params kDefaultMinimumCongestionWindow (mx * kDefaultTCPMSS)"
  let ?rtt = "SmoothedOrInitialRtt r"
  let ?m = "model_new ?P ?rtt (rs_last_update_time r) 1 kInitialPacingGain None"
  let ?c = "ApplyLimits (p_cwnd_limits ?P) (cw * kDefaultTCPMSS)"
  have rtt: "?rtt \<noteq> 0" using SmoothedOrInitialRtt_pos [OF r] by simp
  from FromBytesAndTimeDelta_total [OF rtt, of ?c] obtain b where b: "FromBytesAndTimeDelta ?c ?rtt = Some b" by blast
  have lim: "lim_min (p_cwnd_limits ?P) \<le> lim_max (p_cwnd_limits ?P)"
    using mx by (simp add: Bbr2Params_def kDefaultMinimumCongestionWindow_def kDefaultTCPMSS_def u64_le_iff uint_u64_mult)
  define s0 where "s0 = \<lparr>s2_mode = STARTUP, s2_stats = stats, s2_params = ?P, s2_model = ?m, s2_initial_cwnd = ?c,
       s2_cwnd = ?c, s2_pacing_rate = bw_mult b kInitialPacingGain, s2_last_quiescence_start = time_Zero,
       su_max_bw_at_round_beginning = bw_Zero, pb_cycle = cycle_new,
       pb_last_cycle_probed_too_high = fst junk, pb_last_cycle_stopped_risky_probe = snd junk,
       pr_exit_time = time_Zero, s2_last_sample_is_app_limited = False, s2_rand = rng\<rparr>"
  have run: "Bbr2Sender now r cw mx stats rng junk = Some (su_init now s0)"
    using b by (simp add: Bbr2Sender_def Let_def s0_def)
  have k: "s2_mode (su_init now s0) = STARTUP" "s2_params (su_init now s0) = ?P" "pb_cycle (su_init now s0) = cycle_new"
    "s2_cwnd (su_init now s0) = ?c"
    "s2_model (su_init now s0) = ?m\<lparr>m_pacing_gain := p_startup_pacing_gain ?P, m_cwnd_gain := p_startup_cwnd_gain ?P\<rparr>"
    by (simp_all add: su_init_def Let_def upd_model_def upd_stats_def s0_def)
  show thesis
  proof (rule that [OF run])
    show "s2_inv (su_init now s0)"
      by (simp add: s2_inv_def k params_ok_Bbr2Params model_inv_new [OF rtt]) (simp add: cycle_ok_def cycle_new_def u64_max_def)
    show "cwnd_ok (su_init now s0)"
      unfolding cwnd_ok_def k using ApplyLimits_min [OF lim] ApplyLimits_max by simp
  qed (simp_all add: k model_new_def RoundTripCount_def rtc_new_def)
qed

subsection \<open>Histories\<close>

datatype bbr2_input =
    Sent quic_time byte_count packet_number byte_count
  | Congestion packet_number byte_count quic_time "acked_packet list" "lost_packet list"

fun input_ok :: "bbr2_input \<Rightarrow> bool" where
  "input_ok (Sent t bif pn n) \<longleftrightarrow> in_i64 t \<and> IsInitialized pn"
| "input_ok (Congestion least prior t acked lost) \<longleftrightarrow> in_i64 t"

fun s2_handle :: "bbr2_input \<Rightarrow> bbr2_sender \<Rightarrow> bbr2_sender option" where
  "s2_handle (Sent t bif pn n) s = s2_OnPacketSent t bif pn n s"
| "s2_handle (Congestion least prior t acked lost) s = s2_OnCongestionEvent least prior t acked lost s"

fun s2_run :: "bbr2_input list \<Rightarrow> bbr2_sender \<Rightarrow> bbr2_sender option" where
  "s2_run [] s = Some s"
| "s2_run (i # is) s = Option.bind (s2_handle i s) (s2_run is)"

definition lim_ok :: "limits \<Rightarrow> bool" where "lim_ok l \<longleftrightarrow> lim_min l \<le> lim_max l"

definition s2_ok :: "bbr2_sender \<Rightarrow> bool" where
  "s2_ok s \<longleftrightarrow> s2_inv s \<and> cwnd_ok s \<and> lim_ok (p_cwnd_limits (s2_params s))
     \<and> (s2_mode s \<noteq> STARTUP \<longrightarrow> m_full_bandwidth_reached (s2_model s))"

definition s2_later :: "bbr2_sender \<Rightarrow> bbr2_sender \<Rightarrow> bool" where
  "s2_later s s' \<longleftrightarrow> mode_edge\<^sup>*\<^sup>* (s2_mode s) (s2_mode s') \<and> s2_params s' = s2_params s
     \<and> (m_full_bandwidth_reached (s2_model s) \<longrightarrow> m_full_bandwidth_reached (s2_model s'))"

lemma s2_later_refl [simp]: "s2_later s s"
  by (simp add: s2_later_def)

lemma s2_later_trans [trans]: "s2_later s s' \<Longrightarrow> s2_later s' s'' \<Longrightarrow> s2_later s s''"
  by (auto simp: s2_later_def)

text \<open>STARTUP has no incoming edge.\<close>

lemma mode_edge_no_startup: "mode_edge\<^sup>*\<^sup>* p STARTUP \<longleftrightarrow> p = STARTUP"
  by (auto elim: rtranclp.cases mode_edge_StartupE)

lemma s2_handle_spec:
  assumes ok: "s2_ok s" and i: "input_ok i"
  obtains s' where "s2_handle i s = Some s'" "s2_ok s'" "s2_later s s'"
proof (cases i)
  case (Sent t bif pn n)
  have inv: "s2_inv s" and t: "in_i64 t" and pn: "IsInitialized pn" using ok i Sent by (simp_all add: s2_ok_def)
  from s2_OnPacketSent_spec [OF inv t pn, of bif n] obtain s' where
    s': "s2_OnPacketSent t bif pn n s = Some s'" "s2_inv s'" "same_window s s'"
    "s2_mode s' = s2_mode s \<or> s2_mode s = PROBE_RTT \<and> s2_mode s' = PROBE_BW" .
  have "mode_edge\<^sup>*\<^sup>* (s2_mode s) (s2_mode s')" using s'(4) probe_rtt_bw by auto
  with s' ok Sent show thesis
    by (intro that [of s']) (auto simp: s2_ok_def s2_later_def same_window_def cwnd_ok_def)
next
  case (Congestion least prior t acked lost)
  have inv: "s2_inv s" and t: "in_i64 t" using ok i Congestion by (simp_all add: s2_ok_def)
  from s2_OnCongestionEvent_spec [OF inv t, of least prior acked lost] obtain s' where
    s': "s2_OnCongestionEvent least prior t acked lost s = Some s'" "s2_inv s'"
    "mode_edge\<^sup>*\<^sup>* (s2_mode s) (s2_mode s')" "s2_mode s' = STARTUP \<longrightarrow> s2_mode s = STARTUP"
    "m_full_bandwidth_reached (s2_model s) \<longrightarrow> m_full_bandwidth_reached (s2_model s')"
    "s2_mode s = STARTUP \<longrightarrow> s2_mode s' \<noteq> STARTUP \<longrightarrow> m_full_bandwidth_reached (s2_model s')"
    "s2_params s' = s2_params s" "\<exists>w. s2_cwnd s' = ApplyLimits (p_cwnd_limits (s2_params s)) w" .
  have "cwnd_ok s'"
    using s'(7,8) ok ApplyLimits_min ApplyLimits_max by (auto simp: cwnd_ok_def s2_ok_def lim_ok_def)
  with s' ok Congestion show thesis by (intro that [of s']) (auto simp: s2_ok_def s2_later_def)
qed

lemma s2_run_spec:
  "s2_ok s \<Longrightarrow> list_all input_ok is \<Longrightarrow> \<exists>s'. s2_run is s = Some s' \<and> s2_ok s' \<and> s2_later s s'"
proof (induction "is" arbitrary: s)
  case (Cons i "is")
  from Cons.prems have i: "input_ok i" "list_all input_ok is" by simp_all
  from s2_handle_spec [OF Cons.prems(1) i(1)] obtain s1 where
    s1: "s2_handle i s = Some s1" "s2_ok s1" "s2_later s s1" .
  from Cons.IH [OF s1(2) i(2)] s2_later_trans [OF s1(3)] s1(1) show ?case by auto
qed simp

lemma s2_run_append: "s2_run (is @ js) s = Option.bind (s2_run is s) (s2_run js)"
  by (induction "is" arbitrary: s) (simp_all split: Option.bind_split)

lemma Bbr2Sender_ok:
  assumes r: "rtt_inv r" and mx: "4 \<le> mx" "uint mx * 1460 < 2 ^ 64"
  obtains s where "Bbr2Sender now r cw mx stats rng junk = Some s" "s2_ok s" "s2_mode s = STARTUP"
    "p_cwnd_limits (s2_params s) = MinMax kDefaultMinimumCongestionWindow (mx * kDefaultTCPMSS)"
proof -
  from Bbr2Sender_spec [OF assms, of now cw stats rng junk] obtain s where
    s: "Bbr2Sender now r cw mx stats rng junk = Some s" "s2_inv s" "cwnd_ok s" "s2_mode s = STARTUP"
    "s2_params s = Bbr2Params kDefaultMinimumCongestionWindow (mx * kDefaultTCPMSS)" .
  have "lim_ok (p_cwnd_limits (s2_params s))" using s(3) by (auto simp: cwnd_ok_def lim_ok_def)
  with s show thesis by (intro that [of s]) (simp_all add: s2_ok_def Bbr2Params_def MinMax_def)
qed

lemma UpdateCongestionWindow_grows:
  assumes "uint (s2_cwnd s) + uint n < 2 ^ 64"
  shows "s2_cwnd (UpdateCongestionWindow n s) \<le> max (lim_min (p_cwnd_limits (s2_params s)))
    (max (lim_min (GetCwndLimitsByMode s)) (s2_cwnd s + n))"
proof -
  have le: "s2_cwnd s \<le> s2_cwnd s + n" using assms by (simp add: u64_le_iff uint_u64_plus)
  have "\<exists>w \<le> s2_cwnd s + n. s2_cwnd (UpdateCongestionWindow n s)
      = ApplyLimits (p_cwnd_limits (s2_params s)) (ApplyLimits (GetCwndLimitsByMode s) w)"
    using le by (auto simp: UpdateCongestionWindow_def Let_def intro: min.cobounded1)
  then show ?thesis by (auto simp: ApplyLimits_def min_def max_def)
qed

lemma mode_limits_min [simp]: "lim_min (GetCwndLimitsByMode s) = 0"
  by (cases "s2_mode s") (simp_all add: GetCwndLimitsByMode_def su_GetCwndLimits_def pb_GetCwndLimits_def
      dr_GetCwndLimits_def pr_GetCwndLimits_def NoGreaterThan_def Let_def)

lemma mode_loop_least:
  assumes "s2_inv s" "ev_sample_min_rtt ev \<noteq> 0" "3 \<le> n"
  shows "mode_loop n prior t ev s = mode_loop 3 prior t ev s"
  using mode_loop_spec [OF assms(1,2), of prior t] rank_le [of s] assms(3) by (metis le_trans)

text \<open>A concrete sender, with the factory's maximum window, for the examples.\<close>

definition example_sender :: bbr2_sender where
  "example_sender = the (Bbr2Sender 0 rs_new 32 100000 cs_new (\<lambda>_. 7) (False, False))"

definition example_sent :: "bbr2_input list" where
  "example_sent = [Sent 1000 0 1 1460, Sent 2000 1460 2 1460]"

definition example_acked :: "acked_packet list" where
  "example_acked = [\<lparr>ap_packet_number = 1, ap_bytes_acked = 1460, ap_receive_timestamp = 0\<rparr>]"

lemma example_inputs_ok [simp]: "list_all input_ok example_sent" "in_i64 51000"
  by (simp_all add: example_sent_def in_i64_def IsInitialized_def UninitializedPacketNumber_def)

lemma example_sender:
  "Bbr2Sender 0 rs_new 32 100000 cs_new (\<lambda>_. 7) (False, False) = Some example_sender"
  "s2_ok example_sender" "s2_inv example_sender"
proof -
  have "(4 :: u64) \<le> 100000" "uint (100000 :: u64) * 1460 < 2 ^ 64" by (simp_all add: u64_le_iff)
  from Bbr2Sender_ok [OF rtt_inv_new this, of 0 32 cs_new "\<lambda>_. 7" "(False, False)"] obtain s where
    "Bbr2Sender 0 rs_new 32 100000 cs_new (\<lambda>_. 7) (False, False) = Some s" "s2_ok s" .
  then show "Bbr2Sender 0 rs_new 32 100000 cs_new (\<lambda>_. 7) (False, False) = Some example_sender"
    "s2_ok example_sender" "s2_inv example_sender" by (simp_all add: example_sender_def s2_ok_def)
qed

lemma example_run:
  "list_all input_ok is \<Longrightarrow> s2_run is example_sender = Some (the (s2_run is example_sender))"
  using s2_run_spec [OF example_sender(2)] by fastforce

subsection \<open>As a send algorithm\<close>

text \<open>The overrides of \<open>SendAlgorithmInterface\<close>; \<open>s2_stats\<close> is the shared structure of counters.\<close>

definition bbr2_ops :: "bbr2_sender send_algorithm_ops" where
  "bbr2_ops = \<lparr>
     sa_OnCongestionEvent = \<lambda>rtt m rtt_updated prior t acked lost (stats, s).
       map_option (\<lambda>s. (s2_stats s, s))
         (s2_OnCongestionEvent (um_least_unacked m) prior t acked lost (s\<lparr>s2_stats := stats\<rparr>)),
     sa_OnPacketSent = \<lambda>t bif pn n (stats, s).
       map_option (\<lambda>s. (s2_stats s, s)) (s2_OnPacketSent t bif pn n (s\<lparr>s2_stats := stats\<rparr>)),
     sa_CanSend = CanSend, sa_PacingRate = \<lambda>rtt bif s. Some (PacingRate s),
     sa_BandwidthEstimate = \<lambda>rtt s. Some (BandwidthEstimate s), sa_GetCongestionWindow = GetCongestionWindow,
     sa_InSlowStart = InSlowStart, sa_InRecovery = \<lambda>s. False,
     sa_GetCongestionControlType = \<lambda>s. kBBRv2, sa_GetSlowStartThreshold = \<lambda>s. 0,
     sa_OnRetransmissionTimeout = \<lambda>packets_retransmitted s. s\<rparr>"

text \<open>The case \<open>kBBRv2\<close> of \<open>SendAlgorithmInterface::Create\<close>.\<close>

definition Create_BBRv2 :: "quic_time \<Rightarrow> (nat \<Rightarrow> u64) \<Rightarrow> bool \<times> bool \<Rightarrow> rtt_stats \<Rightarrow> conn_stats
    \<Rightarrow> packet_count \<Rightarrow> (conn_stats \<times> bbr2_sender) option" where
  "Create_BBRv2 now rng junk rtt stats initial_congestion_window =
     map_option (\<lambda>s. (s2_stats s, s))
       (Bbr2Sender now rtt initial_congestion_window max_congestion_window stats rng junk)"

definition bbr2_ok :: "bbr2_sender \<Rightarrow> bool" where
  "bbr2_ok s \<longleftrightarrow> s2_ok s \<and> p_cwnd_limits (s2_params s)
     = MinMax kDefaultMinimumCongestionWindow (max_congestion_window * kDefaultTCPMSS)"

lemma bbr2_ok_window:
  assumes "bbr2_ok s"
  shows "4 * 1460 \<le> GetCongestionWindow s \<and> GetCongestionWindow s \<le> 100000 * 1460"
  using assms by (auto simp: bbr2_ok_def s2_ok_def cwnd_ok_def MinMax_def GetCongestionWindow_def
      kDefaultMinimumCongestionWindow_def kDefaultTCPMSS_def max_congestion_window_def)

lemma bbr2_ok_stats [simp]: "bbr2_ok (s\<lparr>s2_stats := st\<rparr>) = bbr2_ok s"
  by (simp add: bbr2_ok_def s2_ok_def s2_inv_def cwnd_ok_def)

lemma bbr2_ok_handle:
  assumes "bbr2_ok s" "input_ok i"
  shows "\<exists>s'. s2_handle i s = Some s' \<and> bbr2_ok s'"
proof -
  have "s2_ok s" using assms(1) by (simp add: bbr2_ok_def)
  from s2_handle_spec [OF this assms(2)] obtain s' where "s2_handle i s = Some s'" "s2_ok s'" "s2_later s s'" .
  with assms(1) show ?thesis by (auto simp: bbr2_ok_def s2_later_def)
qed

lemma bbr2_ok_Create:
  assumes "rtt_inv r"
  shows "\<exists>st s. Create_BBRv2 now rng junk r stats icw = Some (st, s) \<and> bbr2_ok s"
proof -
  have "(4 :: u64) \<le> max_congestion_window" "uint max_congestion_window * 1460 < 2 ^ 64"
    by (simp_all add: max_congestion_window_def u64_le_iff)
  from Bbr2Sender_ok [OF assms this, of now icw stats rng junk] obtain s where
    "Bbr2Sender now r icw max_congestion_window stats rng junk = Some s" "bbr2_ok s"
    by (auto simp: bbr2_ok_def)
  then show ?thesis by (simp add: Create_BBRv2_def)
qed

interpretation bbr2: send_algorithm bbr2_ops bbr2_ok
proof unfold_locales
  fix s :: bbr2_sender and t bif pn n st
  assume "bbr2_ok s" "in_i64 t" "IsInitialized pn"
  with bbr2_ok_handle [of "s\<lparr>s2_stats := st\<rparr>" "Sent t bif pn n"]
  show "\<exists>st' s'. sa_OnPacketSent bbr2_ops t bif pn n (st, s) = Some (st', s') \<and> bbr2_ok s'"
    by (auto simp: bbr2_ops_def)
next
  fix s :: bbr2_sender and t r m updated prior acked lost st
  assume "bbr2_ok s" "in_i64 t"
  with bbr2_ok_handle [of "s\<lparr>s2_stats := st\<rparr>" "Congestion (um_least_unacked m) prior t acked lost"]
  show "\<exists>st' s'. sa_OnCongestionEvent bbr2_ops r m updated prior t acked lost (st, s) = Some (st', s') \<and> bbr2_ok s'"
    by (auto simp: bbr2_ops_def)
next
  fix s :: bbr2_sender
  assume "bbr2_ok s"
  from bbr2_ok_window [OF this] show "0 < sa_GetCongestionWindow bbr2_ops s"
    by (simp add: bbr2_ops_def u64_le_iff u64_less_iff)
qed (simp_all add: bbr2_ops_def)

subsection \<open>Properties\<close>

text \<open>C8. A sender made by the constructor handles every history of sent packets and congestion
  events without a failing step (no division by zero, no access out of range, no loop without an
  end), its invariant holds throughout, and its window stays between four segments and the
  configured maximum.\<close>

theorem sender_handles_every_history:
  assumes "rtt_inv r" "4 \<le> mx" "uint mx * 1460 < 2 ^ 64" "list_all input_ok is"
  shows "\<exists>s0 s. Bbr2Sender now r cw mx stats rng junk = Some s0 \<and> s2_run is s0 = Some s \<and> s2_inv s
    \<and> 4 * 1460 \<le> GetCongestionWindow s \<and> GetCongestionWindow s \<le> mx * 1460"
proof -
  from Bbr2Sender_ok [OF assms(1-3), of now cw stats rng junk] obtain s0 where
    s0: "Bbr2Sender now r cw mx stats rng junk = Some s0" "s2_ok s0"
    "p_cwnd_limits (s2_params s0) = MinMax kDefaultMinimumCongestionWindow (mx * kDefaultTCPMSS)" .
  from s2_run_spec [OF s0(2) assms(4)] obtain s where
    s: "s2_run is s0 = Some s" "s2_ok s" "s2_later s0 s" by blast
  with s0 show ?thesis
    by (intro exI [of _ s0] exI [of _ s])
      (simp add: s2_ok_def s2_later_def cwnd_ok_def MinMax_def kDefaultMinimumCongestionWindow_def
        kDefaultTCPMSS_def GetCongestionWindow_def mult.commute)
qed

lemma sender_handles_every_history_witness:
  "\<exists>s0 s. Bbr2Sender 0 rs_new 32 100000 cs_new (\<lambda>_. 7) (False, False) = Some s0
    \<and> s2_run (example_sent @ [Congestion 1 2920 51000 example_acked []]) s0 = Some s
    \<and> s2_inv s \<and> 4 * 1460 \<le> GetCongestionWindow s \<and> GetCongestionWindow s \<le> 100000 * 1460"
  by (rule sender_handles_every_history [OF rtt_inv_new]) (simp_all add: u64_le_iff)

text \<open>C9. Along a history the mode moves only along the edges STARTUP to DRAIN, DRAIN to PROBE_BW,
  and between PROBE_BW and PROBE_RTT; outside STARTUP the full bandwidth has been reached, and
  STARTUP is never entered again.\<close>

theorem modes_follow_the_state_machine:
  assumes "rtt_inv r" "4 \<le> mx" "uint mx * 1460 < 2 ^ 64" "list_all input_ok (is @ js)"
    and "Bbr2Sender now r cw mx stats rng junk = Some s0" "s2_run is s0 = Some s" "s2_run js s = Some s'"
  shows "mode_edge\<^sup>*\<^sup>* STARTUP (s2_mode s) \<and> mode_edge\<^sup>*\<^sup>* (s2_mode s) (s2_mode s')
    \<and> (s2_mode s \<noteq> STARTUP \<longrightarrow> m_full_bandwidth_reached (s2_model s') \<and> s2_mode s' \<noteq> STARTUP)"
proof -
  from Bbr2Sender_ok [OF assms(1-3), of now cw stats rng junk] assms(5) have
    s0: "s2_ok s0" "s2_mode s0 = STARTUP" by (metis option.inject)+
  from s2_run_spec [OF s0(1)] assms(4,6) have s: "s2_ok s" "s2_later s0 s" by force+
  from s2_run_spec [OF s(1)] assms(4,7) have s': "s2_later s s'" by force
  with s s0(2) show ?thesis by (auto simp: s2_ok_def s2_later_def mode_edge_no_startup)
qed

lemma modes_follow_the_state_machine_witness:
  "\<exists>s s'. s2_run example_sent example_sender = Some s
    \<and> s2_run [Congestion 1 2920 51000 example_acked []] s = Some s'
    \<and> mode_edge\<^sup>*\<^sup>* STARTUP (s2_mode s) \<and> mode_edge\<^sup>*\<^sup>* (s2_mode s) (s2_mode s')
    \<and> (s2_mode s \<noteq> STARTUP \<longrightarrow> m_full_bandwidth_reached (s2_model s') \<and> s2_mode s' \<noteq> STARTUP)"
proof -
  let ?j = "[Congestion 1 2920 51000 example_acked []]"
  from s2_run_spec [OF example_sender(2), of example_sent] obtain s where
    s: "s2_run example_sent example_sender = Some s" "s2_ok s" by auto
  from s2_run_spec [OF s(2), of ?j] obtain s' where s': "s2_run ?j s = Some s'" by auto
  with s modes_follow_the_state_machine [OF rtt_inv_new _ _ _ example_sender(1) s(1) s'] show ?thesis
    by (simp add: u64_le_iff)
qed

text \<open>C10. The loop over mode changes of a congestion event ends because the mode is stable, after at
  most three changes: its cut-off after four is never reached, and every larger cut-off has the
  same result.\<close>

theorem mode_changes_stabilise:
  assumes "s2_inv s" "ev_sample_min_rtt ev \<noteq> 0" "3 \<le> n"
  shows "\<exists>s1 s'. mode_loop kMaxModeChangesPerCongestionEvent prior t ev s = Some s'
    \<and> mode_loop n prior t ev s = Some s'
    \<and> mode_OnCongestionEvent prior t ev s1 = Some (s', s2_mode s')"
proof -
  from mode_loop_spec [OF assms(1,2), of prior t] obtain s1 s' where
    l: "\<forall>n \<ge> rank s. mode_loop n prior t ev s = Some s'"
    "mode_OnCongestionEvent prior t ev s1 = Some (s', s2_mode s')" by blast
  then show ?thesis
    using rank_le [of s] assms(3)
    by (intro exI [of _ s1] exI [of _ s']) (simp add: kMaxModeChangesPerCongestionEvent_def)
qed

lemma mode_changes_stabilise_witness:
  "\<exists>s1 s'. mode_loop kMaxModeChangesPerCongestionEvent 0 51000 (ev_new 46720) example_sender = Some s'
    \<and> mode_loop 100 0 51000 (ev_new 46720) example_sender = Some s'
    \<and> mode_OnCongestionEvent 0 51000 (ev_new 46720) s1 = Some (s', s2_mode s')"
  by (rule mode_changes_stabilise [OF example_sender(3)]) simp_all

text \<open>C11. The window after an update is within the configured limits, within the limit of the mode
  unless that is below the minimum window, and it exceeds the window before by at most the bytes acked.\<close>

theorem window_update_bounds:
  assumes "uint (s2_cwnd s) + uint n < 2 ^ 64"
    and "lim_min (p_cwnd_limits (s2_params s)) \<le> lim_max (p_cwnd_limits (s2_params s))"
  defines "w \<equiv> s2_cwnd (UpdateCongestionWindow n s)" and "lo \<equiv> lim_min (p_cwnd_limits (s2_params s))"
  shows "lo \<le> w \<and> w \<le> lim_max (p_cwnd_limits (s2_params s))
    \<and> w \<le> max lo (lim_max (GetCwndLimitsByMode s)) \<and> w \<le> max lo (s2_cwnd s + n)"
proof -
  from UpdateCongestionWindow_cwnd [where n = n and s = s] obtain x where
    x: "w = ApplyLimits (p_cwnd_limits (s2_params s)) (ApplyLimits (GetCwndLimitsByMode s) x)"
    by (auto simp: w_def)
  have "w \<le> max lo (s2_cwnd s + n)"
    using UpdateCongestionWindow_grows [OF assms(1)] by (simp add: w_def lo_def max_def)
  then show ?thesis
    using ApplyLimits_min [OF assms(2)] ApplyLimits_max [of "p_cwnd_limits (s2_params s)"]
      ApplyLimits_twice [of "p_cwnd_limits (s2_params s)" "GetCwndLimitsByMode s" x]
    by (simp add: x lo_def)
qed

lemma window_update_bounds_witness:
  "4 * 1460 \<le> s2_cwnd (UpdateCongestionWindow 1460 example_sender)"
proof -
  have ok: "cwnd_ok example_sender" "lim_ok (p_cwnd_limits (s2_params example_sender))"
    using example_sender(2) by (simp_all add: s2_ok_def)
  have "(4 :: u64) \<le> 100000" "uint (100000 :: u64) * 1460 < 2 ^ 64" by (simp_all add: u64_le_iff)
  from Bbr2Sender_ok [OF rtt_inv_new this, of 0 32 cs_new "\<lambda>_. 7" "(False, False)"] have
    l: "p_cwnd_limits (s2_params example_sender) = MinMax 5840 146000000"
    using example_sender(1) by (auto simp: kDefaultMinimumCongestionWindow_def kDefaultTCPMSS_def)
  then have "uint (s2_cwnd example_sender) + uint (1460 :: u64) < 2 ^ 64"
    using ok(1) by (simp add: cwnd_ok_def MinMax_def u64_le_iff)
  from window_update_bounds [OF this] ok(2) l show ?thesis by (simp add: lim_ok_def MinMax_def)
qed

text \<open>A congestion event counts a round trip exactly if it ends one: its last acked packet was
  sent after the end of the round, or no round has been started.\<close>

theorem congestion_event_counts_rounds:
  assumes "s2_inv s" "in_i64 t"
  shows "\<exists>s'. s2_OnCongestionEvent least prior t acked lost s = Some s'
    \<and> RoundTripCount (s2_model s') = RoundTripCount (s2_model s)
        + (if acked \<noteq> [] \<and> snd (rtc_OnPacketsAcked (ap_packet_number (last acked))
             (m_round_trip_counter (s2_model s))) then 1 else 0)"
  by (rule s2_OnCongestionEvent_spec [OF assms, of least prior acked lost])
    (auto simp: round_ended_def)

lemma congestion_event_counts_rounds_witness:
  "\<exists>s'. s2_OnCongestionEvent 1 2920 51000 example_acked [] example_sender = Some s'
    \<and> RoundTripCount (s2_model s') = RoundTripCount (s2_model example_sender)
        + (if example_acked \<noteq> [] \<and> snd (rtc_OnPacketsAcked (ap_packet_number (last example_acked))
             (m_round_trip_counter (s2_model example_sender))) then 1 else 0)"
  by (rule congestion_event_counts_rounds [OF example_sender(3)]) simp

end
