(* ===== verification/Bbr_Sender.thy ===== *)
theory Bbr_Sender
  imports Bandwidth_Sampler Send_Algorithm Prr_Sender
begin

section \<open>The BBRv1 sender\<close>

text \<open>
  \<open>BbrSender\<close> of \<open>congestion_control/chrome_bbr_sender.h\<close> and \<open>.cc\<close>: the modes STARTUP, DRAIN,
  PROBE_BW with its cycle of eight pacing gains and PROBE_RTT, and the packet conservation of
  its recovery. The round trip time statistics and the map of unacked packets behind its
  pointers are arguments of the operations that read them; the connection counters, of which
  the pointer is never null, are a component of the record. \<open>v1_rand\<close> is the sequence of values
  that \<open>rand()\<close> returns. Members that only the debug output reads are left out, as is that
  output. \<open>None\<close> is a division by zero.

  The lemmas show that no operation fails, which modes follow each other, within which bounds
  the window and the recovery window stay, and what ends the start-up phase.
\<close>

definition v1_kDefaultMinimumCongestionWindow :: byte_count where
  "v1_kDefaultMinimumCongestionWindow = 4 * kMaxSegmentSize"
definition kDefaultHighGain :: cfloat where "kDefaultHighGain = f32 (2885 / 1000)"
definition kDerivedHighCWNDGain :: cfloat where "kDerivedHighCWNDGain = 2"
definition kPacingGain :: "cfloat list" where "kPacingGain = [5 / 4, 3 / 4, 1, 1, 1, 1, 1, 1]"
definition kGainCycleLength :: nat where "kGainCycleLength = length kPacingGain"
definition kBandwidthWindowSize :: round_trip_count where "kBandwidthWindowSize = of_nat (kGainCycleLength + 2)"
definition kMinRttExpiry :: time_delta where "kMinRttExpiry = FromSeconds 10"
definition kProbeRttTime :: time_delta where "kProbeRttTime = FromMilliseconds 200"
definition kStartupGrowthTarget :: cfloat where "kStartupGrowthTarget = 5 / 4"
definition kRoundTripsWithoutGrowthBeforeExitingStartup :: round_trip_count where
  "kRoundTripsWithoutGrowthBeforeExitingStartup = 3"
definition FLAGS_quic_bbr2_default_startup_full_loss_count :: int64 where
  "FLAGS_quic_bbr2_default_startup_full_loss_count = 3"
definition FLAGS_quic_bbr2_default_loss_threshold :: u64 where "FLAGS_quic_bbr2_default_loss_threshold = 3"
definition INITIAL_PACING_RATE :: int64 where "INITIAL_PACING_RATE = 1000 * 800"
definition kMaxOutgoingPacketSize :: byte_count where "kMaxOutgoingPacketSize = 1452"

datatype bbr_mode = BBR_STARTUP | BBR_DRAIN | BBR_PROBE_BW | BBR_PROBE_RTT

datatype recovery_state = NOT_IN_RECOVERY | CONSERVATION | RECOVERY_GROWTH

record bbr_sender =
  v1_stats :: conn_stats
  v1_mode :: bbr_mode
  v1_sampler :: bandwidth_sampler
  v1_round_trip_count :: round_trip_count
  v1_last_sent_packet :: packet_number
  v1_current_round_trip_end :: packet_number
  v1_num_loss_events_in_round :: int64
  v1_bytes_lost_in_round :: byte_count
  v1_max_bandwidth :: "bandwidth wfilter"
  v1_min_rtt :: time_delta
  v1_min_rtt_timestamp :: quic_time
  v1_congestion_window :: byte_count
  v1_initial_congestion_window :: byte_count
  v1_max_congestion_window :: byte_count
  v1_min_congestion_window :: byte_count
  v1_high_gain :: cfloat
  v1_high_cwnd_gain :: cfloat
  v1_drain_gain :: cfloat
  v1_pacing_rate :: bandwidth
  v1_pacing_gain :: cfloat
  v1_congestion_window_gain :: cfloat
  v1_congestion_window_gain_constant :: cfloat
  v1_num_startup_rtts :: round_trip_count
  v1_cycle_current_offset :: nat
  v1_last_cycle_start :: quic_time
  v1_is_at_full_bandwidth :: bool
  v1_rounds_without_bandwidth_gain :: round_trip_count
  v1_bandwidth_at_last_round :: bandwidth
  v1_exiting_quiescence :: bool
  v1_exit_probe_rtt_at :: quic_time
  v1_probe_rtt_round_passed :: bool
  v1_last_sample_is_app_limited :: bool
  v1_has_non_app_limited_sample :: bool
  v1_recovery_state :: recovery_state
  v1_end_recovery_at :: packet_number
  v1_recovery_window :: byte_count
  v1_enable_ack_aggregation_during_startup :: bool
  v1_expire_ack_aggregation_in_startup :: bool
  v1_drain_to_target :: bool
  v1_detect_overshooting :: bool
  v1_bytes_lost_while_detecting_overshooting :: byte_count
  v1_bytes_lost_multiplier :: "8 word"
  v1_cwnd_to_calculate_min_pacing_rate :: byte_count
  v1_rand :: "nat \<Rightarrow> u64"

definition v1_upd_stats :: "(conn_stats \<Rightarrow> conn_stats) \<Rightarrow> bbr_sender \<Rightarrow> bbr_sender" where
  "v1_upd_stats f s = s\<lparr>v1_stats := f (v1_stats s)\<rparr>"

subsection \<open>Queries\<close>

definition v1_InSlowStart :: "bbr_sender \<Rightarrow> bool" where
  "v1_InSlowStart s \<longleftrightarrow> v1_mode s = BBR_STARTUP"

definition v1_InRecovery :: "bbr_sender \<Rightarrow> bool" where
  "v1_InRecovery s \<longleftrightarrow> v1_recovery_state s \<noteq> NOT_IN_RECOVERY"

definition v1_BandwidthEstimate :: "bbr_sender \<Rightarrow> bandwidth" where
  "v1_BandwidthEstimate s = wf_GetBest (v1_max_bandwidth s)"

definition ProbeRttCongestionWindow :: "bbr_sender \<Rightarrow> byte_count" where
  "ProbeRttCongestionWindow s = v1_min_congestion_window s"

definition v1_GetCongestionWindow :: "bbr_sender \<Rightarrow> byte_count" where
  "v1_GetCongestionWindow s =
     (if v1_mode s = BBR_PROBE_RTT then ProbeRttCongestionWindow s
      else if v1_InRecovery s then min (v1_congestion_window s) (v1_recovery_window s)
      else v1_congestion_window s)"

definition v1_CanSend :: "byte_count \<Rightarrow> bbr_sender \<Rightarrow> bool" where
  "v1_CanSend bytes_in_flight s \<longleftrightarrow> bytes_in_flight < v1_GetCongestionWindow s"

definition v1_PacingRate :: "bbr_sender \<Rightarrow> bandwidth" where
  "v1_PacingRate s = (if bw_IsZero (v1_pacing_rate s) then FromBitsPerSecond INITIAL_PACING_RATE else v1_pacing_rate s)"

definition GetMinRtt :: "rtt_stats \<Rightarrow> bbr_sender \<Rightarrow> time_delta" where
  "GetMinRtt rtt s = (if \<not> delta_IsZero (v1_min_rtt s) then v1_min_rtt s else MinOrInitialRtt rtt)"

definition v1_GetTargetCongestionWindow :: "cfloat \<Rightarrow> rtt_stats \<Rightarrow> bbr_sender \<Rightarrow> byte_count" where
  "v1_GetTargetCongestionWindow gain rtt s =
     (let bdp = bw_times_delta (v1_BandwidthEstimate s) (GetMinRtt rtt s);
          congestion_window = f_to_u64 (f32 (gain * u64_f32 bdp));
          congestion_window = (if congestion_window = 0
            then f_to_u64 (f32 (gain * u64_f32 (v1_initial_congestion_window s))) else congestion_window)
      in max congestion_window (v1_min_congestion_window s))"

definition set_high_gain :: "cfloat \<Rightarrow> bbr_sender \<Rightarrow> bbr_sender" where
  "set_high_gain high_gain s =
     (let s = s\<lparr>v1_high_gain := high_gain\<rparr>
      in if v1_mode s = BBR_STARTUP then s\<lparr>v1_pacing_gain := high_gain\<rparr> else s)"

definition set_high_cwnd_gain :: "cfloat \<Rightarrow> bbr_sender \<Rightarrow> bbr_sender" where
  "set_high_cwnd_gain high_cwnd_gain s =
     (let s = s\<lparr>v1_high_cwnd_gain := high_cwnd_gain\<rparr>
      in if v1_mode s = BBR_STARTUP then s\<lparr>v1_congestion_window_gain := high_cwnd_gain\<rparr> else s)"

definition set_drain_gain :: "cfloat \<Rightarrow> bbr_sender \<Rightarrow> bbr_sender" where
  "set_drain_gain drain_gain s = s\<lparr>v1_drain_gain := drain_gain\<rparr>"

subsection \<open>Modes\<close>

definition EnterStartupMode :: "quic_time \<Rightarrow> bbr_sender \<Rightarrow> bbr_sender" where
  "EnterStartupMode now s =
     (v1_upd_stats (\<lambda>st. st\<lparr>cs_slowstart_count := cs_slowstart_count st + 1,
                           cs_slowstart_duration := ta_Start now (cs_slowstart_duration st)\<rparr>) s)
       \<lparr>v1_mode := BBR_STARTUP, v1_pacing_gain := v1_high_gain s, v1_congestion_window_gain := v1_high_cwnd_gain s\<rparr>"

definition OnExitStartup :: "quic_time \<Rightarrow> bbr_sender \<Rightarrow> bbr_sender" where
  "OnExitStartup now s =
     v1_upd_stats (\<lambda>st. st\<lparr>cs_slowstart_duration := ta_Stop now (cs_slowstart_duration st)\<rparr>) s"

text \<open>The offset of the gain cycle is one of 0, 2, \<open>\<dots>\<close>, 7.\<close>

definition EnterProbeBandwidthMode :: "quic_time \<Rightarrow> bbr_sender \<Rightarrow> bbr_sender" where
  "EnterProbeBandwidthMode now s =
     (let r = unat (v1_rand s 0) mod (kGainCycleLength - 1);
          r = (if 1 \<le> r then r + 1 else r)
      in s\<lparr>v1_mode := BBR_PROBE_BW, v1_congestion_window_gain := v1_congestion_window_gain_constant s,
           v1_rand := (\<lambda>n. v1_rand s (Suc n)), v1_cycle_current_offset := r,
           v1_last_cycle_start := now, v1_pacing_gain := kPacingGain ! r\<rparr>)"

definition UpdateRoundTripCounter :: "packet_number \<Rightarrow> bbr_sender \<Rightarrow> bbr_sender \<times> bool" where
  "UpdateRoundTripCounter last_acked_packet s =
     (if \<not> IsInitialized (v1_current_round_trip_end s) \<or> v1_current_round_trip_end s < last_acked_packet
      then let s = s\<lparr>v1_round_trip_count := v1_round_trip_count s + 1,
                     v1_current_round_trip_end := v1_last_sent_packet s\<rparr>;
               s = (if v1_InSlowStart s
                    then v1_upd_stats (\<lambda>st. st\<lparr>cs_slowstart_num_rtts := cs_slowstart_num_rtts st + 1\<rparr>) s else s)
           in (s, True)
      else (s, False))"

definition MaybeUpdateMinRtt :: "quic_time \<Rightarrow> time_delta \<Rightarrow> bbr_sender \<Rightarrow> bbr_sender \<times> bool" where
  "MaybeUpdateMinRtt now sample_min_rtt s =
     (let min_rtt_expired = (\<not> delta_IsZero (v1_min_rtt s) \<and> time_plus (v1_min_rtt_timestamp s) kMinRttExpiry < now)
      in (if min_rtt_expired \<or> sample_min_rtt < v1_min_rtt s \<or> delta_IsZero (v1_min_rtt s)
          then s\<lparr>v1_min_rtt := sample_min_rtt, v1_min_rtt_timestamp := now\<rparr> else s,
          min_rtt_expired))"

definition UpdateGainCyclePhase :: "quic_time \<Rightarrow> byte_count \<Rightarrow> bool \<Rightarrow> rtt_stats \<Rightarrow> byte_count \<Rightarrow> bbr_sender
    \<Rightarrow> bbr_sender" where
  "UpdateGainCyclePhase now prior_in_flight has_losses rtt bytes_in_flight s =
     (let should_advance = GetMinRtt rtt s < time_diff now (v1_last_cycle_start s);
          should_advance = (if 1 < v1_pacing_gain s \<and> \<not> has_losses
              \<and> prior_in_flight < v1_GetTargetCongestionWindow (v1_pacing_gain s) rtt s then False else should_advance);
          should_advance = (if v1_pacing_gain s < 1 \<and> bytes_in_flight \<le> v1_GetTargetCongestionWindow 1 rtt s
              then True else should_advance)
      in if should_advance
         then let s = s\<lparr>v1_cycle_current_offset := (v1_cycle_current_offset s + 1) mod kGainCycleLength\<rparr>;
                  s = (if v1_cycle_current_offset s = 0
                       then v1_upd_stats (\<lambda>st. st\<lparr>cs_bbr_num_cycles := cs_bbr_num_cycles st + 1\<rparr>) s else s);
                  s = s\<lparr>v1_last_cycle_start := now\<rparr>
              in if v1_drain_to_target s \<and> v1_pacing_gain s < 1 \<and> kPacingGain ! v1_cycle_current_offset s = 1
                   \<and> v1_GetTargetCongestionWindow 1 rtt s < bytes_in_flight
                 then s else s\<lparr>v1_pacing_gain := kPacingGain ! v1_cycle_current_offset s\<rparr>
         else s)"

definition ShouldExitStartupDueToLoss :: "send_time_state \<Rightarrow> bbr_sender \<Rightarrow> bbr_sender \<times> bool" where
  "ShouldExitStartupDueToLoss last_packet_send_state s =
     (if v1_num_loss_events_in_round s < FLAGS_quic_bbr2_default_startup_full_loss_count
         \<or> \<not> sts_is_valid last_packet_send_state then (s, False)
      else let inflight_at_send = sts_bytes_in_flight last_packet_send_state
           in if 0 < inflight_at_send \<and> 0 < v1_bytes_lost_in_round s
              then if inflight_at_send * FLAGS_quic_bbr2_default_loss_threshold < v1_bytes_lost_in_round s
                   then (v1_upd_stats (\<lambda>st. st\<lparr>cs_bbr_exit_startup_due_to_loss := True\<rparr>) s, True)
                   else (s, False)
              else (s, False))"

definition CheckIfFullBandwidthReached :: "send_time_state \<Rightarrow> bbr_sender \<Rightarrow> bbr_sender" where
  "CheckIfFullBandwidthReached last_packet_send_state s =
     (if v1_last_sample_is_app_limited s then s
      else let target = bw_mult (v1_bandwidth_at_last_round s) kStartupGrowthTarget
           in if target \<le> v1_BandwidthEstimate s
              then let s = s\<lparr>v1_bandwidth_at_last_round := v1_BandwidthEstimate s,
                             v1_rounds_without_bandwidth_gain := 0\<rparr>
                   in if v1_expire_ack_aggregation_in_startup s
                      then s\<lparr>v1_sampler := ResetMaxAckHeightTracker 0 (v1_round_trip_count s) (v1_sampler s)\<rparr> else s
              else let s = s\<lparr>v1_rounds_without_bandwidth_gain := v1_rounds_without_bandwidth_gain s + 1\<rparr>
                   in if v1_num_startup_rtts s \<le> v1_rounds_without_bandwidth_gain s
                      then s\<lparr>v1_is_at_full_bandwidth := True\<rparr>
                      else let (s, exit) = ShouldExitStartupDueToLoss last_packet_send_state s
                           in if exit then s\<lparr>v1_is_at_full_bandwidth := True\<rparr> else s)"

definition MaybeExitStartupOrDrain :: "quic_time \<Rightarrow> rtt_stats \<Rightarrow> byte_count \<Rightarrow> bbr_sender \<Rightarrow> bbr_sender" where
  "MaybeExitStartupOrDrain now rtt bytes_in_flight s =
     (let s = (if v1_mode s = BBR_STARTUP \<and> v1_is_at_full_bandwidth s
               then let s = OnExitStartup now s
                    in s\<lparr>v1_mode := BBR_DRAIN, v1_pacing_gain := v1_drain_gain s,
                         v1_congestion_window_gain := v1_high_cwnd_gain s\<rparr>
               else s)
      in if v1_mode s = BBR_DRAIN \<and> bytes_in_flight \<le> v1_GetTargetCongestionWindow 1 rtt s
         then EnterProbeBandwidthMode now s else s)"

definition MaybeEnterOrExitProbeRtt :: "quic_time \<Rightarrow> bool \<Rightarrow> bool \<Rightarrow> byte_count \<Rightarrow> bbr_sender \<Rightarrow> bbr_sender" where
  "MaybeEnterOrExitProbeRtt now is_round_start min_rtt_expired bytes_in_flight s =
     (let s = (if min_rtt_expired \<and> \<not> v1_exiting_quiescence s \<and> v1_mode s \<noteq> BBR_PROBE_RTT
               then let s = (if v1_InSlowStart s then OnExitStartup now s else s)
                    in s\<lparr>v1_mode := BBR_PROBE_RTT, v1_pacing_gain := 1, v1_exit_probe_rtt_at := time_Zero\<rparr>
               else s);
          s = (if v1_mode s = BBR_PROBE_RTT
               then let s = s\<lparr>v1_sampler := bs_OnAppLimited (v1_sampler s)\<rparr>
                    in if v1_exit_probe_rtt_at s = time_Zero
                       then if bytes_in_flight < ProbeRttCongestionWindow s + kMaxOutgoingPacketSize
                            then s\<lparr>v1_exit_probe_rtt_at := time_plus now kProbeRttTime,
                                   v1_probe_rtt_round_passed := False\<rparr>
                            else s
                       else let s = (if is_round_start then s\<lparr>v1_probe_rtt_round_passed := True\<rparr> else s)
                            in if v1_exit_probe_rtt_at s \<le> now \<and> v1_probe_rtt_round_passed s
                               then let s = s\<lparr>v1_min_rtt_timestamp := now\<rparr>
                                    in if \<not> v1_is_at_full_bandwidth s then EnterStartupMode now s
                                       else EnterProbeBandwidthMode now s
                               else s
               else s)
      in s\<lparr>v1_exiting_quiescence := False\<rparr>)"

definition UpdateRecoveryState :: "packet_number \<Rightarrow> bool \<Rightarrow> bool \<Rightarrow> bbr_sender \<Rightarrow> bbr_sender" where
  "UpdateRecoveryState last_acked_packet has_losses is_round_start s =
     (if \<not> v1_is_at_full_bandwidth s then s
      else let s = (if has_losses then s\<lparr>v1_end_recovery_at := v1_last_sent_packet s\<rparr> else s)
           in case v1_recovery_state s of
                NOT_IN_RECOVERY \<Rightarrow>
                  if has_losses
                  then s\<lparr>v1_recovery_state := CONSERVATION, v1_recovery_window := 0,
                         v1_current_round_trip_end := v1_last_sent_packet s\<rparr>
                  else s
              | _ \<Rightarrow>
                  let s = (if v1_recovery_state s = CONSERVATION \<and> is_round_start
                           then s\<lparr>v1_recovery_state := RECOVERY_GROWTH\<rparr> else s)
                  in if \<not> has_losses \<and> v1_end_recovery_at s < last_acked_packet
                     then s\<lparr>v1_recovery_state := NOT_IN_RECOVERY\<rparr> else s)"

subsection \<open>Pacing rate and windows\<close>

text \<open>What the pacing rate becomes once too much was lost at the initial parameters.\<close>

definition detect_overshoot :: "byte_count \<Rightarrow> bandwidth \<Rightarrow> rtt_stats \<Rightarrow> bbr_sender \<Rightarrow> bbr_sender option" where
  "detect_overshoot lost_bytes target_rate rtt s =
     (if v1_detect_overshooting s
      then let s = s\<lparr>v1_bytes_lost_while_detecting_overshooting :=
                      v1_bytes_lost_while_detecting_overshooting s + lost_bytes\<rparr>
           in if target_rate < v1_pacing_rate s \<and> 0 < v1_bytes_lost_while_detecting_overshooting s
                \<and> (v1_has_non_app_limited_sample s
                   \<or> v1_initial_congestion_window s
                     < v1_bytes_lost_while_detecting_overshooting s * ucast (v1_bytes_lost_multiplier s))
              then do {
                b \<leftarrow> FromBytesAndTimeDelta (v1_cwnd_to_calculate_min_pacing_rate s) (GetMinRtt rtt s);
                Some ((v1_upd_stats (\<lambda>st. st\<lparr>cs_overshooting_detected := True\<rparr>) s)
                  \<lparr>v1_pacing_rate := max target_rate b, v1_bytes_lost_while_detecting_overshooting := 0,
                   v1_detect_overshooting := False\<rparr>) }
              else Some s
      else Some s)"

definition CalculatePacingRate :: "byte_count \<Rightarrow> rtt_stats \<Rightarrow> bbr_sender \<Rightarrow> bbr_sender option" where
  "CalculatePacingRate lost_bytes rtt s =
     (if bw_IsZero (v1_BandwidthEstimate s) then Some s
      else let target_rate = bw_mult (v1_BandwidthEstimate s) (v1_pacing_gain s)
           in if v1_is_at_full_bandwidth s then Some (s\<lparr>v1_pacing_rate := target_rate\<rparr>)
              else if bw_IsZero (v1_pacing_rate s) \<and> \<not> delta_IsZero (rs_min_rtt rtt)
              then Some (s\<lparr>v1_pacing_rate := FromBitsPerSecond INITIAL_PACING_RATE\<rparr>)
              else do {
                s \<leftarrow> detect_overshoot lost_bytes target_rate rtt s;
                Some (s\<lparr>v1_pacing_rate := max (v1_pacing_rate s) target_rate\<rparr>) })"

definition CalculateCongestionWindow :: "byte_count \<Rightarrow> byte_count \<Rightarrow> rtt_stats \<Rightarrow> bbr_sender \<Rightarrow> bbr_sender" where
  "CalculateCongestionWindow bytes_acked excess_acked rtt s =
     (if v1_mode s = BBR_PROBE_RTT then s
      else let target_window = v1_GetTargetCongestionWindow (v1_congestion_window_gain s) rtt s;
               target_window = (if \<not> v1_is_at_full_bandwidth s \<and> v1_enable_ack_aggregation_during_startup s
                                then target_window + excess_acked else target_window);
               w = (if v1_is_at_full_bandwidth s then min target_window (v1_congestion_window s + bytes_acked)
                    else if v1_congestion_window s < target_window
                         \<or> bs_total_bytes_acked (v1_sampler s) < v1_initial_congestion_window s
                    then v1_congestion_window s + bytes_acked
                    else v1_congestion_window s);
               w = max w (v1_min_congestion_window s)
           in s\<lparr>v1_congestion_window := min w (v1_max_congestion_window s)\<rparr>)"

definition CalculateRecoveryWindow :: "byte_count \<Rightarrow> byte_count \<Rightarrow> byte_count \<Rightarrow> bbr_sender \<Rightarrow> bbr_sender" where
  "CalculateRecoveryWindow bytes_acked lost_bytes bytes_in_flight s =
     (if v1_recovery_state s = NOT_IN_RECOVERY then s
      else if v1_recovery_window s = 0
      then s\<lparr>v1_recovery_window := max (v1_min_congestion_window s) (bytes_in_flight + bytes_acked)\<rparr>
      else let w = (if lost_bytes \<le> v1_recovery_window s then v1_recovery_window s - lost_bytes else kMaxSegmentSize);
               w = (if v1_recovery_state s = RECOVERY_GROWTH then w + bytes_acked else w);
               w = max w (bytes_in_flight + bytes_acked)
           in s\<lparr>v1_recovery_window := max (v1_min_congestion_window s) w\<rparr>)"

subsection \<open>Events\<close>

definition BbrSender :: "quic_time \<Rightarrow> packet_count \<Rightarrow> packet_count \<Rightarrow> conn_stats \<Rightarrow> (nat \<Rightarrow> u64) \<Rightarrow> bbr_sender" where
  "BbrSender now initial_tcp_congestion_window max_tcp_congestion_window stats rng =
     (let initial_window = initial_tcp_congestion_window * kDefaultTCPMSS;
          max_window = max_tcp_congestion_window * kDefaultTCPMSS
      in set_high_cwnd_gain kDerivedHighCWNDGain (EnterStartupMode now
        \<lparr>v1_stats = stats, v1_mode = BBR_STARTUP, v1_sampler = bs_new kBandwidthWindowSize,
         v1_round_trip_count = 0, v1_last_sent_packet = UninitializedPacketNumber,
         v1_current_round_trip_end = UninitializedPacketNumber, v1_num_loss_events_in_round = 0,
         v1_bytes_lost_in_round = 0, v1_max_bandwidth = wf_new kBandwidthWindowSize bw_Zero 0,
         v1_min_rtt = delta_Zero, v1_min_rtt_timestamp = time_Zero, v1_congestion_window = initial_window,
         v1_initial_congestion_window = initial_window, v1_max_congestion_window = max_window,
         v1_min_congestion_window = v1_kDefaultMinimumCongestionWindow, v1_high_gain = kDefaultHighGain,
         v1_high_cwnd_gain = kDefaultHighGain, v1_drain_gain = f32 (1 / kDefaultHighGain),
         v1_pacing_rate = bw_Zero, v1_pacing_gain = 1, v1_congestion_window_gain = 1,
         v1_congestion_window_gain_constant = 2,
         v1_num_startup_rtts = kRoundTripsWithoutGrowthBeforeExitingStartup, v1_cycle_current_offset = 0,
         v1_last_cycle_start = time_Zero, v1_is_at_full_bandwidth = False, v1_rounds_without_bandwidth_gain = 0,
         v1_bandwidth_at_last_round = bw_Zero, v1_exiting_quiescence = False, v1_exit_probe_rtt_at = time_Zero,
         v1_probe_rtt_round_passed = False, v1_last_sample_is_app_limited = False,
         v1_has_non_app_limited_sample = False, v1_recovery_state = NOT_IN_RECOVERY,
         v1_end_recovery_at = UninitializedPacketNumber, v1_recovery_window = max_window,
         v1_enable_ack_aggregation_during_startup = False, v1_expire_ack_aggregation_in_startup = False,
         v1_drain_to_target = False, v1_detect_overshooting = False,
         v1_bytes_lost_while_detecting_overshooting = 0, v1_bytes_lost_multiplier = 2,
         v1_cwnd_to_calculate_min_pacing_rate = initial_window, v1_rand = rng\<rparr>))"

definition v1_OnPacketSent :: "quic_time \<Rightarrow> byte_count \<Rightarrow> packet_number \<Rightarrow> byte_count \<Rightarrow> bbr_sender
    \<Rightarrow> bbr_sender option" where
  "v1_OnPacketSent sent_time bytes_in_flight packet_number bytes s = do {
     let s = (if v1_InSlowStart s
       then v1_upd_stats (\<lambda>st. st\<lparr>cs_slowstart_packets_sent := cs_slowstart_packets_sent st + 1,
                             cs_slowstart_bytes_sent := cs_slowstart_bytes_sent st + bytes\<rparr>) s
       else s);
     let s = s\<lparr>v1_last_sent_packet := packet_number\<rparr>;
     let s = (if bytes_in_flight = 0 \<and> bs_is_app_limited (v1_sampler s) then s\<lparr>v1_exiting_quiescence := True\<rparr> else s);
     b \<leftarrow> bs_OnPacketSent sent_time packet_number bytes bytes_in_flight (v1_sampler s);
     Some (s\<lparr>v1_sampler := b\<rparr>) }"

text \<open>The parts of \<open>OnCongestionEvent\<close>, in their order.\<close>

definition v1_event_round :: "acked_packet list \<Rightarrow> lost_packet list \<Rightarrow> bbr_sender \<Rightarrow> bbr_sender \<times> bool" where
  "v1_event_round acked_packets lost_packets s =
     (if acked_packets = [] then (s, False)
      else let last_acked_packet = ap_packet_number (last acked_packets);
               (s, is_round_start) = UpdateRoundTripCounter last_acked_packet s
           in (UpdateRecoveryState last_acked_packet (lost_packets \<noteq> []) is_round_start s, is_round_start))"

definition v1_event_filters :: "quic_time \<Rightarrow> byte_count \<Rightarrow> congestion_event_sample \<Rightarrow> bbr_sender
    \<Rightarrow> bbr_sender \<times> bool" where
  "v1_event_filters event_time total_bytes_acked_before sample s =
     (let s = (if sts_is_valid (ces_last_packet_send_state sample)
               then let s = s\<lparr>v1_last_sample_is_app_limited := sts_is_app_limited (ces_last_packet_send_state sample)\<rparr>;
                        s = s\<lparr>v1_has_non_app_limited_sample :=
                               v1_has_non_app_limited_sample s \<or> \<not> v1_last_sample_is_app_limited s\<rparr>
                    in v1_upd_stats (\<lambda>st. st\<lparr>cs_has_non_app_limited_sample := v1_has_non_app_limited_sample s\<rparr>) s
               else s);
          s = (if total_bytes_acked_before \<noteq> bs_total_bytes_acked (v1_sampler s)
                 \<and> (\<not> ces_sample_is_app_limited sample
                    \<or> wf_GetBest (v1_max_bandwidth s) < ces_sample_max_bandwidth sample)
               then s\<lparr>v1_max_bandwidth := wf_Update MaxFilter (ces_sample_max_bandwidth sample)
                         (v1_round_trip_count s) (v1_max_bandwidth s)\<rparr>
               else s)
      in if \<not> delta_IsInfinite (ces_sample_rtt sample)
         then MaybeUpdateMinRtt event_time (ces_sample_rtt sample) s else (s, False))"

definition v1_event_losses :: "lost_packet list \<Rightarrow> byte_count \<Rightarrow> bbr_sender \<Rightarrow> bbr_sender" where
  "v1_event_losses lost_packets lost_bytes s =
     (let s = (if v1_mode s = BBR_STARTUP
               then v1_upd_stats (\<lambda>st. st\<lparr>
                 cs_slowstart_packets_lost := cs_slowstart_packets_lost st + of_nat (length lost_packets),
                 cs_slowstart_bytes_lost := cs_slowstart_bytes_lost st + lost_bytes\<rparr>) s
               else s)
      in if lost_packets \<noteq> []
         then s\<lparr>v1_num_loss_events_in_round := i64 (v1_num_loss_events_in_round s + 1),
                v1_bytes_lost_in_round := v1_bytes_lost_in_round s + lost_bytes\<rparr>
         else s)"

definition v1_event_modes :: "quic_time \<Rightarrow> byte_count \<Rightarrow> bool \<Rightarrow> bool \<Rightarrow> bool \<Rightarrow> send_time_state \<Rightarrow> rtt_stats
    \<Rightarrow> byte_count \<Rightarrow> bbr_sender \<Rightarrow> bbr_sender" where
  "v1_event_modes event_time prior_in_flight has_losses is_round_start min_rtt_expired last_packet_send_state
      rtt bytes_in_flight s =
     (let s = (if v1_mode s = BBR_PROBE_BW
               then UpdateGainCyclePhase event_time prior_in_flight has_losses rtt bytes_in_flight s else s);
          s = (if is_round_start \<and> \<not> v1_is_at_full_bandwidth s
               then CheckIfFullBandwidthReached last_packet_send_state s else s);
          s = MaybeExitStartupOrDrain event_time rtt bytes_in_flight s
      in MaybeEnterOrExitProbeRtt event_time is_round_start min_rtt_expired bytes_in_flight s)"

definition v1_OnCongestionEvent :: "rtt_stats \<Rightarrow> unacked_map \<Rightarrow> byte_count \<Rightarrow> quic_time \<Rightarrow> acked_packet list
    \<Rightarrow> lost_packet list \<Rightarrow> bbr_sender \<Rightarrow> bbr_sender option" where
  "v1_OnCongestionEvent rtt m prior_in_flight event_time acked_packets lost_packets s = do {
     let total_bytes_acked_before = bs_total_bytes_acked (v1_sampler s);
     let total_bytes_lost_before = bs_total_bytes_lost (v1_sampler s);
     let (s, is_round_start) = v1_event_round acked_packets lost_packets s;
     (b, sample) \<leftarrow> bs_OnCongestionEvent event_time acked_packets lost_packets (wf_GetBest (v1_max_bandwidth s))
       bw_Infinite (v1_round_trip_count s) (v1_sampler s);
     let s = s\<lparr>v1_sampler := b\<rparr>;
     let (s, min_rtt_expired) = v1_event_filters event_time total_bytes_acked_before sample s;
     let lost_bytes = bs_total_bytes_lost (v1_sampler s) - total_bytes_lost_before;
     let s = v1_event_losses lost_packets lost_bytes s;
     let s = v1_event_modes event_time prior_in_flight (lost_packets \<noteq> []) is_round_start min_rtt_expired
       (ces_last_packet_send_state sample) rtt (um_bytes_in_flight m) s;
     let bytes_acked = bs_total_bytes_acked (v1_sampler s) - total_bytes_acked_before;
     s \<leftarrow> CalculatePacingRate lost_bytes rtt s;
     let s = CalculateCongestionWindow bytes_acked (ces_extra_acked sample) rtt s;
     let s = CalculateRecoveryWindow bytes_acked lost_bytes (um_bytes_in_flight m) s;
     b \<leftarrow> bs_RemoveObsoletePackets (um_least_unacked m) (v1_sampler s);
     let s = s\<lparr>v1_sampler := b\<rparr>;
     Some (if is_round_start then s\<lparr>v1_num_loss_events_in_round := 0, v1_bytes_lost_in_round := 0\<rparr> else s) }"

subsection \<open>As a send algorithm\<close>

definition bbr_ops :: "bbr_sender send_algorithm_ops" where
  "bbr_ops = \<lparr>
     sa_OnCongestionEvent = \<lambda>rtt m rtt_updated prior t acked lost (stats, s).
       map_option (\<lambda>s. (v1_stats s, s)) (v1_OnCongestionEvent rtt m prior t acked lost (s\<lparr>v1_stats := stats\<rparr>)),
     sa_OnPacketSent = \<lambda>t bif pn n (stats, s).
       map_option (\<lambda>s. (v1_stats s, s)) (v1_OnPacketSent t bif pn n (s\<lparr>v1_stats := stats\<rparr>)),
     sa_CanSend = v1_CanSend, sa_PacingRate = \<lambda>rtt bif s. Some (v1_PacingRate s),
     sa_BandwidthEstimate = \<lambda>rtt s. Some (v1_BandwidthEstimate s), sa_GetCongestionWindow = v1_GetCongestionWindow,
     sa_InSlowStart = v1_InSlowStart, sa_InRecovery = v1_InRecovery,
     sa_GetCongestionControlType = \<lambda>s. kBBR, sa_GetSlowStartThreshold = \<lambda>s. 0,
     sa_OnRetransmissionTimeout = \<lambda>packets_retransmitted s. s\<rparr>"

text \<open>The case \<open>kBBR\<close> of \<open>SendAlgorithmInterface::Create\<close>.\<close>

definition Create_BBR :: "quic_time \<Rightarrow> (nat \<Rightarrow> u64) \<Rightarrow> rtt_stats \<Rightarrow> conn_stats \<Rightarrow> packet_count
    \<Rightarrow> (conn_stats \<times> bbr_sender) option" where
  "Create_BBR now rng rtt stats initial_congestion_window =
     (let s = BbrSender now initial_congestion_window max_congestion_window stats rng in Some (v1_stats s, s))"

subsection \<open>The state machine of the modes\<close>

text \<open>A mode and whether the full bandwidth has been reached.\<close>

inductive v1_step :: "bbr_mode \<times> bool \<Rightarrow> bbr_mode \<times> bool \<Rightarrow> bool" where
  full_bandwidth: "m \<in> {BBR_STARTUP, BBR_PROBE_RTT} \<Longrightarrow> v1_step (m, False) (m, True)"
| exit_startup: "v1_step (BBR_STARTUP, True) (BBR_DRAIN, True)"
| drained: "v1_step (BBR_DRAIN, True) (BBR_PROBE_BW, True)"
| probe_rtt: "m \<noteq> BBR_PROBE_RTT \<Longrightarrow> v1_step (m, f) (BBR_PROBE_RTT, f)"
| back_to_startup: "v1_step (BBR_PROBE_RTT, False) (BBR_STARTUP, False)"
| back_to_probe_bw: "v1_step (BBR_PROBE_RTT, True) (BBR_PROBE_BW, True)"

code_pred v1_step .

inductive_cases v1_stepE [elim!]: "v1_step (m, f) (m', f')"

inductive_simps v1_step_simps [simp]: "v1_step (BBR_STARTUP, f) x" "v1_step (BBR_DRAIN, f) x"
  "v1_step (BBR_PROBE_BW, f) x" "v1_step (BBR_PROBE_RTT, f) x"

fun modes_ok :: "bbr_mode \<times> bool \<Rightarrow> bool" where
  "modes_ok (m, f) \<longleftrightarrow> (m = BBR_DRAIN \<or> m = BBR_PROBE_BW \<longrightarrow> f)"

lemma modes_ok_step: "v1_step x y \<Longrightarrow> modes_ok x \<Longrightarrow> modes_ok y"
  by (cases rule: v1_step.cases) auto

lemma modes_ok_steps: "v1_step\<^sup>*\<^sup>* x y \<Longrightarrow> modes_ok x \<Longrightarrow> modes_ok y"
proof (induction rule: rtranclp_induct)
  case (step y z)
  then show ?case using modes_ok_step [OF step.hyps(2)] by blast
qed

lemma full_bandwidth_stays: "v1_step\<^sup>*\<^sup>* x y \<Longrightarrow> snd x \<Longrightarrow> snd y"
proof (induction rule: rtranclp_induct)
  case (step y z)
  then show ?case by (cases y; cases z) auto
qed

lemma startup_left_for_good: "v1_step\<^sup>*\<^sup>* x y \<Longrightarrow> snd x \<Longrightarrow> fst x \<noteq> BBR_STARTUP \<Longrightarrow> fst y \<noteq> BBR_STARTUP"
proof (induction rule: rtranclp_induct)
  case (step y z)
  then have "snd y" using full_bandwidth_stays by blast
  with step show ?case by (cases y; cases z) auto
qed

definition v1_modes :: "bbr_sender \<Rightarrow> bbr_mode \<times> bool" where
  "v1_modes s = (v1_mode s, v1_is_at_full_bandwidth s)"

subsection \<open>The invariant\<close>

definition v1_consts :: "bbr_sender \<Rightarrow> byte_count \<times> byte_count \<times> bool \<times> bool \<times> bool" where
  "v1_consts s = (v1_min_congestion_window s, v1_max_congestion_window s, v1_drain_to_target s,
     v1_detect_overshooting s, v1_enable_ack_aggregation_during_startup s)"

definition v1_inv :: "bbr_sender \<Rightarrow> bool" where
  "v1_inv s \<longleftrightarrow> bs_inv (v1_sampler s) \<and> v1_min_congestion_window s = 5840
     \<and> 5840 \<le> v1_congestion_window s \<and> v1_congestion_window s \<le> v1_max_congestion_window s
     \<and> \<not> v1_detect_overshooting s \<and> \<not> v1_drain_to_target s \<and> v1_cycle_current_offset s < 8
     \<and> modes_ok (v1_modes s)
     \<and> (v1_mode s = BBR_PROBE_BW \<longrightarrow> v1_pacing_gain s = kPacingGain ! v1_cycle_current_offset s)"

definition v1_ok :: "bbr_sender \<Rightarrow> bool" where
  "v1_ok s \<longleftrightarrow> v1_inv s \<and> (v1_mode s = BBR_STARTUP \<longrightarrow> \<not> v1_is_at_full_bandwidth s)
     \<and> (v1_InRecovery s \<longrightarrow> 5840 \<le> v1_recovery_window s)"

lemma v1_upd_stats_simps [simp]:
  "v1_inv (v1_upd_stats f s) = v1_inv s" "v1_modes (v1_upd_stats f s) = v1_modes s"
  "v1_consts (v1_upd_stats f s) = v1_consts s" "v1_mode (v1_upd_stats f s) = v1_mode s"
  "v1_is_at_full_bandwidth (v1_upd_stats f s) = v1_is_at_full_bandwidth s"
  "v1_sampler (v1_upd_stats f s) = v1_sampler s"
  "v1_recovery_state (v1_upd_stats f s) = v1_recovery_state s"
  "v1_recovery_window (v1_upd_stats f s) = v1_recovery_window s"
  "v1_InRecovery (v1_upd_stats f s) = v1_InRecovery s"
  by (simp_all add: v1_upd_stats_def v1_inv_def v1_modes_def v1_consts_def v1_InRecovery_def)

lemma v1_irrelevant [simp]:
  "v1_inv (s\<lparr>v1_max_bandwidth := f\<rparr>) = v1_inv s" "v1_modes (s\<lparr>v1_max_bandwidth := f\<rparr>) = v1_modes s"
  "v1_consts (s\<lparr>v1_max_bandwidth := f\<rparr>) = v1_consts s"
  "v1_inv (s\<lparr>v1_exiting_quiescence := b\<rparr>) = v1_inv s" "v1_modes (s\<lparr>v1_exiting_quiescence := b\<rparr>) = v1_modes s"
  "v1_consts (s\<lparr>v1_exiting_quiescence := b\<rparr>) = v1_consts s"
  "v1_inv (s\<lparr>v1_pacing_rate := p\<rparr>) = v1_inv s" "v1_modes (s\<lparr>v1_pacing_rate := p\<rparr>) = v1_modes s"
  "v1_consts (s\<lparr>v1_pacing_rate := p\<rparr>) = v1_consts s"
  "v1_inv (s\<lparr>v1_stats := st\<rparr>) = v1_inv s" "v1_modes (s\<lparr>v1_stats := st\<rparr>) = v1_modes s"
  "v1_consts (s\<lparr>v1_stats := st\<rparr>) = v1_consts s" "v1_InRecovery (s\<lparr>v1_stats := st\<rparr>) = v1_InRecovery s"
  by (simp_all add: v1_inv_def v1_modes_def v1_consts_def v1_InRecovery_def)

lemma v1_event_round_inv:
  assumes "v1_inv s" "v1_event_round acked lost s = (s', b)"
  shows "v1_inv s'" "v1_modes s' = v1_modes s" "v1_consts s' = v1_consts s" "v1_sampler s' = v1_sampler s"
proof -
  have c: "v1_inv u \<Longrightarrow> v1_inv (fst (UpdateRoundTripCounter pn u)) \<and> v1_modes (fst (UpdateRoundTripCounter pn u)) = v1_modes u
      \<and> v1_consts (fst (UpdateRoundTripCounter pn u)) = v1_consts u \<and> v1_sampler (fst (UpdateRoundTripCounter pn u)) = v1_sampler u"
    for pn u
    by (simp add: UpdateRoundTripCounter_def Let_def v1_inv_def v1_modes_def v1_consts_def v1_upd_stats_def)
  have r: "v1_inv u \<Longrightarrow> v1_inv (UpdateRecoveryState pn l b u) \<and> v1_modes (UpdateRecoveryState pn l b u) = v1_modes u
      \<and> v1_consts (UpdateRecoveryState pn l b u) = v1_consts u \<and> v1_sampler (UpdateRecoveryState pn l b u) = v1_sampler u"
    for pn l b u
    by (cases "v1_recovery_state u") (auto simp: UpdateRecoveryState_def Let_def v1_inv_def v1_modes_def v1_consts_def)
  show "v1_inv s'" "v1_modes s' = v1_modes s" "v1_consts s' = v1_consts s" "v1_sampler s' = v1_sampler s"
    using assms c [of s "ap_packet_number (last acked)"] r
    by (auto simp: v1_event_round_def Let_def split: if_splits prod.splits)
qed

lemma v1_event_filters_inv:
  assumes "v1_inv s" "v1_event_filters t n e s = (s', b)"
  shows "v1_inv s'" "v1_modes s' = v1_modes s" "v1_consts s' = v1_consts s" "v1_sampler s' = v1_sampler s"
proof -
  have m: "v1_inv u \<Longrightarrow> v1_inv (fst (MaybeUpdateMinRtt t r u)) \<and> v1_modes (fst (MaybeUpdateMinRtt t r u)) = v1_modes u
      \<and> v1_consts (fst (MaybeUpdateMinRtt t r u)) = v1_consts u \<and> v1_sampler (fst (MaybeUpdateMinRtt t r u)) = v1_sampler u"
    for r u
    by (simp add: MaybeUpdateMinRtt_def Let_def v1_inv_def v1_modes_def v1_consts_def)
  define s1 where "s1 = (if sts_is_valid (ces_last_packet_send_state e)
     then let s = s\<lparr>v1_last_sample_is_app_limited := sts_is_app_limited (ces_last_packet_send_state e)\<rparr>;
              s = s\<lparr>v1_has_non_app_limited_sample := v1_has_non_app_limited_sample s \<or> \<not> v1_last_sample_is_app_limited s\<rparr>
          in v1_upd_stats (\<lambda>st. st\<lparr>cs_has_non_app_limited_sample := v1_has_non_app_limited_sample s\<rparr>) s
     else s)"
  define s2 where "s2 = (if n \<noteq> bs_total_bytes_acked (v1_sampler s1)
       \<and> (\<not> ces_sample_is_app_limited e \<or> wf_GetBest (v1_max_bandwidth s1) < ces_sample_max_bandwidth e)
     then s1\<lparr>v1_max_bandwidth := wf_Update MaxFilter (ces_sample_max_bandwidth e)
               (v1_round_trip_count s1) (v1_max_bandwidth s1)\<rparr> else s1)"
  have s1: "v1_inv s1 \<and> v1_modes s1 = v1_modes s \<and> v1_consts s1 = v1_consts s \<and> v1_sampler s1 = v1_sampler s"
    using assms(1) by (simp add: s1_def Let_def v1_inv_def v1_modes_def v1_consts_def v1_upd_stats_def)
  then have s2: "v1_inv s2 \<and> v1_modes s2 = v1_modes s \<and> v1_consts s2 = v1_consts s \<and> v1_sampler s2 = v1_sampler s"
    by (simp add: s2_def)
  have "v1_event_filters t n e s = (if \<not> delta_IsInfinite (ces_sample_rtt e)
      then MaybeUpdateMinRtt t (ces_sample_rtt e) s2 else (s2, False))"
    unfolding v1_event_filters_def s1_def [symmetric] unfolding s2_def by (simp add: Let_def)
  with assms(2) s2 m [of s2 "ces_sample_rtt e"]
  show "v1_inv s'" "v1_modes s' = v1_modes s" "v1_consts s' = v1_consts s" "v1_sampler s' = v1_sampler s"
    by (auto split: if_splits)
qed

lemma v1_event_losses_inv:
  assumes "v1_inv s"
  shows "v1_inv (v1_event_losses lost n s)" "v1_modes (v1_event_losses lost n s) = v1_modes s"
    "v1_consts (v1_event_losses lost n s) = v1_consts s" "v1_sampler (v1_event_losses lost n s) = v1_sampler s"
  using assms by (simp_all add: v1_event_losses_def Let_def v1_inv_def v1_modes_def v1_consts_def v1_upd_stats_def)

lemma kGainCycleLength_simp [simp]: "kGainCycleLength = 8"
  by (simp add: kGainCycleLength_def kPacingGain_def)

lemma EnterProbeBandwidthMode_spec:
  "v1_inv s \<Longrightarrow> v1_is_at_full_bandwidth s \<Longrightarrow> v1_inv (EnterProbeBandwidthMode now s)"
  "v1_modes (EnterProbeBandwidthMode now s) = (BBR_PROBE_BW, v1_is_at_full_bandwidth s)"
  "v1_consts (EnterProbeBandwidthMode now s) = v1_consts s"
  "v1_sampler (EnterProbeBandwidthMode now s) = v1_sampler s"
proof -
  have "unat (v1_rand s 0) mod 7 < 7" by simp
  then show "v1_inv s \<Longrightarrow> v1_is_at_full_bandwidth s \<Longrightarrow> v1_inv (EnterProbeBandwidthMode now s)"
    by (simp add: EnterProbeBandwidthMode_def Let_def v1_inv_def v1_modes_def)
qed (simp_all add: EnterProbeBandwidthMode_def Let_def v1_modes_def v1_consts_def)

lemma EnterStartupMode_spec:
  "v1_inv s \<Longrightarrow> v1_inv (EnterStartupMode now s)"
  "v1_modes (EnterStartupMode now s) = (BBR_STARTUP, v1_is_at_full_bandwidth s)"
  "v1_consts (EnterStartupMode now s) = v1_consts s"
  "v1_sampler (EnterStartupMode now s) = v1_sampler s"
  by (simp_all add: EnterStartupMode_def v1_upd_stats_def v1_inv_def v1_modes_def v1_consts_def)

lemma OnExitStartup_spec [simp]:
  "v1_inv (OnExitStartup now s) = v1_inv s" "v1_modes (OnExitStartup now s) = v1_modes s"
  "v1_consts (OnExitStartup now s) = v1_consts s" "v1_sampler (OnExitStartup now s) = v1_sampler s"
  "v1_mode (OnExitStartup now s) = v1_mode s" "v1_is_at_full_bandwidth (OnExitStartup now s) = v1_is_at_full_bandwidth s"
  by (simp_all add: OnExitStartup_def)

lemma UpdateGainCyclePhase_spec:
  assumes "v1_inv s"
  shows "v1_inv (UpdateGainCyclePhase now prior l rtt bif s)"
    "v1_modes (UpdateGainCyclePhase now prior l rtt bif s) = v1_modes s"
    "v1_consts (UpdateGainCyclePhase now prior l rtt bif s) = v1_consts s"
    "v1_sampler (UpdateGainCyclePhase now prior l rtt bif s) = v1_sampler s"
proof -
  define b where "b = (let should_advance = GetMinRtt rtt s < time_diff now (v1_last_cycle_start s);
          should_advance = (if 1 < v1_pacing_gain s \<and> \<not> l
              \<and> prior < v1_GetTargetCongestionWindow (v1_pacing_gain s) rtt s then False else should_advance)
      in if v1_pacing_gain s < 1 \<and> bif \<le> v1_GetTargetCongestionWindow 1 rtt s then True else should_advance)"
  define s1 where "s1 = (let s = s\<lparr>v1_cycle_current_offset := (v1_cycle_current_offset s + 1) mod kGainCycleLength\<rparr>
      in if v1_cycle_current_offset s = 0
         then v1_upd_stats (\<lambda>st. st\<lparr>cs_bbr_num_cycles := cs_bbr_num_cycles st + 1\<rparr>) s else s)"
  have d: "\<not> v1_drain_to_target s" using assms by (simp add: v1_inv_def)
  have d1: "v1_drain_to_target s1 = v1_drain_to_target s"
    by (simp add: s1_def Let_def v1_upd_stats_def)
  have e: "UpdateGainCyclePhase now prior l rtt bif s = (if b then
      s1\<lparr>v1_last_cycle_start := now, v1_pacing_gain := kPacingGain ! v1_cycle_current_offset s1\<rparr> else s)"
    using d d1 unfolding UpdateGainCyclePhase_def b_def s1_def by (simp add: Let_def)
  have s1: "v1_inv (s1\<lparr>v1_last_cycle_start := now, v1_pacing_gain := kPacingGain ! v1_cycle_current_offset s1\<rparr>)
      \<and> v1_modes s1 = v1_modes s \<and> v1_consts s1 = v1_consts s \<and> v1_sampler s1 = v1_sampler s"
    using assms by (simp add: s1_def Let_def v1_inv_def v1_modes_def v1_consts_def v1_upd_stats_def)
  show "v1_inv (UpdateGainCyclePhase now prior l rtt bif s)"
    "v1_modes (UpdateGainCyclePhase now prior l rtt bif s) = v1_modes s"
    "v1_consts (UpdateGainCyclePhase now prior l rtt bif s) = v1_consts s"
    "v1_sampler (UpdateGainCyclePhase now prior l rtt bif s) = v1_sampler s"
    using s1 assms by (simp_all add: e v1_modes_def v1_consts_def)
qed

lemma CheckIfFullBandwidthReached_spec:
  assumes "v1_inv s"
  shows "v1_inv (CheckIfFullBandwidthReached st s)"
    "v1_mode (CheckIfFullBandwidthReached st s) = v1_mode s"
    "v1_is_at_full_bandwidth s \<Longrightarrow> v1_is_at_full_bandwidth (CheckIfFullBandwidthReached st s)"
    "v1_consts (CheckIfFullBandwidthReached st s) = v1_consts s"
    "bs_total_bytes_lost (v1_sampler (CheckIfFullBandwidthReached st s)) = bs_total_bytes_lost (v1_sampler s)"
proof -
  have r: "bs_inv (ResetMaxAckHeightTracker n r b) = bs_inv b" for n r b
    by (simp add: ResetMaxAckHeightTracker_def bs_inv_def)
  show "v1_inv (CheckIfFullBandwidthReached st s)" using assms r
    by (auto simp: CheckIfFullBandwidthReached_def ShouldExitStartupDueToLoss_def Let_def v1_inv_def v1_modes_def v1_upd_stats_def)
  show "v1_mode (CheckIfFullBandwidthReached st s) = v1_mode s"
    "v1_is_at_full_bandwidth s \<Longrightarrow> v1_is_at_full_bandwidth (CheckIfFullBandwidthReached st s)"
    "v1_consts (CheckIfFullBandwidthReached st s) = v1_consts s"
    "bs_total_bytes_lost (v1_sampler (CheckIfFullBandwidthReached st s)) = bs_total_bytes_lost (v1_sampler s)"
    by (simp_all add: CheckIfFullBandwidthReached_def ShouldExitStartupDueToLoss_def Let_def v1_consts_def
        v1_upd_stats_def ResetMaxAckHeightTracker_def)
qed

lemma MaybeExitStartupOrDrain_spec:
  assumes "v1_inv s"
  defines "s' \<equiv> \<lambda>now rtt bif. MaybeExitStartupOrDrain now rtt bif s"
  shows "v1_inv (s' now rtt bif)" "v1_step\<^sup>*\<^sup>* (v1_modes s) (v1_modes (s' now rtt bif))"
    "v1_consts (s' now rtt bif) = v1_consts s" "v1_sampler (s' now rtt bif) = v1_sampler s"
    "v1_mode (s' now rtt bif) = BBR_STARTUP \<Longrightarrow> \<not> v1_is_at_full_bandwidth (s' now rtt bif)"
proof -
  define s1 where "s1 = (if v1_mode s = BBR_STARTUP \<and> v1_is_at_full_bandwidth s
      then (OnExitStartup now s)\<lparr>v1_mode := BBR_DRAIN, v1_pacing_gain := v1_drain_gain s,
             v1_congestion_window_gain := v1_high_cwnd_gain s\<rparr> else s)"
  have e: "s' now rtt bif = (if v1_mode s1 = BBR_DRAIN \<and> bif \<le> v1_GetTargetCongestionWindow 1 rtt s1
      then EnterProbeBandwidthMode now s1 else s1)"
    by (simp add: s'_def MaybeExitStartupOrDrain_def s1_def Let_def OnExitStartup_def v1_upd_stats_def)
  have s1: "v1_inv s1" "v1_step\<^sup>*\<^sup>* (v1_modes s) (v1_modes s1)" "v1_consts s1 = v1_consts s" "v1_sampler s1 = v1_sampler s"
    "v1_mode s1 = BBR_STARTUP \<Longrightarrow> \<not> v1_is_at_full_bandwidth s1"
    using assms(1) by (auto simp: s1_def v1_inv_def v1_modes_def v1_consts_def OnExitStartup_def v1_upd_stats_def)
  have f: "v1_mode s1 = BBR_DRAIN \<Longrightarrow> v1_is_at_full_bandwidth s1" using s1(1) by (simp add: v1_inv_def v1_modes_def)
  have d: "v1_step\<^sup>*\<^sup>* (v1_modes s) (BBR_PROBE_BW, True)" if "v1_mode s1 = BBR_DRAIN"
    using s1(2) f [OF that] that by (auto simp: v1_modes_def intro: rtranclp.rtrancl_into_rtrancl)
  show "v1_inv (s' now rtt bif)" "v1_consts (s' now rtt bif) = v1_consts s" "v1_sampler (s' now rtt bif) = v1_sampler s"
    using s1 f EnterProbeBandwidthMode_spec(1) [of s1 now] EnterProbeBandwidthMode_spec(2-4) [of now s1] by (simp_all add: e)
  show "v1_step\<^sup>*\<^sup>* (v1_modes s) (v1_modes (s' now rtt bif))"
    using s1(2) f d EnterProbeBandwidthMode_spec(2) [of now s1] by (simp add: e)
  show "\<not> v1_is_at_full_bandwidth (s' now rtt bif)" if "v1_mode (s' now rtt bif) = BBR_STARTUP"
    using that s1(5) EnterProbeBandwidthMode_spec(2) [of now s1] by (auto simp: e v1_modes_def split: if_splits)
qed

text \<open>A list of the three parts of \<open>MaybeEnterOrExitProbeRtt\<close>.\<close>

lemma MaybeEnterOrExitProbeRtt_spec:
  assumes "v1_inv s" "v1_mode s = BBR_STARTUP \<Longrightarrow> \<not> v1_is_at_full_bandwidth s"
  defines "s' \<equiv> \<lambda>now r x bif. MaybeEnterOrExitProbeRtt now r x bif s"
  shows "v1_inv (s' now r x bif)" "v1_step\<^sup>*\<^sup>* (v1_modes s) (v1_modes (s' now r x bif))"
    "v1_consts (s' now r x bif) = v1_consts s"
    "bs_total_bytes_lost (v1_sampler (s' now r x bif)) = bs_total_bytes_lost (v1_sampler s)"
    "v1_mode (s' now r x bif) = BBR_STARTUP \<Longrightarrow> \<not> v1_is_at_full_bandwidth (s' now r x bif)"
proof -
  define s1 where "s1 = (if x \<and> \<not> v1_exiting_quiescence s \<and> v1_mode s \<noteq> BBR_PROBE_RTT
      then (if v1_InSlowStart s then OnExitStartup now s else s)
        \<lparr>v1_mode := BBR_PROBE_RTT, v1_pacing_gain := 1, v1_exit_probe_rtt_at := time_Zero\<rparr> else s)"
  have s1: "v1_inv s1" "v1_step\<^sup>*\<^sup>* (v1_modes s) (v1_modes s1)" "v1_consts s1 = v1_consts s" "v1_sampler s1 = v1_sampler s"
    "v1_mode s1 = BBR_STARTUP \<Longrightarrow> \<not> v1_is_at_full_bandwidth s1"
    using assms(1,2)
    by (auto simp: s1_def v1_inv_def v1_modes_def v1_consts_def OnExitStartup_def v1_upd_stats_def
        intro!: r_into_rtranclp probe_rtt)
  define s2 where "s2 = (let s = s1\<lparr>v1_sampler := bs_OnAppLimited (v1_sampler s1)\<rparr>
      in if v1_exit_probe_rtt_at s = time_Zero
         then if bif < ProbeRttCongestionWindow s + kMaxOutgoingPacketSize
              then s\<lparr>v1_exit_probe_rtt_at := time_plus now kProbeRttTime, v1_probe_rtt_round_passed := False\<rparr> else s
         else if r then s\<lparr>v1_probe_rtt_round_passed := True\<rparr> else s)"
  have s2: "v1_inv s2" "v1_modes s2 = v1_modes s1" "v1_consts s2 = v1_consts s1"
    "bs_total_bytes_lost (v1_sampler s2) = bs_total_bytes_lost (v1_sampler s1)"
    "v1_is_at_full_bandwidth s2 = v1_is_at_full_bandwidth s1"
    using s1(1) bs_inv_app_limited [of "v1_sampler s1"]
    by (auto simp: s2_def Let_def v1_inv_def v1_modes_def v1_consts_def bs_OnAppLimited_def)
  define u where "u = s2\<lparr>v1_min_rtt_timestamp := now\<rparr>"
  have u: "v1_inv u" "v1_modes u = v1_modes s2" "v1_consts u = v1_consts s2" "v1_sampler u = v1_sampler s2"
    "v1_is_at_full_bandwidth u = v1_is_at_full_bandwidth s2"
    using s2(1) by (simp_all add: u_def v1_inv_def v1_modes_def v1_consts_def)
  define s3 where "s3 = (if v1_mode s1 = BBR_PROBE_RTT
      then if v1_exit_probe_rtt_at s1 \<noteq> time_Zero \<and> v1_exit_probe_rtt_at s2 \<le> now \<and> v1_probe_rtt_round_passed s2
           then if \<not> v1_is_at_full_bandwidth s2 then EnterStartupMode now u else EnterProbeBandwidthMode now u
           else s2
      else s1)"
  have e: "s' now r x bif = s3\<lparr>v1_exiting_quiescence := False\<rparr>"
  proof -
    have l: "(if x \<and> \<not> v1_exiting_quiescence s \<and> v1_mode s \<noteq> BBR_PROBE_RTT
         then let s = (if v1_InSlowStart s then OnExitStartup now s else s)
              in s\<lparr>v1_mode := BBR_PROBE_RTT, v1_pacing_gain := 1, v1_exit_probe_rtt_at := time_Zero\<rparr>
         else s) = s1" by (simp add: s1_def Let_def)
    show ?thesis unfolding s'_def MaybeEnterOrExitProbeRtt_def l
      by (simp add: s3_def s2_def u_def Let_def cong: if_cong)
  qed
  have p: "v1_modes s1 = (BBR_PROBE_RTT, v1_is_at_full_bandwidth s1)" if "v1_mode s1 = BBR_PROBE_RTT"
    using that by (simp add: v1_modes_def)
  have a: "v1_step\<^sup>*\<^sup>* (v1_modes s) y" if "v1_step (v1_modes s1) y" for y
    using s1(2) that by (rule rtranclp.rtrancl_into_rtrancl)
  note ent = EnterStartupMode_spec(1) [of u now] EnterStartupMode_spec(2-4) [of now u]
    EnterProbeBandwidthMode_spec(1) [of u now] EnterProbeBandwidthMode_spec(2-4) [of now u]
  have s3: "v1_inv s3 \<and> v1_step\<^sup>*\<^sup>* (v1_modes s) (v1_modes s3) \<and> v1_consts s3 = v1_consts s
      \<and> bs_total_bytes_lost (v1_sampler s3) = bs_total_bytes_lost (v1_sampler s)
      \<and> (v1_mode s3 = BBR_STARTUP \<longrightarrow> \<not> v1_is_at_full_bandwidth s3)"
  proof (cases "v1_mode s1 = BBR_PROBE_RTT \<and> v1_exit_probe_rtt_at s1 \<noteq> time_Zero \<and> v1_exit_probe_rtt_at s2 \<le> now
      \<and> v1_probe_rtt_round_passed s2")
    case True
    show ?thesis
    proof (cases "v1_is_at_full_bandwidth s2")
      case full: True
      then have "s3 = EnterProbeBandwidthMode now u" using True by (simp add: s3_def)
      moreover have "v1_step\<^sup>*\<^sup>* (v1_modes s) (BBR_PROBE_BW, True)" using True full p s2(5) a by simp
      ultimately show ?thesis using ent u s2 s1 full v1_modes_def [of "EnterProbeBandwidthMode now u"] by simp
    next
      case part: False
      then have "s3 = EnterStartupMode now u" using True by (simp add: s3_def)
      moreover have "v1_step\<^sup>*\<^sup>* (v1_modes s) (BBR_STARTUP, False)" using True part p s2(5) a by simp
      ultimately show ?thesis using ent u s2 s1 part v1_modes_def [of "EnterStartupMode now u"] by simp
    qed
  next
    case False
    then have "s3 = s2 \<or> s3 = s1" by (auto simp: s3_def)
    then show ?thesis using s2 s1 by (auto simp: v1_modes_def)
  qed
  then show "v1_inv (s' now r x bif)" "v1_step\<^sup>*\<^sup>* (v1_modes s) (v1_modes (s' now r x bif))"
    "v1_consts (s' now r x bif) = v1_consts s"
    "bs_total_bytes_lost (v1_sampler (s' now r x bif)) = bs_total_bytes_lost (v1_sampler s)"
    by (simp_all add: e)
  show "\<not> v1_is_at_full_bandwidth (s' now r x bif)" if "v1_mode (s' now r x bif) = BBR_STARTUP"
    using s3 that by (simp add: e)
qed

lemma CheckIfFullBandwidthReached_step:
  assumes "v1_inv s"
  shows "v1_step\<^sup>*\<^sup>* (v1_modes s) (v1_modes (CheckIfFullBandwidthReached st s))"
proof -
  note c = CheckIfFullBandwidthReached_spec [OF assms, of st]
  show ?thesis
  proof (cases "v1_is_at_full_bandwidth (CheckIfFullBandwidthReached st s) = v1_is_at_full_bandwidth s")
    case True
    then show ?thesis using c(2) by (simp add: v1_modes_def)
  next
    case False
    then have f: "\<not> v1_is_at_full_bandwidth s" "v1_is_at_full_bandwidth (CheckIfFullBandwidthReached st s)"
      using c(3) by blast+
    then have "v1_mode s \<in> {BBR_STARTUP, BBR_PROBE_RTT}"
      using assms by (cases "v1_mode s") (simp_all add: v1_inv_def v1_modes_def)
    then have "v1_step (v1_mode s, False) (v1_mode s, True)" by (rule full_bandwidth)
    then show ?thesis using f c(2) by (simp add: v1_modes_def r_into_rtranclp)
  qed
qed

lemma v1_event_modes_spec:
  assumes "v1_inv s"
  defines "s' \<equiv> \<lambda>t prior l r x st rtt bif. v1_event_modes t prior l r x st rtt bif s"
  shows "v1_inv (s' t prior l r x st rtt bif)"
    "v1_step\<^sup>*\<^sup>* (v1_modes s) (v1_modes (s' t prior l r x st rtt bif))"
    "v1_consts (s' t prior l r x st rtt bif) = v1_consts s"
    "v1_mode (s' t prior l r x st rtt bif) = BBR_STARTUP
      \<Longrightarrow> \<not> v1_is_at_full_bandwidth (s' t prior l r x st rtt bif)"
proof -
  define s1 where "s1 = (if v1_mode s = BBR_PROBE_BW then UpdateGainCyclePhase t prior l rtt bif s else s)"
  define s2 where "s2 = (if r \<and> \<not> v1_is_at_full_bandwidth s1 then CheckIfFullBandwidthReached st s1 else s1)"
  define s3 where "s3 = MaybeExitStartupOrDrain t rtt bif s2"
  have e: "s' t prior l r x st rtt bif = MaybeEnterOrExitProbeRtt t r x bif s3"
    unfolding s'_def v1_event_modes_def s3_def s2_def s1_def by (simp add: Let_def)
  have s1: "v1_inv s1" "v1_modes s1 = v1_modes s" "v1_consts s1 = v1_consts s"
    using assms(1) UpdateGainCyclePhase_spec [OF assms(1), of t prior l rtt bif] by (simp_all add: s1_def)
  have s2: "v1_inv s2" "v1_step\<^sup>*\<^sup>* (v1_modes s) (v1_modes s2)" "v1_consts s2 = v1_consts s"
    using s1 CheckIfFullBandwidthReached_spec(1,4) [OF s1(1), of st] CheckIfFullBandwidthReached_step [OF s1(1), of st]
    by (simp_all add: s2_def)
  note s3 = MaybeExitStartupOrDrain_spec [OF s2(1), where now = t and rtt = rtt and bif = bif, folded s3_def]
  note s4 = MaybeEnterOrExitProbeRtt_spec [OF s3(1) s3(5), where now = t and r = r and x = x and bif = bif]
  show "v1_inv (s' t prior l r x st rtt bif)" "v1_consts (s' t prior l r x st rtt bif) = v1_consts s"
    using s4(1,3) s3(3) s2(3) by (simp_all add: e)
  show "v1_step\<^sup>*\<^sup>* (v1_modes s) (v1_modes (s' t prior l r x st rtt bif))"
    unfolding e using s2(2) s3(2) s4(2) by (meson rtranclp_trans)
  show "\<not> v1_is_at_full_bandwidth (s' t prior l r x st rtt bif)" if "v1_mode (s' t prior l r x st rtt bif) = BBR_STARTUP"
    using s4(5) that unfolding e by blast
qed

lemma CalculatePacingRate_form:
  assumes "\<not> v1_detect_overshooting s"
  shows "\<exists>p. CalculatePacingRate n rtt s = Some (s\<lparr>v1_pacing_rate := p\<rparr>)"
proof -
  have "detect_overshoot n b rtt s = Some s" for b using assms by (simp add: detect_overshoot_def)
  then have "CalculatePacingRate n rtt s \<in> {Some s} \<union> range (\<lambda>p. Some (s\<lparr>v1_pacing_rate := p\<rparr>))"
    by (simp add: CalculatePacingRate_def Let_def)
  moreover have "Some s \<in> range (\<lambda>p. Some (s\<lparr>v1_pacing_rate := p\<rparr>))"
    by (rule range_eqI [of _ _ "v1_pacing_rate s"]) simp
  ultimately have "CalculatePacingRate n rtt s \<in> range (\<lambda>p. Some (s\<lparr>v1_pacing_rate := p\<rparr>))"
    by (elim UnE) (simp only: singleton_iff)
  then show ?thesis by (elim rangeE) (rule exI)
qed

lemma CalculateCongestionWindow_form:
  "CalculateCongestionWindow n x rtt s = s \<or>
    (\<exists>w. CalculateCongestionWindow n x rtt s
      = s\<lparr>v1_congestion_window := min (max w (v1_min_congestion_window s)) (v1_max_congestion_window s)\<rparr>)"
  unfolding CalculateCongestionWindow_def Let_def by (cases "v1_mode s = BBR_PROBE_RTT") (simp, simp only: if_False, blast)

lemma CalculateCongestionWindow_inv:
  assumes "v1_inv s"
  shows "\<exists>w. CalculateCongestionWindow n x rtt s = s\<lparr>v1_congestion_window := w\<rparr> \<and> v1_inv (s\<lparr>v1_congestion_window := w\<rparr>)"
  using CalculateCongestionWindow_form [of n x rtt s]
proof (elim disjE exE)
  assume "CalculateCongestionWindow n x rtt s = s"
  with assms show ?thesis by (intro exI [of _ "v1_congestion_window s"]) simp
next
  fix w let ?w = "min (max w (v1_min_congestion_window s)) (v1_max_congestion_window s)"
  assume "CalculateCongestionWindow n x rtt s = s\<lparr>v1_congestion_window := ?w\<rparr>"
  moreover have "5840 \<le> ?w \<and> ?w \<le> v1_max_congestion_window s" using assms by (auto simp: v1_inv_def)
  then have "v1_inv (s\<lparr>v1_congestion_window := ?w\<rparr>)" using assms by (simp add: v1_inv_def v1_modes_def)
  ultimately show ?thesis by blast
qed

lemma CalculateRecoveryWindow_form:
  "\<exists>w. CalculateRecoveryWindow n l bif s = s\<lparr>v1_recovery_window := w\<rparr>
     \<and> (v1_InRecovery s \<longrightarrow> v1_min_congestion_window s \<le> w)"
proof (cases "v1_recovery_state s = NOT_IN_RECOVERY")
  case True
  then show ?thesis by (intro exI [of _ "v1_recovery_window s"]) (simp add: CalculateRecoveryWindow_def v1_InRecovery_def)
next
  case False
  then obtain w where "CalculateRecoveryWindow n l bif s = s\<lparr>v1_recovery_window := max (v1_min_congestion_window s) w\<rparr>"
    unfolding CalculateRecoveryWindow_def Let_def by (cases "v1_recovery_window s = 0") simp_all
  then show ?thesis by (intro exI [of _ "max (v1_min_congestion_window s) w"]) simp
qed

definition v1_later :: "bbr_sender \<Rightarrow> bbr_sender \<Rightarrow> bool" where
  "v1_later s s' \<longleftrightarrow> v1_step\<^sup>*\<^sup>* (v1_modes s) (v1_modes s') \<and> v1_consts s' = v1_consts s"

lemma v1_later_refl [simp]: "v1_later s s"
  by (simp add: v1_later_def)

lemma v1_later_trans [trans]: "v1_later s s' \<Longrightarrow> v1_later s' s'' \<Longrightarrow> v1_later s s''"
  by (auto simp: v1_later_def)

text \<open>The recovery, which most parts of an event leave alone.\<close>

definition v1_recovery :: "bbr_sender \<Rightarrow> recovery_state \<times> byte_count \<times> packet_number" where
  "v1_recovery s = (v1_recovery_state s, v1_recovery_window s, v1_end_recovery_at s)"

lemma v1_recovery_if: "v1_recovery (if b then x else y) = (if b then v1_recovery x else v1_recovery y)"
  by simp

lemma v1_recovery_simps [simp]:
  "v1_recovery (s\<lparr>v1_sampler := b\<rparr>) = v1_recovery s" "v1_recovery (s\<lparr>v1_pacing_rate := p\<rparr>) = v1_recovery s"
  "v1_recovery (s\<lparr>v1_congestion_window := w\<rparr>) = v1_recovery s" "v1_recovery (v1_upd_stats f s) = v1_recovery s"
  "v1_recovery (s\<lparr>v1_stats := st\<rparr>) = v1_recovery s" "v1_recovery (s\<lparr>v1_max_bandwidth := f'\<rparr>) = v1_recovery s"
  by (simp_all add: v1_recovery_def v1_upd_stats_def)

lemma v1_recovery_filters: "v1_recovery (fst (v1_event_filters t n e s)) = v1_recovery s"
proof -
  have m: "v1_recovery (fst (MaybeUpdateMinRtt t r u)) = v1_recovery u" for r u
    by (simp add: MaybeUpdateMinRtt_def Let_def v1_recovery_def)
  show ?thesis unfolding v1_event_filters_def Let_def
    by (simp add: m v1_recovery_if) (simp add: v1_recovery_def)
qed

lemma v1_recovery_losses: "v1_recovery (v1_event_losses lost k s) = v1_recovery s"
  by (simp add: v1_event_losses_def Let_def v1_recovery_def v1_upd_stats_def)

lemma v1_recovery_modes: "v1_recovery (v1_event_modes t prior l r x st rtt bif s) = v1_recovery s"
proof -
  have g: "v1_recovery (UpdateGainCyclePhase t prior l rtt bif u) = v1_recovery u" for u
    by (simp add: UpdateGainCyclePhase_def Let_def v1_recovery_def v1_upd_stats_def)
  have c: "v1_recovery (CheckIfFullBandwidthReached st u) = v1_recovery u" for u
    by (simp add: CheckIfFullBandwidthReached_def ShouldExitStartupDueToLoss_def Let_def v1_recovery_def v1_upd_stats_def)
  have b: "v1_recovery (EnterProbeBandwidthMode t u) = v1_recovery u" "v1_recovery (EnterStartupMode t u) = v1_recovery u"
    "v1_recovery (OnExitStartup t u) = v1_recovery u" for u
    by (simp_all add: EnterProbeBandwidthMode_def EnterStartupMode_def OnExitStartup_def Let_def v1_recovery_def v1_upd_stats_def)
  have d: "v1_recovery (MaybeExitStartupOrDrain t rtt bif u) = v1_recovery u" for u
    unfolding MaybeExitStartupOrDrain_def Let_def by (simp add: v1_recovery_if b) (simp add: v1_recovery_def OnExitStartup_def v1_upd_stats_def)
  have e: "v1_recovery (MaybeEnterOrExitProbeRtt t r x bif u) = v1_recovery u" for u
    unfolding MaybeEnterOrExitProbeRtt_def Let_def
    by (simp add: v1_recovery_def EnterProbeBandwidthMode_def EnterStartupMode_def OnExitStartup_def Let_def v1_upd_stats_def)
  show ?thesis unfolding v1_event_modes_def Let_def by (simp add: g c d e)
qed

text \<open>The bytes acked so far, which only the sampler's own event changes.\<close>

lemma v1_event_modes_acked:
  "bs_total_bytes_acked (v1_sampler (v1_event_modes t prior l r x st rtt bif s)) = bs_total_bytes_acked (v1_sampler s)"
proof -
  have g: "v1_sampler (UpdateGainCyclePhase t prior l rtt bif u) = v1_sampler u" for u
    by (simp add: UpdateGainCyclePhase_def Let_def v1_upd_stats_def)
  have c: "bs_total_bytes_acked (v1_sampler (CheckIfFullBandwidthReached st u)) = bs_total_bytes_acked (v1_sampler u)" for u
    by (simp add: CheckIfFullBandwidthReached_def ShouldExitStartupDueToLoss_def Let_def v1_upd_stats_def
        ResetMaxAckHeightTracker_def)
  have b: "v1_sampler (EnterProbeBandwidthMode t u) = v1_sampler u" "v1_sampler (EnterStartupMode t u) = v1_sampler u"
    "v1_sampler (OnExitStartup t u) = v1_sampler u" for u
    by (simp_all add: EnterProbeBandwidthMode_def EnterStartupMode_def OnExitStartup_def Let_def v1_upd_stats_def)
  have d: "v1_sampler (MaybeExitStartupOrDrain t rtt bif u) = v1_sampler u" for u
    by (simp add: MaybeExitStartupOrDrain_def Let_def b)
  have e: "bs_total_bytes_acked (v1_sampler (MaybeEnterOrExitProbeRtt t r x bif u)) = bs_total_bytes_acked (v1_sampler u)" for u
    by (simp add: MaybeEnterOrExitProbeRtt_def Let_def b bs_OnAppLimited_def)
  show ?thesis by (simp add: v1_event_modes_def Let_def g c d e)
qed

lemma CalculateRecoveryWindow_cong:
  "v1_recovery s = v1_recovery u \<Longrightarrow> v1_min_congestion_window s = v1_min_congestion_window u
    \<Longrightarrow> v1_recovery (CalculateRecoveryWindow n l bif s) = v1_recovery (CalculateRecoveryWindow n l bif u)"
  by (simp add: CalculateRecoveryWindow_def v1_recovery_def Let_def)

text \<open>The position in the gain cycle.\<close>

definition cycle_advances :: "bbr_sender \<Rightarrow> bbr_sender \<Rightarrow> bool" where
  "cycle_advances s s' \<longleftrightarrow> (v1_mode s' = BBR_PROBE_BW \<longrightarrow>
     (if v1_mode s = BBR_PROBE_BW
      then v1_cycle_current_offset s' \<in> {v1_cycle_current_offset s, (v1_cycle_current_offset s + 1) mod 8}
      else v1_cycle_current_offset s' \<noteq> 1))"

lemma v1_offset_keep:
  "v1_cycle_current_offset (fst (v1_event_round acked lost s)) = v1_cycle_current_offset s"
  "v1_cycle_current_offset (fst (v1_event_filters t n e s)) = v1_cycle_current_offset s"
  "v1_cycle_current_offset (v1_event_losses lost k s) = v1_cycle_current_offset s"
proof -
  have r: "v1_cycle_current_offset (UpdateRecoveryState pn l b u) = v1_cycle_current_offset u" for pn l b u
    by (cases "v1_recovery_state u") (simp_all add: UpdateRecoveryState_def Let_def)
  show "v1_cycle_current_offset (fst (v1_event_round acked lost s)) = v1_cycle_current_offset s"
    by (simp add: v1_event_round_def UpdateRoundTripCounter_def Let_def r v1_upd_stats_def)
  show "v1_cycle_current_offset (fst (v1_event_filters t n e s)) = v1_cycle_current_offset s"
    by (simp add: v1_event_filters_def MaybeUpdateMinRtt_def Let_def v1_upd_stats_def)
  show "v1_cycle_current_offset (v1_event_losses lost k s) = v1_cycle_current_offset s"
    by (simp add: v1_event_losses_def Let_def v1_upd_stats_def)
qed

lemma EnterProbeBandwidthMode_offset: "v1_cycle_current_offset (EnterProbeBandwidthMode t s) \<noteq> 1"
  by (simp add: EnterProbeBandwidthMode_def Let_def)

lemma v1_event_modes_cycle: "cycle_advances s (v1_event_modes t prior l r x st rtt bif s)"
proof -
  define s1 where "s1 = (if v1_mode s = BBR_PROBE_BW then UpdateGainCyclePhase t prior l rtt bif s else s)"
  define s2 where "s2 = (if r \<and> \<not> v1_is_at_full_bandwidth s1 then CheckIfFullBandwidthReached st s1 else s1)"
  define s3 where "s3 = MaybeExitStartupOrDrain t rtt bif s2"
  have s1: "v1_mode s1 = v1_mode s" "v1_mode s = BBR_PROBE_BW \<Longrightarrow>
      v1_cycle_current_offset s1 \<in> {v1_cycle_current_offset s, (v1_cycle_current_offset s + 1) mod 8}"
    by (auto simp: s1_def UpdateGainCyclePhase_def Let_def v1_upd_stats_def)
  have s2: "v1_mode s2 = v1_mode s" "v1_cycle_current_offset s2 = v1_cycle_current_offset s1"
    by (simp_all add: s1(1) s2_def CheckIfFullBandwidthReached_def ShouldExitStartupDueToLoss_def Let_def v1_upd_stats_def)
  have s3: "cycle_advances s s3" "v1_mode s = BBR_PROBE_BW \<Longrightarrow> v1_mode s3 = BBR_PROBE_BW"
    using s1(2) s2 EnterProbeBandwidthMode_offset
    by (auto simp: s3_def MaybeExitStartupOrDrain_def Let_def cycle_advances_def OnExitStartup_def v1_upd_stats_def
        EnterProbeBandwidthMode_def)
  have "cycle_advances s (MaybeEnterOrExitProbeRtt t r x bif s3)"
    using s3 EnterProbeBandwidthMode_offset
    by (auto simp: MaybeEnterOrExitProbeRtt_def Let_def cycle_advances_def OnExitStartup_def EnterStartupMode_def
        v1_upd_stats_def EnterProbeBandwidthMode_def)
  then show ?thesis unfolding v1_event_modes_def Let_def s1_def [symmetric] unfolding s2_def [symmetric] unfolding s3_def .
qed

lemma v1_OnCongestionEvent_spec:
  assumes ok: "v1_ok s" and t: "in_i64 t" and r: "v1_event_round acked lost s = (s1, b)"
  shows "\<exists>s'. v1_OnCongestionEvent rtt m prior t acked lost s = Some s' \<and> v1_ok s' \<and> v1_later s s'
    \<and> cycle_advances s s'
    \<and> v1_recovery s' = v1_recovery (CalculateRecoveryWindow (\<Sum>p\<leftarrow>acked. acked_size (v1_sampler s) (ap_packet_number p))
        (\<Sum>l\<leftarrow>lost. ucast (lp_bytes_lost l)) (um_bytes_in_flight m) s1)"
proof -
  have inv: "v1_inv s" using ok by (simp add: v1_ok_def)
  note i1 = v1_event_round_inv [OF inv r]
  have "bs_inv (v1_sampler s1)" using i1(1) by (simp add: v1_inv_def)
  from bs_OnCongestionEvent_inv [OF this t, of acked lost "wf_GetBest (v1_max_bandwidth s1)" bw_Infinite "v1_round_trip_count s1"]
  obtain q e where q: "bs_OnCongestionEvent t acked lost (wf_GetBest (v1_max_bandwidth s1)) bw_Infinite
      (v1_round_trip_count s1) (v1_sampler s1) = Some (q, e)" "bs_inv q"
    "bs_total_bytes_acked q = bs_total_bytes_acked (v1_sampler s) + (\<Sum>p\<leftarrow>acked. acked_size (v1_sampler s) (ap_packet_number p))"
    "bs_total_bytes_lost q = bs_total_bytes_lost (v1_sampler s) + (\<Sum>l\<leftarrow>lost. ucast (lp_bytes_lost l))"
    unfolding i1(4) by blast
  let ?s2 = "s1\<lparr>v1_sampler := q\<rparr>"
  have i2: "v1_inv ?s2" "v1_modes ?s2 = v1_modes s" "v1_consts ?s2 = v1_consts s"
    "v1_cycle_current_offset ?s2 = v1_cycle_current_offset s"
    using i1 q(2) v1_offset_keep(1) [of acked lost s] r by (simp_all add: v1_inv_def v1_modes_def v1_consts_def)
  obtain s3 x where s3: "v1_event_filters t (bs_total_bytes_acked (v1_sampler s)) e ?s2 = (s3, x)" by (rule prod.exhaust)
  note i3 = v1_event_filters_inv [OF i2(1) s3]
  let ?lb = "\<Sum>l\<leftarrow>lost. ucast (lp_bytes_lost l) :: u64"
  have lb: "bs_total_bytes_lost (v1_sampler s3) - bs_total_bytes_lost (v1_sampler s) = ?lb"
    using i3(4) q(4) by simp
  note i4 = v1_event_losses_inv [OF i3(1), of lost ?lb]
  define s5 where "s5 = v1_event_modes t prior (lost \<noteq> []) b x (ces_last_packet_send_state e) rtt (um_bytes_in_flight m)
      (v1_event_losses lost ?lb s3)"
  let ?u = "v1_event_losses lost ?lb s3"
  note i5 = v1_event_modes_spec [OF i4(1), where t = t and prior = prior and l = "lost \<noteq> []" and r = b and x = x
      and st = "ces_last_packet_send_state e" and rtt = rtt and bif = "um_bytes_in_flight m", folded s5_def]
  have u: "v1_modes ?u = v1_modes s" "v1_consts ?u = v1_consts s" "v1_cycle_current_offset ?u = v1_cycle_current_offset s"
    using i2 i3 i4 v1_offset_keep(2) [of t "bs_total_bytes_acked (v1_sampler s)" e ?s2] s3 by (simp_all add: v1_offset_keep(3))
  have "cycle_advances ?u s5" unfolding s5_def by (rule v1_event_modes_cycle)
  moreover have "v1_mode ?u = v1_mode s" using u(1) by (simp add: v1_modes_def)
  ultimately have cyc: "cycle_advances s s5" by (simp only: cycle_advances_def u(3))
  let ?ba = "\<Sum>p\<leftarrow>acked. acked_size (v1_sampler s) (ap_packet_number p)"
  have ba: "bs_total_bytes_acked (v1_sampler s5) - bs_total_bytes_acked (v1_sampler s) = ?ba"
    using i4(4) i3(4) q(3) by (simp add: s5_def v1_event_modes_acked)
  have d5: "\<not> v1_detect_overshooting s5" using i5(1) by (simp add: v1_inv_def)
  obtain p where p: "CalculatePacingRate ?lb rtt s5 = Some (s5\<lparr>v1_pacing_rate := p\<rparr>)"
    using CalculatePacingRate_form [OF d5] by blast
  have i6: "v1_inv (s5\<lparr>v1_pacing_rate := p\<rparr>)" using i5(1) by simp
  obtain w7 where w7: "CalculateCongestionWindow ?ba (ces_extra_acked e) rtt (s5\<lparr>v1_pacing_rate := p\<rparr>)
      = s5\<lparr>v1_pacing_rate := p, v1_congestion_window := w7\<rparr>"
    "v1_inv (s5\<lparr>v1_pacing_rate := p, v1_congestion_window := w7\<rparr>)"
    using CalculateCongestionWindow_inv [OF i6, of ?ba "ces_extra_acked e" rtt] by auto
  let ?s7 = "s5\<lparr>v1_pacing_rate := p, v1_congestion_window := w7\<rparr>"
  have rec7: "v1_recovery ?s7 = v1_recovery s1" "v1_min_congestion_window ?s7 = v1_min_congestion_window s1"
  proof -
    have "v1_recovery s3 = v1_recovery s1" using v1_recovery_filters [of t "bs_total_bytes_acked (v1_sampler s)" e ?s2] s3 by simp
    then show "v1_recovery ?s7 = v1_recovery s1" by (simp add: s5_def v1_recovery_modes v1_recovery_losses)
    show "v1_min_congestion_window ?s7 = v1_min_congestion_window s1" using i5(1) i1(1) by (simp add: v1_inv_def)
  qed
  obtain w8 where w8: "CalculateRecoveryWindow ?ba ?lb (um_bytes_in_flight m) ?s7 = ?s7\<lparr>v1_recovery_window := w8\<rparr>"
      "v1_InRecovery ?s7 \<longrightarrow> v1_min_congestion_window ?s7 \<le> w8"
    using CalculateRecoveryWindow_form by blast
  have "bs_inv (v1_sampler ?s7)" using w7(2) by (simp add: v1_inv_def)
  from bs_RemoveObsoletePackets_inv [OF this, of "um_least_unacked m"] obtain b9 where
    b9: "bs_RemoveObsoletePackets (um_least_unacked m) (v1_sampler s5) = Some b9" "bs_inv b9" by auto
  let ?s9 = "?s7\<lparr>v1_recovery_window := w8, v1_sampler := b9\<rparr>"
  let ?s' = "if b then ?s9\<lparr>v1_num_loss_events_in_round := 0, v1_bytes_lost_in_round := 0\<rparr> else ?s9"
  have run: "v1_OnCongestionEvent rtt m prior t acked lost s = Some ?s'"
    unfolding v1_OnCongestionEvent_def Let_def r prod.case q(1) bind.bind_lunit s3 lb
    unfolding s5_def [symmetric] unfolding p bind.bind_lunit ba w7(1) w8(1) by (simp add: b9)
  have "v1_inv ?s'" using w7(2) b9(2) by (simp add: v1_inv_def v1_modes_def)
  moreover have "v1_InRecovery ?s' \<longrightarrow> 5840 \<le> v1_recovery_window ?s'"
    using w8(2) w7(2) by (simp add: v1_InRecovery_def v1_inv_def)
  moreover have "v1_mode ?s' = v1_mode s5" "v1_is_at_full_bandwidth ?s' = v1_is_at_full_bandwidth s5"
    "v1_modes ?s' = v1_modes s5" "v1_consts ?s' = v1_consts s5" "cycle_advances s ?s' = cycle_advances s s5"
    by (simp_all add: v1_modes_def v1_consts_def cycle_advances_def)
  ultimately have "v1_ok ?s' \<and> v1_later s ?s' \<and> cycle_advances s ?s'"
    using i5 u cyc by (simp add: v1_ok_def v1_later_def)
  moreover have "v1_recovery ?s' = v1_recovery (?s7\<lparr>v1_recovery_window := w8\<rparr>)" by (simp add: v1_recovery_def)
  then have "v1_recovery ?s' = v1_recovery (CalculateRecoveryWindow ?ba ?lb (um_bytes_in_flight m) s1)"
    unfolding w8(1) [symmetric] by (simp only: CalculateRecoveryWindow_cong [OF rec7])
  ultimately show ?thesis using run by blast
qed

lemma v1_OnPacketSent_spec:
  assumes ok: "v1_ok s" and t: "in_i64 t" and pn: "IsInitialized pn"
  shows "\<exists>s'. v1_OnPacketSent t bif pn n s = Some s' \<and> v1_ok s' \<and> v1_later s s'"
proof -
  define s1 where "s1 = (let s = (if v1_InSlowStart s
       then v1_upd_stats (\<lambda>st. st\<lparr>cs_slowstart_packets_sent := cs_slowstart_packets_sent st + 1,
                             cs_slowstart_bytes_sent := cs_slowstart_bytes_sent st + n\<rparr>) s
       else s); s = s\<lparr>v1_last_sent_packet := pn\<rparr>
      in if bif = 0 \<and> bs_is_app_limited (v1_sampler s) then s\<lparr>v1_exiting_quiescence := True\<rparr> else s)"
  have s1: "v1_ok s1" "v1_modes s1 = v1_modes s" "v1_consts s1 = v1_consts s"
    using ok by (simp_all add: s1_def Let_def v1_ok_def v1_inv_def v1_modes_def v1_consts_def v1_upd_stats_def v1_InRecovery_def)
  then have "bs_inv (v1_sampler s1)" by (simp add: v1_ok_def v1_inv_def)
  from bs_OnPacketSent_inv [OF this t pn, of n bif] obtain b where
    b: "bs_OnPacketSent t pn n bif (v1_sampler s1) = Some b" "bs_inv b" by blast
  have "v1_OnPacketSent t bif pn n s = Some (s1\<lparr>v1_sampler := b\<rparr>)"
    using b(1) unfolding v1_OnPacketSent_def s1_def Let_def by simp
  moreover have "v1_ok (s1\<lparr>v1_sampler := b\<rparr>) \<and> v1_later s (s1\<lparr>v1_sampler := b\<rparr>)"
    using s1 b(2) by (simp add: v1_ok_def v1_later_def v1_inv_def v1_modes_def v1_consts_def v1_InRecovery_def)
  ultimately show ?thesis by blast
qed

lemma BbrSender_ok:
  assumes "4 \<le> icw" "icw \<le> mx" "uint mx * 1460 < 2 ^ 64"
  shows "v1_ok (BbrSender now icw mx stats rng)" "v1_modes (BbrSender now icw mx stats rng) = (BBR_STARTUP, False)"
    "v1_max_congestion_window (BbrSender now icw mx stats rng) = mx * 1460"
proof -
  have i: "4 \<le> uint icw" "uint icw \<le> uint mx" using assms(1,2) by (simp_all add: u64_le_iff)
  then have "uint (icw * 1460) = uint icw * 1460" "uint (mx * 1460) = uint mx * 1460"
    using assms(3) by (simp_all add: uint_word_ariths)
  with i have "5840 \<le> icw * 1460" "icw * 1460 \<le> mx * 1460" by (simp_all add: u64_le_iff)
  then show "v1_ok (BbrSender now icw mx stats rng)"
    by (simp add: BbrSender_def Let_def set_high_cwnd_gain_def EnterStartupMode_def v1_upd_stats_def v1_ok_def
        v1_inv_def v1_modes_def v1_InRecovery_def bs_inv_new v1_kDefaultMinimumCongestionWindow_def kMaxSegmentSize_def
        kDefaultTCPMSS_def)
  show "v1_modes (BbrSender now icw mx stats rng) = (BBR_STARTUP, False)"
    "v1_max_congestion_window (BbrSender now icw mx stats rng) = mx * 1460"
    by (simp_all add: BbrSender_def Let_def set_high_cwnd_gain_def EnterStartupMode_def v1_upd_stats_def v1_modes_def
        kDefaultTCPMSS_def)
qed

subsection \<open>Histories\<close>

datatype v1_input =
    V1Sent quic_time byte_count packet_number byte_count
  | V1Event rtt_stats unacked_map byte_count quic_time "acked_packet list" "lost_packet list"

fun v1_input_ok :: "v1_input \<Rightarrow> bool" where
  "v1_input_ok (V1Sent t bif pn n) \<longleftrightarrow> in_i64 t \<and> IsInitialized pn"
| "v1_input_ok (V1Event rtt m prior t acked lost) \<longleftrightarrow> in_i64 t"

fun v1_handle :: "v1_input \<Rightarrow> bbr_sender \<Rightarrow> bbr_sender option" where
  "v1_handle (V1Sent t bif pn n) s = v1_OnPacketSent t bif pn n s"
| "v1_handle (V1Event rtt m prior t acked lost) s = v1_OnCongestionEvent rtt m prior t acked lost s"

fun v1_run :: "v1_input list \<Rightarrow> bbr_sender \<Rightarrow> bbr_sender option" where
  "v1_run [] s = Some s"
| "v1_run (i # is) s = Option.bind (v1_handle i s) (v1_run is)"

lemma v1_handle_spec:
  assumes "v1_ok s" "v1_input_ok i"
  shows "\<exists>s'. v1_handle i s = Some s' \<and> v1_ok s' \<and> v1_later s s'"
proof (cases i)
  case (V1Sent t bif pn n)
  with assms v1_OnPacketSent_spec show ?thesis by simp
next
  case (V1Event rtt m prior t acked lost)
  obtain s1 b where r: "v1_event_round acked lost s = (s1, b)" by (rule prod.exhaust)
  from v1_OnCongestionEvent_spec [OF assms(1) _ r, of t rtt m prior] assms(2) V1Event show ?thesis by auto
qed

lemma v1_run_spec:
  "v1_ok s \<Longrightarrow> list_all v1_input_ok is \<Longrightarrow> \<exists>s'. v1_run is s = Some s' \<and> v1_ok s' \<and> v1_later s s'"
proof (induction "is" arbitrary: s)
  case (Cons i "is")
  then obtain s1 where s1: "v1_handle i s = Some s1" "v1_ok s1" "v1_later s s1" using v1_handle_spec [of s i] by auto
  from Cons.IH [OF s1(2)] Cons.prems(2) obtain s' where "v1_run is s1 = Some s'" "v1_ok s'" "v1_later s1 s'" by auto
  with s1(1,3) show ?case by (auto intro: v1_later_trans)
qed simp

lemma v1_run_append: "v1_run (is @ js) s = Option.bind (v1_run is s) (v1_run js)"
  by (induction "is" arbitrary: s) (auto split: bind_splits)

lemma v1_ok_window:
  assumes "v1_ok s" shows "5840 \<le> v1_GetCongestionWindow s \<and> v1_GetCongestionWindow s \<le> v1_max_congestion_window s"
  using assms by (auto simp: v1_ok_def v1_inv_def v1_GetCongestionWindow_def ProbeRttCongestionWindow_def min_le_iff_disj
      intro: order_trans)

lemma v1_ok_stats [simp]: "v1_ok (s\<lparr>v1_stats := st\<rparr>) = v1_ok s"
  by (simp add: v1_ok_def)

definition bbr_ok :: "bbr_sender \<Rightarrow> bool" where
  "bbr_ok s \<longleftrightarrow> v1_ok s \<and> v1_max_congestion_window s = max_congestion_window * kDefaultTCPMSS"

lemma bbr_ok_handle:
  assumes "bbr_ok s" "v1_input_ok i"
  shows "\<exists>s'. v1_handle i s = Some s' \<and> bbr_ok s'"
proof -
  have "v1_ok s" using assms(1) by (simp add: bbr_ok_def)
  from v1_handle_spec [OF this assms(2)] assms(1) show ?thesis by (auto simp: bbr_ok_def v1_later_def v1_consts_def)
qed

lemma bbr_ok_Create: "\<exists>st s. Create_BBR now rng r stats kInitialCongestionWindow = Some (st, s) \<and> bbr_ok s"
proof -
  have "(4 :: u64) \<le> kInitialCongestionWindow" "kInitialCongestionWindow \<le> max_congestion_window"
    "uint max_congestion_window * 1460 < 2 ^ 64"
    by (simp_all add: max_congestion_window_def kInitialCongestionWindow_def u64_le_iff)
  note b = BbrSender_ok [OF this, of now stats rng]
  then show ?thesis by (simp add: Create_BBR_def Let_def bbr_ok_def kDefaultTCPMSS_def)
qed

interpretation bbr: send_algorithm bbr_ops bbr_ok
proof unfold_locales
  fix s :: bbr_sender and t bif pn n st
  assume "bbr_ok s" "in_i64 t" "IsInitialized pn"
  with bbr_ok_handle [of "s\<lparr>v1_stats := st\<rparr>" "V1Sent t bif pn n"]
  show "\<exists>st' s'. sa_OnPacketSent bbr_ops t bif pn n (st, s) = Some (st', s') \<and> bbr_ok s'"
    by (auto simp: bbr_ops_def bbr_ok_def)
next
  fix s :: bbr_sender and t r m updated prior acked lost st
  assume "bbr_ok s" "in_i64 t"
  with bbr_ok_handle [of "s\<lparr>v1_stats := st\<rparr>" "V1Event r m prior t acked lost"]
  show "\<exists>st' s'. sa_OnCongestionEvent bbr_ops r m updated prior t acked lost (st, s) = Some (st', s') \<and> bbr_ok s'"
    by (auto simp: bbr_ops_def bbr_ok_def)
next
  fix s :: bbr_sender
  assume "bbr_ok s"
  then have "v1_ok s" by (simp add: bbr_ok_def)
  from v1_ok_window [OF this] show "0 < sa_GetCongestionWindow bbr_ops s"
    by (simp add: bbr_ops_def u64_le_iff u64_less_iff)
qed (simp_all add: bbr_ops_def)



subsection \<open>Properties\<close>

text \<open>C15. Once the full bandwidth is reached, an ack that comes with losses starts a recovery, with a
  window of the bytes in flight and the bytes just acked (and at least four segments), and every
  later one extends it to the packets sent by then; the recovery ends exactly with an ack without
  losses of a packet sent after that.\<close>

theorem recovery_spans_the_losses:
  assumes "v1_ok s" "in_i64 t" "v1_is_at_full_bandwidth s" "acked \<noteq> []"
  shows "\<exists>s'. v1_OnCongestionEvent rtt m prior t acked lost s = Some s'
    \<and> (v1_InRecovery s' \<longleftrightarrow> lost \<noteq> []
        \<or> v1_InRecovery s \<and> ap_packet_number (last acked) \<le> v1_end_recovery_at s)
    \<and> (lost \<noteq> [] \<longrightarrow> v1_end_recovery_at s' = v1_last_sent_packet s)
    \<and> (lost \<noteq> [] \<and> \<not> v1_InRecovery s \<longrightarrow> v1_recovery_state s' = CONSERVATION
        \<and> v1_recovery_window s' = max 5840
            (um_bytes_in_flight m + (\<Sum>p\<leftarrow>acked. acked_size (v1_sampler s) (ap_packet_number p))))"
proof -
  obtain s1 b where r: "v1_event_round acked lost s = (s1, b)" by (rule prod.exhaust)
  from v1_OnCongestionEvent_spec [OF assms(1,2) r, of rtt m prior] obtain s' where
    s': "v1_OnCongestionEvent rtt m prior t acked lost s = Some s'"
    "v1_recovery s' = v1_recovery (CalculateRecoveryWindow (\<Sum>p\<leftarrow>acked. acked_size (v1_sampler s) (ap_packet_number p))
        (\<Sum>l\<leftarrow>lost. ucast (lp_bytes_lost l)) (um_bytes_in_flight m) s1)" by blast
  obtain u where u: "UpdateRoundTripCounter (ap_packet_number (last acked)) s = (u, b)"
    "s1 = UpdateRecoveryState (ap_packet_number (last acked)) (lost \<noteq> []) b u"
    using r assms(4) by (auto simp: v1_event_round_def Let_def split: prod.splits)
  have u': "v1_recovery_state u = v1_recovery_state s" "v1_end_recovery_at u = v1_end_recovery_at s"
    "v1_last_sent_packet u = v1_last_sent_packet s" "v1_is_at_full_bandwidth u" "v1_min_congestion_window u = 5840"
    using u(1) assms(1,3) by (auto simp: UpdateRoundTripCounter_def Let_def v1_upd_stats_def v1_ok_def v1_inv_def split: if_splits)
  have f: "v1_recovery_state (CalculateRecoveryWindow n k bif s1) = v1_recovery_state s1"
    "v1_end_recovery_at (CalculateRecoveryWindow n k bif s1) = v1_end_recovery_at s1" for n k bif
    by (simp_all add: CalculateRecoveryWindow_def Let_def)
  have w: "v1_recovery_state s' = v1_recovery_state s1" "v1_end_recovery_at s' = v1_end_recovery_at s1"
    "v1_recovery_window s' = v1_recovery_window (CalculateRecoveryWindow
      (\<Sum>p\<leftarrow>acked. acked_size (v1_sampler s) (ap_packet_number p)) (\<Sum>l\<leftarrow>lost. ucast (lp_bytes_lost l)) (um_bytes_in_flight m) s1)"
    using s'(2) f by (simp_all add: v1_recovery_def)
  have c: "v1_InRecovery s' \<longleftrightarrow> lost \<noteq> [] \<or> v1_InRecovery s \<and> ap_packet_number (last acked) \<le> v1_end_recovery_at s"
    using u' by (cases "v1_recovery_state s") (auto simp: v1_InRecovery_def w u(2) UpdateRecoveryState_def Let_def)
  have "lost \<noteq> [] \<longrightarrow> v1_end_recovery_at s' = v1_last_sent_packet s"
    using u' by (cases "v1_recovery_state s") (auto simp: w u(2) UpdateRecoveryState_def Let_def)
  moreover have "v1_recovery_state s' = CONSERVATION \<and> v1_recovery_window s' = max 5840
      (um_bytes_in_flight m + (\<Sum>p\<leftarrow>acked. acked_size (v1_sampler s) (ap_packet_number p)))"
    if "lost \<noteq> [] \<and> \<not> v1_InRecovery s"
    using that u' by (simp add: w u(2) UpdateRecoveryState_def Let_def v1_InRecovery_def CalculateRecoveryWindow_def)
  ultimately show ?thesis using s'(1) c by blast
qed

definition example_bbr :: bbr_sender where
  "example_bbr = (BbrSender 0 32 100000 cs_new (\<lambda>_. 3))\<lparr>v1_mode := BBR_DRAIN, v1_is_at_full_bandwidth := True,
     v1_last_sent_packet := 2\<rparr>"

lemma example_bbr: "v1_ok example_bbr" "v1_is_at_full_bandwidth example_bbr" "\<not> v1_InRecovery example_bbr"
proof -
  have "v1_ok (BbrSender 0 32 100000 cs_new (\<lambda>_. 3))" by (rule BbrSender_ok) (simp_all add: u64_le_iff)
  moreover have n: "\<not> v1_InRecovery (BbrSender 0 32 100000 cs_new (\<lambda>_. 3))"
    by (simp add: BbrSender_def Let_def set_high_cwnd_gain_def EnterStartupMode_def v1_upd_stats_def v1_InRecovery_def)
  ultimately show "v1_ok example_bbr" by (simp add: example_bbr_def v1_ok_def v1_inv_def v1_modes_def v1_InRecovery_def)
  show "v1_is_at_full_bandwidth example_bbr" "\<not> v1_InRecovery example_bbr"
    using n by (simp_all add: example_bbr_def v1_InRecovery_def)
qed

lemma recovery_spans_the_losses_witness:
  "\<exists>s'. v1_OnCongestionEvent rs_new (um_new IS_CLIENT) 2944 90000
      [\<lparr>ap_packet_number = 2, ap_bytes_acked = 1472, ap_receive_timestamp = 0\<rparr>]
      [\<lparr>lp_packet_number = 1, lp_bytes_lost = 1472\<rparr>] example_bbr = Some s' \<and> v1_InRecovery s'
    \<and> v1_recovery_state s' = CONSERVATION"
  using recovery_spans_the_losses [OF example_bbr(1) _ example_bbr(2), of 90000
      "[\<lparr>ap_packet_number = 2, ap_bytes_acked = 1472, ap_receive_timestamp = 0\<rparr>]" rs_new "um_new IS_CLIENT" 2944
      "[\<lparr>lp_packet_number = 1, lp_bytes_lost = 1472\<rparr>]"] example_bbr(3)
  by (auto simp: in_i64_def)

text \<open>C13. A BBRv1 sender made by the constructor handles every history of sent packets and congestion
  events without a failing step; its invariant holds throughout, and its window, also in PROBE_RTT and
  in recovery, stays between four segments and the configured maximum.\<close>

theorem bbr_sender_handles_every_history:
  assumes "4 \<le> icw" "icw \<le> mx" "uint mx * 1460 < 2 ^ 64" "list_all v1_input_ok is"
  shows "\<exists>s. v1_run is (BbrSender now icw mx stats rng) = Some s \<and> v1_ok s
    \<and> 4 * 1460 \<le> v1_GetCongestionWindow s \<and> v1_GetCongestionWindow s \<le> mx * 1460"
proof -
  note n = BbrSender_ok [OF assms(1-3), of now stats rng]
  from v1_run_spec [OF n(1) assms(4)] obtain s where
    s: "v1_run is (BbrSender now icw mx stats rng) = Some s" "v1_ok s" "v1_later (BbrSender now icw mx stats rng) s" by blast
  with v1_ok_window [OF s(2)] n(3) show ?thesis by (auto simp: v1_later_def v1_consts_def)
qed

lemma bbr_sender_handles_every_history_witness:
  "\<exists>s. v1_run [V1Sent 1000 0 1 1472, V1Sent 2000 1472 2 1472, V1Event rs_new (um_new IS_CLIENT) 2944 90000
      [\<lparr>ap_packet_number = 2, ap_bytes_acked = 1472, ap_receive_timestamp = 0\<rparr>]
      [\<lparr>lp_packet_number = 1, lp_bytes_lost = 1472\<rparr>]] (BbrSender 0 32 100000 cs_new (\<lambda>_. 3)) = Some s
    \<and> 4 * 1460 \<le> v1_GetCongestionWindow s"
proof -
  have "(4 :: u64) \<le> 32" "(32 :: u64) \<le> 100000" "uint (100000 :: u64) * 1460 < 2 ^ 64"
    "list_all v1_input_ok [V1Sent 1000 0 1 1472, V1Sent 2000 1472 2 1472, V1Event rs_new (um_new IS_CLIENT) 2944 90000
      [\<lparr>ap_packet_number = 2, ap_bytes_acked = 1472, ap_receive_timestamp = 0\<rparr>]
      [\<lparr>lp_packet_number = 1, lp_bytes_lost = 1472\<rparr>]]"
    by (simp_all add: u64_le_iff in_i64_def IsInitialized_def UninitializedPacketNumber_def)
  from bbr_sender_handles_every_history [OF this, of 0 cs_new "\<lambda>_. 3"] show ?thesis by blast
qed

text \<open>C14. Along a history the mode of a BBRv1 sender follows its state machine: STARTUP is left for DRAIN
  only with the full bandwidth, DRAIN for PROBE_BW, every mode for PROBE_RTT, and PROBE_RTT goes back to
  STARTUP or PROBE_BW by whether the full bandwidth was reached. Once it was, STARTUP is over for good.\<close>

theorem bbr_modes_follow_the_state_machine:
  assumes "4 \<le> icw" "icw \<le> mx" "uint mx * 1460 < 2 ^ 64" "list_all v1_input_ok (is @ js)"
    and "v1_run is (BbrSender now icw mx stats rng) = Some s" "v1_run js s = Some s'"
  shows "v1_step\<^sup>*\<^sup>* (v1_modes s) (v1_modes s')
    \<and> (v1_mode s' \<in> {BBR_DRAIN, BBR_PROBE_BW} \<longrightarrow> v1_is_at_full_bandwidth s')
    \<and> (v1_is_at_full_bandwidth s \<longrightarrow> v1_is_at_full_bandwidth s' \<and> v1_mode s' \<noteq> BBR_STARTUP)"
proof -
  note n = BbrSender_ok [OF assms(1-3), of now stats rng]
  from v1_run_spec [OF n(1), of "is"] assms(4,5) have "v1_ok s" by auto
  from v1_run_spec [OF this, of js] assms(4,6) have s': "v1_ok s'" "v1_later s s'" by auto
  then have st: "v1_step\<^sup>*\<^sup>* (v1_modes s) (v1_modes s')" by (simp add: v1_later_def)
  moreover have "v1_mode s' \<in> {BBR_DRAIN, BBR_PROBE_BW} \<longrightarrow> v1_is_at_full_bandwidth s'"
    using s'(1) by (auto simp: v1_ok_def v1_inv_def v1_modes_def)
  moreover have "v1_is_at_full_bandwidth s \<longrightarrow> v1_is_at_full_bandwidth s' \<and> v1_mode s' \<noteq> BBR_STARTUP"
    using full_bandwidth_stays [OF st] s'(1) by (auto simp: v1_ok_def v1_modes_def)
  ultimately show ?thesis by blast
qed

lemma bbr_modes_follow_the_state_machine_witness:
  "\<exists>s. v1_run [V1Sent 1000 0 1 1472] (BbrSender 0 32 100000 cs_new (\<lambda>_. 3)) = Some s
    \<and> v1_step\<^sup>*\<^sup>* (BBR_STARTUP, False) (v1_modes s)"
proof -
  have h: "(4 :: u64) \<le> 32" "(32 :: u64) \<le> 100000" "uint (100000 :: u64) * 1460 < 2 ^ 64"
    "list_all v1_input_ok ([] @ [V1Sent 1000 0 1 1472])"
    by (simp_all add: u64_le_iff in_i64_def IsInitialized_def UninitializedPacketNumber_def)
  note n = BbrSender_ok [OF h(1-3), of 0 cs_new "\<lambda>_. 3"]
  from v1_run_spec [OF n(1)] h(4) obtain s where s: "v1_run [V1Sent 1000 0 1 1472] (BbrSender 0 32 100000 cs_new (\<lambda>_. 3)) = Some s"
    by fastforce
  from bbr_modes_follow_the_state_machine [OF h(1-4) _ s] n(2) s show ?thesis by auto
qed

text \<open>In PROBE_BW the pacing gain is that of the current position in the gain cycle; a congestion event
  stays at that position or goes to the next one of the eight, and whatever \<open>rand\<close> returns, an entry
  into PROBE_BW never starts at the draining position, which is to follow the probing one.\<close>

theorem gain_cycle:
  assumes "v1_ok s" "in_i64 t"
  shows "\<exists>s'. v1_OnCongestionEvent rtt m prior t acked lost s = Some s'
    \<and> (v1_mode s' = BBR_PROBE_BW \<longrightarrow> v1_pacing_gain s' = kPacingGain ! v1_cycle_current_offset s'
        \<and> v1_cycle_current_offset s' < 8
        \<and> (if v1_mode s = BBR_PROBE_BW
           then v1_cycle_current_offset s' \<in> {v1_cycle_current_offset s, (v1_cycle_current_offset s + 1) mod 8}
           else v1_cycle_current_offset s' \<noteq> 1))"
proof -
  obtain s1 b where r: "v1_event_round acked lost s = (s1, b)" by (rule prod.exhaust)
  from v1_OnCongestionEvent_spec [OF assms r, of rtt m prior] obtain s' where
    "v1_OnCongestionEvent rtt m prior t acked lost s = Some s'" "v1_ok s'" "cycle_advances s s'" by blast
  then show ?thesis unfolding v1_ok_def v1_inv_def cycle_advances_def by blast
qed

lemma gain_cycle_witness:
  "\<exists>s'. v1_OnCongestionEvent rs_new (um_new IS_CLIENT) 0 90000 [] [] example_bbr = Some s'"
  using gain_cycle [OF example_bbr(1), of 90000 rs_new "um_new IS_CLIENT" 0 "[]" "[]"] by (auto simp: in_i64_def)

end
