(* ===== verification/Cubic_Bytes.thy ===== *)
theory Cubic_Bytes
  imports Quic_Bandwidth Unacked_Map
begin

unbundle bit_operations_syntax

section \<open>The Cubic window function\<close>

text \<open>
  \<open>congestion_control/cubic_bytes.h\<close> and \<open>.cc\<close>. Mixed integer and \<open>float\<close> arithmetic is rounded
  to single precision after every operation, as the code computes it. \<open>c_cbrt\<close> is the C
  library's cube root on \<open>double\<close>, whose accuracy the standard does not fix. The clock
  pointer is never used. \<open>None\<close> is a division by zero, whose infinity or NaN would be
  converted to an integer.

  The lemmas bound the window after a loss, show that the estimate of the Reno window never
  shrinks in an epoch, that the window after an ack is not below that estimate, and that
  nothing divides by zero.
\<close>

definition kCubeScale :: nat where "kCubeScale = 40"
definition kCubeCongestionWindowScale :: u64 where "kCubeCongestionWindowScale = 410"
definition kCubeFactor :: u64 where
  "kCubeFactor = push_bit kCubeScale 1 div kCubeCongestionWindowScale div kDefaultTCPMSS"
definition kDefaultCubicBackoffFactor :: cfloat where "kDefaultCubicBackoffFactor = f32 (7 / 10)"
definition kBetaLastMax :: cfloat where "kBetaLastMax = f32 (85 / 100)"
definition kDefaultNumConnections :: u32 where "kDefaultNumConnections = 2"

text \<open>Conversions of a floating point value to \<open>int\<close> and \<open>uint32_t\<close>, as x86-64 makes them.\<close>

definition f_to_i32 :: "cfloat \<Rightarrow> int" where
  "f_to_i32 x = (let n = ctrunc x in if - (2 ^ 31) \<le> n \<and> n < 2 ^ 31 then n else - (2 ^ 31))"

definition f_to_u32 :: "cfloat \<Rightarrow> u32" where
  "f_to_u32 x = word_of_int (f_to_i64 x)"

record cubic_bytes =
  cb_num_connections :: int
  cb_epoch :: quic_time
  cb_last_max_congestion_window :: byte_count
  cb_acked_bytes_count :: byte_count
  cb_estimated_tcp_congestion_window :: byte_count
  cb_origin_point_congestion_window :: byte_count
  cb_time_to_origin_point :: u32
  cb_last_target_congestion_window :: byte_count

definition ResetCubicState :: "cubic_bytes \<Rightarrow> cubic_bytes" where
  "ResetCubicState c = c\<lparr>cb_epoch := time_Zero, cb_last_max_congestion_window := 0, cb_acked_bytes_count := 0,
     cb_estimated_tcp_congestion_window := 0, cb_origin_point_congestion_window := 0,
     cb_time_to_origin_point := 0, cb_last_target_congestion_window := 0\<rparr>"

text \<open>The constructor leaves the reset of the fields to \<open>ResetCubicState\<close>.\<close>

definition cb_new :: cubic_bytes where
  "cb_new = ResetCubicState \<lparr>cb_num_connections = sint kDefaultNumConnections, cb_epoch = time_Zero,
     cb_last_max_congestion_window = 0, cb_acked_bytes_count = 0, cb_estimated_tcp_congestion_window = 0,
     cb_origin_point_congestion_window = 0, cb_time_to_origin_point = 0, cb_last_target_congestion_window = 0\<rparr>"

definition cb_SetNumConnections :: "int \<Rightarrow> cubic_bytes \<Rightarrow> cubic_bytes" where
  "cb_SetNumConnections n c = c\<lparr>cb_num_connections := n\<rparr>"

definition cb_Beta :: "cubic_bytes \<Rightarrow> cfloat" where
  "cb_Beta c = f32 (f32 (f32 (of_int (cb_num_connections c - 1)) + kDefaultCubicBackoffFactor)
     / f32 (of_int (cb_num_connections c)))"

definition cb_Alpha :: "cubic_bytes \<Rightarrow> cfloat" where
  "cb_Alpha c = (let beta = cb_Beta c; n = cb_num_connections c
     in f32 (f32 (f32 (of_int (3 * n * n)) * f32 (1 - beta)) / f32 (1 + beta)))"

definition cb_BetaLastMax :: "cubic_bytes \<Rightarrow> cfloat" where
  "cb_BetaLastMax c = f32 (f32 (f32 (of_int (cb_num_connections c - 1)) + kBetaLastMax)
     / f32 (of_int (cb_num_connections c)))"

definition cb_OnApplicationLimited :: "cubic_bytes \<Rightarrow> cubic_bytes" where
  "cb_OnApplicationLimited c = c\<lparr>cb_epoch := time_Zero\<rparr>"

definition CongestionWindowAfterPacketLoss :: "byte_count \<Rightarrow> cubic_bytes \<Rightarrow> cubic_bytes \<times> byte_count" where
  "CongestionWindowAfterPacketLoss current_congestion_window c =
     (let c = (if current_congestion_window + kDefaultTCPMSS < cb_last_max_congestion_window c
               then c\<lparr>cb_last_max_congestion_window :=
                      u64_of (f_to_i32 (f32 (cb_BetaLastMax c * u64_f32 current_congestion_window)))\<rparr>
               else c\<lparr>cb_last_max_congestion_window := current_congestion_window\<rparr>);
          c = c\<lparr>cb_epoch := time_Zero\<rparr>
      in (c, u64_of (f_to_i32 (f32 (u64_f32 current_congestion_window * cb_Beta c)))))"

text \<open>The start of an epoch, at the first ack after a loss.\<close>

definition start_epoch :: "(cfloat \<Rightarrow> cfloat) \<Rightarrow> byte_count \<Rightarrow> byte_count \<Rightarrow> quic_time \<Rightarrow> cubic_bytes \<Rightarrow> cubic_bytes" where
  "start_epoch c_cbrt acked_bytes current_congestion_window event_time c =
     (let c = c\<lparr>cb_epoch := event_time, cb_acked_bytes_count := acked_bytes,
                cb_estimated_tcp_congestion_window := current_congestion_window\<rparr>
      in if cb_last_max_congestion_window c \<le> current_congestion_window
         then c\<lparr>cb_time_to_origin_point := 0, cb_origin_point_congestion_window := current_congestion_window\<rparr>
         else c\<lparr>cb_time_to_origin_point := f_to_u32 (c_cbrt (u64_f64
                    (kCubeFactor * (cb_last_max_congestion_window c - current_congestion_window)))),
                cb_origin_point_congestion_window := cb_last_max_congestion_window c\<rparr>)"

text \<open>The elapsed time in units of 1/1024 seconds: the division is unsigned.\<close>

definition cubic_elapsed_time :: "time_delta \<Rightarrow> quic_time \<Rightarrow> cubic_bytes \<Rightarrow> int64" where
  "cubic_elapsed_time delay_min event_time c =
     i64_of (u64_of (i64 (ToMicroseconds (time_diff (time_plus event_time delay_min) (cb_epoch c)) * 2 ^ 10))
       div kNumMicrosPerSecond)"

text \<open>The cubic target, before it is limited by half the acked bytes.\<close>

definition cubic_target :: "int64 \<Rightarrow> cubic_bytes \<Rightarrow> byte_count" where
  "cubic_target elapsed_time c =
     (let origin = int (unat (cb_time_to_origin_point c));
          offset = u64_of \<bar>i64 (origin - elapsed_time)\<bar>;
          delta_congestion_window = drop_bit kCubeScale
            (kCubeCongestionWindowScale * offset * offset * offset * kDefaultTCPMSS)
      in if origin < elapsed_time then cb_origin_point_congestion_window c + delta_congestion_window
         else cb_origin_point_congestion_window c - delta_congestion_window)"

definition CongestionWindowAfterAck :: "(cfloat \<Rightarrow> cfloat) \<Rightarrow> byte_count \<Rightarrow> byte_count \<Rightarrow> time_delta \<Rightarrow> quic_time
    \<Rightarrow> cubic_bytes \<Rightarrow> (cubic_bytes \<times> byte_count) option" where
  "CongestionWindowAfterAck c_cbrt acked_bytes current_congestion_window delay_min event_time c =
     (let c = c\<lparr>cb_acked_bytes_count := cb_acked_bytes_count c + acked_bytes\<rparr>;
          c = (if \<not> time_IsInitialized (cb_epoch c)
               then start_epoch c_cbrt acked_bytes current_congestion_window event_time c else c);
          elapsed_time = cubic_elapsed_time delay_min event_time c;
          target = min (cubic_target elapsed_time c) (current_congestion_window + cb_acked_bytes_count c div 2);
          est = cb_estimated_tcp_congestion_window c
      in if est = 0 then None
         else
           let increase = f32 (f32 (u64_f32 (cb_acked_bytes_count c) * f32 (cb_Alpha c * u64_f32 kDefaultTCPMSS))
                 / u64_f32 est);
               est = f_to_u64 (f32 (u64_f32 est + increase));
               c = c\<lparr>cb_estimated_tcp_congestion_window := est, cb_acked_bytes_count := 0,
                     cb_last_target_congestion_window := target\<rparr>
           in Some (c, if target < est then est else target))"

subsection \<open>Bounds of the window\<close>

text \<open>The factors for the default two connections.\<close>

lemma cb_Beta_2: "cb_num_connections c = 2 \<Longrightarrow> cb_Beta c = 14260634 / 2 ^ 24"
proof -
  assume "cb_num_connections c = 2"
  moreover have "f32 (f32 (f32 (of_int (2 - 1)) + kDefaultCubicBackoffFactor) / f32 (of_int 2)) = 14260634 / 2 ^ 24"
    by code_simp
  ultimately show ?thesis by (simp only: cb_Beta_def)
qed

lemma cb_Alpha_2:
  assumes "cb_num_connections c = 2"
  shows "f32 (cb_Alpha c * u64_f32 kDefaultTCPMSS) = 5818533 / 4096"
proof -
  have "f32 (f32 (f32 (f32 (of_int (3 * 2 * 2)) * f32 (1 - 14260634 / 2 ^ 24)) / f32 (1 + 14260634 / 2 ^ 24))
      * u64_f32 kDefaultTCPMSS) = 5818533 / 4096" by code_simp
  with assms show ?thesis by (simp only: cb_Alpha_def cb_Beta_2 Let_def)
qed

lemma f_to_i32_eq: "0 \<le> x \<Longrightarrow> x < 2 ^ 31 \<Longrightarrow> f_to_i32 x = \<lfloor>x\<rfloor>"
proof -
  assume x: "0 \<le> x" "x < 2 ^ 31"
  then have "\<lfloor>x\<rfloor> < 2 ^ 31" by (simp add: floor_less_iff)
  with x show ?thesis by (simp add: f_to_i32_def ctrunc_def Let_def)
qed

text \<open>The product of a window and a factor that is about 0.85, in single precision.\<close>

lemma f32_scaled_bounds:
  assumes b: "b = 14260634 / 2 ^ 24" and w: "0 \<le> (w :: rat)"
  shows "w * (84 / 100) \<le> f32 (f32 w * b)" "f32 (f32 w * b) \<le> w * (86 / 100)"
proof -
  have lo: "w * (1 - 1 / 2 ^ 24) \<le> f32 w" and hi: "f32 w \<le> w * (1 + 1 / 2 ^ 24)"
    using rnd_lower [OF w, of 24] rnd_upper [OF w, of 24] by simp_all
  have n: "0 \<le> f32 w * b" using rnd_nonneg [OF w] by (simp add: b)
  have "w * (1 - 1 / 2 ^ 24) * b * (1 - 1 / 2 ^ 24) \<le> f32 w * b * (1 - 1 / 2 ^ 24)"
    using lo by (intro mult_right_mono) (simp_all add: b)
  also have "\<dots> \<le> f32 (f32 w * b)" using rnd_lower [OF n, of 24] by simp
  finally have l: "w * ((1 - 1 / 2 ^ 24) * b * (1 - 1 / 2 ^ 24)) \<le> f32 (f32 w * b)" by (simp add: ac_simps)
  have "w * (84 / 100) \<le> w * ((1 - 1 / 2 ^ 24) * b * (1 - 1 / 2 ^ 24))"
    by (rule mult_left_mono [OF _ w]) (simp add: b)
  from this l show "w * (84 / 100) \<le> f32 (f32 w * b)" by (rule order_trans)
  have "f32 (f32 w * b) \<le> f32 w * b * (1 + 1 / 2 ^ 24)" using rnd_upper [OF n, of 24] by simp
  also have "\<dots> \<le> w * (1 + 1 / 2 ^ 24) * b * (1 + 1 / 2 ^ 24)"
    using hi by (intro mult_right_mono) (simp_all add: b)
  also have "\<dots> = w * ((1 + 1 / 2 ^ 24) * b * (1 + 1 / 2 ^ 24))" by simp
  also have "\<dots> \<le> w * (86 / 100)" by (rule mult_left_mono [OF _ w]) (simp add: b)
  finally show "f32 (f32 w * b) \<le> w * (86 / 100)" .
qed

lemma window_after_loss:
  assumes c: "cb_num_connections c = 2" and w: "uint w < 2 ^ 31"
  defines "v \<equiv> snd (CongestionWindowAfterPacketLoss w c)"
  shows "84 * uint w \<le> 100 * uint v + 100" "100 * uint v \<le> 86 * uint w"
proof -
  let ?x = "f32 (u64_f32 w * cb_Beta c)"
  have u: "(0 :: rat) \<le> of_int (uint w)" by (simp only: of_int_0_le_iff uint_ge_0)
  note b = f32_scaled_bounds [OF cb_Beta_2 [OF c] u]
  have "(of_int (uint w) :: rat) < of_int (2 ^ 31)" using w by (simp only: of_int_less_iff)
  then have w': "(of_int (uint w) :: rat) < 2 ^ 31" by simp
  have x: "0 \<le> ?x" "?x < 2 ^ 31"
    using b w' uint_ge_0 [of w] by (auto intro: order_trans [OF _ b(1)])
  have "v = u64_of \<lfloor>?x\<rfloor>" using f_to_i32_eq [OF x] by (simp add: v_def CongestionWindowAfterPacketLoss_def Let_def cb_Beta_def)
  moreover have "0 \<le> \<lfloor>?x\<rfloor>" "\<lfloor>?x\<rfloor> < 2 ^ 64" using x by (simp_all add: floor_less_iff)
  ultimately have v: "uint v = \<lfloor>?x\<rfloor>" by (simp add: uint_u64_of)
  have "of_int (uint v) \<le> ?x" "?x < of_int (uint v) + 1" unfolding v by linarith+
  with b have "(of_int (84 * uint w) :: rat) \<le> of_int (100 * uint v + 100)"
    and "(of_int (100 * uint v) :: rat) \<le> of_int (86 * uint w)" by simp_all
  then show "84 * uint w \<le> 100 * uint v + 100" "100 * uint v \<le> 86 * uint w" by (simp_all only: of_int_le_iff)
qed

text \<open>The estimate of the Reno window.\<close>

definition cb_inv :: "cubic_bytes \<Rightarrow> byte_count \<Rightarrow> byte_count \<Rightarrow> bool" where
  "cb_inv c w mx \<longleftrightarrow> cb_num_connections c = 2 \<and> cb_acked_bytes_count c = 0
     \<and> (cb_epoch c \<noteq> time_Zero \<longrightarrow> 2920 \<le> cb_estimated_tcp_congestion_window c
          \<and> (cb_estimated_tcp_congestion_window c \<le> w \<or> mx \<le> w))"

lemma estimate_grows:
  assumes est: "2920 \<le> est" "uint est < 2 ^ 40" and acked: "uint acked < 2 ^ 16"
  defines "x \<equiv> f32 (u64_f32 est + f32 (f32 (u64_f32 acked * (5818533 / 4096)) / u64_f32 est))"
  shows "2920 \<le> f_to_u64 x"
proof -
  have e: "(2920 :: rat) \<le> of_int (uint est)" "(of_int (uint est) :: rat) \<le> 2 ^ 40"
  proof -
    have "2920 \<le> uint est" using est(1) by (simp add: u64_le_iff)
    then have "(of_int 2920 :: rat) \<le> of_int (uint est)" by (simp only: of_int_le_iff)
    then show "(2920 :: rat) \<le> of_int (uint est)" by simp
    have "(of_int (uint est) :: rat) \<le> of_int (2 ^ 40)" using est(2) by (simp only: of_int_le_iff less_imp_le)
    then show "(of_int (uint est) :: rat) \<le> 2 ^ 40" by simp
  qed
  have est_lo: "2920 \<le> u64_f32 est" using rnd_ge_int [of 2920 "of_int (uint est)" 24] e by simp
  have est_hi: "u64_f32 est \<le> 2 ^ 40" using e by (intro rnd_le_pow2) simp_all
  have a: "(of_int (uint acked) :: rat) \<le> 2 ^ 16"
  proof -
    have "(of_int (uint acked) :: rat) \<le> of_int (2 ^ 16)" using acked by (simp only: of_int_le_iff less_imp_le)
    then show ?thesis by simp
  qed
  have a0: "(0 :: rat) \<le> of_int (uint acked)" by (simp only: of_int_0_le_iff uint_ge_0)
  have acked_hi: "0 \<le> u64_f32 acked" "u64_f32 acked \<le> 2 ^ 16"
    by (rule rnd_nonneg [OF a0]) (rule rnd_le_pow2 [OF a0 a], simp)
  have "u64_f32 acked * (5818533 / 4096) \<le> 2 ^ 16 * (5818533 / 4096)"
    using acked_hi(2) by (rule mult_right_mono) simp
  also have "\<dots> \<le> (2 :: rat) ^ 27" by simp
  finally have p: "f32 (u64_f32 acked * (5818533 / 4096)) \<le> 2 ^ 27"
    using acked_hi(1) by (intro rnd_le_pow2) simp_all
  let ?q = "f32 (u64_f32 acked * (5818533 / 4096)) / u64_f32 est"
  have p0: "0 \<le> f32 (u64_f32 acked * (5818533 / 4096))" using acked_hi(1) by (intro rnd_nonneg) simp
  have q: "0 \<le> ?q" "?q \<le> 2 ^ 27"
    using p p0 est_lo by (simp_all add: field_simps) (meson mult_left_mono order_trans)?
  have i: "0 \<le> f32 ?q" "f32 ?q \<le> 2 ^ 27"
    by (rule rnd_nonneg [OF q(1)]) (rule rnd_le_pow2 [OF q], simp)
  have x: "2920 \<le> x" "x \<le> 2 ^ 41"
    using rnd_ge_int [of 2920 "u64_f32 est + f32 ?q" 24] rnd_le_pow2 [of "u64_f32 est + f32 ?q" 41 24] est_lo est_hi i
    by (simp_all add: x_def)
  then have "uint (f_to_u64 x) = \<lfloor>x\<rfloor>" by (simp add: uint_f_to_u64 ctrunc_def)
  moreover have "2920 \<le> \<lfloor>x\<rfloor>" using x(1) by (simp add: le_floor_iff)
  ultimately show ?thesis by (simp add: u64_le_iff)
qed

lemma CongestionWindowAfterAck_spec:
  assumes inv: "cb_inv c w mx" and w: "2920 \<le> w" "w < mx" "uint mx < 2 ^ 31" and acked: "uint acked < 2 ^ 16"
  obtains c' v where "CongestionWindowAfterAck cbrt acked w dmin t c = Some (c', v)"
    "cb_inv c' (min mx v) mx" "2920 \<le> v"
proof -
  have n: "cb_num_connections c = 2" and z: "cb_acked_bytes_count c = 0" using inv by (simp_all add: cb_inv_def)
  let ?c1 = "c\<lparr>cb_acked_bytes_count := cb_acked_bytes_count c + acked\<rparr>"
  define c2 where "c2 = (if \<not> time_IsInitialized (cb_epoch ?c1) then start_epoch cbrt acked w t ?c1 else ?c1)"
  have c2: "cb_num_connections c2 = 2" "cb_acked_bytes_count c2 = acked"
    "2920 \<le> cb_estimated_tcp_congestion_window c2" "cb_estimated_tcp_congestion_window c2 \<le> w"
    using n z inv w by (auto simp: c2_def start_epoch_def Let_def cb_inv_def time_IsInitialized_def time_Zero_def)
  let ?est = "cb_estimated_tcp_congestion_window c2"
  have "uint ?est \<le> uint w" "uint w < uint mx" using c2(4) w(2) by (simp_all add: u64_le_iff u64_less_iff)
  then have est: "uint ?est < 2 ^ 40" using w(3) by simp
  have ne: "?est \<noteq> 0" using c2(3) by auto
  define x where "x = f_to_u64 (f32 (u64_f32 ?est + f32 (f32 (u64_f32 acked * (5818533 / 4096)) / u64_f32 ?est)))"
  have x: "2920 \<le> x" unfolding x_def by (rule estimate_grows [OF c2(3) est acked])
  define tgt where "tgt = min (cubic_target (cubic_elapsed_time dmin t c2) c2) (w + acked div 2)"
  have run: "CongestionWindowAfterAck cbrt acked w dmin t c
      = Some (c2\<lparr>cb_estimated_tcp_congestion_window := x, cb_acked_bytes_count := 0,
          cb_last_target_congestion_window := tgt\<rparr>, if tgt < x then x else tgt)"
    unfolding CongestionWindowAfterAck_def c2_def [symmetric] Let_def cb_Alpha_2 [OF c2(1)] c2(2) tgt_def [symmetric]
    by (simp only: x_def if_not_P [OF ne] if_False ne)
  show thesis
    by (rule that [OF run]) (use x c2(1) in \<open>auto simp: cb_inv_def min_def not_less intro: order_trans\<close>)
qed

end
