(* ===== verification/Hybrid_Slow_Start.thy ===== *)
theory Hybrid_Slow_Start
  imports Quic_Time Packet_Number
begin

section \<open>Hybrid slow start\<close>

text \<open>
  \<open>congestion_control/hybrid_slow_start.h\<close> and \<open>.cc\<close>: the detection of a growing round trip
  time that ends the slow start of the Cubic sender.

  The lemmas show what a round of samples finds: the minimum of its first eight round trip
  times is compared once with the minimum of the connection, and a delay that was found is
  reported until a restart.
\<close>

definition kHybridStartLowWindow :: packet_count where "kHybridStartLowWindow = 16"
definition kHybridStartMinSamples :: u32 where "kHybridStartMinSamples = 8"
definition kHybridStartDelayFactorExp :: nat where "kHybridStartDelayFactorExp = 3"
definition kHybridStartDelayMinThresholdUs :: int64 where "kHybridStartDelayMinThresholdUs = 4000"
definition kHybridStartDelayMaxThresholdUs :: int64 where "kHybridStartDelayMaxThresholdUs = 16000"

datatype hystart_state = NOT_FOUND | DELAY

record hybrid_slow_start =
  hs_started :: bool
  hs_hystart_found :: hystart_state
  hs_last_sent_packet_number :: packet_number
  hs_end_packet_number :: packet_number
  hs_rtt_sample_count :: u32
  hs_current_min_rtt :: time_delta

definition hs_new :: hybrid_slow_start where
  "hs_new = \<lparr>hs_started = False, hs_hystart_found = NOT_FOUND,
     hs_last_sent_packet_number = UninitializedPacketNumber, hs_end_packet_number = UninitializedPacketNumber,
     hs_rtt_sample_count = 0, hs_current_min_rtt = delta_Zero\<rparr>"

definition hs_IsEndOfRound :: "packet_number \<Rightarrow> hybrid_slow_start \<Rightarrow> bool" where
  "hs_IsEndOfRound ack s \<longleftrightarrow> \<not> IsInitialized (hs_end_packet_number s) \<or> hs_end_packet_number s \<le> ack"

definition hs_OnPacketAcked :: "packet_number \<Rightarrow> hybrid_slow_start \<Rightarrow> hybrid_slow_start" where
  "hs_OnPacketAcked acked_packet_number s =
     (if hs_IsEndOfRound acked_packet_number s then s\<lparr>hs_started := False\<rparr> else s)"

definition hs_OnPacketSent :: "packet_number \<Rightarrow> hybrid_slow_start \<Rightarrow> hybrid_slow_start" where
  "hs_OnPacketSent packet_number s = s\<lparr>hs_last_sent_packet_number := packet_number\<rparr>"

definition hs_Restart :: "hybrid_slow_start \<Rightarrow> hybrid_slow_start" where
  "hs_Restart s = s\<lparr>hs_started := False, hs_hystart_found := NOT_FOUND\<rparr>"

definition hs_StartReceiveRound :: "packet_number \<Rightarrow> hybrid_slow_start \<Rightarrow> hybrid_slow_start" where
  "hs_StartReceiveRound last_sent s = s\<lparr>hs_end_packet_number := last_sent, hs_current_min_rtt := delta_Zero,
     hs_rtt_sample_count := 0, hs_started := True\<rparr>"

definition hs_ShouldExitSlowStart :: "time_delta \<Rightarrow> time_delta \<Rightarrow> packet_count \<Rightarrow> hybrid_slow_start
    \<Rightarrow> hybrid_slow_start \<times> bool" where
  "hs_ShouldExitSlowStart latest_rtt min_rtt congestion_window s =
     (let s = (if \<not> hs_started s then hs_StartReceiveRound (hs_last_sent_packet_number s) s else s)
      in if hs_hystart_found s \<noteq> NOT_FOUND then (s, True)
         else
           let s = s\<lparr>hs_rtt_sample_count := hs_rtt_sample_count s + 1\<rparr>;
               s = (if hs_rtt_sample_count s \<le> kHybridStartMinSamples
                    then (if delta_IsZero (hs_current_min_rtt s) \<or> latest_rtt < hs_current_min_rtt s
                          then s\<lparr>hs_current_min_rtt := latest_rtt\<rparr> else s)
                    else s);
               s = (if hs_rtt_sample_count s = kHybridStartMinSamples
                    then let threshold = ToMicroseconds min_rtt div 2 ^ kHybridStartDelayFactorExp;
                             threshold = min threshold kHybridStartDelayMaxThresholdUs;
                             threshold = FromMicroseconds (max threshold kHybridStartDelayMinThresholdUs)
                         in if delta_plus min_rtt threshold < hs_current_min_rtt s
                            then s\<lparr>hs_hystart_found := DELAY\<rparr> else s
                    else s)
           in (s, kHybridStartLowWindow \<le> congestion_window \<and> hs_hystart_found s \<noteq> NOT_FOUND))"

subsection \<open>A round of samples\<close>

text \<open>The calls for a list of round trip times, with what each of them returned.\<close>

fun hs_samples :: "time_delta \<Rightarrow> packet_count \<Rightarrow> time_delta list \<Rightarrow> hybrid_slow_start \<Rightarrow> hybrid_slow_start \<times> bool list" where
  "hs_samples min_rtt window [] s = (s, [])"
| "hs_samples min_rtt window (rtt # rtts) s =
     (let (s, exit) = hs_ShouldExitSlowStart rtt min_rtt window s;
          (s, exits) = hs_samples min_rtt window rtts s
      in (s, exit # exits))"

lemma hs_samples_append:
  "hs_samples m w (xs @ ys) s = (let (s, a) = hs_samples m w xs s; (s, b) = hs_samples m w ys s in (s, a @ b))"
  by (induction xs arbitrary: s) (auto simp: Let_def split: prod.splits)

definition hs_threshold :: "time_delta \<Rightarrow> int" where
  "hs_threshold min_rtt = max 4000 (min 16000 (min_rtt div 8))"

text \<open>A round that has seen the samples \<open>xs\<close>, the first of which may still be to come.\<close>

definition hs_round :: "time_delta list \<Rightarrow> hybrid_slow_start \<Rightarrow> bool" where
  "hs_round xs s \<longleftrightarrow> hs_hystart_found s = NOT_FOUND \<and> (xs = [] \<longrightarrow> \<not> hs_started s)
     \<and> (xs \<noteq> [] \<longrightarrow> hs_started s \<and> hs_rtt_sample_count s = of_nat (length xs) \<and> hs_current_min_rtt s = Min (set xs))"

lemma small_count: "n < 7 \<Longrightarrow> (of_nat n + 1 :: u32) \<le> 8 \<and> (of_nat n + 1 :: u32) \<noteq> 8"
proof -
  assume "n < 7"
  then consider "n = 0" | "n = 1" | "n = 2" | "n = 3" | "n = 4" | "n = 5" | "n = 6" by linarith
  then show ?thesis by cases simp_all
qed

lemma hs_sample:
  fixes min_rtt rtt :: time_delta and w :: packet_count
  assumes r: "hs_round xs s" and n: "length xs < 8" and pos: "\<forall>x \<in> set xs. 0 < x"
  defines "s' \<equiv> fst (hs_ShouldExitSlowStart rtt min_rtt w s)" and "exit \<equiv> snd (hs_ShouldExitSlowStart rtt min_rtt w s)"
    and "found \<equiv> delta_plus min_rtt (hs_threshold min_rtt) < Min (set (xs @ [rtt]))"
  shows "length xs < 7 \<Longrightarrow> hs_round (xs @ [rtt]) s' \<and> \<not> exit"
    "length xs = 7 \<Longrightarrow> (exit \<longleftrightarrow> 16 \<le> w \<and> found) \<and> (hs_hystart_found s' = DELAY \<longleftrightarrow> found)"
proof -
  define s0 where "s0 = (if \<not> hs_started s then hs_StartReceiveRound (hs_last_sent_packet_number s) s else s)"
  define c where "c = (of_nat (length xs) + 1 :: u32)"
  define mn where "mn = Min (set (xs @ [rtt]))"
  have s0: "hs_hystart_found s0 = NOT_FOUND" "hs_started s0" "hs_rtt_sample_count s0 + 1 = c"
    "xs = [] \<Longrightarrow> hs_current_min_rtt s0 = 0" "xs \<noteq> [] \<Longrightarrow> hs_current_min_rtt s0 = Min (set xs)"
    using r by (auto simp: hs_round_def hs_StartReceiveRound_def delta_Zero_def s0_def c_def)
  have m: "(if delta_IsZero (hs_current_min_rtt s0) \<or> rtt < hs_current_min_rtt s0
      then s0\<lparr>hs_rtt_sample_count := c, hs_current_min_rtt := rtt\<rparr> else s0\<lparr>hs_rtt_sample_count := c\<rparr>)
      = s0\<lparr>hs_rtt_sample_count := c, hs_current_min_rtt := mn\<rparr>"
  proof (cases "xs = []")
    case True
    then show ?thesis using s0(4) by (simp add: delta_IsZero_def mn_def)
  next
    case False
    then have "0 < Min (set xs)" using pos by (simp add: Min_gr_iff)
    moreover have "mn = min (Min (set xs)) rtt" using False by (simp add: mn_def min.commute)
    ultimately show ?thesis using s0(5) [OF False] by (auto simp: delta_IsZero_def min_def)
  qed
  have thr: "FromMicroseconds (max (min (ToMicroseconds min_rtt div 2 ^ kHybridStartDelayFactorExp)
      kHybridStartDelayMaxThresholdUs) kHybridStartDelayMinThresholdUs) = hs_threshold min_rtt"
    by (simp add: hs_threshold_def FromMicroseconds_def ToMicroseconds_def kHybridStartDelayFactorExp_def
        kHybridStartDelayMaxThresholdUs_def kHybridStartDelayMinThresholdUs_def max.commute min.commute)
  have run: "hs_ShouldExitSlowStart rtt min_rtt w s =
    (let s2 = (if c \<le> 8 then s0\<lparr>hs_rtt_sample_count := c, hs_current_min_rtt := mn\<rparr>
               else s0\<lparr>hs_rtt_sample_count := c\<rparr>);
         s3 = (if c = 8
               then if delta_plus min_rtt (hs_threshold min_rtt) < hs_current_min_rtt s2
                    then s2\<lparr>hs_hystart_found := DELAY\<rparr> else s2
               else s2)
     in (s3, 16 \<le> w \<and> hs_hystart_found s3 \<noteq> NOT_FOUND))"
    unfolding hs_ShouldExitSlowStart_def unfolding s0_def [symmetric] unfolding Let_def thr kHybridStartMinSamples_def
      kHybridStartLowWindow_def
    using s0(1,3) m by (simp cong: if_cong)
  show "hs_round (xs @ [rtt]) s' \<and> \<not> exit" if "length xs < 7"
    using small_count [OF that] s0(1,2) run by (simp add: s'_def exit_def hs_round_def Let_def c_def mn_def)
  show "(exit \<longleftrightarrow> 16 \<le> w \<and> found) \<and> (hs_hystart_found s' = DELAY \<longleftrightarrow> found)" if "length xs = 7"
  proof -
    have "c = 8" using that by (simp add: c_def)
    then show ?thesis using s0(1) run unfolding s'_def exit_def found_def mn_def [symmetric] by (simp add: Let_def)
  qed
qed

lemma hs_samples_round:
  "hs_round xs s \<Longrightarrow> length (xs @ ys) < 8 \<Longrightarrow> \<forall>x \<in> set (xs @ ys). 0 < x
    \<Longrightarrow> hs_round (xs @ ys) (fst (hs_samples m w ys s)) \<and> snd (hs_samples m w ys s) = replicate (length ys) False"
proof (induction ys arbitrary: xs s)
  case (Cons y ys)
  obtain s1 e where s1: "hs_ShouldExitSlowStart y m w s = (s1, e)" by (rule prod.exhaust)
  have "hs_round (xs @ [y]) s1 \<and> \<not> e"
    using hs_sample(1) [OF Cons.prems(1), of y m w] Cons.prems(2,3) by (simp add: s1)
  with Cons.IH [of "xs @ [y]" s1] Cons.prems(2,3) show ?case by (auto simp: s1 Let_def split: prod.splits)
qed simp

text \<open>Eight samples of a round that has just begun are decided by the last of them: it asks to leave
  slow start exactly if the window has sixteen packets and the least of the samples exceeds the least
  round trip time of the connection by more than an eighth, taken to be at least 4 and at most 16
  milliseconds.\<close>

theorem eighth_sample_decides:
  assumes "hs_hystart_found s = NOT_FOUND" "\<not> hs_started s" "length rtts = 8" "\<forall>rtt \<in> set rtts. 0 < rtt"
    "0 \<le> min_rtt" "min_rtt < 2 ^ 62"
  shows "snd (hs_samples min_rtt window rtts s) = replicate 7 False @
    [16 \<le> window \<and> min_rtt + max 4000 (min 16000 (min_rtt div 8)) < Min (set rtts)]"
proof -
  define ys where "ys = butlast rtts"
  define z where "z = List.last rtts"
  have "rtts \<noteq> []" using assms(3) by auto
  then have e: "rtts = ys @ [z]" and n: "length ys = 7" using assms(3) by (simp_all add: ys_def z_def)
  have "hs_round [] s" using assms(1,2) by (simp add: hs_round_def)
  from hs_samples_round [OF this, of ys min_rtt window] assms(4) n have
    y: "hs_round ys (fst (hs_samples min_rtt window ys s))" "snd (hs_samples min_rtt window ys s) = replicate 7 False"
    by (simp_all add: e)
  have t: "delta_plus min_rtt (hs_threshold min_rtt) = min_rtt + max 4000 (min 16000 (min_rtt div 8))"
    unfolding delta_plus_def hs_threshold_def by (rule i64_id) (use assms(5,6) in \<open>auto simp: in_i64_def\<close>)
  obtain s1 where s1: "hs_samples min_rtt window ys s = (s1, replicate 7 False)" using y(2) by (metis prod.collapse)
  obtain s2 b where s2: "hs_ShouldExitSlowStart z min_rtt window s1 = (s2, b)" by (rule prod.exhaust)
  have r: "hs_round ys s1" and p: "\<forall>x \<in> set ys. 0 < x" and n8: "length ys < 8"
    using y(1) assms(4) n by (simp_all add: s1 e)
  have b: "b \<longleftrightarrow> 16 \<le> window \<and> min_rtt + max 4000 (min 16000 (min_rtt div 8)) < Min (set (ys @ [z]))"
    using hs_sample(2) [OF r n8 p n, of z min_rtt window] unfolding t s2 by simp
  have "hs_samples min_rtt window (ys @ [z]) s = (s2, replicate 7 False @ [b])"
    unfolding hs_samples_append s1 Let_def prod.case hs_samples.simps s2 by simp
  then show ?thesis unfolding e b by simp
qed

lemma eighth_sample_decides_witness:
  "List.last (snd (hs_samples 20000 20 (replicate 7 30000 @ [25000]) hs_new))"
proof -
  have "snd (hs_samples 20000 20 (replicate 7 30000 @ [25000]) hs_new) = replicate 7 False @
    [16 \<le> (20 :: packet_count) \<and> 20000 + max 4000 (min 16000 (20000 div 8)) < Min (set (replicate 7 30000 @ [25000 :: int]))]"
    by (rule eighth_sample_decides) (simp_all add: hs_new_def)
  then show ?thesis by simp
qed

end
