(* ===== verification/Tcp_Cubic.thy ===== *)
theory Tcp_Cubic
  imports Cubic_Bytes Hybrid_Slow_Start Prr_Sender Send_Algorithm
begin

section \<open>The Cubic sender\<close>

text \<open>
  \<open>TcpCubicSenderBytes\<close> of \<open>congestion_control/tcp_cubic_sender_bytes.h\<close> and \<open>.cc\<close>: slow start
  with hybrid exit, one window reduction per flight with losses, recovery, Cubic or Reno
  growth. The round trip time statistics behind its pointer are an argument, the connection
  counters are passed and returned. \<open>c_cbrt\<close> is the cube root of the C library.

  The lemmas show that the sender keeps its invariant and never fails, so that it meets the
  contract of a send algorithm, within which bounds its window stays, that a flight reduces
  it once, and that recovery never limits sending.
\<close>

definition kMaxBurstBytes :: byte_count where "kMaxBurstBytes = 3 * kDefaultTCPMSS"
definition kRenoBeta :: cfloat where "kRenoBeta = f32 (7 / 10)"
definition tc_kDefaultMinimumCongestionWindow :: byte_count where
  "tc_kDefaultMinimumCongestionWindow = 2 * kDefaultTCPMSS"
definition kMaxResumptionCongestionWindow :: packet_count where "kMaxResumptionCongestionWindow = 200"

record tcp_cubic =
  tc_hybrid_slow_start :: hybrid_slow_start
  tc_prr :: prr_sender
  tc_reno :: bool
  tc_num_connections :: u32
  tc_largest_sent_packet_number :: packet_number
  tc_largest_acked_packet_number :: packet_number
  tc_largest_sent_at_last_cutback :: packet_number
  tc_min4_mode :: bool
  tc_last_cutback_exited_slowstart :: bool
  tc_slow_start_large_reduction :: bool
  tc_no_prr :: bool
  tc_cubic :: cubic_bytes
  tc_num_acked_packets :: u64
  tc_congestion_window :: byte_count
  tc_min_congestion_window :: byte_count
  tc_max_congestion_window :: byte_count
  tc_slowstart_threshold :: byte_count
  tc_initial_tcp_congestion_window :: byte_count
  tc_initial_max_tcp_congestion_window :: byte_count
  tc_min_slow_start_exit_window :: byte_count

definition TcpCubicSenderBytes :: "bool \<Rightarrow> packet_count \<Rightarrow> packet_count \<Rightarrow> tcp_cubic" where
  "TcpCubicSenderBytes reno initial_tcp_congestion_window max_window =
     \<lparr>tc_hybrid_slow_start = hs_new, tc_prr = prr_new, tc_reno = reno,
      tc_num_connections = kDefaultNumConnections,
      tc_largest_sent_packet_number = UninitializedPacketNumber,
      tc_largest_acked_packet_number = UninitializedPacketNumber,
      tc_largest_sent_at_last_cutback = UninitializedPacketNumber,
      tc_min4_mode = False, tc_last_cutback_exited_slowstart = False, tc_slow_start_large_reduction = False,
      tc_no_prr = False, tc_cubic = cb_new, tc_num_acked_packets = 0,
      tc_congestion_window = initial_tcp_congestion_window * kDefaultTCPMSS,
      tc_min_congestion_window = tc_kDefaultMinimumCongestionWindow,
      tc_max_congestion_window = max_window * kDefaultTCPMSS,
      tc_slowstart_threshold = max_window * kDefaultTCPMSS,
      tc_initial_tcp_congestion_window = initial_tcp_congestion_window * kDefaultTCPMSS,
      tc_initial_max_tcp_congestion_window = max_window * kDefaultTCPMSS,
      tc_min_slow_start_exit_window = tc_kDefaultMinimumCongestionWindow\<rparr>"

subsection \<open>Queries\<close>

definition RenoBeta :: "tcp_cubic \<Rightarrow> cfloat" where
  "RenoBeta s = f32 (f32 (f32 (of_int (uint (tc_num_connections s - 1))) + kRenoBeta)
     / f32 (of_int (uint (tc_num_connections s))))"

definition tc_InSlowStart :: "tcp_cubic \<Rightarrow> bool" where
  "tc_InSlowStart s \<longleftrightarrow> tc_congestion_window s < tc_slowstart_threshold s"

definition tc_InRecovery :: "tcp_cubic \<Rightarrow> bool" where
  "tc_InRecovery s \<longleftrightarrow> IsInitialized (tc_largest_acked_packet_number s)
     \<and> IsInitialized (tc_largest_sent_at_last_cutback s)
     \<and> tc_largest_acked_packet_number s \<le> tc_largest_sent_at_last_cutback s"

definition tc_CanSend :: "byte_count \<Rightarrow> tcp_cubic \<Rightarrow> bool" where
  "tc_CanSend bytes_in_flight s =
     (if \<not> tc_no_prr s \<and> tc_InRecovery s
      then prr_CanSend (tc_congestion_window s) bytes_in_flight (tc_slowstart_threshold s) (tc_prr s)
      else if bytes_in_flight < tc_congestion_window s then True
      else if tc_min4_mode s \<and> bytes_in_flight < 4 * kDefaultTCPMSS then True else False)"

definition tc_PacingRate :: "rtt_stats \<Rightarrow> byte_count \<Rightarrow> tcp_cubic \<Rightarrow> bandwidth option" where
  "tc_PacingRate rtt bytes_in_flight s = do {
     b \<leftarrow> FromBytesAndTimeDelta (tc_congestion_window s) (SmoothedOrInitialRtt rtt);
     Some (bw_mult b (if tc_InSlowStart s then 2 else if tc_no_prr s \<and> tc_InRecovery s then 1 else 5 / 4)) }"

definition tc_BandwidthEstimate :: "rtt_stats \<Rightarrow> tcp_cubic \<Rightarrow> bandwidth option" where
  "tc_BandwidthEstimate rtt s =
     (if delta_IsZero (rs_smoothed_rtt rtt) then Some bw_Zero
      else FromBytesAndTimeDelta (tc_congestion_window s) (rs_smoothed_rtt rtt))"

definition IsCwndLimited :: "byte_count \<Rightarrow> tcp_cubic \<Rightarrow> bool" where
  "IsCwndLimited bytes_in_flight s =
     (let congestion_window = tc_congestion_window s
      in if congestion_window \<le> bytes_in_flight then True
         else let available_bytes = congestion_window - bytes_in_flight;
                  slow_start_limited = (tc_InSlowStart s \<and> congestion_window div 2 < bytes_in_flight)
              in slow_start_limited \<or> available_bytes \<le> kMaxBurstBytes)"

subsection \<open>Setters\<close>

definition SetCongestionWindowFromBandwidthAndRtt :: "bandwidth \<Rightarrow> time_delta \<Rightarrow> tcp_cubic \<Rightarrow> tcp_cubic" where
  "SetCongestionWindowFromBandwidthAndRtt bandwidth rtt s =
     (let new_congestion_window = ToBytesPerPeriod bandwidth rtt
      in s\<lparr>tc_congestion_window := max (tc_min_congestion_window s)
             (min new_congestion_window (kMaxResumptionCongestionWindow * kDefaultTCPMSS))\<rparr>)"

definition SetMinCongestionWindowInPackets :: "packet_count \<Rightarrow> tcp_cubic \<Rightarrow> tcp_cubic" where
  "SetMinCongestionWindowInPackets congestion_window s =
     s\<lparr>tc_min_congestion_window := congestion_window * kDefaultTCPMSS\<rparr>"

definition SetNumEmulatedConnections :: "int \<Rightarrow> tcp_cubic \<Rightarrow> tcp_cubic" where
  "SetNumEmulatedConnections num_connections s =
     (let s = s\<lparr>tc_num_connections := word_of_int (max 1 num_connections)\<rparr>
      in s\<lparr>tc_cubic := cb_SetNumConnections (sint (tc_num_connections s)) (tc_cubic s)\<rparr>)"

definition ExitSlowstart :: "tcp_cubic \<Rightarrow> tcp_cubic" where
  "ExitSlowstart s = s\<lparr>tc_slowstart_threshold := tc_congestion_window s\<rparr>"

subsection \<open>Acked and lost packets\<close>

definition MaybeIncreaseCwnd :: "(cfloat \<Rightarrow> cfloat) \<Rightarrow> rtt_stats \<Rightarrow> byte_count \<Rightarrow> byte_count \<Rightarrow> quic_time
    \<Rightarrow> tcp_cubic \<Rightarrow> tcp_cubic option" where
  "MaybeIncreaseCwnd c_cbrt rtt acked_bytes prior_in_flight event_time s =
     (if \<not> IsCwndLimited prior_in_flight s then Some (s\<lparr>tc_cubic := cb_OnApplicationLimited (tc_cubic s)\<rparr>)
      else if tc_max_congestion_window s \<le> tc_congestion_window s then Some s
      else if tc_InSlowStart s then Some (s\<lparr>tc_congestion_window := tc_congestion_window s + kDefaultTCPMSS\<rparr>)
      else if tc_reno s
      then (let s = s\<lparr>tc_num_acked_packets := tc_num_acked_packets s + 1\<rparr>
            in Some (if tc_congestion_window s div kDefaultTCPMSS
                        \<le> tc_num_acked_packets s * ucast (tc_num_connections s)
                     then s\<lparr>tc_congestion_window := tc_congestion_window s + kDefaultTCPMSS, tc_num_acked_packets := 0\<rparr>
                     else s))
      else do {
        (c, w) \<leftarrow> CongestionWindowAfterAck c_cbrt acked_bytes (tc_congestion_window s) (rs_min_rtt rtt) event_time
          (tc_cubic s);
        Some (s\<lparr>tc_cubic := c, tc_congestion_window := min (tc_max_congestion_window s) w\<rparr>) })"

definition tc_OnPacketAcked :: "(cfloat \<Rightarrow> cfloat) \<Rightarrow> rtt_stats \<Rightarrow> packet_number \<Rightarrow> byte_count \<Rightarrow> byte_count
    \<Rightarrow> quic_time \<Rightarrow> tcp_cubic \<Rightarrow> tcp_cubic option" where
  "tc_OnPacketAcked c_cbrt rtt acked_packet_number acked_bytes prior_in_flight event_time s =
     (let s = s\<lparr>tc_largest_acked_packet_number := UpdateMax (tc_largest_acked_packet_number s) acked_packet_number\<rparr>
      in if tc_InRecovery s
         then Some (if \<not> tc_no_prr s then s\<lparr>tc_prr := prr_OnPacketAcked acked_bytes (tc_prr s)\<rparr> else s)
         else do {
           s \<leftarrow> MaybeIncreaseCwnd c_cbrt rtt acked_bytes prior_in_flight event_time s;
           Some (if tc_InSlowStart s
                 then s\<lparr>tc_hybrid_slow_start := hs_OnPacketAcked acked_packet_number (tc_hybrid_slow_start s)\<rparr>
                 else s) })"

text \<open>The reduction of the window by a loss that starts a recovery.\<close>

definition cutback_window :: "tcp_cubic \<Rightarrow> tcp_cubic" where
  "cutback_window s =
     (if tc_slow_start_large_reduction s \<and> tc_InSlowStart s
      then let s = (if 2 * tc_initial_tcp_congestion_window s \<le> tc_congestion_window s
                    then s\<lparr>tc_min_slow_start_exit_window := tc_congestion_window s div 2\<rparr> else s)
           in s\<lparr>tc_congestion_window := tc_congestion_window s - kDefaultTCPMSS\<rparr>
      else if tc_reno s
      then s\<lparr>tc_congestion_window := f_to_u64 (f32 (u64_f32 (tc_congestion_window s) * RenoBeta s))\<rparr>
      else let (c, w) = CongestionWindowAfterPacketLoss (tc_congestion_window s) (tc_cubic s)
           in s\<lparr>tc_cubic := c, tc_congestion_window := w\<rparr>)"

definition tc_OnPacketLost :: "packet_number \<Rightarrow> byte_count \<Rightarrow> byte_count \<Rightarrow> conn_stats \<times> tcp_cubic
    \<Rightarrow> conn_stats \<times> tcp_cubic" where
  "tc_OnPacketLost packet_number lost_bytes prior_in_flight = (\<lambda>(stats, s).
     if IsInitialized (tc_largest_sent_at_last_cutback s) \<and> packet_number \<le> tc_largest_sent_at_last_cutback s
     then (if tc_last_cutback_exited_slowstart s
           then (let stats = stats\<lparr>cs_slowstart_packets_lost := cs_slowstart_packets_lost stats + 1,
                                   cs_slowstart_bytes_lost := cs_slowstart_bytes_lost stats + lost_bytes\<rparr>
                 in if tc_slow_start_large_reduction s
                    then (let s = s\<lparr>tc_congestion_window := max (tc_congestion_window s - lost_bytes)
                                (tc_min_slow_start_exit_window s)\<rparr>
                          in (stats, s\<lparr>tc_slowstart_threshold := tc_congestion_window s\<rparr>))
                    else (stats, s))
           else (stats, s))
     else
       let stats = stats\<lparr>cs_tcp_loss_events := cs_tcp_loss_events stats + 1\<rparr>;
           s = s\<lparr>tc_last_cutback_exited_slowstart := tc_InSlowStart s\<rparr>;
           stats = (if tc_InSlowStart s
                    then stats\<lparr>cs_slowstart_packets_lost := cs_slowstart_packets_lost stats + 1\<rparr> else stats);
           s = (if \<not> tc_no_prr s then s\<lparr>tc_prr := prr_OnPacketLost prior_in_flight (tc_prr s)\<rparr> else s);
           s = cutback_window s;
           s = (if tc_congestion_window s < tc_min_congestion_window s
                then s\<lparr>tc_congestion_window := tc_min_congestion_window s\<rparr> else s)
       in (stats, s\<lparr>tc_slowstart_threshold := tc_congestion_window s,
                    tc_largest_sent_at_last_cutback := tc_largest_sent_packet_number s,
                    tc_num_acked_packets := 0\<rparr>))"

fun tc_lost_loop :: "byte_count \<Rightarrow> lost_packet list \<Rightarrow> conn_stats \<times> tcp_cubic \<Rightarrow> conn_stats \<times> tcp_cubic" where
  "tc_lost_loop prior_in_flight [] x = x"
| "tc_lost_loop prior_in_flight (p # ps) x = tc_lost_loop prior_in_flight ps
     (tc_OnPacketLost (lp_packet_number p) (ucast (lp_bytes_lost p)) prior_in_flight x)"

fun tc_acked_loop :: "(cfloat \<Rightarrow> cfloat) \<Rightarrow> rtt_stats \<Rightarrow> byte_count \<Rightarrow> quic_time \<Rightarrow> acked_packet list
    \<Rightarrow> tcp_cubic \<Rightarrow> tcp_cubic option" where
  "tc_acked_loop c_cbrt rtt prior_in_flight event_time [] s = Some s"
| "tc_acked_loop c_cbrt rtt prior_in_flight event_time (p # ps) s = do {
     s \<leftarrow> tc_OnPacketAcked c_cbrt rtt (ap_packet_number p) (ucast (ap_bytes_acked p)) prior_in_flight event_time s;
     tc_acked_loop c_cbrt rtt prior_in_flight event_time ps s }"

definition tc_OnCongestionEvent :: "(cfloat \<Rightarrow> cfloat) \<Rightarrow> rtt_stats \<Rightarrow> bool \<Rightarrow> byte_count \<Rightarrow> quic_time
    \<Rightarrow> acked_packet list \<Rightarrow> lost_packet list \<Rightarrow> conn_stats \<times> tcp_cubic \<Rightarrow> (conn_stats \<times> tcp_cubic) option" where
  "tc_OnCongestionEvent c_cbrt rtt rtt_updated prior_in_flight event_time acked_packets lost_packets = (\<lambda>(stats, s). do {
     let s = (if rtt_updated \<and> tc_InSlowStart s
       then let (h, exit) = hs_ShouldExitSlowStart (rs_latest_rtt rtt) (rs_min_rtt rtt)
                  (tc_congestion_window s div kDefaultTCPMSS) (tc_hybrid_slow_start s);
                s = s\<lparr>tc_hybrid_slow_start := h\<rparr>
            in if exit then ExitSlowstart s else s
       else s);
     let (stats, s) = tc_lost_loop prior_in_flight lost_packets (stats, s);
     s \<leftarrow> tc_acked_loop c_cbrt rtt prior_in_flight event_time acked_packets s;
     Some (stats, s) })"

subsection \<open>Sent packets and timeouts\<close>

text \<open>The call of \<open>prr_.OnPacketSent\<close> in recovery is commented out in the code.\<close>

definition tc_OnPacketSent :: "quic_time \<Rightarrow> byte_count \<Rightarrow> packet_number \<Rightarrow> byte_count \<Rightarrow> conn_stats \<times> tcp_cubic
    \<Rightarrow> conn_stats \<times> tcp_cubic" where
  "tc_OnPacketSent sent_time bytes_in_flight packet_number bytes = (\<lambda>(stats, s).
     (if tc_InSlowStart s then stats\<lparr>cs_slowstart_packets_sent := cs_slowstart_packets_sent stats + 1\<rparr> else stats,
      s\<lparr>tc_largest_sent_packet_number := packet_number,
        tc_hybrid_slow_start := hs_OnPacketSent packet_number (tc_hybrid_slow_start s)\<rparr>))"

definition HandleRetransmissionTimeout :: "tcp_cubic \<Rightarrow> tcp_cubic" where
  "HandleRetransmissionTimeout s = s\<lparr>tc_cubic := ResetCubicState (tc_cubic s),
     tc_slowstart_threshold := tc_congestion_window s div 2, tc_congestion_window := tc_min_congestion_window s\<rparr>"

definition tc_OnRetransmissionTimeout :: "bool \<Rightarrow> tcp_cubic \<Rightarrow> tcp_cubic" where
  "tc_OnRetransmissionTimeout packets_retransmitted s =
     (let s = s\<lparr>tc_largest_sent_at_last_cutback := pn_Clear (tc_largest_sent_at_last_cutback s)\<rparr>
      in if \<not> packets_retransmitted then s
         else HandleRetransmissionTimeout (s\<lparr>tc_hybrid_slow_start := hs_Restart (tc_hybrid_slow_start s)\<rparr>))"

definition tc_GetCongestionControlType :: "tcp_cubic \<Rightarrow> congestion_control_type" where
  "tc_GetCongestionControlType s = (if tc_reno s then kRenoBytes else kCubicBytes)"

definition cubic_ops :: "(cfloat \<Rightarrow> cfloat) \<Rightarrow> tcp_cubic send_algorithm_ops" where
  "cubic_ops c_cbrt = \<lparr>
     sa_OnCongestionEvent = \<lambda>rtt m. tc_OnCongestionEvent c_cbrt rtt,
     sa_OnPacketSent = \<lambda>t bif pn n x. Some (tc_OnPacketSent t bif pn n x),
     sa_CanSend = tc_CanSend, sa_PacingRate = tc_PacingRate, sa_BandwidthEstimate = tc_BandwidthEstimate,
     sa_GetCongestionWindow = tc_congestion_window, sa_InSlowStart = tc_InSlowStart,
     sa_InRecovery = tc_InRecovery, sa_GetCongestionControlType = tc_GetCongestionControlType,
     sa_GetSlowStartThreshold = tc_slowstart_threshold,
     sa_OnRetransmissionTimeout = tc_OnRetransmissionTimeout\<rparr>"

text \<open>The case \<open>kCubicBytes\<close> of \<open>SendAlgorithmInterface::Create\<close>.\<close>

definition Create_CubicBytes :: "rtt_stats \<Rightarrow> conn_stats \<Rightarrow> packet_count \<Rightarrow> (conn_stats \<times> tcp_cubic) option" where
  "Create_CubicBytes rtt stats initial_congestion_window =
     Some (stats, TcpCubicSenderBytes False initial_congestion_window max_congestion_window)"

subsection \<open>The invariant of the sender\<close>

definition tc_inv :: "tcp_cubic \<Rightarrow> bool" where
  "tc_inv s \<longleftrightarrow> tc_min_congestion_window s = 2920 \<and> 2920 \<le> tc_max_congestion_window s
     \<and> uint (tc_max_congestion_window s) + 1460 < 2 ^ 31
     \<and> 2920 \<le> tc_congestion_window s
     \<and> uint (tc_congestion_window s) < uint (tc_max_congestion_window s) + 1460
     \<and> \<not> tc_slow_start_large_reduction s \<and> \<not> tc_no_prr s \<and> tc_num_connections s = 2
     \<and> cb_inv (tc_cubic s) (tc_congestion_window s) (tc_max_congestion_window s)
     \<and> (tc_reno s \<longrightarrow> cb_epoch (tc_cubic s) = time_Zero)
     \<and> prr_bytes_sent_since_loss (tc_prr s) = 0"

text \<open>What no call changes.\<close>

definition tc_frame :: "tcp_cubic \<Rightarrow> tcp_cubic \<Rightarrow> bool" where
  "tc_frame s s' \<longleftrightarrow> tc_max_congestion_window s' = tc_max_congestion_window s"

lemma tc_frame_refl [simp]: "tc_frame s s"
  by (simp add: tc_frame_def)

lemma tc_frame_trans [trans]: "tc_frame s s' \<Longrightarrow> tc_frame s' s'' \<Longrightarrow> tc_frame s s''"
  by (simp add: tc_frame_def)

lemma cb_inv_window:
  "cb_inv c w mx \<Longrightarrow> w < mx \<Longrightarrow> w \<le> w' \<Longrightarrow> cb_inv c w' mx"
  by (auto simp: cb_inv_def)

lemma cb_inv_no_epoch: "cb_inv c w mx \<Longrightarrow> cb_inv (c\<lparr>cb_epoch := time_Zero\<rparr>) w' mx"
  by (simp add: cb_inv_def)

lemma u64_plus_mss: "uint (w :: u64) < 2 ^ 31 \<Longrightarrow> uint (w + 1460) = uint w + 1460"
  by (simp add: uint_u64_plus)

lemma tc_inv_grow:
  assumes "tc_inv s" "tc_congestion_window s < tc_max_congestion_window s"
  shows "tc_inv (s\<lparr>tc_congestion_window := tc_congestion_window s + kDefaultTCPMSS\<rparr>)"
proof -
  let ?w = "tc_congestion_window s"
  have u: "uint (?w + 1460) = uint ?w + 1460" using assms by (intro u64_plus_mss) (simp add: tc_inv_def)
  then have "?w \<le> ?w + 1460" by (simp add: u64_le_iff)
  with u assms cb_inv_window [of "tc_cubic s" ?w "tc_max_congestion_window s" "?w + 1460"] show ?thesis
    by (auto simp: tc_inv_def kDefaultTCPMSS_def u64_less_iff intro: order_trans)
qed

lemma MaybeIncreaseCwnd_inv:
  assumes inv: "tc_inv s" and acked: "uint acked < 2 ^ 16"
  shows "\<exists>s'. MaybeIncreaseCwnd cbrt rtt acked prior t s = Some s' \<and> tc_inv s' \<and> tc_frame s s'"
proof -
  let ?w = "tc_congestion_window s" and ?mx = "tc_max_congestion_window s"
  consider "\<not> IsCwndLimited prior s" | "IsCwndLimited prior s" "?mx \<le> ?w"
    | "IsCwndLimited prior s" "?w < ?mx" "tc_InSlowStart s"
    | "IsCwndLimited prior s" "?w < ?mx" "\<not> tc_InSlowStart s" "tc_reno s"
    | "IsCwndLimited prior s" "?w < ?mx" "\<not> tc_InSlowStart s" "\<not> tc_reno s" by force
  then show ?thesis
  proof cases
    case 1
    then show ?thesis using inv
      by (simp add: MaybeIncreaseCwnd_def cb_OnApplicationLimited_def tc_inv_def tc_frame_def cb_inv_def)
  next
    case 2
    then show ?thesis using inv by (simp add: MaybeIncreaseCwnd_def)
  next
    case 3
    then show ?thesis using tc_inv_grow [OF inv] linorder_not_le [THEN iffD2, OF 3(2)]
      by (simp add: MaybeIncreaseCwnd_def tc_frame_def)
  next
    case 4
    let ?s1 = "s\<lparr>tc_num_acked_packets := tc_num_acked_packets s + 1\<rparr>"
    have "tc_inv ?s1" "tc_inv (?s1\<lparr>tc_congestion_window := tc_congestion_window s + kDefaultTCPMSS\<rparr>)"
      using inv tc_inv_grow [OF inv 4(2)] by (simp_all add: tc_inv_def)
    then have "tc_inv (?s1\<lparr>tc_congestion_window := tc_congestion_window s + kDefaultTCPMSS, tc_num_acked_packets := 0\<rparr>)"
      by (simp add: tc_inv_def)
    with 4 \<open>tc_inv ?s1\<close> linorder_not_le [THEN iffD2, OF 4(2)] show ?thesis
      by (simp add: MaybeIncreaseCwnd_def tc_frame_def Let_def)
  next
    case 5
    have pre: "cb_inv (tc_cubic s) ?w ?mx" "2920 \<le> ?w" "uint ?mx < 2 ^ 31" using inv by (simp_all add: tc_inv_def)
    from CongestionWindowAfterAck_spec [OF pre(1,2) 5(2) pre(3) acked] obtain c v where
      v: "CongestionWindowAfterAck cbrt acked ?w (rs_min_rtt rtt) t (tc_cubic s) = Some (c, v)"
      "cb_inv c (min ?mx v) ?mx" "2920 \<le> v" by blast
    have m: "uint (min ?mx v) \<le> uint ?mx" by (simp add: u64_le_iff [symmetric])
    have "tc_inv (s\<lparr>tc_cubic := c, tc_congestion_window := min ?mx v\<rparr>)"
      using inv v(2,3) m 5(4) by (simp add: tc_inv_def)
    with 5 v(1) linorder_not_le [THEN iffD2, OF 5(2)] show ?thesis
      by (simp add: MaybeIncreaseCwnd_def tc_frame_def)
  qed
qed

lemma tc_OnPacketAcked_inv:
  assumes inv: "tc_inv s" and acked: "uint acked < 2 ^ 16"
  shows "\<exists>s'. tc_OnPacketAcked cbrt rtt pn acked prior t s = Some s' \<and> tc_inv s' \<and> tc_frame s s'"
proof -
  let ?s = "s\<lparr>tc_largest_acked_packet_number := UpdateMax (tc_largest_acked_packet_number s) pn\<rparr>"
  have i: "tc_inv ?s" using inv by (simp add: tc_inv_def)
  from MaybeIncreaseCwnd_inv [OF i acked, of cbrt rtt prior t] obtain s1 where
    s1: "MaybeIncreaseCwnd cbrt rtt acked prior t ?s = Some s1" "tc_inv s1" "tc_frame ?s s1" by blast
  then have "tc_inv (s1\<lparr>tc_hybrid_slow_start := h\<rparr>)" for h by (simp add: tc_inv_def)
  moreover have "tc_inv (?s\<lparr>tc_prr := prr_OnPacketAcked acked (tc_prr ?s)\<rparr>)"
    using i by (simp add: tc_inv_def prr_OnPacketAcked_def)
  ultimately show ?thesis using i s1 by (auto simp: tc_OnPacketAcked_def Let_def tc_frame_def)
qed

lemma tc_acked_loop_inv:
  "tc_inv s \<Longrightarrow> \<exists>s'. tc_acked_loop cbrt rtt prior t ps s = Some s' \<and> tc_inv s' \<and> tc_frame s s'"
proof (induction ps arbitrary: s)
  case (Cons p ps)
  have "uint (ucast (ap_bytes_acked p) :: u64) < 2 ^ 16"
    using uint_lt2p [of "ap_bytes_acked p"] by (simp add: uint_up_ucast is_up)
  from tc_OnPacketAcked_inv [OF Cons.prems this, of cbrt rtt "ap_packet_number p" prior t] obtain s1 where
    "tc_OnPacketAcked cbrt rtt (ap_packet_number p) (ucast (ap_bytes_acked p)) prior t s = Some s1"
    "tc_inv s1" "tc_frame s s1" by blast
  with Cons.IH [of s1] show ?case by (auto intro: tc_frame_trans)
qed simp

subsection \<open>One reduction per flight\<close>

lemma RenoBeta_2: "tc_num_connections s = 2 \<Longrightarrow> RenoBeta s = 14260634 / 2 ^ 24"
proof -
  have "f32 (f32 (f32 (of_int (uint ((2 :: u32) - 1))) + kRenoBeta) / f32 (of_int (uint (2 :: u32)))) = 14260634 / 2 ^ 24"
    by code_simp
  then show "tc_num_connections s = 2 \<Longrightarrow> ?thesis" by (simp only: RenoBeta_def)
qed

text \<open>Cubic and Reno reduce the window by the same factor, to within a byte of 0.84 to 0.86.\<close>

lemma cutback_window_spec:
  assumes inv: "tc_inv s"
  defines "s' \<equiv> cutback_window s"
  shows "84 * uint (tc_congestion_window s) \<le> 100 * uint (tc_congestion_window s') + 100"
    "100 * uint (tc_congestion_window s') \<le> 86 * uint (tc_congestion_window s)"
    "\<exists>c w. s' = s\<lparr>tc_cubic := c, tc_congestion_window := w\<rparr> \<and> cb_epoch c = time_Zero
       \<and> cb_num_connections c = 2 \<and> cb_acked_bytes_count c = 0"
proof -
  let ?w = "tc_congestion_window s"
  have w: "uint ?w < 2 ^ 31" and n: "cb_num_connections (tc_cubic s) = 2" "cb_acked_bytes_count (tc_cubic s) = 0"
    and l: "\<not> tc_slow_start_large_reduction s" and e: "tc_reno s \<longrightarrow> cb_epoch (tc_cubic s) = time_Zero"
    and r: "tc_num_connections s = 2"
    using inv by (simp_all add: tc_inv_def cb_inv_def)
  have reno: "84 * uint ?w \<le> 100 * uint v + 100 \<and> 100 * uint v \<le> 86 * uint ?w"
    if "v = f_to_u64 (f32 (u64_f32 ?w * RenoBeta s))" for v
  proof -
    let ?x = "f32 (u64_f32 ?w * RenoBeta s)"
    have u: "(0 :: rat) \<le> of_int (uint ?w)" by (simp only: of_int_0_le_iff uint_ge_0)
    note b = f32_scaled_bounds [OF RenoBeta_2 [OF r] u]
    have "(of_int (uint ?w) :: rat) < of_int (2 ^ 31)" using w by (simp only: of_int_less_iff)
    with b u have x: "0 \<le> ?x" "?x < 2 ^ 64" by (auto intro: order_trans [OF _ b(1)])
    have "uint v = \<lfloor>?x\<rfloor>" using x uint_f_to_u64 [OF x] by (simp add: that ctrunc_def)
    then have "of_int (uint v) \<le> ?x" "?x < of_int (uint v) + 1" by linarith+
    with b have "(of_int (84 * uint ?w) :: rat) \<le> of_int (100 * uint v + 100)"
      and "(of_int (100 * uint v) :: rat) \<le> of_int (86 * uint ?w)" by simp_all
    then show ?thesis by (simp_all only: of_int_le_iff)
  qed
  have "\<exists>c v. s' = s\<lparr>tc_cubic := c, tc_congestion_window := v\<rparr> \<and> cb_epoch c = time_Zero
      \<and> cb_num_connections c = 2 \<and> cb_acked_bytes_count c = 0
      \<and> 84 * uint ?w \<le> 100 * uint v + 100 \<and> 100 * uint v \<le> 86 * uint ?w"
  proof (cases "tc_reno s")
    case True
    then show ?thesis using reno [OF refl] l n e
      by (intro exI [of _ "tc_cubic s"] exI [of _ "f_to_u64 (f32 (u64_f32 ?w * RenoBeta s))"])
        (simp add: s'_def cutback_window_def)
  next
    case False
    obtain c v where cv: "CongestionWindowAfterPacketLoss ?w (tc_cubic s) = (c, v)" by fastforce
    then have "cb_epoch c = time_Zero" "cb_num_connections c = 2" "cb_acked_bytes_count c = 0"
      using n by (auto simp: CongestionWindowAfterPacketLoss_def Let_def)
    with window_after_loss [OF n(1) w] cv False l show ?thesis
      by (intro exI [of _ c] exI [of _ v]) (simp add: s'_def cutback_window_def)
  qed
  then show "84 * uint ?w \<le> 100 * uint (tc_congestion_window s') + 100"
    "100 * uint (tc_congestion_window s') \<le> 86 * uint ?w"
    "\<exists>c w. s' = s\<lparr>tc_cubic := c, tc_congestion_window := w\<rparr> \<and> cb_epoch c = time_Zero
       \<and> cb_num_connections c = 2 \<and> cb_acked_bytes_count c = 0" by auto
qed

lemma tc_OnPacketLost_same_flight:
  assumes "tc_inv s" "IsInitialized (tc_largest_sent_at_last_cutback s)" "pn \<le> tc_largest_sent_at_last_cutback s"
  shows "snd (tc_OnPacketLost pn n prior (st, s)) = s"
  using assms by (simp add: tc_OnPacketLost_def tc_inv_def)

lemma tc_OnPacketLost_cutback:
  fixes n prior :: byte_count and st :: conn_stats
  assumes inv: "tc_inv s" and new: "\<not> (IsInitialized (tc_largest_sent_at_last_cutback s) \<and> pn \<le> tc_largest_sent_at_last_cutback s)"
  defines "s' \<equiv> snd (tc_OnPacketLost pn n prior (st, s))"
  shows "tc_inv s'" "tc_frame s s'"
    "84 * uint (tc_congestion_window s) \<le> 100 * uint (tc_congestion_window s') + 100"
    "100 * uint (tc_congestion_window s') \<le> 86 * uint (tc_congestion_window s) \<or> tc_congestion_window s' = 2920"
    "tc_slowstart_threshold s' = tc_congestion_window s'"
    "tc_largest_sent_at_last_cutback s' = tc_largest_sent_packet_number s"
proof -
  let ?s1 = "s\<lparr>tc_last_cutback_exited_slowstart := tc_InSlowStart s, tc_prr := prr_OnPacketLost prior (tc_prr s)\<rparr>"
  have i1: "tc_inv ?s1" using inv by (simp add: tc_inv_def prr_OnPacketLost_def)
  have prr: "\<not> tc_no_prr s" using inv by (simp add: tc_inv_def)
  note cut = cutback_window_spec [OF i1]
  obtain c w where cw: "cutback_window ?s1 = ?s1\<lparr>tc_cubic := c, tc_congestion_window := w\<rparr>" "cb_epoch c = time_Zero"
    "cb_num_connections c = 2" "cb_acked_bytes_count c = 0" using cut(3) by blast
  let ?w = "if w < 2920 then 2920 else w"
  have m: "tc_min_congestion_window s = 2920" "2920 \<le> tc_max_congestion_window s" using inv by (simp_all add: tc_inv_def)
  have s': "s' = s\<lparr>tc_last_cutback_exited_slowstart := tc_InSlowStart s, tc_prr := prr_OnPacketLost prior (tc_prr s),
      tc_cubic := c, tc_congestion_window := ?w, tc_slowstart_threshold := ?w,
      tc_largest_sent_at_last_cutback := tc_largest_sent_packet_number s, tc_num_acked_packets := 0\<rparr>"
    using new prr cw(1) m(1) by (auto simp: s'_def tc_OnPacketLost_def Let_def tc_InSlowStart_def)
  have b: "84 * uint (tc_congestion_window s) \<le> 100 * uint w + 100" "100 * uint w \<le> 86 * uint (tc_congestion_window s)"
    using cut(1,2) cw(1) by simp_all
  have "uint ?w < uint (tc_max_congestion_window s) + 1460"
  proof (cases "w < 2920")
    case True
    then show ?thesis using m(2) by (simp add: u64_le_iff)
  next
    case False
    have "uint (tc_congestion_window s) < uint (tc_max_congestion_window s) + 1460" using inv by (simp add: tc_inv_def)
    moreover have "uint w \<le> uint (tc_congestion_window s)" using b(2) uint_ge_0 [of w] by linarith
    ultimately show ?thesis using False by simp
  qed
  then show "tc_inv s'" using inv cw(2-4) by (auto simp: s' tc_inv_def cb_inv_def prr_OnPacketLost_def not_less)
  show "tc_frame s s'" by (simp add: s' tc_frame_def)
  show "84 * uint (tc_congestion_window s) \<le> 100 * uint (tc_congestion_window s') + 100"
    using b(1) by (auto simp: s' u64_less_iff)
  show "100 * uint (tc_congestion_window s') \<le> 86 * uint (tc_congestion_window s) \<or> tc_congestion_window s' = 2920"
    using b(2) by (simp add: s')
  show "tc_slowstart_threshold s' = tc_congestion_window s'"
    "tc_largest_sent_at_last_cutback s' = tc_largest_sent_packet_number s" by (simp_all add: s')
qed

lemma tc_OnPacketLost_inv:
  "tc_inv s \<Longrightarrow> tc_inv (snd (tc_OnPacketLost pn n prior (st, s))) \<and> tc_frame s (snd (tc_OnPacketLost pn n prior (st, s)))"
  using tc_OnPacketLost_same_flight [of s pn n prior st] tc_OnPacketLost_cutback(1,2) [of s pn n prior st]
  by (cases "IsInitialized (tc_largest_sent_at_last_cutback s) \<and> pn \<le> tc_largest_sent_at_last_cutback s") auto

lemma tc_lost_loop_inv:
  "tc_inv s \<Longrightarrow> tc_inv (snd (tc_lost_loop prior ps (st, s))) \<and> tc_frame s (snd (tc_lost_loop prior ps (st, s)))"
proof (induction ps arbitrary: st s)
  case (Cons p ps)
  obtain st1 s1 where s1: "tc_OnPacketLost (lp_packet_number p) (ucast (lp_bytes_lost p)) prior (st, s) = (st1, s1)"
    by (rule prod.exhaust)
  have "tc_inv s1 \<and> tc_frame s s1"
    using tc_OnPacketLost_inv [OF Cons.prems, of "lp_packet_number p" "ucast (lp_bytes_lost p)" prior st] by (simp add: s1)
  with Cons.IH [of s1 st1] show ?case by (auto simp: s1 intro: tc_frame_trans)
qed simp

lemma tc_lost_loop_same_flight:
  "tc_inv s \<Longrightarrow> IsInitialized (tc_largest_sent_at_last_cutback s)
    \<Longrightarrow> \<forall>p \<in> set ps. lp_packet_number p \<le> tc_largest_sent_at_last_cutback s
    \<Longrightarrow> snd (tc_lost_loop prior ps (st, s)) = s"
proof (induction ps arbitrary: st)
  case (Cons p ps)
  obtain st1 s1 where s1: "tc_OnPacketLost (lp_packet_number p) (ucast (lp_bytes_lost p)) prior (st, s) = (st1, s1)"
    by (rule prod.exhaust)
  have "s1 = s"
    using tc_OnPacketLost_same_flight [OF Cons.prems(1,2), of "lp_packet_number p" "ucast (lp_bytes_lost p)" prior st]
      Cons.prems(3) by (simp add: s1)
  with Cons.IH [of st1] Cons.prems show ?case by (simp add: s1)
qed simp

subsection \<open>As a send algorithm\<close>

lemma tc_inv_irrelevant [simp]: "tc_inv (s\<lparr>tc_hybrid_slow_start := h\<rparr>) = tc_inv s" "tc_inv (ExitSlowstart s) = tc_inv s"
  "tc_inv (s\<lparr>tc_largest_sent_packet_number := pn\<rparr>) = tc_inv s"
  "tc_inv (s\<lparr>tc_largest_sent_at_last_cutback := pn\<rparr>) = tc_inv s"
  by (simp_all add: tc_inv_def ExitSlowstart_def)

lemma tc_frame_irrelevant [simp]: "tc_frame s (s\<lparr>tc_hybrid_slow_start := h\<rparr>)" "tc_frame s (ExitSlowstart s)"
  "tc_frame s (ExitSlowstart (s\<lparr>tc_hybrid_slow_start := h\<rparr>))"
  by (simp_all add: tc_frame_def ExitSlowstart_def)

lemma tc_OnCongestionEvent_inv:
  assumes "tc_inv s"
  shows "\<exists>st' s'. tc_OnCongestionEvent cbrt rtt updated prior t acked lost (st, s) = Some (st', s')
    \<and> tc_inv s' \<and> tc_frame s s'"
proof -
  obtain s1 where s1: "s1 = (if updated \<and> tc_InSlowStart s
       then let (h, exit) = hs_ShouldExitSlowStart (rs_latest_rtt rtt) (rs_min_rtt rtt)
                  (tc_congestion_window s div kDefaultTCPMSS) (tc_hybrid_slow_start s);
                s = s\<lparr>tc_hybrid_slow_start := h\<rparr>
            in if exit then ExitSlowstart s else s
       else s)" "tc_inv s1" "tc_frame s s1"
    using assms by (simp add: Let_def split: prod.splits)
  obtain st2 s2 where s2: "tc_lost_loop prior lost (st, s1) = (st2, s2)" by (rule prod.exhaust)
  have "tc_inv s2" "tc_frame s1 s2" using tc_lost_loop_inv [OF s1(2), of prior lost st] by (simp_all add: s2)
  from tc_acked_loop_inv [OF this(1), of cbrt rtt prior t acked] this(2) obtain s3 where
    "tc_acked_loop cbrt rtt prior t acked s2 = Some s3" "tc_inv s3" "tc_frame s s3"
    using s1(3) by (blast intro: tc_frame_trans)
  then show ?thesis unfolding tc_OnCongestionEvent_def prod.case unfolding s1(1) [symmetric] unfolding Let_def s2 by simp
qed

lemma tc_OnRetransmissionTimeout_inv:
  assumes "tc_inv s" shows "tc_inv (tc_OnRetransmissionTimeout b s)" "tc_frame s (tc_OnRetransmissionTimeout b s)"
  using assms by (auto simp: tc_OnRetransmissionTimeout_def HandleRetransmissionTimeout_def ResetCubicState_def
      tc_inv_def tc_frame_def cb_inv_def Let_def u64_le_iff)

definition tc_ok :: "tcp_cubic \<Rightarrow> bool" where
  "tc_ok s \<longleftrightarrow> tc_inv s \<and> tc_max_congestion_window s = max_congestion_window * kDefaultTCPMSS"

lemma tc_ok_window:
  "tc_ok s \<Longrightarrow> 2 * 1460 \<le> tc_congestion_window s \<and> tc_congestion_window s \<le> 100001 * 1460"
  by (auto simp: tc_ok_def tc_inv_def max_congestion_window_def kDefaultTCPMSS_def u64_le_iff)

lemma cb_inv_new: "cb_inv cb_new w mx"
  by (simp add: cb_inv_def cb_new_def ResetCubicState_def kDefaultNumConnections_def)

lemma cb_epoch_new [simp]: "cb_epoch cb_new = time_Zero"
  by (simp add: cb_new_def ResetCubicState_def)

lemma tc_ok_new: "tc_ok (TcpCubicSenderBytes reno kInitialCongestionWindow max_congestion_window)"
  by (simp add: TcpCubicSenderBytes_def tc_ok_def tc_inv_def kDefaultTCPMSS_def
      max_congestion_window_def kInitialCongestionWindow_def tc_kDefaultMinimumCongestionWindow_def
      kDefaultNumConnections_def cb_inv_new u64_le_iff prr_new_def cb_epoch_new)

lemma tc_ok_Create: "\<exists>s. Create_CubicBytes rtt stats kInitialCongestionWindow = Some (stats, s) \<and> tc_ok s"
  by (simp add: Create_CubicBytes_def tc_ok_new)

interpretation cubic: send_algorithm "cubic_ops c_cbrt" tc_ok for c_cbrt
proof unfold_locales
  fix s :: tcp_cubic and t bif pn n st
  assume "tc_ok s"
  then show "\<exists>st' s'. sa_OnPacketSent (cubic_ops c_cbrt) t bif pn n (st, s) = Some (st', s') \<and> tc_ok s'"
    by (simp add: cubic_ops_def tc_OnPacketSent_def tc_ok_def)
next
  fix s :: tcp_cubic and t r m updated prior acked lost st
  assume "tc_ok s"
  with tc_OnCongestionEvent_inv [of s c_cbrt r updated prior t acked lost st]
  show "\<exists>st' s'. sa_OnCongestionEvent (cubic_ops c_cbrt) r m updated prior t acked lost (st, s) = Some (st', s') \<and> tc_ok s'"
    by (auto simp: cubic_ops_def tc_ok_def tc_frame_def)
next
  fix s :: tcp_cubic and b
  assume "tc_ok s"
  with tc_OnRetransmissionTimeout_inv [of s b] show "tc_ok (sa_OnRetransmissionTimeout (cubic_ops c_cbrt) b s)"
    by (simp add: cubic_ops_def tc_ok_def tc_frame_def)
next
  fix s :: tcp_cubic and r bif
  assume "tc_ok s" "rtt_inv r"
  then have "SmoothedOrInitialRtt r \<noteq> 0" by (auto simp: rtt_inv_def SmoothedOrInitialRtt_def delta_IsZero_def split: if_splits)
  then show "\<exists>b. sa_PacingRate (cubic_ops c_cbrt) r bif s = Some b"
    by (simp add: cubic_ops_def tc_PacingRate_def FromBytesAndTimeDelta_def Let_def ToMicroseconds_def)
next
  fix s :: tcp_cubic
  assume "tc_ok s"
  from tc_ok_window [OF this] show "0 < sa_GetCongestionWindow (cubic_ops c_cbrt) s"
    by (simp add: cubic_ops_def u64_le_iff u64_less_iff)
qed

subsection \<open>Histories\<close>

datatype tc_call =
    TcSent quic_time byte_count packet_number byte_count
  | TcEvent rtt_stats bool byte_count quic_time "acked_packet list" "lost_packet list"
  | TcTimeout bool

fun tc_handle :: "(cfloat \<Rightarrow> cfloat) \<Rightarrow> tc_call \<Rightarrow> conn_stats \<times> tcp_cubic \<Rightarrow> (conn_stats \<times> tcp_cubic) option" where
  "tc_handle c_cbrt (TcSent t bif pn n) x = Some (tc_OnPacketSent t bif pn n x)"
| "tc_handle c_cbrt (TcEvent rtt updated prior t acked lost) x = tc_OnCongestionEvent c_cbrt rtt updated prior t acked lost x"
| "tc_handle c_cbrt (TcTimeout b) (stats, s) = Some (stats, tc_OnRetransmissionTimeout b s)"

fun tc_run :: "(cfloat \<Rightarrow> cfloat) \<Rightarrow> tc_call list \<Rightarrow> conn_stats \<times> tcp_cubic \<Rightarrow> (conn_stats \<times> tcp_cubic) option" where
  "tc_run c_cbrt [] x = Some x"
| "tc_run c_cbrt (c # cs) x = do { x \<leftarrow> tc_handle c_cbrt c x; tc_run c_cbrt cs x }"

lemma tc_handle_ok: "tc_ok s \<Longrightarrow> \<exists>st' s'. tc_handle c_cbrt c (st, s) = Some (st', s') \<and> tc_ok s'"
proof (cases c)
  case (TcSent t bif pn n)
  then show "tc_ok s \<Longrightarrow> ?thesis" by (simp add: tc_OnPacketSent_def tc_ok_def)
next
  case (TcEvent rtt updated prior t acked lost)
  then show "tc_ok s \<Longrightarrow> ?thesis"
    using tc_OnCongestionEvent_inv [of s c_cbrt rtt updated prior t acked lost st] by (auto simp: tc_ok_def tc_frame_def)
next
  case (TcTimeout b)
  then show "tc_ok s \<Longrightarrow> ?thesis"
    using tc_OnRetransmissionTimeout_inv [of s b] by (simp add: tc_ok_def tc_frame_def)
qed

lemma tc_run_ok: "tc_ok s \<Longrightarrow> \<exists>st' s'. tc_run c_cbrt cs (st, s) = Some (st', s') \<and> tc_ok s'"
proof (induction cs arbitrary: st s)
  case (Cons c cs)
  from tc_handle_ok [OF Cons.prems, of c_cbrt c st] obtain st1 s1 where
    "tc_handle c_cbrt c (st, s) = Some (st1, s1)" "tc_ok s1" by blast
  with Cons.IH [of s1 st1] show ?case by simp
qed auto

text \<open>C17. The first loss of a packet sent after the last reduction of the window reduces it to 84 to 86
  percent, but to no less than two segments, and ends slow start there; every further loss of a packet
  sent before that moment changes nothing but the counters.\<close>

theorem one_reduction_per_flight:
  fixes prior :: byte_count and st :: conn_stats
  assumes "tc_ok s"
    "\<not> (IsInitialized (tc_largest_sent_at_last_cutback s) \<and> lp_packet_number p \<le> tc_largest_sent_at_last_cutback s)"
    "IsInitialized (tc_largest_sent_packet_number s)"
    "\<forall>q \<in> set ps. lp_packet_number q \<le> tc_largest_sent_packet_number s"
  shows "\<exists>st' s'. tc_lost_loop prior (p # ps) (st, s) = (st', s') \<and> tc_ok s'
    \<and> 84 * uint (tc_congestion_window s) \<le> 100 * uint (tc_congestion_window s') + 100
    \<and> (100 * uint (tc_congestion_window s') \<le> 86 * uint (tc_congestion_window s) \<or> tc_congestion_window s' = 2 * 1460)
    \<and> tc_slowstart_threshold s' = tc_congestion_window s'
    \<and> s' = snd (tc_OnPacketLost (lp_packet_number p) (ucast (lp_bytes_lost p)) prior (st, s))"
proof -
  have i: "tc_inv s" using assms(1) by (simp add: tc_ok_def)
  obtain st1 s1 where s1: "tc_OnPacketLost (lp_packet_number p) (ucast (lp_bytes_lost p)) prior (st, s) = (st1, s1)"
    by (rule prod.exhaust)
  note cut = tc_OnPacketLost_cutback [OF i assms(2), of "ucast (lp_bytes_lost p)" prior st, unfolded s1 snd_conv]
  have ok: "tc_ok s1" using cut(1,2) assms(1) by (simp add: tc_ok_def tc_frame_def)
  have "snd (tc_lost_loop prior ps (st1, s1)) = s1"
    by (rule tc_lost_loop_same_flight) (use cut(1,6) assms(3,4) in simp_all)
  then obtain st2 where "tc_lost_loop prior (p # ps) (st, s) = (st2, s1)" by (metis s1 tc_lost_loop.simps(2) prod.collapse)
  with cut(3-5) ok show ?thesis unfolding s1 by simp
qed

definition example_tcp :: tcp_cubic where
  "example_tcp = snd (tc_OnPacketSent 0 0 1 1472
     (cs_new, TcpCubicSenderBytes False kInitialCongestionWindow max_congestion_window))"

lemma example_tcp:
  "tc_ok example_tcp" "tc_largest_sent_packet_number example_tcp = 1"
  "\<not> IsInitialized (tc_largest_sent_at_last_cutback example_tcp)"
proof -
  show "tc_ok example_tcp" using tc_ok_new [of False] by (simp add: example_tcp_def tc_OnPacketSent_def tc_ok_def)
qed (simp_all add: example_tcp_def tc_OnPacketSent_def TcpCubicSenderBytes_def UninitializedPacketNumber_def IsInitialized_def)

lemma one_reduction_per_flight_witness:
  "\<exists>st' s'. tc_lost_loop 1472 [\<lparr>lp_packet_number = 1, lp_bytes_lost = 1472\<rparr>, \<lparr>lp_packet_number = 1, lp_bytes_lost = 1472\<rparr>] (cs_new, example_tcp) = (st', s') \<and> tc_ok s'"
  using one_reduction_per_flight [of example_tcp "\<lparr>lp_packet_number = 1, lp_bytes_lost = 1472\<rparr>" "[\<lparr>lp_packet_number = 1, lp_bytes_lost = 1472\<rparr>]" 1472 cs_new] example_tcp
  by (auto simp: IsInitialized_def UninitializedPacketNumber_def simp del: tc_lost_loop.simps)

text \<open>C36. Whatever packets are sent, acked and lost, no call of the Cubic or Reno sender fails and its
  window stays between two and 100001 segments. While it recovers from losses it lets every packet
  through, however many bytes are in flight: proportional rate reduction, which is to limit sending
  then, is never told about sent packets.\<close>

theorem recovery_never_limits:
  assumes "tc_run c_cbrt cs (st, TcpCubicSenderBytes reno kInitialCongestionWindow max_congestion_window) = Some (st', s)"
    "tc_InRecovery s"
  shows "tc_CanSend bytes_in_flight s"
proof -
  from tc_run_ok [OF tc_ok_new, of c_cbrt cs st reno] assms(1) have "tc_inv s" by (auto simp: tc_ok_def)
  with assms(2) show ?thesis by (simp add: tc_CanSend_def prr_CanSend_def tc_inv_def)
qed

lemma recovery_never_limits_witness:
  "\<exists>st s. tc_run (\<lambda>x. x) [TcSent 0 0 1 1472, TcSent 0 1472 2 1472, TcSent 0 2944 3 1472,
     TcEvent rs_new False 4416 90000 [\<lparr>ap_packet_number = 2, ap_bytes_acked = 1472, ap_receive_timestamp = 0\<rparr>] [\<lparr>lp_packet_number = 1, lp_bytes_lost = 1472\<rparr>]]
     (cs_new, TcpCubicSenderBytes False kInitialCongestionWindow max_congestion_window) = Some (st, s)
   \<and> tc_InRecovery s \<and> tc_CanSend (2 ^ 40) s"
proof -
  let ?cs = "[TcSent 0 0 1 1472, TcSent 0 1472 2 1472, TcSent 0 2944 3 1472,
     TcEvent rs_new False 4416 90000 [\<lparr>ap_packet_number = 2, ap_bytes_acked = 1472, ap_receive_timestamp = 0\<rparr>] [\<lparr>lp_packet_number = 1, lp_bytes_lost = 1472\<rparr>]]"
  let ?x = "(cs_new, TcpCubicSenderBytes False kInitialCongestionWindow max_congestion_window)"
  have "(case tc_run (\<lambda>x. x) ?cs ?x of None \<Rightarrow> False | Some (st, s) \<Rightarrow> tc_InRecovery s)" by code_simp
  then obtain st s where s: "tc_run (\<lambda>x. x) ?cs ?x = Some (st, s)" "tc_InRecovery s" by (auto split: option.splits)
  from recovery_never_limits [OF s, of "2 ^ 40"] s show ?thesis by blast
qed

end
