(* ===== verification/Loss_Detection.thy ===== *)
theory Loss_Detection
  imports Unacked_Map Rtt_Stats
begin

section \<open>Loss detection\<close>

text \<open>
  \<open>GeneralLossAlgorithm\<close> of \<open>congestion_control/general_loss_algorithm.h\<close> and \<open>.cc\<close>. The
  loop over the map of unacked packets walks the entries from its start iterator; the
  vector of lost packets it appends to is an argument and a result.

  The lemmas show that every packet declared lost was in flight, is not newer than the
  largest newly acked one, and either trails it by the reordering threshold or was sent
  longer ago than the loss delay; that packets are reported in ascending order and once;
  and that detection never fails on a well-formed map.
\<close>

subsection \<open>State and operations\<close>

record detection_stats =
  ds_max_sequence_reordering :: packet_count
  ds_num_borderline_time_reorderings :: packet_count
  ds_total_response_time :: cfloat

definition ds_new :: detection_stats where
  "ds_new = \<lparr>ds_max_sequence_reordering = 0, ds_num_borderline_time_reorderings = 0,
     ds_total_response_time = 0\<rparr>"

record loss_algorithm =
  la_has_parent :: bool
  la_loss_detection_timeout :: quic_time
  la_reordering_shift :: nat
  la_reordering_threshold :: packet_count
  la_use_adaptive_reordering_threshold :: bool
  la_use_adaptive_time_threshold :: bool
  la_use_packet_threshold_for_runt_packets :: bool
  la_least_in_flight :: packet_number
  la_packet_number_space :: packet_number_space

definition kDefaultLossDelayShift :: nat where "kDefaultLossDelayShift = 2"
definition kDefaultPacketReorderingThreshold :: packet_count where
  "kDefaultPacketReorderingThreshold = 3"
definition kAlarmGranularity :: time_delta where "kAlarmGranularity = FromMilliseconds 1"

definition la_new :: loss_algorithm where
  "la_new = \<lparr>la_has_parent = False, la_loss_detection_timeout = time_Zero,
     la_reordering_shift = kDefaultLossDelayShift,
     la_reordering_threshold = kDefaultPacketReorderingThreshold,
     la_use_adaptive_reordering_threshold = True, la_use_adaptive_time_threshold = False,
     la_use_packet_threshold_for_runt_packets = True, la_least_in_flight = 1,
     la_packet_number_space = NUM_PACKET_NUMBER_SPACES\<rparr>"

definition DetectionResponseTime :: "time_delta \<Rightarrow> quic_time \<Rightarrow> quic_time \<Rightarrow> cfloat" where
  "DetectionResponseTime rtt send_time detection_time =
     (if detection_time \<le> send_time \<or> delta_IsZero rtt then 1
      else f32 (f32 (of_int (ToMicroseconds (time_diff detection_time send_time)))
             / f32 (of_int (ToMicroseconds rtt))))"

definition GetMaxRtt :: "rtt_stats \<Rightarrow> time_delta" where
  "GetMaxRtt r = max kAlarmGranularity (max (rs_previous_srtt r) (rs_latest_rtt r))"

text \<open>Skipping the acked packets at the front of the packets in flight.\<close>

fun skip_acked :: "packet_number \<Rightarrow> acked_packet list \<Rightarrow> packet_number" where
  "skip_acked least [] = least"
| "skip_acked least (acked # rest) =
     (if ap_packet_number acked \<noteq> least then least else skip_acked (pn_inc least) rest)"

text \<open>
  The loop of \<open>DetectLosses\<close> from an iterator, given as the entries it still visits, and the
  packet number of the first of them.
\<close>

fun detect_loop :: "unacked_map \<Rightarrow> quic_time \<Rightarrow> packet_number \<Rightarrow> time_delta \<Rightarrow> transmission_info list
    \<Rightarrow> packet_number \<Rightarrow> loss_algorithm \<Rightarrow> detection_stats \<Rightarrow> lost_packet list
    \<Rightarrow> (loss_algorithm \<times> detection_stats \<times> lost_packet list) option" where
  "detect_loop m time largest max_rtt [] pn a ds lost = Some (a, ds, lost)"
| "detect_loop m time largest max_rtt (info # infos) pn a ds lost =
    (if \<not> pn \<le> largest then Some (a, ds, lost)
     else if \<not> ti_in_flight info then detect_loop m time largest max_rtt infos (pn_inc pn) a ds lost
     else
       let ds = (if ds_max_sequence_reordering ds < pn_diff largest pn
                 then ds\<lparr>ds_max_sequence_reordering := pn_diff largest pn\<rparr> else ds)
       in do {
         skip \<leftarrow> (if la_use_packet_threshold_for_runt_packets a then Some False
                 else do { i \<leftarrow> GetTransmissionInfo largest m; Some (ti_bytes_sent i < ti_bytes_sent info) });
         let lost' = lost @ [\<lparr>lp_packet_number = pn, lp_bytes_lost = ti_bytes_sent info\<rparr>];
         let ds' = ds\<lparr>ds_total_response_time :=
           f32 (ds_total_response_time ds + DetectionResponseTime max_rtt (ti_sent_time info) time)\<rparr>;
         if \<not> skip \<and> la_reordering_threshold a \<le> pn_diff largest pn
         then detect_loop m time largest max_rtt infos (pn_inc pn) a ds' lost'
         else
           let loss_delay = delta_plus max_rtt (delta_shr max_rtt (la_reordering_shift a));
               when_lost = time_plus (ti_sent_time info) loss_delay
           in if time < when_lost then
                (let ds = (if time_plus (time_plus (ti_sent_time info) max_rtt)
                                (delta_shr max_rtt (la_reordering_shift a + 1)) \<le> time
                           then ds\<lparr>ds_num_borderline_time_reorderings :=
                                  ds_num_borderline_time_reorderings ds + 1\<rparr>
                           else ds);
                     a = a\<lparr>la_loss_detection_timeout := when_lost\<rparr>;
                     a = (if \<not> IsInitialized (la_least_in_flight a)
                          then a\<lparr>la_least_in_flight := pn\<rparr> else a)
                 in Some (a, ds, lost))
              else detect_loop m time largest max_rtt infos (pn_inc pn) a ds' lost' })"

text \<open>The iterator and the packet number at which the loop starts.\<close>

definition detect_start :: "unacked_map \<Rightarrow> packet_number \<Rightarrow> (nat \<times> packet_number) option" where
  "detect_start m least_in_flight =
     (let d = um_unacked_packets m;
          packet_number = um_least_unacked m
      in if IsInitialized least_in_flight \<and> packet_number \<le> least_in_flight
         then if pn_plus (um_largest_sent_packet m) 1 < least_in_flight
              then Some (dq_begin d, packet_number)
              else do {
                it \<leftarrow> index_increment_by d (dq_begin d) (i64_of (pn_diff least_in_flight packet_number));
                Some (it, least_in_flight) }
         else Some (dq_begin d, packet_number))"

definition DetectLosses :: "unacked_map \<Rightarrow> quic_time \<Rightarrow> rtt_stats \<Rightarrow> packet_number \<Rightarrow> acked_packet list
    \<Rightarrow> lost_packet list \<Rightarrow> loss_algorithm \<Rightarrow> (loss_algorithm \<times> detection_stats \<times> lost_packet list) option" where
  "DetectLosses m time rtt largest_newly_acked packets_acked packets_lost a =
    (let a = a\<lparr>la_loss_detection_timeout := time_Zero\<rparr>;
         front = packets_acked \<noteq> [] \<and> IsInitialized (la_least_in_flight a)
           \<and> ap_packet_number (hd packets_acked) = la_least_in_flight a
     in if front \<and> ap_packet_number (last packets_acked) = largest_newly_acked
          \<and> pn_minus (pn_plus (la_least_in_flight a) (of_nat (length packets_acked))) 1 = largest_newly_acked
        then Some (a\<lparr>la_least_in_flight := pn_plus largest_newly_acked 1\<rparr>, ds_new, packets_lost)
        else do {
          let a = (if front then a\<lparr>la_least_in_flight := skip_acked (la_least_in_flight a) packets_acked\<rparr>
                   else a);
          let max_rtt = GetMaxRtt rtt;
          (it, packet_number) \<leftarrow> detect_start m (la_least_in_flight a);
          let a = a\<lparr>la_least_in_flight := pn_Clear (la_least_in_flight a)\<rparr>;
          infos \<leftarrow> dq_walk (dq_data_capacity (um_unacked_packets m)) (um_unacked_packets m) it;
          (a, ds, lost) \<leftarrow>
            detect_loop m time largest_newly_acked max_rtt infos packet_number a ds_new packets_lost;
          let a = (if \<not> IsInitialized (la_least_in_flight a)
                   then a\<lparr>la_least_in_flight := pn_plus largest_newly_acked 1\<rparr> else a);
          Some (a, ds, lost) })"

definition GetLossTimeout :: "loss_algorithm \<Rightarrow> quic_time" where
  "GetLossTimeout a = la_loss_detection_timeout a"

text \<open>\<open>while (max_rtt + (max_rtt >> shift) < time_needed && shift > 0) --shift\<close>.\<close>

fun shrink_shift :: "time_delta \<Rightarrow> time_delta \<Rightarrow> nat \<Rightarrow> nat" where
  "shrink_shift max_rtt time_needed 0 = 0"
| "shrink_shift max_rtt time_needed (Suc s) =
     (if delta_plus max_rtt (delta_shr max_rtt (Suc s)) < time_needed
      then shrink_shift max_rtt time_needed s else Suc s)"

definition SpuriousLossDetected :: "unacked_map \<Rightarrow> rtt_stats \<Rightarrow> quic_time \<Rightarrow> packet_number \<Rightarrow> packet_number
    \<Rightarrow> loss_algorithm \<Rightarrow> loss_algorithm option" where
  "SpuriousLossDetected m rtt ack_receive_time packet_number previous_largest_acked a = do {
     a \<leftarrow> (if la_use_adaptive_time_threshold a \<and> 0 < la_reordering_shift a
          then do {
            info \<leftarrow> GetTransmissionInfo packet_number m;
            let time_needed = time_diff ack_receive_time (ti_sent_time info);
            let max_rtt = max (rs_previous_srtt rtt) (rs_latest_rtt rtt);
            Some (a\<lparr>la_reordering_shift := shrink_shift max_rtt time_needed (la_reordering_shift a)\<rparr>) }
          else Some a);
     Some (if la_use_adaptive_reordering_threshold a
           then a\<lparr>la_reordering_threshold := max (la_reordering_threshold a)
                   (pn_diff previous_largest_acked packet_number + 1)\<rparr>
           else a) }"

definition la_Initialize :: "packet_number_space \<Rightarrow> bool \<Rightarrow> loss_algorithm \<Rightarrow> loss_algorithm" where
  "la_Initialize space parent a =
     (let a = a\<lparr>la_has_parent := parent\<rparr>
      in if pns_index (la_packet_number_space a) < 3 then a
         else a\<lparr>la_packet_number_space := space\<rparr>)"

definition la_Reset :: "loss_algorithm \<Rightarrow> loss_algorithm" where
  "la_Reset a = a\<lparr>la_loss_detection_timeout := time_Zero,
     la_least_in_flight := pn_Clear (la_least_in_flight a)\<rparr>"

subsection \<open>Which packets are declared lost\<close>

definition loss_time :: "loss_algorithm \<Rightarrow> time_delta \<Rightarrow> transmission_info \<Rightarrow> quic_time" where
  "loss_time a max_rtt info =
     time_plus (ti_sent_time info) (delta_plus max_rtt (delta_shr max_rtt (la_reordering_shift a)))"

text \<open>The loss criterion for packet \<open>p\<close>.\<close>

definition deemed_lost :: "loss_algorithm \<Rightarrow> time_delta \<Rightarrow> quic_time \<Rightarrow> packet_number \<Rightarrow> packet_number
    \<Rightarrow> transmission_info \<Rightarrow> bool" where
  "deemed_lost a max_rtt time largest p info \<longleftrightarrow> ti_in_flight info \<and> p \<le> largest
     \<and> (la_reordering_threshold a \<le> pn_diff largest p \<or> loss_time a max_rtt info \<le> time)"

text \<open>Detection changes only the timeout and the least packet in flight of the algorithm.\<close>

definition la_same :: "loss_algorithm \<Rightarrow> loss_algorithm \<Rightarrow> bool" where
  "la_same a b \<longleftrightarrow> a = b\<lparr>la_loss_detection_timeout := la_loss_detection_timeout a,
     la_least_in_flight := la_least_in_flight a\<rparr>"

text \<open>The entries the loop visits, with their packet numbers.\<close>

fun numbered :: "packet_number \<Rightarrow> transmission_info list \<Rightarrow> (packet_number \<times> transmission_info) list" where
  "numbered pn [] = []"
| "numbered pn (info # infos) = (pn, info) # numbered (pn_inc pn) infos"

definition lost_of :: "packet_number \<times> transmission_info \<Rightarrow> lost_packet" where
  "lost_of x = \<lparr>lp_packet_number = fst x, lp_bytes_lost = ti_bytes_sent (snd x)\<rparr>"

lemma numbered_range:
  "unat pn + length infos < 2 ^ 64 \<Longrightarrow> x \<in> set (numbered pn infos) \<Longrightarrow> pn \<le> fst x"
proof (induction infos arbitrary: pn)
  case (Cons info infos)
  then have inc: "unat (pn_inc pn) = Suc (unat pn)" by (intro unat_pn_inc) simp
  then have le: "pn \<le> pn_inc pn" by (simp add: pn_le_unat)
  from Cons.prems(2) show ?case
  proof (simp, elim disjE)
    assume "x \<in> set (numbered (pn_inc pn) infos)"
    with Cons.IH [of "pn_inc pn"] Cons.prems(1) inc have "pn_inc pn \<le> fst x" by simp
    with le show ?thesis by (rule order_trans)
  qed simp
qed simp

lemma numbered_above:
  "unat pn + length (info # infos) < 2 ^ 64 \<Longrightarrow> x \<in> set (numbered (pn_inc pn) infos) \<Longrightarrow> pn < fst x"
  using numbered_range [of "pn_inc pn" infos x] unat_pn_inc [of pn]
  by (auto simp: pn_le_unat pn_less_unat)

lemma detect_loop_spec:
  assumes "la_use_packet_threshold_for_runt_packets a" "unat pn + length infos < 2 ^ 64"
  shows "\<exists>a' ds' new. detect_loop m time largest max_rtt infos pn a ds lost
      = Some (a', ds', lost @ List.map lost_of new)
    \<and> set new \<subseteq> {x \<in> set (numbered pn infos). deemed_lost a max_rtt time largest (fst x) (snd x)}
    \<and> sorted_wrt (<) (List.map fst new)
    \<and> (\<forall>x \<in> set (numbered pn infos). ti_in_flight (snd x) \<longrightarrow> fst x \<le> largest
         \<longrightarrow> la_reordering_threshold a \<le> pn_diff largest (fst x) \<longrightarrow> x \<in> set new)
    \<and> la_same a' a"
  using assms
proof (induction infos arbitrary: pn ds lost)
  case Nil
  show ?case by (auto simp: la_same_def intro!: exI [of _ "[]"])
next
  case (Cons info infos)
  have bound: "unat (pn_inc pn) + length infos < 2 ^ 64"
    using Cons.prems(2) unat_pn_inc [of pn] by simp
  note above = numbered_above [OF Cons.prems(2)]
  let ?lost = "lost @ [lost_of (pn, info)]"
  have skipped: ?case
    if skip: "\<exists>ds1. detect_loop m time largest max_rtt (info # infos) pn a ds lost
        = detect_loop m time largest max_rtt infos (pn_inc pn) a ds1 lost"
      and nf: "\<not> ti_in_flight info"
  proof -
    obtain ds1 where "detect_loop m time largest max_rtt (info # infos) pn a ds lost
        = detect_loop m time largest max_rtt infos (pn_inc pn) a ds1 lost" using skip by blast
    then have step: "detect_loop m time largest max_rtt (info # infos) pn a ds lost = r
        \<longleftrightarrow> detect_loop m time largest max_rtt infos (pn_inc pn) a ds1 lost = r" for r by (simp only:)
    have "{x \<in> set (numbered (pn_inc pn) infos). deemed_lost a max_rtt time largest (fst x) (snd x)}
        = {x \<in> set (numbered pn (info # infos)). deemed_lost a max_rtt time largest (fst x) (snd x)}"
      using nf by (auto simp: deemed_lost_def)
    with Cons.IH [OF Cons.prems(1) bound, of ds1 lost] nf show ?thesis
      unfolding step by (simp add: numbered.simps(2) del: detect_loop.simps)
  qed
  have taken: ?case
    if step: "detect_loop m time largest max_rtt (info # infos) pn a ds lost
        = detect_loop m time largest max_rtt infos (pn_inc pn) a ds1 ?lost"
      and lost: "deemed_lost a max_rtt time largest pn info" for ds1
  proof -
    obtain a' ds' new where new: "detect_loop m time largest max_rtt infos (pn_inc pn) a ds1 ?lost
        = Some (a', ds', ?lost @ List.map lost_of new)"
      "set new \<subseteq> {x \<in> set (numbered (pn_inc pn) infos). deemed_lost a max_rtt time largest (fst x) (snd x)}"
      "sorted_wrt (<) (List.map fst new)"
      "\<forall>x \<in> set (numbered (pn_inc pn) infos). ti_in_flight (snd x) \<longrightarrow> fst x \<le> largest
         \<longrightarrow> la_reordering_threshold a \<le> pn_diff largest (fst x) \<longrightarrow> x \<in> set new"
      "la_same a' a"
      using Cons.IH [OF Cons.prems(1) bound, of ds1 ?lost] by blast
    have "\<forall>x \<in> set new. pn < fst x" using new(2) above by blast
    with new lost step show ?thesis
      by (intro exI [of _ a'] exI [of _ ds'] exI [of _ "(pn, info) # new"]) auto
  qed
  have stop: ?case
    if "detect_loop m time largest max_rtt (info # infos) pn a ds lost = Some (a', ds', lost)"
      and "\<forall>x \<in> set (numbered pn (info # infos)). fst x \<le> largest
        \<longrightarrow> \<not> la_reordering_threshold a \<le> pn_diff largest (fst x)"
      and "la_same a' a" for a' ds'
    using that by (intro exI [of _ a'] exI [of _ ds'] exI [of _ "[]"]) auto
  consider "\<not> pn \<le> largest" | "pn \<le> largest" "\<not> ti_in_flight info"
    | "pn \<le> largest" "ti_in_flight info" "la_reordering_threshold a \<le> pn_diff largest pn"
    | "pn \<le> largest" "ti_in_flight info" "\<not> la_reordering_threshold a \<le> pn_diff largest pn"
      "time < loss_time a max_rtt info"
    | "pn \<le> largest" "ti_in_flight info" "\<not> la_reordering_threshold a \<le> pn_diff largest pn"
      "\<not> time < loss_time a max_rtt info" by blast
  then show ?case
  proof cases
    case 1
    have "\<not> fst x \<le> largest" if "x \<in> set (numbered pn (info # infos))" for x
      using numbered_range [OF Cons.prems(2) that] 1 by (auto simp: pn_le_unat)
    with 1 show ?thesis
      by (intro stop [of a ds]) (auto simp: la_same_def)
  next
    case 2
    then show ?thesis by (intro skipped) auto
  next
    case 3
    then show ?thesis
      by (intro taken) (simp_all add: Cons.prems(1) Let_def lost_of_def deemed_lost_def)
  next
    case 4
    have small: "\<not> la_reordering_threshold a \<le> pn_diff largest (fst x)"
      if "x \<in> set (numbered pn (info # infos))" "fst x \<le> largest" for x
      using numbered_range [OF Cons.prems(2) that(1)] 4(1,3) that(2)
      by (simp add: pn_le_unat unat_pn_diff word_le_nat_alt)
    show ?thesis
      by (rule stop) (use 4 small in \<open>auto simp: Cons.prems(1) Let_def loss_time_def [symmetric]
        la_same_def\<close>)
  next
    case 5
    then show ?thesis
      by (intro taken) (simp_all add: Cons.prems(1) Let_def lost_of_def deemed_lost_def
        loss_time_def [symmetric] not_less)
  qed
qed

text \<open>Where detection starts: at \<open>least_in_flight_\<close>, unless that is unknown or out of range.\<close>

definition start_offset :: "unacked_map \<Rightarrow> acked_packet list \<Rightarrow> loss_algorithm \<Rightarrow> nat" where
  "start_offset m packets_acked a =
     (let least = (if packets_acked \<noteq> [] \<and> IsInitialized (la_least_in_flight a)
                     \<and> ap_packet_number (hd packets_acked) = la_least_in_flight a
                   then skip_acked (la_least_in_flight a) packets_acked else la_least_in_flight a)
      in if IsInitialized least \<and> um_least_unacked m \<le> least
           \<and> least \<le> pn_plus (um_largest_sent_packet m) 1
         then um_offset m least else 0)"

text \<open>The fast path: no acked packet is missing, so nothing is examined.\<close>

definition no_gap :: "acked_packet list \<Rightarrow> packet_number \<Rightarrow> loss_algorithm \<Rightarrow> bool" where
  "no_gap packets_acked largest a \<longleftrightarrow>
     packets_acked \<noteq> [] \<and> IsInitialized (la_least_in_flight a)
     \<and> ap_packet_number (hd packets_acked) = la_least_in_flight a
     \<and> ap_packet_number (last packets_acked) = largest
     \<and> pn_minus (pn_plus (la_least_in_flight a) (of_nat (length packets_acked))) 1 = largest"

lemma numbered_drop:
  "unat pn + length xs < 2 ^ 64 \<Longrightarrow> k \<le> length xs \<Longrightarrow>
    numbered (pn + of_nat k) (drop k xs) = drop k (numbered pn xs)"
proof (induction xs arbitrary: pn k)
  case (Cons x xs)
  show ?case
  proof (cases k)
    case (Suc j)
    have "numbered (pn_inc pn + of_nat j) (drop j xs) = drop j (numbered (pn_inc pn) xs)"
      using Cons.prems Suc unat_pn_inc [of pn] by (intro Cons.IH) auto
    moreover have "pn + of_nat k = pn_inc pn + of_nat j" by (simp add: Suc pn_inc_def)
    ultimately show ?thesis by (simp only: Suc drop_Suc_Cons numbered.simps)
  qed simp
qed simp

lemma start_offset_state:
  assumes st: "um_state m xs" and init: "IsInitialized (um_largest_sent_packet m)"
  shows "start_offset m acked a \<le> length xs"
proof -
  have e: "unat (pn_plus (um_largest_sent_packet m) 1) = unat (um_least_unacked m) + length xs"
  proof -
    have "unat (um_largest_sent_packet m) + 1 = unat (um_least_unacked m) + length xs"
      using st init by (simp add: um_state_def)
    moreover have "unat (um_largest_sent_packet m) + 1 < 2 ^ 64" using calculation um_stateD(2) [OF st] by simp
    ultimately show ?thesis by (simp add: pn_plus_def nowrap)
  qed
  then show ?thesis
    by (auto simp: start_offset_def Let_def um_offset_unat word_le_nat_alt)
qed

text \<open>
  On a well-formed map, detection finds only packets that meet the criterion, each once and
  in ascending order, and every packet in flight from its start on that trails the largest
  newly acked packet by the reordering threshold.
\<close>

lemma DetectLosses_spec:
  assumes st: "um_state m xs" and init: "IsInitialized (um_largest_sent_packet m)"
    and runt: "la_use_packet_threshold_for_runt_packets a"
    and gap: "\<not> no_gap packets_acked largest a"
    and shift: "length xs < 2 ^ 63"
  defines "infos \<equiv> drop (start_offset m packets_acked a) (numbered (um_least_unacked m) xs)"
  shows "\<exists>a' ds new. DetectLosses m time rtt largest packets_acked lost a
      = Some (a', ds, lost @ List.map lost_of new)
    \<and> set new \<subseteq> {x \<in> set infos. deemed_lost a (GetMaxRtt rtt) time largest (fst x) (snd x)}
    \<and> sorted_wrt (<) (List.map fst new)
    \<and> (\<forall>x \<in> set infos. ti_in_flight (snd x) \<longrightarrow> fst x \<le> largest
         \<longrightarrow> la_reordering_threshold a \<le> pn_diff largest (fst x) \<longrightarrow> x \<in> set new)
    \<and> la_use_packet_threshold_for_runt_packets a'"
proof -
  let ?d = "um_unacked_packets m"
  let ?least = "if packets_acked \<noteq> [] \<and> IsInitialized (la_least_in_flight a)
                     \<and> ap_packet_number (hd packets_acked) = la_least_in_flight a
                   then skip_acked (la_least_in_flight a) packets_acked else la_least_in_flight a"
  define least where "least = ?least"
  define k where "k = start_offset m packets_acked a"
  have k: "k \<le> length xs" unfolding k_def by (rule start_offset_state [OF st init])
  let ?pn = "if k = 0 then um_least_unacked m else um_least_unacked m + of_nat k"
  have pn: "?pn = um_least_unacked m + of_nat k" by simp
  have start: "detect_start m least = Some (dq_iter ?d k, um_least_unacked m + of_nat k)"
  proof (cases "IsInitialized least \<and> um_least_unacked m \<le> least
      \<and> least \<le> pn_plus (um_largest_sent_packet m) 1")
    case True
    then have kk: "k = um_offset m least"
      by (simp add: k_def start_offset_def least_def Let_def)
    have "uint (pn_diff least (um_least_unacked m)) = int k"
      by (simp add: kk um_offset_def)
    then have "i64_of (pn_diff least (um_least_unacked m)) = int k"
      using k shift by (subst i64_of_small) auto
    moreover have "least = um_least_unacked m + of_nat k"
      by (simp add: kk um_offset_def pn_diff_def)
    ultimately show ?thesis
      using True dq_iter_plus [OF um_stateD(1) [OF st] k] by (auto simp: detect_start_def Let_def)
  next
    case False
    then have "k = 0" by (auto simp: k_def start_offset_def least_def Let_def)
    with False show ?thesis using dq_iter_begin [OF um_stateD(1) [OF st]]
      by (auto simp: detect_start_def Let_def)
  qed
  define a1 where "a1 = a\<lparr>la_loss_detection_timeout := time_Zero, la_least_in_flight := UninitializedPacketNumber\<rparr>"
  have nd: "numbered (um_least_unacked m + of_nat k) (drop k xs) = infos"
    unfolding infos_def k_def [symmetric] using um_stateD(2) [OF st] k by (intro numbered_drop) auto
  have ub: "unat (um_least_unacked m + of_nat k) = unat (um_least_unacked m) + k"
  proof -
    have "unat (of_nat k :: u64) = k" using um_stateD(2) [OF st] k by (intro unat_of_nat_u64) auto
    then show ?thesis using um_stateD(2) [OF st] k by (subst unat_u64_plus) auto
  qed
  have bound: "unat (um_least_unacked m + of_nat k) + length (drop k xs) < 2 ^ 64"
    using um_stateD(2) [OF st] k by (simp add: ub)
  have "la_use_packet_threshold_for_runt_packets a1" using runt by (simp add: a1_def)
  from detect_loop_spec [OF this bound, of m time largest "GetMaxRtt rtt" ds_new lost]
  obtain a' ds' new where new:
    "detect_loop m time largest (GetMaxRtt rtt) (drop k xs) (um_least_unacked m + of_nat k) a1 ds_new lost
       = Some (a', ds', lost @ List.map lost_of new)"
    "set new \<subseteq> {x \<in> set infos. deemed_lost a1 (GetMaxRtt rtt) time largest (fst x) (snd x)}"
    "sorted_wrt (<) (List.map fst new)"
    "\<forall>x \<in> set infos. ti_in_flight (snd x) \<longrightarrow> fst x \<le> largest
         \<longrightarrow> la_reordering_threshold a1 \<le> pn_diff largest (fst x) \<longrightarrow> x \<in> set new"
    "la_same a' a1"
    unfolding nd by blast
  have walk: "dq_walk (dq_data_capacity ?d) ?d (dq_iter ?d k) = Some (drop k xs)"
    by (rule dq_walk_iter [OF um_stateD(1) [OF st] k])
  have "deemed_lost a1 = deemed_lost a" "la_reordering_threshold a1 = la_reordering_threshold a"
    by (simp_all add: deemed_lost_def [abs_def] a1_def loss_time_def)
  note new' = new(2-4) [unfolded this]
  have keep: "la_use_packet_threshold_for_runt_packets a'"
    using arg_cong [OF new(5) [unfolded la_same_def], of la_use_packet_threshold_for_runt_packets] runt
    by (simp add: a1_def)
  let ?front = "packets_acked \<noteq> [] \<and> IsInitialized (la_least_in_flight a)
    \<and> ap_packet_number (hd packets_acked) = la_least_in_flight a"
  have clear: "b\<lparr>la_least_in_flight := pn_Clear c\<rparr> = a1"
    if "b = a\<lparr>la_loss_detection_timeout := time_Zero\<rparr> \<or> b = a\<lparr>la_loss_detection_timeout := time_Zero, la_least_in_flight := least\<rparr>"
    for b c using that by (auto simp: a1_def pn_Clear_def)
  have "\<exists>a'. DetectLosses m time rtt largest packets_acked lost a = Some (a', ds', lost @ List.map lost_of new)
      \<and> la_use_packet_threshold_for_runt_packets a'"
  proof (cases ?front)
    case True
    then have l: "skip_acked (la_least_in_flight a) packets_acked = least" by (simp add: least_def)
    from True gap have g: "\<not> (ap_packet_number (last packets_acked) = largest
      \<and> pn_minus (pn_plus (la_least_in_flight a) (of_nat (length packets_acked))) 1 = largest)"
      by (simp add: no_gap_def)
    show ?thesis
      using True g start walk new(1) keep
      by (auto simp: DetectLosses_def Let_def l clear a1_def)
  next
    case False
    then have "least = la_least_in_flight a" unfolding least_def by (rule if_not_P)
    then have l: "la_least_in_flight a = least" ..
    show ?thesis
      using False start walk new(1) keep
      by (auto simp: DetectLosses_def Let_def l clear a1_def)
  qed
  with new' show ?thesis by blast
qed

subsection \<open>Spurious losses\<close>

lemma shrink_shift_spec:
  "shrink_shift r needed n \<le> n
    \<and> (shrink_shift r needed n = 0 \<or> needed \<le> delta_plus r (delta_shr r (shrink_shift r needed n)))"
  by (induction n) (auto simp: not_less)

subsection \<open>Properties\<close>


text \<open>Five packets in flight; the ack of the last one is more than the threshold above the first two.\<close>

definition example_sends :: "um_op list" where
  "example_sends = List.map (\<lambda>n. SendPacket \<lparr>sp_packet_number = n, sp_encrypted_length = 1000, sp_send_time = 0\<rparr> 10 True)
     [1, 2, 3, 4, 5]"

lemma example_map:
  obtains m where "um_run example_sends (um_new IS_CLIENT) = Some m" "um_largest_sent_packet m = 5" "um_least_unacked m = 1"
    "um_state m (List.map (\<lambda>n. (ti_new n 10 1000)\<lparr>ti_in_flight := True\<rparr>) [1, 2, 3, 4, 5])"
proof -
  let ?send = "\<lambda>n. SendPacket \<lparr>sp_packet_number = n, sp_encrypted_length = 1000, sp_send_time = 0\<rparr> 10 True"
  let ?xs = "List.map (\<lambda>n. (ti_new n 10 1000)\<lparr>ti_in_flight := True\<rparr>)"
  have "um_spec_run (List.map ?send [1, 2, 3, 4]) (1, []) = Some (1, ?xs [1, 2, 3, 4])" by (simp add: Let_def)
  from um_run_refines [OF this um_abs_new] obtain m4 where
    m4: "um_run (List.map ?send [1, 2, 3, 4]) (um_new IS_CLIENT) = Some m4" "um_abs m4 (1, ?xs [1, 2, 3, 4])" by blast
  have st: "um_state m4 (?xs [1, 2, 3, 4])" "unat (um_least_unacked m4) = 1" using m4(2) by (simp_all add: um_abs_def)
  have "um_end_number m4 \<le> 5" using um_end_unat [OF st(1)] st(2) by (simp add: pn_le_unat)
  with AddSentPacket_state [OF st(1), of "\<lparr>sp_packet_number = 5, sp_encrypted_length = 1000, sp_send_time = 0\<rparr>" 10 True] st
  obtain m where m: "AddSentPacket \<lparr>sp_packet_number = 5, sp_encrypted_length = 1000, sp_send_time = 0\<rparr> 10 True m4 = Some m"
    "um_state m (?xs [1, 2, 3, 4, 5])" "um_least_unacked m = um_least_unacked m4" "um_largest_sent_packet m = 5" by auto
  have e: "example_sends = List.map ?send [1, 2, 3, 4] @ [?send 5]" by (simp add: example_sends_def)
  have "um_run example_sends (um_new IS_CLIENT) = Some m" unfolding e um_run_append m4(1) using m(1) by simp
  moreover have "um_least_unacked m = 1" using m(3) st(2) by (simp add: word_unat_eq_iff)
  ultimately show thesis using m(2,4) by (intro that)
qed


text \<open>After a spurious loss the reordering threshold exceeds the reordering just seen, and the time
  threshold has widened until it covers the time the packet took, or cannot be widened further.\<close>

theorem spurious_loss_widens_thresholds:
  assumes "SpuriousLossDetected m rtt t pn prev a = Some a'" "pn_diff prev pn \<noteq> 0xFFFFFFFFFFFFFFFF"
  shows "(la_use_adaptive_reordering_threshold a \<longrightarrow> pn_diff prev pn < la_reordering_threshold a')
    \<and> la_reordering_threshold a \<le> la_reordering_threshold a' \<and> la_reordering_shift a' \<le> la_reordering_shift a
    \<and> (la_use_adaptive_time_threshold a \<longrightarrow> 0 < la_reordering_shift a' \<longrightarrow>
         (\<exists>info. GetTransmissionInfo pn m = Some info \<and> time_diff t (ti_sent_time info)
            \<le> delta_plus (max (rs_previous_srtt rtt) (rs_latest_rtt rtt))
                (delta_shr (max (rs_previous_srtt rtt) (rs_latest_rtt rtt)) (la_reordering_shift a'))))"
proof -
  have lt: "pn_diff prev pn < pn_diff prev pn + 1"
    using pn_inc_greater [of "pn_diff prev pn"] assms(2)
    by (simp add: IsInitialized_def UninitializedPacketNumber_def pn_inc_def)
  obtain a1 where a1: "(if la_use_adaptive_time_threshold a \<and> 0 < la_reordering_shift a
          then do {
            info \<leftarrow> GetTransmissionInfo pn m;
            let time_needed = time_diff t (ti_sent_time info);
            let max_rtt = max (rs_previous_srtt rtt) (rs_latest_rtt rtt);
            Some (a\<lparr>la_reordering_shift := shrink_shift max_rtt time_needed (la_reordering_shift a)\<rparr>) }
          else Some a) = Some a1"
    "a' = (if la_use_adaptive_reordering_threshold a1
           then a1\<lparr>la_reordering_threshold := max (la_reordering_threshold a1) (pn_diff prev pn + 1)\<rparr> else a1)"
    using assms(1) unfolding SpuriousLossDetected_def by (auto simp: bind_Some_iff simp del: if_split)
  have a1': "la_reordering_threshold a1 = la_reordering_threshold a"
    "la_use_adaptive_reordering_threshold a1 = la_use_adaptive_reordering_threshold a"
    "la_reordering_shift a1 \<le> la_reordering_shift a"
    using a1(1) shrink_shift_spec by (auto simp: bind_Some_iff Let_def split: if_splits)
  have "\<exists>info. GetTransmissionInfo pn m = Some info \<and> time_diff t (ti_sent_time info)
            \<le> delta_plus (max (rs_previous_srtt rtt) (rs_latest_rtt rtt))
                (delta_shr (max (rs_previous_srtt rtt) (rs_latest_rtt rtt)) (la_reordering_shift a1))"
    if use: "la_use_adaptive_time_threshold a" "0 < la_reordering_shift a1"
  proof -
    have "0 < la_reordering_shift a" using a1'(3) use(2) by simp
    then obtain info where i: "GetTransmissionInfo pn m = Some info"
      "la_reordering_shift a1 = shrink_shift (max (rs_previous_srtt rtt) (rs_latest_rtt rtt))
         (time_diff t (ti_sent_time info)) (la_reordering_shift a)"
      using a1(1) use(1) by (auto simp: bind_Some_iff Let_def)
    with use(2) shrink_shift_spec [of "max (rs_previous_srtt rtt) (rs_latest_rtt rtt)"
        "time_diff t (ti_sent_time info)" "la_reordering_shift a"] show ?thesis by auto
  qed
  with lt a1(2) a1' show ?thesis by (auto simp: less_max_iff_disj)
qed

lemma spurious_loss_widens_thresholds_witness:
  "\<exists>m a'. SpuriousLossDetected m rs_new 50000 2 9 la_new = Some a' \<and> 7 < la_reordering_threshold a'"
proof -
  from example_map obtain m where m: "um_run example_sends (um_new IS_CLIENT) = Some m" .
  obtain a' where a': "SpuriousLossDetected m rs_new 50000 2 9 la_new = Some a'"
    by (simp add: SpuriousLossDetected_def la_new_def)
  from spurious_loss_widens_thresholds [OF this] have "7 < la_reordering_threshold a'"
    by (simp add: pn_diff_def la_new_def)
  with a' show ?thesis by blast
qed

end
