(* ===== verification/Packet_Manager.thy ===== *)
theory Packet_Manager
  imports Bbr2_Sender Bbr_Sender Tcp_Cubic Loss_Detection
begin

section \<open>The sent packet manager\<close>

text \<open>
  \<open>QuicSentPacketManager\<close> of \<open>quic/quic_sent_packet_manager.h\<close> and \<open>.cc\<close>: it owns the map of
  unacked packets, the round trip time statistics, the loss detection and the congestion
  controller, records what is sent, turns the frames of acks into congestion events, and
  handles the retransmission timer. The congestion controller is a function table \<open>ops\<close> with
  its state (\<open>Send_Algorithm\<close>); readings of the clock are arguments.

  The lemmas show, for every congestion controller that meets its contract, that no history of
  sent packets, acks of tracked packets and timeouts fails, which packets are tracked and in
  flight after an ack and after a timeout, and how the retransmission delay backs off.
\<close>

subsection \<open>State\<close>

datatype ack_result = PACKETS_NEWLY_ACKED | NO_PACKETS_NEWLY_ACKED | UNSENT_PACKETS_ACKED
  | UNACKABLE_PACKETS_ACKED | PACKETS_ACKED_IN_WRONG_PACKET_NUMBER_SPACE

datatype timeout_mode = RTO_MODE | TLP_MODE | HANDSHAKE_MODE | LOSS_MODE | PTO_MODE

definition kDefaultRetransmissionTimeMs :: int64 where "kDefaultRetransmissionTimeMs = 500"
definition kMaxRetransmissionTimeMs :: int64 where "kMaxRetransmissionTimeMs = 60000"
definition kMaxRetransmissions :: u64 where "kMaxRetransmissions = 10"
definition kMinRetransmissionTimeMs :: int64 where "kMinRetransmissionTimeMs = 200"
definition DEFAULT_PACKET_SIZE :: u16 where "DEFAULT_PACKET_SIZE = 1472"

record 'a packet_manager =
  pm_send_algorithm :: 'a
  pm_loss_algorithm :: loss_algorithm
  pm_unacked_packets :: unacked_map
  pm_packets_lost :: "lost_packet list"
  pm_packets_acked :: "acked_packet list"
  pm_largest_newly_acked :: packet_number
  pm_min_rto_timeout :: time_delta
  pm_stats :: conn_stats
  pm_consecutive_rto_count :: u64
  pm_initial_congestion_window :: packet_count
  pm_rtt_stats :: rtt_stats
  pm_rtt_updated :: bool

text \<open>
  The constructor. \<open>create\<close> is the case of \<open>SendAlgorithmInterface::Create\<close> for its congestion
  control type; there is no algorithm to keep yet. \<open>junk\<close> is the unset flag \<open>rtt_updated_\<close>.
\<close>

definition QuicSentPacketManager :: "perspective
    \<Rightarrow> (rtt_stats \<Rightarrow> conn_stats \<Rightarrow> packet_count \<Rightarrow> (conn_stats \<times> 'a) option) \<Rightarrow> conn_stats \<Rightarrow> bool
    \<Rightarrow> 'a packet_manager option" where
  "QuicSentPacketManager perspective create stats junk = do {
     (stats, alg) \<leftarrow> create rs_new stats kInitialCongestionWindow;
     Some \<lparr>pm_send_algorithm = alg, pm_loss_algorithm = la_new, pm_unacked_packets = um_new perspective,
       pm_packets_lost = [], pm_packets_acked = [], pm_largest_newly_acked = UninitializedPacketNumber,
       pm_min_rto_timeout = FromMilliseconds kMinRetransmissionTimeMs, pm_stats = stats,
       pm_consecutive_rto_count = 0, pm_initial_congestion_window = kInitialCongestionWindow,
       pm_rtt_stats = rs_new, pm_rtt_updated = junk\<rparr> }"

text \<open>\<open>SetSendAlgorithm(type)\<close> on a manager that already has an algorithm.\<close>

definition SetSendAlgorithm :: "'a send_algorithm_ops \<Rightarrow> congestion_control_type
    \<Rightarrow> (rtt_stats \<Rightarrow> conn_stats \<Rightarrow> packet_count \<Rightarrow> (conn_stats \<times> 'a) option) \<Rightarrow> 'a packet_manager
    \<Rightarrow> 'a packet_manager option" where
  "SetSendAlgorithm ops ty create s =
     (if sa_GetCongestionControlType ops (pm_send_algorithm s) = ty then Some s
      else do {
        (stats, alg) \<leftarrow> create (pm_rtt_stats s) (pm_stats s) (pm_initial_congestion_window s);
        Some (s\<lparr>pm_send_algorithm := alg, pm_stats := stats\<rparr>) })"

definition pm_GetBytesInFlight :: "'a packet_manager \<Rightarrow> byte_count" where
  "pm_GetBytesInFlight s = um_bytes_in_flight (pm_unacked_packets s)"

definition GetCongestionWindowInBytes :: "'a send_algorithm_ops \<Rightarrow> 'a packet_manager \<Rightarrow> byte_count" where
  "GetCongestionWindowInBytes ops s = sa_GetCongestionWindow ops (pm_send_algorithm s)"

definition GetPacingRate :: "'a send_algorithm_ops \<Rightarrow> 'a packet_manager \<Rightarrow> bandwidth option" where
  "GetPacingRate ops s = sa_PacingRate ops (pm_rtt_stats s) (pm_GetBytesInFlight s) (pm_send_algorithm s)"

subsection \<open>Sending\<close>

definition pm_OnPacketSent :: "'a send_algorithm_ops \<Rightarrow> serialized_packet \<Rightarrow> quic_time \<Rightarrow> 'a packet_manager
    \<Rightarrow> ('a packet_manager \<times> bool) option" where
  "pm_OnPacketSent ops packet sent_time s = do {
     let in_flight = True;
     (stats, alg) \<leftarrow> sa_OnPacketSent ops sent_time (um_bytes_in_flight (pm_unacked_packets s))
       (sp_packet_number packet) (ucast (sp_encrypted_length packet)) (pm_stats s, pm_send_algorithm s);
     m \<leftarrow> AddSentPacket packet sent_time in_flight (pm_unacked_packets s);
     Some (s\<lparr>pm_stats := stats, pm_send_algorithm := alg, pm_unacked_packets := m\<rparr>, in_flight) }"

subsection \<open>Loss detection and congestion events\<close>

text \<open>The loop over the lost packets: each leaves the flight and becomes removable.\<close>

fun lost_loop :: "lost_packet list \<Rightarrow> conn_stats \<times> unacked_map \<Rightarrow> (conn_stats \<times> unacked_map) option" where
  "lost_loop [] (stats, m) = Some (stats, m)"
| "lost_loop (packet # packets) (stats, m) = do {
     let stats = stats\<lparr>cs_packets_lost := cs_packets_lost stats + 1\<rparr>;
     m \<leftarrow> RemoveFromInFlight (lp_packet_number packet) m;
     m \<leftarrow> um_set_state (lp_packet_number packet) NEVER_SENT m;
     lost_loop packets (stats, m) }"

definition InvokeLossDetection :: "quic_time \<Rightarrow> 'a packet_manager \<Rightarrow> 'a packet_manager option" where
  "InvokeLossDetection time s = do {
     let s = (if pm_packets_acked s \<noteq> []
              then s\<lparr>pm_largest_newly_acked := ap_packet_number (last (pm_packets_acked s))\<rparr> else s);
     (la, _, lost) \<leftarrow> DetectLosses (pm_unacked_packets s) time (pm_rtt_stats s) (pm_largest_newly_acked s)
       (pm_packets_acked s) (pm_packets_lost s) (pm_loss_algorithm s);
     (stats, m) \<leftarrow> lost_loop lost (pm_stats s, pm_unacked_packets s);
     Some (s\<lparr>pm_loss_algorithm := la, pm_packets_lost := lost, pm_stats := stats, pm_unacked_packets := m\<rparr>) }"

definition MaybeInvokeCongestionEvent :: "'a send_algorithm_ops \<Rightarrow> bool \<Rightarrow> byte_count \<Rightarrow> quic_time
    \<Rightarrow> 'a packet_manager \<Rightarrow> 'a packet_manager option" where
  "MaybeInvokeCongestionEvent ops rtt_updated prior_in_flight event_time s =
     (if \<not> rtt_updated \<and> pm_packets_acked s = [] \<and> pm_packets_lost s = [] then Some s
      else do {
        (stats, alg) \<leftarrow> sa_OnCongestionEvent ops (pm_rtt_stats s) (pm_unacked_packets s) rtt_updated
          prior_in_flight event_time (pm_packets_acked s) (pm_packets_lost s) (pm_stats s, pm_send_algorithm s);
        m \<leftarrow> RemoveObsoletePackets (pm_unacked_packets s);
        Some (s\<lparr>pm_stats := stats, pm_send_algorithm := alg, pm_unacked_packets := m,
                pm_packets_acked := [], pm_packets_lost := []\<rparr>) })"

definition PostProcessNewlyAckedPackets :: "'a send_algorithm_ops \<Rightarrow> quic_time \<Rightarrow> bool \<Rightarrow> byte_count
    \<Rightarrow> 'a packet_manager \<Rightarrow> 'a packet_manager option" where
  "PostProcessNewlyAckedPackets ops ack_receive_time rtt_updated prior_bytes_in_flight s = do {
     s \<leftarrow> InvokeLossDetection ack_receive_time s;
     s \<leftarrow> MaybeInvokeCongestionEvent ops rtt_updated prior_bytes_in_flight ack_receive_time s;
     Some (if rtt_updated
           then (let s = (if 0 < pm_consecutive_rto_count s
                          then s\<lparr>pm_send_algorithm := sa_OnRetransmissionTimeout ops True (pm_send_algorithm s)\<rparr>
                          else s)
                 in s\<lparr>pm_consecutive_rto_count := 0\<rparr>)
           else s) }"

subsection \<open>Ack frames\<close>

definition MarkPacketHandled :: "packet_number \<Rightarrow> quic_time \<Rightarrow> 'a packet_manager \<Rightarrow> 'a packet_manager option" where
  "MarkPacketHandled packet_number ack_receive_time s = do {
     info \<leftarrow> GetTransmissionInfo packet_number (pm_unacked_packets s);
     s \<leftarrow> (if ti_state info = LOST
          then do {
            la \<leftarrow> SpuriousLossDetected (pm_unacked_packets s) (pm_rtt_stats s) ack_receive_time packet_number
              (um_largest_acked (pm_unacked_packets s)) (pm_loss_algorithm s);
            let stats = pm_stats s;
            Some (s\<lparr>pm_loss_algorithm := la, pm_stats := stats\<lparr>
              cs_packet_spuriously_detected_lost := cs_packet_spuriously_detected_lost stats + 1\<rparr>\<rparr>) }
          else Some s);
     m \<leftarrow> RemoveFromInFlight packet_number (pm_unacked_packets s);
     m \<leftarrow> um_set_state packet_number ACKED m;
     Some (s\<lparr>pm_unacked_packets := m\<rparr>) }"

text \<open>The loop of \<open>OnAckFrameEnd\<close>; the acked packets it has updated are its second argument.\<close>

fun acked_loop :: "quic_time \<Rightarrow> acked_packet list \<Rightarrow> acked_packet list \<Rightarrow> 'a packet_manager
    \<Rightarrow> (acked_packet list \<times> 'a packet_manager) option" where
  "acked_loop t seen [] s = Some (seen, s)"
| "acked_loop t seen (p # ps) s = do {
     info \<leftarrow> GetTransmissionInfo (ap_packet_number p) (pm_unacked_packets s);
     let (p, s) = (if ti_in_flight info then (p\<lparr>ap_bytes_acked := ti_bytes_sent info\<rparr>, s)
                   else (p, s\<lparr>pm_largest_newly_acked := ap_packet_number p\<rparr>));
     s \<leftarrow> MarkPacketHandled (ap_packet_number p) t s;
     acked_loop t (seen @ [p]) ps s }"

definition OnAckFrameEnd :: "'a send_algorithm_ops \<Rightarrow> quic_time \<Rightarrow> packet_number \<Rightarrow> 'a packet_manager
    \<Rightarrow> ('a packet_manager \<times> ack_result) option" where
  "OnAckFrameEnd ops ack_receive_time ack_packet_number s = do {
     let prior_bytes_in_flight = um_bytes_in_flight (pm_unacked_packets s);
     (acked, s) \<leftarrow> acked_loop ack_receive_time [] (rev (pm_packets_acked s)) s;
     let s = s\<lparr>pm_packets_acked := acked\<rparr>;
     let acked_new_packet = acked \<noteq> [];
     s \<leftarrow> PostProcessNewlyAckedPackets ops ack_receive_time (pm_rtt_updated s) prior_bytes_in_flight s;
     Some (s, if acked_new_packet then PACKETS_NEWLY_ACKED else NO_PACKETS_NEWLY_ACKED) }"

text \<open>\<open>now\<close> is the reading of the clock. The end of the range is ignored by the code.\<close>

definition OnAckRange :: "quic_time \<Rightarrow> packet_number \<Rightarrow> packet_number \<Rightarrow> 'a packet_manager \<Rightarrow> 'a packet_manager" where
  "OnAckRange now range_start range_end s = s\<lparr>pm_packets_acked := pm_packets_acked s
     @ [\<lparr>ap_packet_number = range_start, ap_bytes_acked = DEFAULT_PACKET_SIZE, ap_receive_timestamp = now\<rparr>]\<rparr>"

definition MaybeUpdateRTT :: "packet_number \<Rightarrow> quic_time \<Rightarrow> 'a packet_manager
    \<Rightarrow> ('a packet_manager \<times> bool) option" where
  "MaybeUpdateRTT largest_acked ack_receive_time s = do {
     unacked \<leftarrow> IsUnacked largest_acked (pm_unacked_packets s);
     if \<not> unacked then Some (s, False)
     else do {
       info \<leftarrow> GetTransmissionInfo largest_acked (pm_unacked_packets s);
       Some (if ti_sent_time info = time_Zero then (s, False)
         else if ti_state info = NOT_CONTRIBUTING_RTT then (s, False)
         else let send_delta = time_diff ack_receive_time (ti_sent_time info)
              in (s\<lparr>pm_rtt_stats := UpdateRtt send_delta (FromMicroseconds 0) ack_receive_time (pm_rtt_stats s)\<rparr>,
                  True)) } }"

definition OnAckFrameStart :: "packet_number \<Rightarrow> quic_time \<Rightarrow> 'a packet_manager \<Rightarrow> 'a packet_manager option" where
  "OnAckFrameStart largest_acked ack_receive_time s = do {
     (s, updated) \<leftarrow> MaybeUpdateRTT largest_acked ack_receive_time s;
     Some (s\<lparr>pm_rtt_updated := updated\<rparr>) }"

subsection \<open>The retransmission timer\<close>

definition GetRetransmissionMode :: "'a packet_manager \<Rightarrow> timeout_mode" where
  "GetRetransmissionMode s =
     (if GetLossTimeout (pm_loss_algorithm s) \<noteq> time_Zero then LOSS_MODE else RTO_MODE)"

text \<open>The loop of \<open>RetransmitRtoPackets\<close>.\<close>

partial_function (option) rto_loop :: "packet_number \<Rightarrow> packet_number \<Rightarrow> unacked_map \<Rightarrow> unacked_map option" where
  "rto_loop packet_number largest_sent_packet m =
     (if packet_number \<le> largest_sent_packet
      then Option.bind (GetTransmissionInfo packet_number m) (\<lambda>info.
        Option.bind (if ti_state info = OUTSTANDING
                     then Option.bind (RemoveFromInFlight packet_number m) (um_set_state packet_number NEVER_SENT)
                     else Some m)
          (rto_loop (pn_inc packet_number) largest_sent_packet))
      else Some m)"

definition RetransmitRtoPackets :: "'a packet_manager \<Rightarrow> 'a packet_manager option" where
  "RetransmitRtoPackets s = do {
     m \<leftarrow> (if um_empty (pm_unacked_packets s) then Some (pm_unacked_packets s)
          else rto_loop (um_least_unacked (pm_unacked_packets s))
            (um_largest_sent_packet (pm_unacked_packets s)) (pm_unacked_packets s));
     m \<leftarrow> RemoveObsoletePackets m;
     Some (s\<lparr>pm_unacked_packets := m, pm_consecutive_rto_count := pm_consecutive_rto_count s + 1\<rparr>) }"

definition pm_OnRetransmissionTimeout :: "'a send_algorithm_ops \<Rightarrow> quic_time \<Rightarrow> 'a packet_manager
    \<Rightarrow> ('a packet_manager \<times> timeout_mode) option" where
  "pm_OnRetransmissionTimeout ops now s = (case GetRetransmissionMode s of
       LOSS_MODE \<Rightarrow> do {
         let stats = pm_stats s;
         let s = s\<lparr>pm_stats := stats\<lparr>cs_loss_timeout_count := cs_loss_timeout_count stats + 1\<rparr>\<rparr>;
         let prior_in_flight = um_bytes_in_flight (pm_unacked_packets s);
         s \<leftarrow> InvokeLossDetection now s;
         s \<leftarrow> MaybeInvokeCongestionEvent ops False prior_in_flight now s;
         Some (s, LOSS_MODE) }
     | RTO_MODE \<Rightarrow> do {
         let stats = pm_stats s;
         s \<leftarrow> RetransmitRtoPackets (s\<lparr>pm_stats := stats\<lparr>cs_rto_count := cs_rto_count stats + 1\<rparr>\<rparr>);
         Some (s, RTO_MODE) }
     | m \<Rightarrow> Some (s, m))"

definition GetRetransmissionDelay :: "'a packet_manager \<Rightarrow> time_delta" where
  "GetRetransmissionDelay s =
     (let r = pm_rtt_stats s;
          delay = (if delta_IsZero (rs_smoothed_rtt r) then FromMilliseconds kDefaultRetransmissionTimeMs
                   else max (delta_plus (rs_smoothed_rtt r) (delta_mult (rs_mean_deviation r) 4))
                          (pm_min_rto_timeout s));
          delay = delta_mult delay (2 ^ unat (min (pm_consecutive_rto_count s) kMaxRetransmissions))
      in if kMaxRetransmissionTimeMs < ToMilliseconds delay then FromMilliseconds kMaxRetransmissionTimeMs
         else delay)"

definition GetRetransmissionTime :: "'a packet_manager \<Rightarrow> quic_time" where
  "GetRetransmissionTime s =
     (if \<not> HasInFlightPackets (pm_unacked_packets s) then time_Zero
      else case GetRetransmissionMode s of
          LOSS_MODE \<Rightarrow> GetLossTimeout (pm_loss_algorithm s)
        | RTO_MODE \<Rightarrow> time_plus (um_last_inflight_packet_sent_time (pm_unacked_packets s))
            (GetRetransmissionDelay s)
        | _ \<Rightarrow> time_Zero)"

subsection \<open>Entries that leave the flight\<close>

definition settled :: "sent_packet_state \<Rightarrow> nat set \<Rightarrow> transmission_info list \<Rightarrow> transmission_info list" where
  "settled st K xs = List.map (\<lambda>(i, info). if i \<in> K then info\<lparr>ti_in_flight := False, ti_state := st\<rparr> else info)
     (enumerate 0 xs)"

lemma length_settled [simp]: "length (settled st K xs) = length xs"
  by (simp add: settled_def)

lemma nth_settled: "i < length xs \<Longrightarrow> settled st K xs ! i
    = (if i \<in> K then (xs ! i)\<lparr>ti_in_flight := False, ti_state := st\<rparr> else xs ! i)"
  by (simp add: settled_def nth_enumerate_eq)

lemma settled_empty [simp]: "settled st {} xs = xs"
  by (rule nth_equalityI) (simp_all add: nth_settled)

lemma settled_insert:
  "k < length xs \<Longrightarrow> (settled st K xs)[k := (settled st K xs ! k)\<lparr>ti_in_flight := False, ti_state := st\<rparr>]
    = settled st (insert k K) xs"
  by (rule nth_equalityI) (auto simp: nth_settled nth_list_update)

lemma settled_settled: "settled st K (settled st L xs) = settled st (K \<union> L) xs"
  by (rule nth_equalityI) (auto simp: nth_settled)

lemma settled_single:
  "k < length xs \<Longrightarrow> xs[k := (xs ! k)\<lparr>ti_in_flight := False, ti_state := st\<rparr>] = settled st {k} xs"
  using settled_insert [of k xs st "{}"] by simp

text \<open>Settling and dropping entries only takes packets out of the flight.\<close>

definition flight_shrinks :: "transmission_info list \<Rightarrow> transmission_info list \<Rightarrow> bool" where
  "flight_shrinks xs ys \<longleftrightarrow> (\<forall>y \<in> set ys. ti_in_flight y \<longrightarrow> y \<in> set xs)
     \<and> flight_count ys \<le> flight_count xs"

lemma flight_shrinks_trans: "flight_shrinks xs ys \<Longrightarrow> flight_shrinks ys zs \<Longrightarrow> flight_shrinks xs zs"
  by (force simp: flight_shrinks_def)

lemma flight_shrinks_simps [simp, intro]: "flight_shrinks xs xs" "flight_shrinks xs []"
  "flight_shrinks xs (dropWhile P xs)" "flight_shrinks xs (settled st K xs)"
proof -
  show "flight_shrinks xs xs" "flight_shrinks xs []" by (simp_all add: flight_shrinks_def)
  have "length (filter ti_in_flight (dropWhile P xs)) \<le> length (filter ti_in_flight xs)"
    by (induction xs) auto
  then show "flight_shrinks xs (dropWhile P xs)" by (auto simp: flight_shrinks_def flight_count_def dest: set_dropWhileD)
  have "filter ti_in_flight (settled st K xs) = List.map snd (filter (\<lambda>(i, x). i \<notin> K \<and> ti_in_flight x) (enumerate 0 xs))"
    unfolding settled_def by (induction xs rule: rev_induct) (auto simp: enumerate_append_eq)
  moreover have "length (filter (\<lambda>(i, x). i \<notin> K \<and> ti_in_flight x) (enumerate 0 xs)) \<le> length (filter ti_in_flight xs)"
    by (induction xs rule: rev_induct) (auto simp: enumerate_append_eq)
  ultimately have "length (filter ti_in_flight (settled st K xs)) \<le> length (filter ti_in_flight xs)" by simp
  then show "flight_shrinks xs (settled st K xs)"
    by (auto simp: flight_shrinks_def flight_count_def in_set_conv_nth nth_settled split: if_splits) blast
qed

text \<open>What the operations that settle entries leave alone.\<close>

definition um_frame :: "unacked_map \<Rightarrow> unacked_map \<Rightarrow> bool" where
  "um_frame m m' \<longleftrightarrow> um_least_unacked m' = um_least_unacked m
     \<and> um_largest_sent_packet m' = um_largest_sent_packet m \<and> um_largest_acked m' = um_largest_acked m"

lemma um_frame_refl [simp]: "um_frame m m"
  by (simp add: um_frame_def)

lemma um_frame_trans [trans]: "um_frame m m' \<Longrightarrow> um_frame m' m'' \<Longrightarrow> um_frame m m''"
  by (simp add: um_frame_def)

lemma um_frame_offset: "um_frame m m' \<Longrightarrow> um_offset m' pn = um_offset m pn"
  by (simp add: um_frame_def um_offset_def)

lemma um_frame_covers:
  assumes "um_frame m m'" "um_state m xs" "um_state m' ys" "length ys = length xs"
  shows "um_covers m' pn \<longleftrightarrow> um_covers m pn" "um_end_number m' = um_end_number m"
proof -
  have "unat (um_end_number m') = unat (um_end_number m)"
    using um_end_unat [OF assms(2)] um_end_unat [OF assms(3)] assms(1,4) by (simp add: um_frame_def)
  then show "um_end_number m' = um_end_number m" by (simp add: word_unat_eq_iff)
  with assms(1) show "um_covers m' pn \<longleftrightarrow> um_covers m pn" by (simp add: um_covers_def um_frame_def)
qed

lemma settle_state:
  assumes st: "um_state m xs" and c: "um_covers m pn"
  shows "\<exists>m'. Option.bind (RemoveFromInFlight pn m) (um_set_state pn s) = Some m'
    \<and> um_state m' (settled s {um_offset m pn} xs) \<and> um_frame m m'"
proof -
  let ?k = "um_offset m pn"
  have k: "?k < length xs" by (rule um_covers_offset [OF st c])
  from RemoveFromInFlight_state [OF st c] obtain m1 where
    m1: "RemoveFromInFlight pn m = Some m1" "um_state m1 (xs[?k := (xs ! ?k)\<lparr>ti_in_flight := False\<rparr>])"
    "um_frame m m1" by (auto simp: um_frame_def)
  have c1: "um_covers m1 pn" using um_frame_covers [OF m1(3) st m1(2)] c by simp
  from um_set_state_state [OF m1(2) c1, of s] k obtain m2 where
    m2: "um_set_state pn s m1 = Some m2" "um_state m2 (settled s {?k} xs)" "um_frame m1 m2"
    by (auto simp: um_frame_offset [OF m1(3)] um_frame_def settled_single [symmetric])
  from m1(1,3) m2 show ?thesis by (auto intro: um_frame_trans)
qed

lemma lost_loop_state:
  "um_state m xs \<Longrightarrow> \<forall>p \<in> set lost. um_covers m (lp_packet_number p) \<Longrightarrow>
    \<exists>m'. lost_loop lost (stats, m) = Some (stats\<lparr>cs_packets_lost := cs_packets_lost stats + of_nat (length lost)\<rparr>, m')
      \<and> um_state m' (settled NEVER_SENT (um_offset m ` lp_packet_number ` set lost) xs) \<and> um_frame m m'"
proof (induction lost arbitrary: stats m xs)
  case Nil
  then show ?case by simp
next
  case (Cons p lost)
  let ?k = "um_offset m (lp_packet_number p)"
  from Cons.prems obtain m1 where
    m1: "Option.bind (RemoveFromInFlight (lp_packet_number p) m) (um_set_state (lp_packet_number p) NEVER_SENT) = Some m1"
    "um_state m1 (settled NEVER_SENT {?k} xs)" "um_frame m m1"
    using settle_state [of m xs "lp_packet_number p" NEVER_SENT] by auto
  have c: "\<forall>p \<in> set lost. um_covers m1 (lp_packet_number p)"
    using Cons.prems um_frame_covers [OF m1(3) Cons.prems(1) m1(2)] by simp
  from Cons.IH [OF m1(2) c, of "stats\<lparr>cs_packets_lost := cs_packets_lost stats + 1\<rparr>"] obtain m2 where
    m2: "lost_loop lost (stats\<lparr>cs_packets_lost := cs_packets_lost stats + 1\<rparr>, m1)
      = Some (stats\<lparr>cs_packets_lost := cs_packets_lost stats + of_nat (length (p # lost))\<rparr>, m2)"
    "um_state m2 (settled NEVER_SENT (um_offset m ` lp_packet_number ` set (p # lost)) xs)" "um_frame m1 m2"
    by (auto simp: settled_settled um_frame_offset [OF m1(3)] ac_simps)
  obtain mm where mm: "RemoveFromInFlight (lp_packet_number p) m = Some mm" "um_set_state (lp_packet_number p) NEVER_SENT mm = Some m1"
    using m1(1) by (auto simp: bind_eq_Some_conv)
  from mm m2 m1(3) show ?case
    by (intro exI [of _ m2]) (auto simp del: length_Cons intro: um_frame_trans)
qed

subsection \<open>The invariant\<close>

text \<open>Times the properties are about: up to \<open>2\<^sup>5\<^sup>0\<close> microseconds after the epoch of the clock.\<close>

definition time_ok :: "quic_time \<Rightarrow> bool" where
  "time_ok t \<longleftrightarrow> 0 \<le> t \<and> t \<le> rtt_max"

lemma time_ok_in_i64 [simp]: "time_ok t \<Longrightarrow> in_i64 t"
  by (simp add: time_ok_def rtt_max_def in_i64_def)

lemma time_ok_diff: "time_ok t \<Longrightarrow> time_ok t' \<Longrightarrow> time_diff t t' \<le> rtt_max"
  by (simp add: time_ok_def rtt_max_def time_diff_def i64_def)

text \<open>A tracked entry is in flight exactly while it is outstanding.\<close>

definition entry_ok :: "transmission_info \<Rightarrow> bool" where
  "entry_ok info \<longleftrightarrow> time_ok (ti_sent_time info)
     \<and> (if ti_in_flight info then ti_state info = OUTSTANDING else ti_state info \<in> {ACKED, NEVER_SENT})"

lemma entry_ok_simps [simp]: "entry_ok hole"
  "time_ok t \<Longrightarrow> entry_ok ((ti_new pn t n)\<lparr>ti_in_flight := True\<rparr>)"
  "entry_ok info \<Longrightarrow> st \<in> {ACKED, NEVER_SENT} \<Longrightarrow> entry_ok (info\<lparr>ti_in_flight := False, ti_state := st\<rparr>)"
  by (auto simp: entry_ok_def hole_def ti_default_def time_ok_def rtt_max_def time_Zero_def ti_new_def)

lemma entry_ok_useless: "entry_ok info \<Longrightarrow> useless info \<longleftrightarrow> \<not> ti_in_flight info"
  by (auto simp: entry_ok_def useless_def IsAckable_def split: if_splits)

lemma entries_ok_settled:
  "\<forall>x \<in> set xs. entry_ok x \<Longrightarrow> st \<in> {ACKED, NEVER_SENT} \<Longrightarrow> \<forall>x \<in> set (settled st K xs). entry_ok x"
  by (auto simp: in_set_conv_nth nth_settled Ball_def)

definition pm_inv :: "'a packet_manager \<Rightarrow> bool" where
  "pm_inv s \<longleftrightarrow> um_inv (pm_unacked_packets s)
     \<and> unat (um_end_number (pm_unacked_packets s)) < 2 ^ 63
     \<and> (\<forall>info \<in> set (um_list (pm_unacked_packets s)). entry_ok info)
     \<and> la_use_packet_threshold_for_runt_packets (pm_loss_algorithm s)
     \<and> (IsInitialized (um_largest_sent_packet (pm_unacked_packets s))
        \<or> la_loss_detection_timeout (pm_loss_algorithm s) = time_Zero)
     \<and> rtt_inv (pm_rtt_stats s) \<and> pm_min_rto_timeout s = 200000"

text \<open>Between two frames no packet waits to be reported.\<close>

definition pm_idle :: "'a packet_manager \<Rightarrow> bool" where
  "pm_idle s \<longleftrightarrow> pm_packets_acked s = [] \<and> pm_packets_lost s = []"

lemma pm_inv_state: "pm_inv s \<Longrightarrow> um_state (pm_unacked_packets s) (um_list (pm_unacked_packets s))"
  by (simp add: pm_inv_def um_inv_def)

lemma um_covers_initialized:
  assumes "um_state m xs" "um_covers m pn"
  shows "IsInitialized (um_largest_sent_packet m)"
  using um_covers_offset [OF assms] assms(1) by (auto simp: um_state_def split: if_splits)

text \<open>Replacing the map keeps the invariant if its entries are fine and its end does not move.\<close>

lemma pm_inv_map:
  assumes "pm_inv s" "um_state m ys" "um_end_number m = um_end_number (pm_unacked_packets s)"
    "um_largest_sent_packet m = um_largest_sent_packet (pm_unacked_packets s)" "\<forall>x \<in> set ys. entry_ok x"
  shows "pm_inv (s\<lparr>pm_unacked_packets := m\<rparr>)"
  using assms by (simp add: pm_inv_def um_state_iff)

subsection \<open>Loss detection\<close>

lemma numbered_nth:
  "unat pn + length xs < 2 ^ 64 \<Longrightarrow> x \<in> set (numbered pn xs)
    \<longleftrightarrow> (\<exists>i < length xs. x = (pn + of_nat i, xs ! i))"
proof (induction xs arbitrary: pn)
  case (Cons info xs)
  have "unat (pn_inc pn) + length xs < 2 ^ 64" using Cons.prems unat_pn_inc [of pn] by simp
  note IH = Cons.IH [OF this]
  have "x \<in> set (numbered pn (info # xs)) \<longleftrightarrow> x = (pn, info) \<or> (\<exists>i < length xs. x = (pn_inc pn + of_nat i, xs ! i))"
    by (simp add: IH)
  also have "\<dots> \<longleftrightarrow> (\<exists>i < length (info # xs). x = (pn + of_nat i, (info # xs) ! i))"
    by (simp add: Ex_less_Suc2 pn_inc_def ac_simps)
  finally show ?case .
qed simp

lemma numbered_covers:
  assumes st: "um_state m xs" and x: "x \<in> set (numbered (um_least_unacked m) xs)"
  shows "um_covers m (fst x)" "um_offset m (fst x) < length xs" "snd x = xs ! um_offset m (fst x)"
proof -
  from x um_stateD(2) [OF st] obtain i where i: "i < length xs" "x = (um_least_unacked m + of_nat i, xs ! i)"
    by (auto simp: numbered_nth)
  have u: "unat (of_nat i :: u64) = i" using i(1) um_stateD(2) [OF st] by (intro unat_of_nat_u64) simp
  then have p: "unat (fst x) = unat (um_least_unacked m) + i"
    using i um_stateD(2) [OF st] by (simp add: nowrap)
  then show c: "um_covers m (fst x)"
    using i(1) um_end_unat [OF st] by (simp add: um_covers_def word_le_nat_alt word_less_nat_alt)
  then have "um_offset m (fst x) = i" using p um_offset_unat [of m "fst x"] by (simp add: um_covers_def)
  with i show "um_offset m (fst x) < length xs" "snd x = xs ! um_offset m (fst x)" by simp_all
qed

lemma DetectLosses_total:
  assumes st: "um_state m xs" and init: "IsInitialized (um_largest_sent_packet m)"
    and runt: "la_use_packet_threshold_for_runt_packets a" and small: "length xs < 2 ^ 63"
  shows "\<exists>a' ds new. DetectLosses m time rtt largest acked [] a = Some (a', ds, List.map lost_of new)
    \<and> set new \<subseteq> {x \<in> set (numbered (um_least_unacked m) xs). deemed_lost a (GetMaxRtt rtt) time largest (fst x) (snd x)}
    \<and> la_use_packet_threshold_for_runt_packets a'"
proof (cases "no_gap acked largest a")
  case True
  then have "DetectLosses m time rtt largest acked [] a = Some (a\<lparr>la_loss_detection_timeout := time_Zero,
      la_least_in_flight := pn_plus largest 1\<rparr>, ds_new, List.map lost_of [])"
    by (simp add: DetectLosses_def no_gap_def Let_def)
  then show ?thesis using runt by fastforce
next
  case False
  from DetectLosses_spec [OF st init runt False small, of time rtt "[]"] obtain a' ds new where
    new: "DetectLosses m time rtt largest acked [] a = Some (a', ds, List.map lost_of new)"
    "set new \<subseteq> {x \<in> set (drop (start_offset m acked a) (numbered (um_least_unacked m) xs)).
      deemed_lost a (GetMaxRtt rtt) time largest (fst x) (snd x)}"
    "la_use_packet_threshold_for_runt_packets a'" by auto
  then show ?thesis by (auto dest: in_set_dropD)
qed

text \<open>
  The packets declared lost at \<open>time\<close> are in flight, not above the largest newly acked packet, and
  meet the criterion.
\<close>

definition lost_set :: "'a packet_manager \<Rightarrow> quic_time \<Rightarrow> packet_number \<Rightarrow> nat set \<Rightarrow> bool" where
  "lost_set s time largest L \<longleftrightarrow> (\<forall>k \<in> L. k < length (um_list (pm_unacked_packets s))
     \<and> (let info = um_list (pm_unacked_packets s) ! k
        in ti_in_flight info \<and> (\<exists>pn. um_covers (pm_unacked_packets s) pn \<and> um_offset (pm_unacked_packets s) pn = k
             \<and> deemed_lost (pm_loss_algorithm s) (GetMaxRtt (pm_rtt_stats s)) time largest pn info)))"

lemma InvokeLossDetection_spec:
  assumes inv: "pm_inv s" and init: "IsInitialized (um_largest_sent_packet (pm_unacked_packets s))"
    and nl: "pm_packets_lost s = []"
  defines "m \<equiv> pm_unacked_packets s"
  shows "\<exists>s' L. InvokeLossDetection t s = Some s' \<and> pm_inv s'
    \<and> lost_set s t (if pm_packets_acked s \<noteq> [] then ap_packet_number (last (pm_packets_acked s)) else pm_largest_newly_acked s) L
    \<and> um_list (pm_unacked_packets s') = settled NEVER_SENT L (um_list m) \<and> um_frame m (pm_unacked_packets s')
    \<and> L = um_offset m ` lp_packet_number ` set (pm_packets_lost s')
    \<and> pm_packets_acked s' = pm_packets_acked s \<and> pm_send_algorithm s' = pm_send_algorithm s
    \<and> pm_rtt_stats s' = pm_rtt_stats s \<and> pm_consecutive_rto_count s' = pm_consecutive_rto_count s
    \<and> cs_packets_lost (pm_stats s') = cs_packets_lost (pm_stats s) + of_nat (length (pm_packets_lost s'))"
proof -
  let ?xs = "um_list m"
  define largest where "largest = (if pm_packets_acked s \<noteq> [] then ap_packet_number (last (pm_packets_acked s))
    else pm_largest_newly_acked s)"
  have st: "um_state m ?xs" using inv by (simp add: m_def pm_inv_state)
  have small: "length ?xs < 2 ^ 63" using inv um_end_unat [OF st] by (simp add: pm_inv_def m_def)
  have runt: "la_use_packet_threshold_for_runt_packets (pm_loss_algorithm s)" using inv by (simp add: pm_inv_def)
  from DetectLosses_total [OF st _ runt small, where time = t and rtt = "pm_rtt_stats s" and largest = largest
      and acked = "pm_packets_acked s"] init
  obtain a' ds new where new: "DetectLosses m t (pm_rtt_stats s) largest (pm_packets_acked s) [] (pm_loss_algorithm s)
      = Some (a', ds, List.map lost_of new)"
    "set new \<subseteq> {x \<in> set (numbered (um_least_unacked m) ?xs).
      deemed_lost (pm_loss_algorithm s) (GetMaxRtt (pm_rtt_stats s)) t largest (fst x) (snd x)}"
    "la_use_packet_threshold_for_runt_packets a'" unfolding m_def by blast
  let ?lost = "List.map lost_of new"
  define L where "L = um_offset m ` lp_packet_number ` set ?lost"
  have cov: "\<forall>p \<in> set ?lost. um_covers m (lp_packet_number p)"
    using new(2) numbered_covers(1) [OF st] by (auto simp: lost_of_def)
  from lost_loop_state [OF st cov, of "pm_stats s"] obtain m' where
    m': "lost_loop ?lost (pm_stats s, m)
      = Some (pm_stats s\<lparr>cs_packets_lost := cs_packets_lost (pm_stats s) + of_nat (length ?lost)\<rparr>, m')"
    "um_state m' (settled NEVER_SENT L ?xs)" "um_frame m m'" by (auto simp: L_def)
  have L: "lost_set s t largest L"
    using new(2) numbered_covers [OF st]
    by (fastforce simp: lost_set_def L_def lost_of_def m_def [symmetric] deemed_lost_def Let_def)
  let ?s = "s\<lparr>pm_largest_newly_acked := largest, pm_loss_algorithm := a', pm_packets_lost := ?lost,
    pm_stats := pm_stats s\<lparr>cs_packets_lost := cs_packets_lost (pm_stats s) + of_nat (length ?lost)\<rparr>,
    pm_unacked_packets := m'\<rparr>"
  have run: "InvokeLossDetection t s = Some ?s"
  proof (cases "pm_packets_acked s = []")
    case True
    with new(1) m'(1) show ?thesis
      by (simp add: InvokeLossDetection_def nl m_def [symmetric] largest_def)
  next
    case False
    with new(1) m'(1) show ?thesis
      by (simp add: InvokeLossDetection_def nl m_def [symmetric] largest_def)
  qed
  have e: "um_end_number m' = um_end_number m"
    using um_frame_covers(2) [OF m'(3) st m'(2)] by simp
  have ok: "\<forall>x \<in> set (settled NEVER_SENT L ?xs). entry_ok x"
    using inv by (intro entries_ok_settled) (simp_all add: pm_inv_def m_def)
  have "pm_inv ?s"
    using inv init m'(2,3) e ok new(3) by (simp add: pm_inv_def um_state_iff um_frame_def m_def)
  with run L m'(2,3) show ?thesis
    by (intro exI [of _ ?s] exI [of _ L]) (simp add: um_state_iff L_def largest_def)
qed

subsection \<open>Acked packets\<close>

lemma MarkPacketHandled_spec:
  assumes inv: "pm_inv s" and c: "um_covers (pm_unacked_packets s) pn"
  shows "\<exists>m. MarkPacketHandled pn t s = Some (s\<lparr>pm_unacked_packets := m\<rparr>)
    \<and> um_list m = settled ACKED {um_offset (pm_unacked_packets s) pn} (um_list (pm_unacked_packets s))
    \<and> um_frame (pm_unacked_packets s) m \<and> pm_inv (s\<lparr>pm_unacked_packets := m\<rparr>)"
proof -
  let ?m = "pm_unacked_packets s"
  note st = pm_inv_state [OF inv]
  have info: "GetTransmissionInfo pn ?m = Some (um_list ?m ! um_offset ?m pn)"
    using st c by (simp add: GetTransmissionInfo_info um_state_iff um_info_state)
  have "entry_ok (um_list ?m ! um_offset ?m pn)"
    using inv um_covers_offset [OF st c] by (simp add: pm_inv_def)
  then have nl: "ti_state (um_list ?m ! um_offset ?m pn) \<noteq> LOST"
    by (auto simp: entry_ok_def split: if_splits)
  from settle_state [OF st c, of ACKED] obtain m where
    m: "Option.bind (RemoveFromInFlight pn ?m) (um_set_state pn ACKED) = Some m"
    "um_state m (settled ACKED {um_offset ?m pn} (um_list ?m))" "um_frame ?m m" by blast
  then have run: "MarkPacketHandled pn t s = Some (s\<lparr>pm_unacked_packets := m\<rparr>)"
    using info nl by (auto simp: MarkPacketHandled_def bind_eq_Some_conv)
  have "pm_inv (s\<lparr>pm_unacked_packets := m\<rparr>)"
    using um_frame_covers(2) [OF m(3) st m(2)] m(3) inv
    by (intro pm_inv_map [OF inv m(2)] entries_ok_settled) (simp_all add: um_frame_def pm_inv_def)
  with run m show ?thesis by (auto simp: um_state_iff)
qed

text \<open>An acked packet in flight is reported with the bytes it was sent with.\<close>

definition acked_bytes :: "unacked_map \<Rightarrow> acked_packet \<Rightarrow> acked_packet" where
  "acked_bytes m p = (let info = um_list m ! um_offset m (ap_packet_number p)
     in if ti_in_flight info then p\<lparr>ap_bytes_acked := ti_bytes_sent info\<rparr> else p)"

lemma acked_bytes_number [simp]: "ap_packet_number (acked_bytes m p) = ap_packet_number p"
  by (simp add: acked_bytes_def Let_def)

lemma um_offset_inj:
  "um_covers m p \<Longrightarrow> um_covers m q \<Longrightarrow> um_offset m p = um_offset m q \<Longrightarrow> p = q"
  by (auto simp: um_covers_def um_offset_unat word_le_nat_alt word_unat_eq_iff dest!: eq_diff_iff [THEN iffD1, rotated -1])

lemma acked_loop_spec:
  "pm_inv s \<Longrightarrow> \<forall>p \<in> set ps. um_covers (pm_unacked_packets s) (ap_packet_number p) \<Longrightarrow>
    \<exists>m x ps'. acked_loop t seen ps s = Some (seen @ ps', s\<lparr>pm_unacked_packets := m, pm_largest_newly_acked := x\<rparr>)
      \<and> um_list m = settled ACKED (um_offset (pm_unacked_packets s) ` ap_packet_number ` set ps) (um_list (pm_unacked_packets s))
      \<and> um_frame (pm_unacked_packets s) m \<and> pm_inv (s\<lparr>pm_unacked_packets := m, pm_largest_newly_acked := x\<rparr>)
      \<and> List.map ap_packet_number ps' = List.map ap_packet_number ps
      \<and> (distinct (List.map ap_packet_number ps) \<longrightarrow> ps' = List.map (acked_bytes (pm_unacked_packets s)) ps)"
proof (induction ps arbitrary: seen s)
  case Nil
  show ?case
    by (intro exI [of _ "pm_unacked_packets s"] exI [of _ "pm_largest_newly_acked s"] exI [of _ "[]"])
      (use Nil in simp)
next
  case (Cons p ps)
  let ?m = "pm_unacked_packets s" and ?pn = "ap_packet_number p"
  let ?info = "um_list ?m ! um_offset ?m ?pn"
  note st = pm_inv_state [OF Cons.prems(1)]
  have c: "um_covers ?m ?pn" using Cons.prems(2) by simp
  have info: "GetTransmissionInfo ?pn ?m = Some ?info"
    using st c by (simp add: GetTransmissionInfo_info um_state_iff um_info_state)
  let ?s1 = "if ti_in_flight ?info then s else s\<lparr>pm_largest_newly_acked := ?pn\<rparr>"
  have s1: "pm_inv ?s1" "pm_unacked_packets ?s1 = ?m" using Cons.prems(1) by (simp_all add: pm_inv_def)
  from MarkPacketHandled_spec [OF s1(1), of ?pn t] c s1(2) obtain m1 where
    m1: "MarkPacketHandled ?pn t ?s1 = Some (?s1\<lparr>pm_unacked_packets := m1\<rparr>)"
    "um_list m1 = settled ACKED {um_offset ?m ?pn} (um_list ?m)"
    "um_frame ?m m1" "pm_inv (?s1\<lparr>pm_unacked_packets := m1\<rparr>)" by auto
  let ?s2 = "?s1\<lparr>pm_unacked_packets := m1\<rparr>"
  have s2: "pm_unacked_packets ?s2 = m1" by simp
  have st1: "um_state m1 (settled ACKED {um_offset ?m ?pn} (um_list ?m))"
    using m1(4) m1(2) pm_inv_state [of ?s2] by simp
  have cov: "um_covers m1 q \<longleftrightarrow> um_covers ?m q" for q
    using um_frame_covers(1) [OF m1(3) st st1] by simp
  have off: "um_offset m1 q = um_offset ?m q" for q by (rule um_frame_offset [OF m1(3)])
  from Cons.IH [OF m1(4), of "seen @ [acked_bytes ?m p]"] Cons.prems(2) cov obtain m2 x ps' where
    m2: "acked_loop t (seen @ [acked_bytes ?m p]) ps ?s2
      = Some ((seen @ [acked_bytes ?m p]) @ ps', ?s2\<lparr>pm_unacked_packets := m2, pm_largest_newly_acked := x\<rparr>)"
    "um_list m2 = settled ACKED (um_offset m1 ` ap_packet_number ` set ps) (um_list m1)"
    "um_frame m1 m2" "pm_inv (?s2\<lparr>pm_unacked_packets := m2, pm_largest_newly_acked := x\<rparr>)"
    "List.map ap_packet_number ps' = List.map ap_packet_number ps"
    "distinct (List.map ap_packet_number ps) \<longrightarrow> ps' = List.map (acked_bytes m1) ps"
    unfolding s2 by force
  have eq: "?s2\<lparr>pm_unacked_packets := m2, pm_largest_newly_acked := x\<rparr>
      = s\<lparr>pm_unacked_packets := m2, pm_largest_newly_acked := x\<rparr>" by simp
  have run: "acked_loop t seen (p # ps) s = acked_loop t (seen @ [acked_bytes ?m p]) ps ?s2"
    using info m1(1) by (auto simp: acked_bytes_def Let_def)
  have list: "um_list m2 = settled ACKED (um_offset ?m ` ap_packet_number ` set (p # ps)) (um_list ?m)"
    by (simp add: m2(2) m1(2) off settled_settled)
  have bytes: "acked_bytes m1 q = acked_bytes ?m q" if "q \<in> set ps" "ap_packet_number q \<noteq> ?pn" for q
  proof -
    have cq: "um_covers ?m (ap_packet_number q)" using that(1) Cons.prems(2) by simp
    have "um_offset ?m (ap_packet_number q) \<noteq> um_offset ?m ?pn" using um_offset_inj [OF cq c] that(2) by blast
    then show ?thesis
      using um_covers_offset [OF st cq] by (simp add: acked_bytes_def Let_def m1(2) off nth_settled)
  qed
  have "ps' = List.map (acked_bytes ?m) ps" if "distinct (List.map ap_packet_number (p # ps))"
    using that m2(6) by (auto intro!: bytes simp: image_iff)
  moreover have "um_frame ?m m2" using m1(3) m2(3) by (rule um_frame_trans)
  ultimately show ?case
    using m2(1,4,5) list unfolding run eq
    by (intro exI [of _ m2] exI [of _ x] exI [of _ "acked_bytes ?m p # ps'"]) simp
qed

subsection \<open>Round trip times\<close>

lemma OnAckFrameStart_spec:
  assumes inv: "pm_inv s" and t: "time_ok t"
  shows "\<exists>r b. OnAckFrameStart largest t s = Some (s\<lparr>pm_rtt_stats := r, pm_rtt_updated := b\<rparr>) \<and> rtt_inv r
    \<and> (b \<longrightarrow> um_covers (pm_unacked_packets s) largest
        \<and> r = UpdateRtt (time_diff t (ti_sent_time (um_list (pm_unacked_packets s) ! um_offset (pm_unacked_packets s) largest)))
               0 t (pm_rtt_stats s))
    \<and> (\<not> b \<longrightarrow> r = pm_rtt_stats s)"
proof -
  let ?m = "pm_unacked_packets s"
  note st = pm_inv_state [OF inv]
  have um: "um_inv ?m" using inv by (simp add: pm_inv_def)
  have rtt: "rtt_inv (pm_rtt_stats s)" using inv by (simp add: pm_inv_def)
  show ?thesis
  proof (cases "um_info ?m largest")
    case None
    then have "IsUnacked largest ?m = Some False" using IsUnacked_info [OF um] by simp
    then show ?thesis
      using rtt by (intro exI [of _ "pm_rtt_stats s"] exI [of _ False])
        (simp add: OnAckFrameStart_def MaybeUpdateRTT_def)
  next
    case (Some info)
    then have c: "um_covers ?m largest" and info: "info = um_list ?m ! um_offset ?m largest"
      by (simp_all add: um_info_def split: if_splits)
    have get: "GetTransmissionInfo largest ?m = Some info"
      using GetTransmissionInfo_info [OF um c] Some by simp
    have un: "IsUnacked largest ?m = Some (\<not> IsPacketUseless largest info)" using IsUnacked_info [OF um] Some by simp
    have sent: "time_ok (ti_sent_time info)"
      using inv info um_covers_offset [OF st c] by (simp add: pm_inv_def entry_ok_def)
    let ?r = "UpdateRtt (time_diff t (ti_sent_time info)) 0 t (pm_rtt_stats s)"
    have r: "rtt_inv ?r" by (rule rtt_inv_UpdateRtt [OF rtt time_ok_diff [OF t sent]]) simp
    have z: "FromMicroseconds 0 = 0" by (simp add: FromMicroseconds_def)
    define b where "b \<longleftrightarrow> \<not> IsPacketUseless largest info \<and> ti_sent_time info \<noteq> time_Zero
      \<and> ti_state info \<noteq> NOT_CONTRIBUTING_RTT"
    have "OnAckFrameStart largest t s
        = Some (s\<lparr>pm_rtt_stats := if b then ?r else pm_rtt_stats s, pm_rtt_updated := b\<rparr>)"
      by (simp add: OnAckFrameStart_def MaybeUpdateRTT_def un get z b_def Let_def)
    with r rtt c info show ?thesis
      by (intro exI [of _ "if b then ?r else pm_rtt_stats s"] exI [of _ b]) simp
  qed
qed

subsection \<open>The retransmission timeout\<close>

lemma rto_loop_state:
  "um_state m xs \<Longrightarrow> i \<le> length xs \<Longrightarrow> unat (um_largest_sent_packet m) + 1 = unat (um_least_unacked m) + length xs \<Longrightarrow>
    \<exists>m'. rto_loop (um_least_unacked m + of_nat i) (um_largest_sent_packet m) m = Some m' \<and> um_frame m m'
      \<and> um_state m' (settled NEVER_SENT {k. i \<le> k \<and> k < length xs \<and> ti_state (xs ! k) = OUTSTANDING} xs)"
proof (induction "length xs - i" arbitrary: i m xs)
  case 0
  have u: "unat (um_least_unacked m + of_nat i) = unat (um_least_unacked m) + i"
    using 0 um_stateD(2) [OF \<open>um_state m xs\<close>] by (intro unat_plus_of_nat) simp
  have none: "{k. i \<le> k \<and> k < length xs \<and> ti_state (xs ! k) = OUTSTANDING} = {}" using 0 by auto
  have "\<not> um_least_unacked m + of_nat i \<le> um_largest_sent_packet m" using 0 u by (simp add: word_le_nat_alt)
  with 0 show ?case unfolding none by (subst rto_loop.simps) simp
next
  case (Suc n)
  let ?pn = "um_least_unacked m + of_nat i" and ?K = "\<lambda>i xs. {k. i \<le> k \<and> k < length xs \<and> ti_state (xs ! k) = OUTSTANDING}"
  note st = \<open>um_state m xs\<close>
  have i: "i < length xs" using Suc.hyps(2) by simp
  have u: "unat ?pn = unat (um_least_unacked m) + i"
    using i um_stateD(2) [OF st] by (intro unat_plus_of_nat) simp
  have c: "um_covers m ?pn" using u i um_end_unat [OF st] by (simp add: um_covers_def word_le_nat_alt word_less_nat_alt)
  have off: "um_offset m ?pn = i" using u c um_offset_unat [of m ?pn] by (simp add: um_covers_def)
  have info: "GetTransmissionInfo ?pn m = Some (xs ! i)"
    using st c off by (simp add: GetTransmissionInfo_info um_state_iff um_info_state)
  have le: "?pn \<le> um_largest_sent_packet m" using u i Suc.prems(3) by (simp add: word_le_nat_alt)
  have next_pn: "pn_inc ?pn = um_least_unacked m + of_nat (Suc i)" by (simp add: pn_inc_def ac_simps)
  obtain m1 ys where m1: "(if ti_state (xs ! i) = OUTSTANDING
      then Option.bind (RemoveFromInFlight ?pn m) (um_set_state ?pn NEVER_SENT) else Some m) = Some m1"
    "um_state m1 ys" "um_frame m m1" "ys = settled NEVER_SENT (if ti_state (xs ! i) = OUTSTANDING then {i} else {}) xs"
    using settle_state [OF st c, of NEVER_SENT] st off by (cases "ti_state (xs ! i) = OUTSTANDING") auto
  have len: "length ys = length xs" by (simp add: m1(4))
  have pre: "n = length ys - Suc i" "Suc i \<le> length ys"
    "unat (um_largest_sent_packet m1) + 1 = unat (um_least_unacked m1) + length ys"
    using Suc.hyps(2) Suc.prems(3) m1(3) len i by (simp_all add: um_frame_def)
  have same: "um_least_unacked m1 = um_least_unacked m" "um_largest_sent_packet m1 = um_largest_sent_packet m"
    using m1(3) by (simp_all add: um_frame_def)
  from Suc.hyps(1) [OF pre(1) m1(2) pre(2,3)] obtain m' where
    m': "rto_loop (um_least_unacked m + of_nat (Suc i)) (um_largest_sent_packet m) m1 = Some m'" "um_frame m1 m'"
    "um_state m' (settled NEVER_SENT (?K (Suc i) ys) ys)" unfolding same by blast
  have "rto_loop ?pn (um_largest_sent_packet m) m = Some m'"
    using le info m1(1) m'(1) by (subst rto_loop.simps) (simp add: next_pn)
  moreover have "settled NEVER_SENT (?K (Suc i) ys) ys = settled NEVER_SENT (?K i xs) xs"
    using i by (intro nth_equalityI) (auto simp: m1(4) nth_settled Suc_le_eq le_less)
  moreover have "um_frame m m'" using m1(3) m'(2) by (rule um_frame_trans)
  ultimately show ?case using m'(3) by auto
qed

lemma RetransmitRtoPackets_spec:
  assumes inv: "pm_inv s"
  shows "\<exists>m. RetransmitRtoPackets s = Some (s\<lparr>pm_unacked_packets := m,
      pm_consecutive_rto_count := pm_consecutive_rto_count s + 1\<rparr>)
    \<and> pm_inv (s\<lparr>pm_unacked_packets := m, pm_consecutive_rto_count := pm_consecutive_rto_count s + 1\<rparr>)
    \<and> um_list m = [] \<and> um_bytes_in_flight m = 0 \<and> um_end_number m = um_end_number (pm_unacked_packets s)
    \<and> um_least_unacked m = um_end_number (pm_unacked_packets s)"
proof -
  let ?m = "pm_unacked_packets s" and ?xs = "um_list (pm_unacked_packets s)"
  note st = pm_inv_state [OF inv]
  have emp: "um_empty ?m \<longleftrightarrow> ?xs = []"
    using st by (simp add: um_empty_def um_state_def dq_rep_empty)
  let ?K = "{k. k < length ?xs \<and> ti_state (?xs ! k) = OUTSTANDING}"
  obtain m1 where m1: "(if um_empty ?m then Some ?m
      else rto_loop (um_least_unacked ?m) (um_largest_sent_packet ?m) ?m) = Some m1"
    "um_frame ?m m1" "um_state m1 (settled NEVER_SENT ?K ?xs)"
  proof (cases "?xs = []")
    case True
    with st that [of ?m] emp show ?thesis by simp
  next
    case False
    with st have "unat (um_largest_sent_packet ?m) + 1 = unat (um_least_unacked ?m) + length ?xs"
      by (auto simp: um_state_def split: if_splits)
    from rto_loop_state [OF st _ this, of 0] False that emp show ?thesis by auto
  qed
  from RemoveObsoletePackets_state [OF m1(3)] obtain m2 where
    m2: "RemoveObsoletePackets m1 = Some m2" "um_state m2 (dropWhile useless (settled NEVER_SENT ?K ?xs))"
    "um_largest_sent_packet m2 = um_largest_sent_packet m1" "um_end_number m2 = um_end_number m1" by blast
  have "useless x" if "x \<in> set (settled NEVER_SENT ?K ?xs)" for x
  proof -
    from that obtain k where k: "k < length ?xs" "x = settled NEVER_SENT ?K ?xs ! k" by (auto simp: in_set_conv_nth)
    then have "entry_ok (?xs ! k)" using inv by (simp add: pm_inv_def)
    with k show ?thesis by (auto simp: nth_settled useless_def IsAckable_def entry_ok_def split: if_splits)
  qed
  then have nil: "dropWhile useless (settled NEVER_SENT ?K ?xs) = []" by (simp add: dropWhile_eq_Nil_conv)
  have e: "um_end_number m2 = um_end_number ?m"
    using um_frame_covers(2) [OF m1(2) st m1(3)] m2(4) by simp
  have "unat (um_least_unacked m2) = unat (um_end_number ?m)"
    using um_end_unat [OF m2(2)] nil e by simp
  then have least: "um_least_unacked m2 = um_end_number ?m" by (simp add: word_unat_eq_iff)
  have inv2: "pm_inv (s\<lparr>pm_unacked_packets := m2\<rparr>)"
    using m2(3) m1(2) e nil by (intro pm_inv_map [OF inv m2(2) [unfolded nil]]) (simp_all add: um_frame_def)
  have "RetransmitRtoPackets s = Some (s\<lparr>pm_unacked_packets := m2,
      pm_consecutive_rto_count := pm_consecutive_rto_count s + 1\<rparr>)"
    using m1(1) m2(1) by (simp add: RetransmitRtoPackets_def split: if_splits)
  moreover have "um_list m2 = []" "um_bytes_in_flight m2 = 0"
    using m2(2) [unfolded nil] um_stateD(3) [OF m2(2) [unfolded nil]] by (simp_all add: um_state_iff)
  moreover have "pm_inv (s\<lparr>pm_unacked_packets := m2, pm_consecutive_rto_count := pm_consecutive_rto_count s + 1\<rparr>)"
    using inv2 by (simp add: pm_inv_def)
  ultimately show ?thesis using e least by blast
qed

subsection \<open>What the manager does for every congestion controller\<close>

text \<open>
  An input of the manager: a packet to send, an ack frame with the largest acked packet and
  the numbers of the acked packets in the order of their ranges, a retransmission timeout.
\<close>

datatype pm_input = SendPkt serialized_packet quic_time | AckFrame packet_number quic_time "packet_number list"
  | Timeout quic_time

fun ack_ranges :: "quic_time \<Rightarrow> packet_number list \<Rightarrow> 'a packet_manager \<Rightarrow> 'a packet_manager" where
  "ack_ranges t [] s = s"
| "ack_ranges t (pn # pns) s = ack_ranges t pns (OnAckRange t pn (pn_plus pn 1) s)"

fun pm_handle :: "'a send_algorithm_ops \<Rightarrow> pm_input \<Rightarrow> 'a packet_manager \<Rightarrow> 'a packet_manager option" where
  "pm_handle ops (SendPkt p t) s = map_option fst (pm_OnPacketSent ops p t s)"
| "pm_handle ops (AckFrame largest t pns) s = do {
     s \<leftarrow> OnAckFrameStart largest t s;
     map_option fst (OnAckFrameEnd ops t largest (ack_ranges t pns s)) }"
| "pm_handle ops (Timeout t) s = map_option fst (pm_OnRetransmissionTimeout ops t s)"

text \<open>
  What the caller owes: times within the range, packet numbers that grow, and acks only of
  packets the manager still tracks.
\<close>

fun pm_allowed :: "pm_input \<Rightarrow> 'a packet_manager \<Rightarrow> bool" where
  "pm_allowed (SendPkt p t) s \<longleftrightarrow> time_ok t \<and> um_end_number (pm_unacked_packets s) \<le> sp_packet_number p
     \<and> unat (sp_packet_number p) < 2 ^ 63 - 1"
| "pm_allowed (AckFrame largest t pns) s \<longleftrightarrow> time_ok t \<and> pns \<noteq> []
     \<and> (\<forall>pn \<in> set pns. um_covers (pm_unacked_packets s) pn)"
| "pm_allowed (Timeout t) s \<longleftrightarrow> time_ok t"

lemma ack_ranges_eq: "ack_ranges t pns s = s\<lparr>pm_packets_acked := pm_packets_acked s
    @ List.map (\<lambda>pn. \<lparr>ap_packet_number = pn, ap_bytes_acked = DEFAULT_PACKET_SIZE, ap_receive_timestamp = t\<rparr>) pns\<rparr>"
  by (induction pns arbitrary: s) (simp_all add: OnAckRange_def)

lemma IsInitialized_small: "unat pn < 2 ^ 63 \<Longrightarrow> IsInitialized pn"
  by (auto simp: IsInitialized_def UninitializedPacketNumber_def)

context send_algorithm
begin

definition mgr_ok :: "'a packet_manager \<Rightarrow> bool" where
  "mgr_ok s \<longleftrightarrow> pm_inv s \<and> alg_ok (pm_send_algorithm s) \<and> pm_idle s"

lemma OnPacketSent_ok:
  assumes ok: "mgr_ok s" and p: "pm_allowed (SendPkt p t) s"
  shows "\<exists>s'. pm_OnPacketSent ops p t s = Some (s', True) \<and> mgr_ok s'
    \<and> um_least_unacked (pm_unacked_packets s') = um_least_unacked (pm_unacked_packets s)
    \<and> (\<exists>k. um_list (pm_unacked_packets s') = um_list (pm_unacked_packets s) @ replicate k hole
         @ [(ti_new (sp_packet_number p) t (sp_encrypted_length p))\<lparr>ti_in_flight := True\<rparr>])
    \<and> um_bytes_in_flight (pm_unacked_packets s')
        = um_bytes_in_flight (pm_unacked_packets s) + ucast (sp_encrypted_length p)
    \<and> um_end_number (pm_unacked_packets s') = sp_packet_number p + 1"
proof -
  let ?m = "pm_unacked_packets s" and ?pn = "sp_packet_number p"
  have inv: "pm_inv s" and alg: "alg_ok (pm_send_algorithm s)" using ok by (simp_all add: mgr_ok_def)
  note st = pm_inv_state [OF inv]
  have t: "time_ok t" and pn: "um_end_number ?m \<le> ?pn" "unat ?pn < 2 ^ 63 - 1" using p by simp_all
  have init: "IsInitialized ?pn" using pn(2) by (intro IsInitialized_small) simp
  from on_packet_sent [OF alg time_ok_in_i64 [OF t] init, where bif = "um_bytes_in_flight ?m"
      and n = "ucast (sp_encrypted_length p)" and st = "pm_stats s"] obtain st' a' where
    a: "sa_OnPacketSent ops t (um_bytes_in_flight ?m) ?pn (ucast (sp_encrypted_length p)) (pm_stats s, pm_send_algorithm s)
      = Some (st', a')" "alg_ok a'" by blast
  let ?info = "(ti_new ?pn t (sp_encrypted_length p))\<lparr>ti_in_flight := True\<rparr>"
  have pn64: "unat ?pn < 2 ^ 64 - 2" using pn(2) by simp
  from AddSentPacket_state [OF st pn(1) pn64, of t True] obtain m' k where
    m': "AddSentPacket p t True ?m = Some m'" "um_state m' (um_list ?m @ replicate k hole @ [?info])"
    "um_least_unacked m' = um_least_unacked ?m" "um_largest_sent_packet m' = ?pn" by blast
  have e: "unat (um_end_number m') = unat ?pn + 1"
    using m'(2,4) init um_end_unat [OF m'(2)] by (simp add: um_state_def)
  have "um_end_number m' = ?pn + 1"
    using e pn(2) by (simp add: word_unat_eq_iff unat_u64_plus)
  moreover have "um_bytes_in_flight m' = um_bytes_in_flight ?m + ucast (sp_encrypted_length p)"
    using um_stateD(3) [OF m'(2)] um_stateD(3) [OF st] by (simp add: ti_new_def)
  moreover have "pm_OnPacketSent ops p t s
      = Some (s\<lparr>pm_stats := st', pm_send_algorithm := a', pm_unacked_packets := m'\<rparr>, True)"
    using a(1) m'(1) by (simp add: pm_OnPacketSent_def)
  moreover have "mgr_ok (s\<lparr>pm_stats := st', pm_send_algorithm := a', pm_unacked_packets := m'\<rparr>)"
    using ok a(2) m'(2,4) e pn(2) init t entry_ok_simps(1) entry_ok_simps(2) [OF t]
    by (auto simp: mgr_ok_def pm_inv_def pm_idle_def um_state_iff)
  ultimately show ?thesis using m'(2,3) by (auto simp: um_state_iff)
qed

lemma MaybeInvokeCongestionEvent_ok:
  assumes inv: "pm_inv s" and alg: "alg_ok (pm_send_algorithm s)" and t: "time_ok t"
  shows "\<exists>s'. MaybeInvokeCongestionEvent ops updated prior t s = Some s' \<and> mgr_ok s'
    \<and> um_list (pm_unacked_packets s') = (if \<not> updated \<and> pm_packets_acked s = [] \<and> pm_packets_lost s = []
        then um_list (pm_unacked_packets s) else dropWhile useless (um_list (pm_unacked_packets s)))
    \<and> um_end_number (pm_unacked_packets s') = um_end_number (pm_unacked_packets s)
    \<and> pm_rtt_stats s' = pm_rtt_stats s \<and> pm_consecutive_rto_count s' = pm_consecutive_rto_count s"
proof (cases "\<not> updated \<and> pm_packets_acked s = [] \<and> pm_packets_lost s = []")
  case True
  then show ?thesis using inv alg by (simp add: MaybeInvokeCongestionEvent_def mgr_ok_def pm_idle_def)
next
  case False
  note st = pm_inv_state [OF inv]
  have rtt: "rtt_inv (pm_rtt_stats s)" using inv by (simp add: pm_inv_def)
  from on_congestion_event [OF alg time_ok_in_i64 [OF t] rtt] obtain st' a' where
    a: "sa_OnCongestionEvent ops (pm_rtt_stats s) (pm_unacked_packets s) updated prior t (pm_packets_acked s)
      (pm_packets_lost s) (pm_stats s, pm_send_algorithm s) = Some (st', a')" "alg_ok a'" by blast
  from RemoveObsoletePackets_state [OF st] obtain m' where
    m': "RemoveObsoletePackets (pm_unacked_packets s) = Some m'"
    "um_state m' (dropWhile useless (um_list (pm_unacked_packets s)))"
    "um_largest_sent_packet m' = um_largest_sent_packet (pm_unacked_packets s)"
    "um_end_number m' = um_end_number (pm_unacked_packets s)" by blast
  let ?s = "s\<lparr>pm_stats := st', pm_send_algorithm := a', pm_unacked_packets := m', pm_packets_acked := [],
    pm_packets_lost := []\<rparr>"
  have "MaybeInvokeCongestionEvent ops updated prior t s = Some ?s"
    using False a(1) m'(1) by (auto simp: MaybeInvokeCongestionEvent_def)
  moreover have "mgr_ok ?s"
    using inv a(2) m'(2-4) by (auto simp: mgr_ok_def pm_inv_def pm_idle_def um_state_iff dest: set_dropWhileD)
  ultimately show ?thesis using False m'(2,4) by (auto simp: um_state_iff)
qed

end

text \<open>
  The outcome of an ack frame for the entries: the acked ones leave the flight, then the lost
  ones, then the removable ones at the front are dropped.
\<close>

definition after_ack :: "nat set \<Rightarrow> nat set \<Rightarrow> transmission_info list \<Rightarrow> transmission_info list" where
  "after_ack A L xs = dropWhile useless (settled NEVER_SENT L (settled ACKED A xs))"

definition tracked_offsets :: "unacked_map \<Rightarrow> packet_number list \<Rightarrow> nat set" where
  "tracked_offsets m pns = um_offset m ` set pns"

lemma after_ack_shrinks: "flight_shrinks xs (after_ack A L xs)"
  using flight_shrinks_trans [OF flight_shrinks_trans] unfolding after_ack_def by blast

lemma lost_set_cong:
  "pm_unacked_packets s' = pm_unacked_packets s \<Longrightarrow> pm_rtt_stats s' = pm_rtt_stats s
    \<Longrightarrow> pm_loss_algorithm s' = pm_loss_algorithm s \<Longrightarrow> lost_set s' t pn L \<longleftrightarrow> lost_set s t pn L"
  by (simp only: lost_set_def)

context send_algorithm
begin

lemma PostProcess_ok:
  assumes inv: "pm_inv s" and alg: "alg_ok (pm_send_algorithm s)" and t: "time_ok t"
    and acked: "pm_packets_acked s \<noteq> []" and nl: "pm_packets_lost s = []"
    and init: "IsInitialized (um_largest_sent_packet (pm_unacked_packets s))"
  shows "\<exists>s' L. PostProcessNewlyAckedPackets ops t updated prior s = Some s' \<and> mgr_ok s'
    \<and> lost_set s t (ap_packet_number (last (pm_packets_acked s))) L
    \<and> um_list (pm_unacked_packets s') = dropWhile useless (settled NEVER_SENT L (um_list (pm_unacked_packets s)))
    \<and> um_end_number (pm_unacked_packets s') = um_end_number (pm_unacked_packets s)
    \<and> pm_rtt_stats s' = pm_rtt_stats s
    \<and> pm_consecutive_rto_count s' = (if updated then 0 else pm_consecutive_rto_count s)"
proof -
  from InvokeLossDetection_spec [OF inv init nl, of t] acked obtain s1 L where
    s1: "InvokeLossDetection t s = Some s1" "pm_inv s1" "lost_set s t (ap_packet_number (last (pm_packets_acked s))) L"
    "um_list (pm_unacked_packets s1) = settled NEVER_SENT L (um_list (pm_unacked_packets s))"
    "um_frame (pm_unacked_packets s) (pm_unacked_packets s1)"
    "pm_packets_acked s1 = pm_packets_acked s" "pm_send_algorithm s1 = pm_send_algorithm s"
    "pm_rtt_stats s1 = pm_rtt_stats s" "pm_consecutive_rto_count s1 = pm_consecutive_rto_count s" by auto
  have e: "um_end_number (pm_unacked_packets s1) = um_end_number (pm_unacked_packets s)"
    by (rule um_frame_covers(2) [OF s1(5) pm_inv_state [OF inv] pm_inv_state [OF s1(2)]]) (simp add: s1(4))
  from MaybeInvokeCongestionEvent_ok [OF s1(2) _ t, of updated prior] alg s1(7) obtain s2 where
    s2: "MaybeInvokeCongestionEvent ops updated prior t s1 = Some s2" "mgr_ok s2"
    "um_list (pm_unacked_packets s2) = dropWhile useless (um_list (pm_unacked_packets s1))"
    "um_end_number (pm_unacked_packets s2) = um_end_number (pm_unacked_packets s1)"
    "pm_rtt_stats s2 = pm_rtt_stats s1" "pm_consecutive_rto_count s2 = pm_consecutive_rto_count s1"
    using s1(6) acked by auto
  let ?alg = "if 0 < pm_consecutive_rto_count s2 then sa_OnRetransmissionTimeout ops True (pm_send_algorithm s2)
    else pm_send_algorithm s2"
  let ?s3 = "if updated then s2\<lparr>pm_send_algorithm := ?alg, pm_consecutive_rto_count := 0\<rparr> else s2"
  have "mgr_ok ?s3"
    using s2(2) on_retransmission_timeout [of "pm_send_algorithm s2" True]
    by (simp add: mgr_ok_def pm_inv_def pm_idle_def)
  moreover have "PostProcessNewlyAckedPackets ops t updated prior s = Some ?s3"
    using s1(1) s2(1) by (simp add: PostProcessNewlyAckedPackets_def Let_def)
  ultimately show ?thesis
    using s1(3,4,8,9) s2(3-6) e by (intro exI [of _ ?s3] exI [of _ L]) simp
qed

lemma OnAckFrameEnd_ok:
  assumes inv: "pm_inv s" and alg: "alg_ok (pm_send_algorithm s)" and t: "time_ok t"
    and acked: "pm_packets_acked s \<noteq> []" and nl: "pm_packets_lost s = []"
    and cov: "\<forall>p \<in> set (pm_packets_acked s). um_covers (pm_unacked_packets s) (ap_packet_number p)"
  defines "A \<equiv> tracked_offsets (pm_unacked_packets s) (List.map ap_packet_number (pm_packets_acked s))"
  shows "\<exists>s' L. OnAckFrameEnd ops t pn s = Some (s', PACKETS_NEWLY_ACKED) \<and> mgr_ok s'
    \<and> lost_set s t (ap_packet_number (hd (pm_packets_acked s))) L \<and> L \<inter> A = {}
    \<and> um_list (pm_unacked_packets s') = after_ack A L (um_list (pm_unacked_packets s))
    \<and> um_end_number (pm_unacked_packets s') = um_end_number (pm_unacked_packets s)
    \<and> pm_rtt_stats s' = pm_rtt_stats s
    \<and> pm_consecutive_rto_count s' = (if pm_rtt_updated s then 0 else pm_consecutive_rto_count s)"
proof -
  let ?m = "pm_unacked_packets s" and ?ps = "rev (pm_packets_acked s)"
  note st = pm_inv_state [OF inv]
  from acked_loop_spec [OF inv, of ?ps t "[]"] cov obtain m x ps' where
    l: "acked_loop t [] ?ps s = Some (ps', s\<lparr>pm_unacked_packets := m, pm_largest_newly_acked := x\<rparr>)"
    "um_list m = settled ACKED A (um_list ?m)" "um_frame ?m m"
    "pm_inv (s\<lparr>pm_unacked_packets := m, pm_largest_newly_acked := x\<rparr>)"
    "List.map ap_packet_number ps' = List.map ap_packet_number ?ps"
    by (auto simp: A_def tracked_offsets_def)
  let ?s1 = "s\<lparr>pm_unacked_packets := m, pm_largest_newly_acked := x, pm_packets_acked := ps'\<rparr>"
  have inv1: "pm_inv ?s1" using l(4) by (simp add: pm_inv_def)
  have ne: "ps' \<noteq> []" using l(5) acked by auto
  have "last (List.map ap_packet_number ps') = last (List.map ap_packet_number ?ps)" using l(5) by simp
  then have last: "ap_packet_number (last ps') = ap_packet_number (hd (pm_packets_acked s))"
    using ne acked by (simp add: last_map last_rev)
  have init: "IsInitialized (um_largest_sent_packet m)"
  proof -
    from acked obtain p where "p \<in> set (pm_packets_acked s)" by (cases "pm_packets_acked s") auto
    with cov have "IsInitialized (um_largest_sent_packet ?m)" using um_covers_initialized [OF st] by blast
    then show ?thesis using l(3) by (simp add: um_frame_def)
  qed
  have e: "um_end_number m = um_end_number ?m"
    using um_frame_covers(2) [OF l(3) st, of "um_list m"] pm_inv_state [OF inv1] l(2) by simp
  from PostProcess_ok [OF inv1 _ t, of "pm_rtt_updated s" "um_bytes_in_flight ?m"] alg ne nl init obtain s' L where
    s': "PostProcessNewlyAckedPackets ops t (pm_rtt_updated s) (um_bytes_in_flight ?m) ?s1 = Some s'" "mgr_ok s'"
    "lost_set ?s1 t (ap_packet_number (hd (pm_packets_acked s))) L"
    "um_list (pm_unacked_packets s') = dropWhile useless (settled NEVER_SENT L (um_list m))"
    "um_end_number (pm_unacked_packets s') = um_end_number m" "pm_rtt_stats s' = pm_rtt_stats s"
    "pm_consecutive_rto_count s' = (if pm_rtt_updated s then 0 else pm_consecutive_rto_count s)" by (auto simp: last)
  have run: "OnAckFrameEnd ops t pn s = Some (s', PACKETS_NEWLY_ACKED)"
    using l(1) s'(1) ne by (simp add: OnAckFrameEnd_def)
  have cov': "um_covers m q \<longleftrightarrow> um_covers ?m q" for q
    using um_frame_covers(1) [OF l(3) st, of "um_list m"] pm_inv_state [OF inv1] l(2) by simp
  have off: "um_offset m q = um_offset ?m q" for q by (rule um_frame_offset [OF l(3)])
  have disj: "k \<notin> A" "um_list m ! k = um_list ?m ! k" "k < length (um_list ?m)" if "k \<in> L" for k
  proof -
    have k: "k < length (um_list m)" "ti_in_flight (um_list m ! k)"
      using s'(3) that by (auto simp: lost_set_def Let_def)
    then show "k < length (um_list ?m)" "k \<notin> A" by (auto simp: l(2) nth_settled)
    then show "um_list m ! k = um_list ?m ! k" by (simp add: l(2) nth_settled)
  qed
  have "lost_set s t (ap_packet_number (hd (pm_packets_acked s))) L"
    using s'(3) disj by (simp add: lost_set_def Let_def cov' off)
  with run s' e l(2) disj(1) show ?thesis
    by (intro exI [of _ s'] exI [of _ L]) (auto simp: after_ack_def)
qed

lemma AckFrame_ok:
  assumes ok: "mgr_ok s" and a: "pm_allowed (AckFrame largest t pns) s"
  defines "A \<equiv> tracked_offsets (pm_unacked_packets s) pns"
  shows "\<exists>s' L r. pm_handle ops (AckFrame largest t pns) s = Some s' \<and> mgr_ok s' \<and> L \<inter> A = {}
    \<and> lost_set (s\<lparr>pm_rtt_stats := r\<rparr>) t (hd pns) L \<and> pm_rtt_stats s' = r
    \<and> um_list (pm_unacked_packets s') = after_ack A L (um_list (pm_unacked_packets s))
    \<and> um_end_number (pm_unacked_packets s') = um_end_number (pm_unacked_packets s)"
proof -
  have inv: "pm_inv s" and alg: "alg_ok (pm_send_algorithm s)" and idle: "pm_idle s" using ok by (simp_all add: mgr_ok_def)
  have t: "time_ok t" and ne: "pns \<noteq> []" and cov: "\<forall>pn \<in> set pns. um_covers (pm_unacked_packets s) pn"
    using a by simp_all
  from OnAckFrameStart_spec [OF inv t, of largest] obtain r b where
    r: "OnAckFrameStart largest t s = Some (s\<lparr>pm_rtt_stats := r, pm_rtt_updated := b\<rparr>)" "rtt_inv r" by blast
  let ?s1 = "ack_ranges t pns (s\<lparr>pm_rtt_stats := r, pm_rtt_updated := b\<rparr>)"
  have acked: "pm_packets_acked ?s1
      = List.map (\<lambda>pn. \<lparr>ap_packet_number = pn, ap_bytes_acked = DEFAULT_PACKET_SIZE, ap_receive_timestamp = t\<rparr>) pns"
    and rest: "pm_unacked_packets ?s1 = pm_unacked_packets s" "pm_packets_lost ?s1 = []" "pm_rtt_stats ?s1 = r"
      "pm_send_algorithm ?s1 = pm_send_algorithm s" "pm_loss_algorithm ?s1 = pm_loss_algorithm s"
    using idle by (simp_all add: ack_ranges_eq pm_idle_def)
  have inv1: "pm_inv ?s1" using inv r(2) by (simp add: ack_ranges_eq pm_inv_def)
  have A: "tracked_offsets (pm_unacked_packets ?s1) (List.map ap_packet_number (pm_packets_acked ?s1)) = A"
    by (simp add: acked rest A_def tracked_offsets_def comp_def)
  have pre: "alg_ok (pm_send_algorithm ?s1)" "pm_packets_acked ?s1 \<noteq> []"
    "\<forall>p \<in> set (pm_packets_acked ?s1). um_covers (pm_unacked_packets ?s1) (ap_packet_number p)"
    using alg ne cov by (simp_all add: rest acked)
  have hd: "ap_packet_number (hd (pm_packets_acked ?s1)) = hd pns" using ne by (simp add: acked hd_map)
  from OnAckFrameEnd_ok [OF inv1 pre(1) t pre(2) rest(2) pre(3), of largest] obtain s' L where
    s': "OnAckFrameEnd ops t largest ?s1 = Some (s', PACKETS_NEWLY_ACKED)" "mgr_ok s'" "lost_set ?s1 t (hd pns) L" "L \<inter> A = {}"
    "um_list (pm_unacked_packets s') = after_ack A L (um_list (pm_unacked_packets s))"
    "um_end_number (pm_unacked_packets s') = um_end_number (pm_unacked_packets s)" "pm_rtt_stats s' = r"
    unfolding A hd unfolding rest by (elim exE conjE, intro that) assumption+
  have "lost_set (s\<lparr>pm_rtt_stats := r\<rparr>) t (hd pns) L"
    by (rule lost_set_cong [THEN iffD1, OF _ _ _ s'(3)]) (simp_all add: rest)
  moreover have "pm_handle ops (AckFrame largest t pns) s = Some s'" using r(1) s'(1) by simp
  ultimately show ?thesis using s'(2,4-7) by blast
qed

lemma Timeout_ok:
  assumes ok: "mgr_ok s" and t: "time_ok t"
  shows "\<exists>s'. pm_OnRetransmissionTimeout ops t s = Some (s', GetRetransmissionMode s) \<and> mgr_ok s'
    \<and> um_end_number (pm_unacked_packets s') = um_end_number (pm_unacked_packets s)
    \<and> flight_shrinks (um_list (pm_unacked_packets s)) (um_list (pm_unacked_packets s'))
    \<and> (GetRetransmissionMode s = RTO_MODE \<longrightarrow> um_list (pm_unacked_packets s') = []
        \<and> pm_GetBytesInFlight s' = 0 \<and> um_least_unacked (pm_unacked_packets s') = um_end_number (pm_unacked_packets s)
        \<and> pm_send_algorithm s' = pm_send_algorithm s
        \<and> pm_consecutive_rto_count s' = pm_consecutive_rto_count s + 1)
    \<and> (GetRetransmissionMode s = LOSS_MODE \<longrightarrow> (\<exists>L. lost_set s t (pm_largest_newly_acked s) L
        \<and> (let zs = settled NEVER_SENT L (um_list (pm_unacked_packets s))
           in um_list (pm_unacked_packets s') = zs \<or> um_list (pm_unacked_packets s') = dropWhile useless zs)))"
proof (cases "GetLossTimeout (pm_loss_algorithm s) = time_Zero")
  case True
  let ?s = "s\<lparr>pm_stats := pm_stats s\<lparr>cs_rto_count := cs_rto_count (pm_stats s) + 1\<rparr>\<rparr>"
  have "pm_inv ?s" using ok by (simp add: mgr_ok_def pm_inv_def)
  from RetransmitRtoPackets_spec [OF this] True ok show ?thesis
    by (auto simp: pm_OnRetransmissionTimeout_def GetRetransmissionMode_def mgr_ok_def pm_idle_def pm_GetBytesInFlight_def
        Let_def)
next
  case False
  then have mode: "GetRetransmissionMode s = LOSS_MODE" by (simp add: GetRetransmissionMode_def)
  let ?s = "s\<lparr>pm_stats := pm_stats s\<lparr>cs_loss_timeout_count := cs_loss_timeout_count (pm_stats s) + 1\<rparr>\<rparr>"
  have inv: "pm_inv ?s" and alg: "alg_ok (pm_send_algorithm ?s)" and nl: "pm_packets_lost ?s = []"
    using ok by (simp_all add: mgr_ok_def pm_inv_def pm_idle_def)
  have init: "IsInitialized (um_largest_sent_packet (pm_unacked_packets ?s))"
    using inv False by (auto simp: pm_inv_def GetLossTimeout_def)
  from InvokeLossDetection_spec [OF inv init nl, of t] obtain s1 L where
    s1: "InvokeLossDetection t ?s = Some s1" "pm_inv s1" "pm_send_algorithm s1 = pm_send_algorithm ?s"
    "um_list (pm_unacked_packets s1) = settled NEVER_SENT L (um_list (pm_unacked_packets ?s))"
    "um_frame (pm_unacked_packets ?s) (pm_unacked_packets s1)" "lost_set ?s t (pm_largest_newly_acked ?s) L"
    using ok by (auto simp: mgr_ok_def pm_idle_def)
  have L: "lost_set s t (pm_largest_newly_acked s) L"
    using s1(6) by (subst lost_set_cong [of s ?s]) simp_all
  have e: "um_end_number (pm_unacked_packets s1) = um_end_number (pm_unacked_packets ?s)"
    by (rule um_frame_covers(2) [OF s1(5) pm_inv_state [OF inv] pm_inv_state [OF s1(2)]]) (simp add: s1(4))
  from MaybeInvokeCongestionEvent_ok [OF s1(2) _ t, of False "um_bytes_in_flight (pm_unacked_packets ?s)"] alg s1(3)
  obtain s2 where
    "MaybeInvokeCongestionEvent ops False (um_bytes_in_flight (pm_unacked_packets ?s)) t s1 = Some s2" "mgr_ok s2"
    "um_end_number (pm_unacked_packets s2) = um_end_number (pm_unacked_packets s1)"
    "flight_shrinks (um_list (pm_unacked_packets s1)) (um_list (pm_unacked_packets s2))"
    "um_list (pm_unacked_packets s2) = um_list (pm_unacked_packets s1)
      \<or> um_list (pm_unacked_packets s2) = dropWhile useless (um_list (pm_unacked_packets s1))" by (auto split: if_splits)
  moreover have "flight_shrinks (um_list (pm_unacked_packets s)) (um_list (pm_unacked_packets s1))"
    by (simp add: s1(4))
  ultimately show ?thesis
    using s1(1,4) mode e L flight_shrinks_trans by (auto simp: pm_OnRetransmissionTimeout_def)
qed

lemma pm_handle_ok:
  assumes "mgr_ok s" "pm_allowed i s"
  shows "\<exists>s'. pm_handle ops i s = Some s' \<and> mgr_ok s'"
proof (cases i)
  case (SendPkt p t)
  with OnPacketSent_ok [of s p t] assms show ?thesis by auto
next
  case (AckFrame largest t pns)
  with AckFrame_ok [of s largest t pns] assms show ?thesis by blast
next
  case (Timeout t)
  with Timeout_ok [of s t] assms show ?thesis by auto
qed

end

subsection \<open>Histories\<close>

fun pm_run :: "'a send_algorithm_ops \<Rightarrow> pm_input list \<Rightarrow> 'a packet_manager \<Rightarrow> 'a packet_manager option" where
  "pm_run ops [] s = Some s"
| "pm_run ops (i # is) s = Option.bind (pm_handle ops i s) (pm_run ops is)"

text \<open>Every input of the history is one its caller may make in the state it meets.\<close>

fun pm_legal :: "'a send_algorithm_ops \<Rightarrow> pm_input list \<Rightarrow> 'a packet_manager \<Rightarrow> bool" where
  "pm_legal ops [] s \<longleftrightarrow> True"
| "pm_legal ops (i # is) s \<longleftrightarrow> pm_allowed i s \<and> (\<forall>s'. pm_handle ops i s = Some s' \<longrightarrow> pm_legal ops is s')"

context send_algorithm
begin

lemma pm_run_ok:
  "mgr_ok s \<Longrightarrow> pm_legal ops is s \<Longrightarrow> \<exists>s'. pm_run ops is s = Some s' \<and> mgr_ok s'"
proof (induction "is" arbitrary: s)
  case (Cons i "is")
  from Cons.prems pm_handle_ok [of s i] obtain s1 where "pm_handle ops i s = Some s1" "mgr_ok s1" by auto
  with Cons show ?case by auto
qed simp

end

lemma pm_inv_new:
  assumes "QuicSentPacketManager p create stats junk = Some s"
  shows "pm_inv s" "pm_idle s" "um_list (pm_unacked_packets s) = []"
    "\<exists>st. create rs_new stats kInitialCongestionWindow = Some (st, pm_send_algorithm s)"
proof -
  have e: "um_list (um_new p) = []" "um_inv (um_new p)" using um_state_new [of p] by (simp_all add: um_state_iff)
  have "unat (um_end_number (um_new p)) = 1"
    using um_end_unat [OF um_state_new] by (simp add: um_new_def FirstSendingPacketNumber_def)
  with assms e show "pm_inv s" "pm_idle s" "um_list (pm_unacked_packets s) = []"
      "\<exists>st. create rs_new stats kInitialCongestionWindow = Some (st, pm_send_algorithm s)"
    by (auto simp: QuicSentPacketManager_def pm_inv_def pm_idle_def la_new_def rtt_inv_new bind_eq_Some_conv
        FromMilliseconds_def kMinRetransmissionTimeMs_def i64_def)
qed

lemma bbr2_manager:
  obtains s where "QuicSentPacketManager p (Create_BBRv2 now rng junk) stats flag = Some s" "bbr2.mgr_ok s"
    "um_list (pm_unacked_packets s) = []"
proof -
  from bbr2_ok_Create [OF rtt_inv_new, of now rng junk stats kInitialCongestionWindow] obtain st a where
    a: "Create_BBRv2 now rng junk rs_new stats kInitialCongestionWindow = Some (st, a)" "bbr2_ok a" by blast
  then obtain s where s: "QuicSentPacketManager p (Create_BBRv2 now rng junk) stats flag = Some s"
    by (simp add: QuicSentPacketManager_def)
  with a pm_inv_new [OF s] show thesis by (intro that [OF s]) (auto simp: bbr2.mgr_ok_def)
qed

subsection \<open>Acks of packets that are no longer tracked\<close>

text \<open>
  The position of a packet before the first tracked one wraps around and lies far outside the
  deque; the access has no defined result.
\<close>

lemma GetTransmissionInfo_none:
  assumes "pn < um_least_unacked m" "unat (um_least_unacked m) \<le> 2 ^ 63"
    and "dq_data_capacity (um_unacked_packets m) \<le> 2 ^ 62"
  shows "GetTransmissionInfo pn m = None"
proof -
  have "uint (pn - um_least_unacked m) = uint pn - uint (um_least_unacked m) + 18446744073709551616"
    using assms(1) by (simp add: uint_sub_if' u64_less_iff)
  moreover have "uint (um_least_unacked m) \<le> 9223372036854775808"
  proof -
    have "unat (um_least_unacked m) \<le> 9223372036854775808" using assms(2) by simp
    then have "int (unat (um_least_unacked m)) \<le> 9223372036854775808" by linarith
    then show ?thesis by simp
  qed
  ultimately have "9223372036854775808 \<le> uint (pn - um_least_unacked m)" using uint_ge_0 [of pn] by linarith
  then have "9223372036854775808 \<le> int (um_offset m pn)" by (simp add: um_offset_def pn_diff_def)
  then have "2 * dq_data_capacity (um_unacked_packets m) \<le> um_offset m pn" using assms(3) by simp
  then show ?thesis
    by (auto simp: GetTransmissionInfo_def dq_at_def dq_at_index_def dq_slot_def Let_def)
qed

subsection \<open>The retransmission delay\<close>

text \<open>The delay before backing off, and with \<open>n\<close> timeouts in a row.\<close>

definition base_delay :: "rtt_stats \<Rightarrow> time_delta" where
  "base_delay r = (if rs_smoothed_rtt r = 0 then 500000
     else max (rs_smoothed_rtt r + 4 * rs_mean_deviation r) 200000)"

lemma base_delay_range:
  assumes "rtt_inv r"
  shows "200000 \<le> base_delay r" "base_delay r \<le> 5 * rtt_max"
  using assms by (auto simp: base_delay_def rtt_inv_def rtt_max_def)

lemma i64_between: "- (2 ^ 63) \<le> x \<Longrightarrow> x < 2 ^ 63 \<Longrightarrow> i64 x = x"
  by (simp add: i64_def)

lemma GetRetransmissionDelay_eq:
  assumes "pm_inv s"
  defines "d \<equiv> base_delay (pm_rtt_stats s) * 2 ^ min (unat (pm_consecutive_rto_count s)) 10"
  shows "GetRetransmissionDelay s = (if 60001000 \<le> d then 60000000 else d)" and "200000 \<le> d"
proof -
  let ?r = "pm_rtt_stats s" and ?n = "min (unat (pm_consecutive_rto_count s)) 10"
  have r: "rtt_inv ?r" and m: "pm_min_rto_timeout s = 200000" using assms(1) by (simp_all add: pm_inv_def)
  have n: "unat (min (pm_consecutive_rto_count s) kMaxRetransmissions) = ?n"
    by (simp add: kMaxRetransmissions_def min_def word_le_nat_alt)
  have srtt: "i64 (rs_smoothed_rtt ?r + i64 (rs_mean_deviation ?r * 4)) = rs_smoothed_rtt ?r + 4 * rs_mean_deviation ?r"
    if "rs_smoothed_rtt ?r \<noteq> 0"
    using r that by (simp add: rtt_inv_def rtt_max_def i64_between)
  have b: "(if delta_IsZero (rs_smoothed_rtt ?r) then FromMilliseconds kDefaultRetransmissionTimeMs
      else max (delta_plus (rs_smoothed_rtt ?r) (delta_mult (rs_mean_deviation ?r) 4)) (pm_min_rto_timeout s))
      = base_delay ?r"
    using srtt by (simp add: base_delay_def m delta_IsZero_def FromMilliseconds_def kDefaultRetransmissionTimeMs_def
        delta_plus_def delta_mult_def i64_between)
  have pow: "(1 :: int) \<le> 2 ^ ?n" "(2 :: int) ^ ?n \<le> 2 ^ 10"
    using power_increasing [of ?n 10 "2 :: int"] by simp_all
  have d: "200000 \<le> d" "d \<le> 5 * rtt_max * 2 ^ 10"
    using base_delay_range [OF r] pow mult_mono [of "base_delay ?r" "5 * rtt_max" "2 ^ ?n" "2 ^ 10 :: int"]
      mult_mono [of 200000 "base_delay ?r" 1 "2 ^ ?n"] by (simp_all add: d_def rtt_max_def)
  then show "200000 \<le> d" by simp
  have mult: "delta_mult (base_delay ?r) (2 ^ ?n) = d"
    using d by (simp add: delta_mult_def d_def [symmetric] i64_between rtt_max_def)
  show "GetRetransmissionDelay s = (if 60001000 \<le> d then 60000000 else d)"
  proof -
    have "60000 < d div 1000 \<longleftrightarrow> 60001000 \<le> d" by linarith
    moreover have "ToMilliseconds d = d div 1000" "FromMilliseconds kMaxRetransmissionTimeMs = 60000000"
      using d(1) by (simp_all add: ToMilliseconds_def sdiv_nonneg FromMilliseconds_def kMaxRetransmissionTimeMs_def i64_between)
    ultimately show ?thesis
      unfolding GetRetransmissionDelay_def Let_def b n mult by (simp only: kMaxRetransmissionTimeMs_def)
  qed
qed

subsection \<open>Properties\<close>

text \<open>Two packets of a concrete history, and the state after they were sent.\<close>

definition example_packet :: "packet_number \<Rightarrow> serialized_packet" where
  "example_packet n = \<lparr>sp_packet_number = n, sp_encrypted_length = 1472, sp_send_time = 0\<rparr>"

lemma example_packet_simps [simp]: "sp_packet_number (example_packet n) = n"
  "sp_encrypted_length (example_packet n) = 1472"
  by (simp_all add: example_packet_def)

lemma time_ok_small [simp]: "0 \<le> t \<Longrightarrow> t \<le> 2 ^ 50 \<Longrightarrow> time_ok t"
  by (simp add: time_ok_def rtt_max_def)

lemma example_two_sent:
  obtains s0 s1 s2 where "QuicSentPacketManager IS_CLIENT (Create_BBRv2 0 (\<lambda>_. 7) (False, False)) cs_new False = Some s0"
    "pm_handle bbr2_ops (SendPkt (example_packet 1) 1000) s0 = Some s1"
    "pm_handle bbr2_ops (SendPkt (example_packet 2) 2000) s1 = Some s2" "bbr2.mgr_ok s2"
    "um_end_number (pm_unacked_packets s0) = 1" "um_end_number (pm_unacked_packets s1) = 2"
    "um_end_number (pm_unacked_packets s2) = 3" "um_least_unacked (pm_unacked_packets s2) = 1"
    "pm_GetBytesInFlight s2 = 2944"
proof -
  obtain s0 where s0: "QuicSentPacketManager IS_CLIENT (Create_BBRv2 0 (\<lambda>_. 7) (False, False)) cs_new False = Some s0"
    "bbr2.mgr_ok s0" "um_list (pm_unacked_packets s0) = []" by (rule bbr2_manager)
  then have m0: "pm_unacked_packets s0 = um_new IS_CLIENT"
    by (auto simp: QuicSentPacketManager_def bind_eq_Some_conv)
  have e0: "um_end_number (pm_unacked_packets s0) = 1"
    by (simp add: m0 um_new_def um_end_number_def pn_plus_def FirstSendingPacketNumber_def dq_new_def dq_size_def)
  have "pm_allowed (SendPkt (example_packet 1) 1000) s0" by (simp add: e0)
  from bbr2.OnPacketSent_ok [OF s0(2) this] obtain s1 where
    s1: "pm_OnPacketSent bbr2_ops (example_packet 1) 1000 s0 = Some (s1, True)" "bbr2.mgr_ok s1"
    "um_least_unacked (pm_unacked_packets s1) = 1" "um_end_number (pm_unacked_packets s1) = 2"
    "um_bytes_in_flight (pm_unacked_packets s1) = 1472"
    by (auto simp: m0 um_new_def FirstSendingPacketNumber_def)
  have "pm_allowed (SendPkt (example_packet 2) 2000) s1" by (simp add: s1)
  from bbr2.OnPacketSent_ok [OF s1(2) this] obtain s2 where
    s2: "pm_OnPacketSent bbr2_ops (example_packet 2) 2000 s1 = Some (s2, True)" "bbr2.mgr_ok s2"
    "um_least_unacked (pm_unacked_packets s2) = 1" "um_end_number (pm_unacked_packets s2) = 3"
    "um_bytes_in_flight (pm_unacked_packets s2) = 2944"
    by (auto simp: s1)
  from s0 s1 s2 e0 show thesis by (intro that [of s0 s1 s2]) (simp_all add: pm_GetBytesInFlight_def)
qed

text \<open>C1. A packet manager with a BBRv2 controller handles every history of packets sent with growing
  numbers, acks of packets it still tracks and retransmission timeouts without a failing step. Its
  invariant holds throughout, no ack or loss waits between two inputs, the bytes in flight are those
  of the tracked entries, and the window stays within its limits.\<close>

theorem manager_handles_every_history:
  assumes "QuicSentPacketManager p (Create_BBRv2 now rng junk) stats flag = Some s0" "pm_legal bbr2_ops is s0"
  shows "\<exists>s. pm_run bbr2_ops is s0 = Some s \<and> pm_inv s \<and> pm_idle s
    \<and> pm_GetBytesInFlight s = flight_bytes (um_list (pm_unacked_packets s))
    \<and> 4 * 1460 \<le> GetCongestionWindowInBytes bbr2_ops s \<and> GetCongestionWindowInBytes bbr2_ops s \<le> 100000 * 1460"
proof -
  from bbr2_manager [of p now rng junk stats flag] assms(1) have "bbr2.mgr_ok s0" by auto
  from bbr2.pm_run_ok [OF this assms(2)] obtain s where s: "pm_run bbr2_ops is s0 = Some s" "bbr2.mgr_ok s" by blast
  then have "pm_inv s" "pm_idle s" "bbr2_ok (pm_send_algorithm s)" by (simp_all add: bbr2.mgr_ok_def)
  with s(1) um_stateD(3) [OF pm_inv_state, of s] bbr2_ok_window show ?thesis
    by (intro exI [of _ s]) (simp add: pm_GetBytesInFlight_def GetCongestionWindowInBytes_def bbr2_ops_def)
qed

lemma manager_handles_every_history_witness:
  "\<exists>s0 s. QuicSentPacketManager IS_CLIENT (Create_BBRv2 0 (\<lambda>_. 7) (False, False)) cs_new False = Some s0
    \<and> pm_run bbr2_ops [SendPkt (example_packet 1) 1000, SendPkt (example_packet 2) 2000,
        AckFrame 2 90000 [2], Timeout 600000] s0 = Some s \<and> pm_inv s \<and> pm_idle s"
proof -
  obtain s0 s1 s2 where s: "QuicSentPacketManager IS_CLIENT (Create_BBRv2 0 (\<lambda>_. 7) (False, False)) cs_new False = Some s0"
    "pm_handle bbr2_ops (SendPkt (example_packet 1) 1000) s0 = Some s1"
    "pm_handle bbr2_ops (SendPkt (example_packet 2) 2000) s1 = Some s2" "bbr2.mgr_ok s2"
    "um_end_number (pm_unacked_packets s0) = 1" "um_end_number (pm_unacked_packets s1) = 2"
    "um_end_number (pm_unacked_packets s2) = 3" "um_least_unacked (pm_unacked_packets s2) = 1"
    by (rule example_two_sent)
  have "pm_legal bbr2_ops [SendPkt (example_packet 1) 1000, SendPkt (example_packet 2) 2000,
      AckFrame 2 90000 [2], Timeout 600000] s0"
    using s by (simp add: um_covers_def del: pm_handle.simps)
  from manager_handles_every_history [OF s(1) this] s(1) show ?thesis by blast
qed



text \<open>C3. A retransmission timeout without a pending loss timeout forgets every packet: nothing is
  tracked and nothing is in flight afterwards, all packet numbers handed out so far lie before the
  first tracked one, the congestion controller is not told, and one more timeout in a row is
  counted.\<close>

theorem timeout_forgets_every_packet:
  assumes "bbr2.mgr_ok s" "time_ok t" "GetLossTimeout (pm_loss_algorithm s) = time_Zero"
  shows "\<exists>s'. pm_OnRetransmissionTimeout bbr2_ops t s = Some (s', RTO_MODE) \<and> bbr2.mgr_ok s'
    \<and> um_list (pm_unacked_packets s') = [] \<and> pm_GetBytesInFlight s' = 0
    \<and> um_least_unacked (pm_unacked_packets s') = um_end_number (pm_unacked_packets s)
    \<and> pm_send_algorithm s' = pm_send_algorithm s
    \<and> pm_consecutive_rto_count s' = pm_consecutive_rto_count s + 1"
proof -
  have "GetRetransmissionMode s = RTO_MODE" using assms(3) by (simp add: GetRetransmissionMode_def)
  with bbr2.Timeout_ok [OF assms(1,2)] show ?thesis by auto
qed

lemma timeout_forgets_every_packet_witness:
  "\<exists>s s'. pm_GetBytesInFlight s = 2944 \<and> pm_OnRetransmissionTimeout bbr2_ops 600000 s = Some (s', RTO_MODE)
    \<and> pm_GetBytesInFlight s' = 0 \<and> um_least_unacked (pm_unacked_packets s') = 3"
proof -
  obtain s0 s1 s2 where s: "QuicSentPacketManager IS_CLIENT (Create_BBRv2 0 (\<lambda>_. 7) (False, False)) cs_new False = Some s0"
    "pm_handle bbr2_ops (SendPkt (example_packet 1) 1000) s0 = Some s1"
    "pm_handle bbr2_ops (SendPkt (example_packet 2) 2000) s1 = Some s2" "bbr2.mgr_ok s2"
    "um_end_number (pm_unacked_packets s0) = 1" "um_end_number (pm_unacked_packets s1) = 2"
    "um_end_number (pm_unacked_packets s2) = 3" "um_least_unacked (pm_unacked_packets s2) = 1"
    "pm_GetBytesInFlight s2 = 2944" by (rule example_two_sent)
  have "pm_loss_algorithm s2 = la_new"
    using s(1-3) by (auto simp: QuicSentPacketManager_def pm_OnPacketSent_def bind_eq_Some_conv)
  then have "GetLossTimeout (pm_loss_algorithm s2) = time_Zero" by (simp add: GetLossTimeout_def la_new_def)
  from timeout_forgets_every_packet [OF s(4) _ this, of 600000] s(7,9) show ?thesis by auto
qed

text \<open>C34. The retransmission delay is half a second without a round trip time, and otherwise the
  smoothed time plus four deviations but at least 200 ms; it doubles with every timeout in a row up
  to ten, is cut to a minute once it is over a minute by a millisecond, and never overflows.\<close>

theorem retransmission_delay_backs_off:
  assumes "pm_inv s"
  defines "r \<equiv> pm_rtt_stats s"
  defines "d \<equiv> (if rs_smoothed_rtt r = 0 then 500000 else max (rs_smoothed_rtt r + 4 * rs_mean_deviation r) 200000)
    * 2 ^ min (unat (pm_consecutive_rto_count s)) 10"
  shows "GetRetransmissionDelay s = (if 60001000 \<le> d then 60000000 else d)
    \<and> 200000 \<le> GetRetransmissionDelay s \<and> GetRetransmissionDelay s \<le> 60000999"
  using GetRetransmissionDelay_eq [OF assms(1)] by (simp add: base_delay_def d_def r_def)

lemma retransmission_delay_backs_off_witness:
  "\<exists>s :: bbr2_sender packet_manager. GetRetransmissionDelay s = 500000
    \<and> GetRetransmissionDelay (s\<lparr>pm_consecutive_rto_count := 3\<rparr>) = 4000000
    \<and> GetRetransmissionDelay (s\<lparr>pm_consecutive_rto_count := 9\<rparr>) = 60000000"
proof -
  obtain s where s: "QuicSentPacketManager IS_CLIENT (Create_BBRv2 0 (\<lambda>_. 7) (False, False)) cs_new False = Some s"
    "bbr2.mgr_ok s" by (rule bbr2_manager)
  then have r: "pm_rtt_stats s = rs_new" "pm_consecutive_rto_count s = 0"
    by (auto simp: QuicSentPacketManager_def bind_eq_Some_conv)
  have inv: "pm_inv (s\<lparr>pm_consecutive_rto_count := n\<rparr>)" for n using s(2) by (simp add: bbr2.mgr_ok_def pm_inv_def)
  have z: "rs_smoothed_rtt rs_new = 0" by (simp add: rs_new_def time_consts)
  have "pm_inv s" using s(2) by (simp add: bbr2.mgr_ok_def)
  with r z retransmission_delay_backs_off [OF this] retransmission_delay_backs_off [OF inv [of 3]]
    retransmission_delay_backs_off [OF inv [of 9]] show ?thesis
    by (intro exI [of _ s]) simp
qed



end
