(* ===== verification/Manager_Controllers.thy ===== *)
theory Manager_Controllers
  imports Packet_Manager
begin

section \<open>The packet manager with the other controllers\<close>

text \<open>
  \<open>QuicSentPacketManager\<close> with \<open>SetSendAlgorithm(kCubicBytes)\<close> and \<open>SetSendAlgorithm(kBBR)\<close>: the
  same manager over the other implementations of the interface of the congestion controllers.
  The lemmas are those of the locale, at the interpretations for the two controllers.
\<close>

lemma cubic_manager:
  obtains s where "QuicSentPacketManager p Create_CubicBytes stats flag = Some s" "cubic.mgr_ok s"
    "um_list (pm_unacked_packets s) = []"
proof -
  obtain a where a: "Create_CubicBytes rs_new stats kInitialCongestionWindow = Some (stats, a)" "tc_ok a"
    using tc_ok_Create by blast
  then obtain s where s: "QuicSentPacketManager p Create_CubicBytes stats flag = Some s"
    by (simp add: QuicSentPacketManager_def)
  with a pm_inv_new [OF s] show thesis by (intro that [OF s]) (auto simp: cubic.mgr_ok_def)
qed

text \<open>C16. A packet manager with a Cubic controller handles every history of packets sent with growing
  numbers, acks of packets it still tracks and retransmission timeouts without a failing step, for
  every cube root function of the C library. The bytes in flight are those of the tracked entries,
  and the window stays between two and 100001 segments.\<close>

theorem cubic_manager_handles_every_history:
  assumes "QuicSentPacketManager p Create_CubicBytes stats flag = Some s0" "pm_legal (cubic_ops c_cbrt) is s0"
  shows "\<exists>s. pm_run (cubic_ops c_cbrt) is s0 = Some s \<and> pm_inv s \<and> pm_idle s
    \<and> pm_GetBytesInFlight s = flight_bytes (um_list (pm_unacked_packets s))
    \<and> 2 * 1460 \<le> GetCongestionWindowInBytes (cubic_ops c_cbrt) s
    \<and> GetCongestionWindowInBytes (cubic_ops c_cbrt) s \<le> 100001 * 1460"
proof -
  from cubic_manager [of p stats flag] assms(1) have "cubic.mgr_ok s0" by auto
  from cubic.pm_run_ok [OF this assms(2)] obtain s where s: "pm_run (cubic_ops c_cbrt) is s0 = Some s" "cubic.mgr_ok s" by blast
  then have "pm_inv s" "pm_idle s" "tc_ok (pm_send_algorithm s)" by (simp_all add: cubic.mgr_ok_def)
  with s(1) um_stateD(3) [OF pm_inv_state, of s] tc_ok_window show ?thesis
    by (intro exI [of _ s]) (simp add: pm_GetBytesInFlight_def GetCongestionWindowInBytes_def cubic_ops_def)
qed

lemma cubic_manager_handles_every_history_witness:
  "\<exists>s0 s. QuicSentPacketManager IS_CLIENT Create_CubicBytes cs_new False = Some s0
    \<and> pm_run (cubic_ops (\<lambda>x. x)) [SendPkt (example_packet 1) 1000, AckFrame 1 90000 [1]] s0 = Some s \<and> pm_inv s"
proof -
  obtain s0 where s0: "QuicSentPacketManager IS_CLIENT Create_CubicBytes cs_new False = Some s0" "cubic.mgr_ok s0"
    "um_list (pm_unacked_packets s0) = []" by (rule cubic_manager)
  then have m0: "pm_unacked_packets s0 = um_new IS_CLIENT"
    by (auto simp: QuicSentPacketManager_def bind_eq_Some_conv)
  have e0: "um_end_number (pm_unacked_packets s0) = 1"
    by (simp add: m0 um_new_def um_end_number_def pn_plus_def FirstSendingPacketNumber_def dq_new_def dq_size_def)
  have a: "pm_allowed (SendPkt (example_packet 1) 1000) s0" by (simp add: e0)
  from cubic.OnPacketSent_ok [OF s0(2) a, of "\<lambda>x. x"] obtain s1 where
    s1: "pm_handle (cubic_ops (\<lambda>x. x)) (SendPkt (example_packet 1) 1000) s0 = Some s1"
    "um_least_unacked (pm_unacked_packets s1) = 1" "um_end_number (pm_unacked_packets s1) = 2"
    by (auto simp: m0 um_new_def FirstSendingPacketNumber_def)
  have "pm_legal (cubic_ops (\<lambda>x. x)) [SendPkt (example_packet 1) 1000, AckFrame 1 90000 [1]] s0"
    using a s1 by (simp add: um_covers_def del: pm_handle.simps)
  from cubic_manager_handles_every_history [OF s0(1) this] s0(1) show ?thesis by blast
qed

lemma bbr_manager:
  obtains s where "QuicSentPacketManager p (Create_BBR now rng) stats flag = Some s" "bbr.mgr_ok s"
    "um_list (pm_unacked_packets s) = []"
proof -
  obtain st a where a: "Create_BBR now rng rs_new stats kInitialCongestionWindow = Some (st, a)" "bbr_ok a"
    using bbr_ok_Create by blast
  then obtain s where s: "QuicSentPacketManager p (Create_BBR now rng) stats flag = Some s"
    by (simp add: QuicSentPacketManager_def)
  with a pm_inv_new [OF s] show thesis by (intro that [OF s]) (auto simp: bbr.mgr_ok_def)
qed

text \<open>A packet manager with a BBRv1 controller handles every history of packets sent with growing
  numbers, acks of packets it still tracks and retransmission timeouts without a failing step; the
  bytes in flight are those of the tracked entries, and the window stays within its limits.\<close>

theorem bbr_manager_handles_every_history:
  assumes "QuicSentPacketManager p (Create_BBR now rng) stats flag = Some s0" "pm_legal bbr_ops is s0"
  shows "\<exists>s. pm_run bbr_ops is s0 = Some s \<and> pm_inv s \<and> pm_idle s
    \<and> pm_GetBytesInFlight s = flight_bytes (um_list (pm_unacked_packets s))
    \<and> 4 * 1460 \<le> GetCongestionWindowInBytes bbr_ops s \<and> GetCongestionWindowInBytes bbr_ops s \<le> 100000 * 1460"
proof -
  from bbr_manager [of p now rng stats flag] assms(1) have "bbr.mgr_ok s0" by auto
  from bbr.pm_run_ok [OF this assms(2)] obtain s where s: "pm_run bbr_ops is s0 = Some s" "bbr.mgr_ok s" by blast
  then have i: "pm_inv s" "pm_idle s" "bbr_ok (pm_send_algorithm s)" by (simp_all add: bbr.mgr_ok_def)
  have "v1_ok (pm_send_algorithm s)" using i(3) by (simp add: bbr_ok_def)
  from v1_ok_window [OF this] s(1) i um_stateD(3) [OF pm_inv_state, of s] show ?thesis
    by (intro exI [of _ s]) (simp add: pm_GetBytesInFlight_def GetCongestionWindowInBytes_def bbr_ops_def bbr_ok_def
        max_congestion_window_def kDefaultTCPMSS_def)
qed

lemma bbr_manager_handles_every_history_witness:
  "\<exists>s0 s. QuicSentPacketManager IS_CLIENT (Create_BBR 0 (\<lambda>_. 3)) cs_new False = Some s0
    \<and> pm_run bbr_ops [SendPkt (example_packet 1) 1000, AckFrame 1 90000 [1]] s0 = Some s \<and> pm_inv s"
proof -
  obtain s0 where s0: "QuicSentPacketManager IS_CLIENT (Create_BBR 0 (\<lambda>_. 3)) cs_new False = Some s0" "bbr.mgr_ok s0"
    "um_list (pm_unacked_packets s0) = []" by (rule bbr_manager)
  then have m0: "pm_unacked_packets s0 = um_new IS_CLIENT"
    by (auto simp: QuicSentPacketManager_def bind_eq_Some_conv)
  have e0: "um_end_number (pm_unacked_packets s0) = 1"
    by (simp add: m0 um_new_def um_end_number_def pn_plus_def FirstSendingPacketNumber_def dq_new_def dq_size_def)
  have a: "pm_allowed (SendPkt (example_packet 1) 1000) s0" by (simp add: e0)
  from bbr.OnPacketSent_ok [OF s0(2) a] obtain s1 where
    s1: "pm_handle bbr_ops (SendPkt (example_packet 1) 1000) s0 = Some s1"
    "um_least_unacked (pm_unacked_packets s1) = 1" "um_end_number (pm_unacked_packets s1) = 2"
    by (auto simp: m0 um_new_def FirstSendingPacketNumber_def)
  have "pm_legal bbr_ops [SendPkt (example_packet 1) 1000, AckFrame 1 90000 [1]] s0"
    using a s1 by (simp add: um_covers_def del: pm_handle.simps)
  from bbr_manager_handles_every_history [OF s0(1) this] s0(1) show ?thesis by blast
qed

end
