(* ===== verification/Round_Equivalence.thy ===== *)
theory Round_Equivalence
  imports Bbr_Sender Bbr2_Model
begin

section \<open>Round trips in BBRv1 and BBRv2\<close>

text \<open>
  The counter of round trips of \<open>chrome_bbr_sender.cc\<close> and the class \<open>RoundTripCounter\<close> of
  \<open>bbr2_misc.h\<close> that replaced it, compared on the histories of sent packets and acks.
\<close>

datatype round_event = SentPacket packet_number | AckedUpTo packet_number

text \<open>What the two senders report for the acks of a history: whether each ends a round.\<close>

fun v1_round_ends :: "round_event list \<Rightarrow> bbr_sender \<Rightarrow> bool list" where
  "v1_round_ends [] s = []"
| "v1_round_ends (SentPacket pn # es) s = v1_round_ends es (s\<lparr>v1_last_sent_packet := pn\<rparr>)"
| "v1_round_ends (AckedUpTo pn # es) s = (let (s, b) = UpdateRoundTripCounter pn s in b # v1_round_ends es s)"

fun v2_round_ends :: "round_event list \<Rightarrow> round_trip_counter \<Rightarrow> bool list" where
  "v2_round_ends [] c = []"
| "v2_round_ends (SentPacket pn # es) c = v2_round_ends es (rtc_OnPacketSent pn c)"
| "v2_round_ends (AckedUpTo pn # es) c = (let (c, b) = rtc_OnPacketsAcked pn c in b # v2_round_ends es c)"

lemma round_ends_simulation:
  "v1_last_sent_packet s = rtc_last_sent_packet c \<Longrightarrow> v1_current_round_trip_end s = rtc_end_of_round_trip c
    \<Longrightarrow> v1_round_ends es s = v2_round_ends es c"
proof (induction es arbitrary: s c)
  case (Cons e es)
  show ?case
  proof (cases e)
    case (SentPacket pn)
    then show ?thesis using Cons.IH [of "s\<lparr>v1_last_sent_packet := pn\<rparr>" "rtc_OnPacketSent pn c"] Cons.prems
      by (simp add: rtc_OnPacketSent_def)
  next
    case (AckedUpTo pn)
    have "v1_last_sent_packet (fst (UpdateRoundTripCounter pn s)) = rtc_last_sent_packet (fst (rtc_OnPacketsAcked pn c))"
      "v1_current_round_trip_end (fst (UpdateRoundTripCounter pn s)) = rtc_end_of_round_trip (fst (rtc_OnPacketsAcked pn c))"
      "snd (UpdateRoundTripCounter pn s) = snd (rtc_OnPacketsAcked pn c)"
      using Cons.prems by (auto simp: UpdateRoundTripCounter_def rtc_OnPacketsAcked_def Let_def v1_upd_stats_def)
    with Cons.IH AckedUpTo show ?thesis by (auto simp: Let_def split: prod.splits)
  qed
qed simp


end
