(* ===== verification/Packet_Format.thy ===== *)
theory Packet_Format
  imports Unacked_Map
begin

section \<open>Packets and their text format\<close>

text \<open>
  \<open>packet/packet.cc\<close>, \<open>packet/packet_maker.cc\<close>, \<open>packet/packet_parser.cc\<close> and the string
  functions of \<open>common/utils.cc\<close>. A packet is a datagram of characters: the type, three decimal
  numbers of ten digits each (packet number, send time, length) and padding. A character array
  is a list of characters; the functions that read a C string stop at the first NUL.

  \<open>number_to_fix_len_string\<close> writes one byte more than it asks \<open>malloc\<close> for. What lies behind
  the block is a matter of the allocator, so the function has a parameter: \<open>usable n\<close> is the number
  of bytes that \<open>malloc(n)\<close> makes accessible. \<open>std::stoul\<close> and \<open>std::string::substr\<close> throw
  on bad input; nothing in the program catches exceptions, so an exception is \<open>None\<close>.

  The lemmas show that the parser recovers from every datagram the serializer makes the length and
  the lowest ten decimal digits of the packet number and of the send time.
\<close>

definition NUL :: char where "NUL = CHR 0x00"
definition MAXDGMSIZE :: nat where "MAXDGMSIZE = 1472"
definition TYPE_LEN :: nat where "TYPE_LEN = 1"
definition SIZE_T_LEN :: nat where "SIZE_T_LEN = 10"
definition SENDER_PADDING_LEN :: nat where
  "SENDER_PADDING_LEN = MAXDGMSIZE - TYPE_LEN - SIZE_T_LEN - SIZE_T_LEN - SIZE_T_LEN - 1"

lemmas packet_lengths = MAXDGMSIZE_def TYPE_LEN_def SIZE_T_LEN_def SENDER_PADDING_LEN_def

subsection \<open>Decimal numbers\<close>

definition digit :: "nat \<Rightarrow> char" where "digit d = char_of (48 + d)"
definition is_digit :: "char \<Rightarrow> bool" where "is_digit c \<longleftrightarrow> 48 \<le> (of_char c :: nat) \<and> (of_char c :: nat) \<le> 57"
definition digit_value :: "char \<Rightarrow> nat" where "digit_value c = of_char c - 48"

text \<open>\<open>std::to_string\<close> of an unsigned number.\<close>

fun to_string :: "nat \<Rightarrow> string" where
  "to_string n = (if n < 10 then [digit n] else to_string (n div 10) @ [digit (n mod 10)])"

declare to_string.simps [simp del]

text \<open>
  The loop of both conversions, which copies the digits into the array from the right: \<open>i\<close> and \<open>j\<close>
  are one more than the indices of the code.
\<close>

fun copy_digits :: "string \<Rightarrow> string \<Rightarrow> nat \<Rightarrow> nat \<Rightarrow> string" where
  "copy_digits c s i 0 = c"
| "copy_digits c s i (Suc j) = copy_digits (c[i - 1 := s ! j]) s (i - 1) j"

text \<open>The characters of an array up to the first NUL; without a NUL the code reads past the array.\<close>

definition c_string :: "string \<Rightarrow> string option" where
  "c_string c = (if NUL \<in> set c then Some (takeWhile (\<lambda>x. x \<noteq> NUL) c) else None)"

definition size_t_to_string :: "u64 \<Rightarrow> string option" where
  "size_t_to_string number = do {
     let number = number mod 10000000000;
     let c = replicate (SIZE_T_LEN + 1) (CHR ''0'');
     let s = to_string (unat number);
     let c = (if length s \<le> SIZE_T_LEN then copy_digits c s SIZE_T_LEN (length s) else c);
     c_string (c[SIZE_T_LEN := NUL]) }"

definition number_to_fix_len_string :: "(nat \<Rightarrow> nat) \<Rightarrow> u64 \<Rightarrow> nat \<Rightarrow> string option" where
  "number_to_fix_len_string usable number len =
     (if usable len \<le> len then None
      else do {
        let c = replicate (len + 1) (CHR ''0'');
        let s = to_string (unat number);
        let c = (if length s \<le> len then copy_digits c s len (length s) else c);
        c_string (c[len := NUL]) })"

text \<open>\<open>std::stoul\<close>: white space, a sign, digits; the rest is ignored.\<close>

definition isspace :: "char \<Rightarrow> bool" where
  "isspace c \<longleftrightarrow> c = CHR '' '' \<or> (9 \<le> (of_char c :: nat) \<and> (of_char c :: nat) \<le> 13)"

definition read_digits :: "string \<Rightarrow> nat" where
  "read_digits s = foldl (\<lambda>n c. 10 * n + digit_value c) 0 s"

definition stoul :: "string \<Rightarrow> u64 option" where
  "stoul s = (let s = dropWhile isspace s;
       negative = (s \<noteq> [] \<and> hd s = CHR ''-'');
       s = (if s \<noteq> [] \<and> (hd s = CHR ''-'' \<or> hd s = CHR ''+'') then tl s else s);
       digits = takeWhile is_digit s; n = read_digits digits
     in if digits = [] \<or> 2 ^ 64 \<le> n then None
        else Some (if negative then - of_nat n else of_nat n))"

definition substr :: "string \<Rightarrow> nat \<Rightarrow> nat \<Rightarrow> string option" where
  "substr s pos n = (if length s < pos then None else Some (take n (drop pos s)))"

subsection \<open>Packets\<close>

text \<open>The constructor; \<open>encrypted_length\<close> is \<open>DEFAULT_PACKET_SIZE\<close>.\<close>

definition SerializedPacket :: serialized_packet where
  "SerializedPacket = \<lparr>sp_packet_number = 0, sp_encrypted_length = 1472, sp_send_time = time_Zero\<rparr>"

definition Serialize :: "(nat \<Rightarrow> nat) \<Rightarrow> serialized_packet \<Rightarrow> string option" where
  "Serialize usable p = do {
     number \<leftarrow> size_t_to_string (ToUint64 (sp_packet_number p));
     send_time \<leftarrow> size_t_to_string (GetUint64 (sp_send_time p));
     len \<leftarrow> size_t_to_string (ucast (sp_encrypted_length p));
     padding \<leftarrow> number_to_fix_len_string usable 0 SENDER_PADDING_LEN;
     Some (''0'' @ number @ send_time @ len @ padding) }"

definition UnSerialize :: "string \<Rightarrow> serialized_packet option" where
  "UnSerialize data = do {
     s \<leftarrow> c_string data;
     number \<leftarrow> Option.bind (substr s TYPE_LEN SIZE_T_LEN) stoul;
     send_time \<leftarrow> Option.bind (substr s (TYPE_LEN + SIZE_T_LEN) SIZE_T_LEN) stoul;
     len \<leftarrow> Option.bind (substr s (TYPE_LEN + 2 * SIZE_T_LEN) SIZE_T_LEN) stoul;
     Some \<lparr>sp_packet_number = number, sp_encrypted_length = ucast len, sp_send_time = i64_of send_time\<rparr> }"

text \<open>The packet maker hands out the same packet object each time, with the next packet number.\<close>

record packet_maker =
  mk_recent_packet_create_time :: quic_time
  mk_recent_packet_number :: packet_number
  mk_packet_template :: serialized_packet

definition SerializedPacketMaker :: packet_maker where
  "SerializedPacketMaker = \<lparr>mk_recent_packet_create_time = time_Zero, mk_recent_packet_number = 0,
     mk_packet_template = SerializedPacket\<rparr>"

definition ResetTemplate :: "packet_maker \<Rightarrow> packet_maker" where
  "ResetTemplate m = m\<lparr>mk_packet_template := (mk_packet_template m)\<lparr>sp_packet_number := 0\<rparr>\<rparr>"

definition MakePacket :: "packet_maker \<Rightarrow> packet_maker" where
  "MakePacket m = (let m = ResetTemplate m;
       m = m\<lparr>mk_recent_packet_number := pn_inc (mk_recent_packet_number m)\<rparr>
     in m\<lparr>mk_packet_template := (mk_packet_template m)\<lparr>sp_packet_number := mk_recent_packet_number m\<rparr>\<rparr>)"

definition GetRecentPacketNumber :: "packet_maker \<Rightarrow> packet_number" where
  "GetRecentPacketNumber m = mk_recent_packet_number m"

subsection \<open>Digits\<close>

lemma of_char_digit: "d < 10 \<Longrightarrow> of_char (digit d) = 48 + d"
  by (simp add: digit_def)

lemma digit_simps [simp]: "d < 10 \<Longrightarrow> is_digit (digit d)" "d < 10 \<Longrightarrow> digit_value (digit d) = d"
  by (simp_all add: is_digit_def digit_value_def of_char_digit)

lemma is_digit_simps: "is_digit (CHR ''0'')" "\<not> is_digit (CHR ''-'')" "\<not> is_digit (CHR ''+'')" "\<not> is_digit NUL"
  "digit_value (CHR ''0'') = 0"
  by (simp_all add: is_digit_def NUL_def digit_value_def)

lemma is_digit_space: "is_digit c \<Longrightarrow> \<not> isspace c"
  by (auto simp: is_digit_def isspace_def)

lemma to_string_digits: "list_all is_digit (to_string n)"
proof (induction n rule: to_string.induct)
  case (1 n)
  then show ?case by (subst to_string.simps) simp
qed

lemma to_string_nonempty: "to_string n \<noteq> []"
  by (subst to_string.simps) simp

lemma to_string_length: "n < 10 ^ k \<Longrightarrow> 0 < k \<Longrightarrow> length (to_string n) \<le> k"
proof (induction k arbitrary: n)
  case (Suc k)
  show ?case
  proof (cases "n < 10")
    case True
    then show ?thesis by (subst to_string.simps) simp
  next
    case False
    then have "0 < k" using Suc.prems(1) by (cases k) auto
    moreover have "n div 10 < 10 ^ k" using Suc.prems(1) by (simp add: div_less_iff_less_mult mult.commute)
    ultimately show ?thesis using Suc.IH [of "n div 10"] False by (subst to_string.simps) simp
  qed
qed simp

lemma read_digits_append: "read_digits (s @ [c]) = 10 * read_digits s + digit_value c"
  by (simp add: read_digits_def)

lemma read_digits_to_string [simp]: "read_digits (to_string n) = n"
proof (induction n rule: to_string.induct)
  case (1 n)
  show ?case
  proof (cases "n < 10")
    case True
    then show ?thesis by (subst to_string.simps) (simp add: read_digits_def)
  next
    case False
    with 1 show ?thesis by (subst to_string.simps) (simp add: read_digits_append)
  qed
qed

lemma read_digits_padded [simp]: "read_digits (replicate k (CHR ''0'') @ s) = read_digits s"
  by (induction k) (simp_all add: read_digits_def is_digit_simps)

lemma stoul_digits:
  assumes "list_all is_digit s" "s \<noteq> []" "read_digits s < 2 ^ 64"
  shows "stoul s = Some (of_nat (read_digits s))"
proof -
  obtain c cs where s: "s = c # cs" using assms(2) by (cases s) auto
  have "c \<noteq> CHR ''-''" "c \<noteq> CHR ''+''" using assms(1) is_digit_simps s by auto
  moreover have "dropWhile isspace s = s" using assms(1) is_digit_space s by auto
  moreover have "takeWhile is_digit s = s" using assms(1) by (simp add: list_all_iff)
  ultimately show ?thesis using assms(2,3) s unfolding stoul_def Let_def by simp
qed

subsection \<open>The conversions\<close>

lemma copy_digits_eq:
  "j \<le> i \<Longrightarrow> i \<le> length c \<Longrightarrow> j \<le> length s \<Longrightarrow> copy_digits c s i j = take (i - j) c @ take j s @ drop i c"
proof (induction j arbitrary: c i)
  case (Suc j)
  then have "copy_digits c s i (Suc j)
      = take (i - 1 - j) (c[i - 1 := s ! j]) @ take j s @ drop (i - 1) (c[i - 1 := s ! j])" by simp
  also have "drop (i - 1) (c[i - 1 := s ! j]) = s ! j # drop i c"
    using Suc.prems by (cases i) (simp_all add: drop_update_swap Cons_nth_drop_Suc [symmetric] del: drop_Suc)
  also have "take (i - 1 - j) (c[i - 1 := s ! j]) = take (i - Suc j) c" by (simp add: take_update_cancel)
  finally show ?case using Suc.prems by (simp add: take_Suc_conv_app_nth)
qed simp

text \<open>A number of at most \<open>k\<close> digits, with leading zeros.\<close>

definition padded :: "nat \<Rightarrow> nat \<Rightarrow> string" where
  "padded k n = replicate (k - length (to_string n)) (CHR ''0'') @ to_string n"

lemma padded_digits: "list_all is_digit (padded k n)"
  using to_string_digits is_digit_simps(1) by (auto simp: padded_def list_all_iff)

lemma padded_length: "n < 10 ^ k \<Longrightarrow> 0 < k \<Longrightarrow> length (padded k n) = k"
  using to_string_length by (simp add: padded_def)

lemma read_padded [simp]: "read_digits (padded k n) = n"
  by (simp add: padded_def)

lemma stoul_padded: "n < 2 ^ 64 \<Longrightarrow> stoul (padded k n) = Some (of_nat n)"
  using stoul_digits [OF padded_digits] to_string_nonempty by (simp add: padded_def)

lemma takeWhile_not_NUL: "list_all is_digit s \<Longrightarrow> takeWhile (\<lambda>x. x \<noteq> NUL) (s @ NUL # t) = s"
  using is_digit_simps(4) by (subst takeWhile_append2) (auto simp: list_all_iff)

lemma c_string_digits: "list_all is_digit s \<Longrightarrow> c_string (s @ NUL # t) = Some s"
  using takeWhile_not_NUL by (simp add: c_string_def)

lemma fill_padded:
  assumes "n < 10 ^ k" "0 < k"
  shows "c_string ((if length (to_string n) \<le> k then copy_digits (replicate (k + 1) (CHR ''0'')) (to_string n) k (length (to_string n))
      else replicate (k + 1) (CHR ''0'')) [k := NUL]) = Some (padded k n)"
proof -
  let ?s = "to_string n"
  have l: "length ?s \<le> k" by (rule to_string_length [OF assms])
  have "copy_digits (replicate (k + 1) (CHR ''0'')) ?s k (length ?s) = padded k n @ [CHR ''0'']"
  proof -
    have "take (k - length ?s) (replicate (k + 1) (CHR ''0'')) = replicate (k - length ?s) (CHR ''0'')"
      "drop k (replicate (k + 1) (CHR ''0'')) = [CHR ''0'']" by (simp_all only: take_replicate drop_replicate) simp_all
    then show ?thesis using l by (subst copy_digits_eq) (simp_all add: padded_def del: replicate.simps)
  qed
  moreover have "(padded k n @ [CHR ''0'']) [k := NUL] = padded k n @ [NUL]"
    using padded_length [OF assms] by (simp add: list_update_append)
  ultimately show ?thesis using l c_string_digits [OF padded_digits, of k n "[]"] by (simp del: replicate.simps)
qed

lemma size_t_to_string_eq: "size_t_to_string number = Some (padded SIZE_T_LEN (unat number mod 10 ^ SIZE_T_LEN))"
proof -
  have "unat (number mod 10000000000) = unat number mod 10 ^ SIZE_T_LEN"
    by (simp add: SIZE_T_LEN_def unat_mod)
  moreover have "unat number mod 10 ^ SIZE_T_LEN < 10 ^ SIZE_T_LEN" "0 < SIZE_T_LEN" by (simp_all add: SIZE_T_LEN_def)
  ultimately show ?thesis using fill_padded [of "unat number mod 10 ^ SIZE_T_LEN" SIZE_T_LEN]
    unfolding size_t_to_string_def Let_def by (simp only:)
qed

lemma number_to_fix_len_string_0:
  "0 < len \<Longrightarrow> number_to_fix_len_string usable 0 len = (if usable len \<le> len then None else Some (padded len 0))"
  using fill_padded [of 0 len] unfolding number_to_fix_len_string_def Let_def unsigned_0 by simp


lemma word_mod_eq_self: "(w :: u64) < m \<Longrightarrow> w mod m = w"
  by (simp add: word_unat_eq_iff unat_mod word_less_nat_alt)

text \<open>The datagram of a packet: the type and the four fields.\<close>

definition datagram :: "serialized_packet \<Rightarrow> string" where
  "datagram p = ''0'' @ padded 10 (unat (sp_packet_number p) mod 10000000000)
     @ padded 10 (unat (GetUint64 (sp_send_time p)) mod 10000000000)
     @ padded 10 (unat (sp_encrypted_length p)) @ padded 1440 0"

lemma u16_less: "unat (w :: u16) < 65536"
  using unsigned_less [of w, where ?'a = nat] by simp

lemma Serialize_eq: "Serialize usable p = (if usable 1440 \<le> 1440 then None else Some (datagram p))"
proof -
  have "unat (sp_encrypted_length p) mod 10000000000 = unat (sp_encrypted_length p)"
    using u16_less [of "sp_encrypted_length p"] by simp
  moreover have "SENDER_PADDING_LEN = 1440" by (simp add: packet_lengths)
  ultimately show ?thesis
    by (simp add: Serialize_def size_t_to_string_eq number_to_fix_len_string_0 datagram_def ToUint64_def SIZE_T_LEN_def)
qed

lemma datagram_digits: "list_all is_digit (datagram p)"
  by (simp add: datagram_def padded_digits is_digit_simps)

lemma field_lengths [simp]:
  "length (padded 10 (n mod 10000000000)) = 10" "length (padded 10 (unat (w :: u16))) = 10" "length (padded 1440 0) = 1440"
proof -
  show "length (padded 10 (n mod 10000000000)) = 10" by (simp add: padded_length)
  show "length (padded 10 (unat w)) = 10" using u16_less [of w] by (simp add: padded_length)
  show "length (padded 1440 0) = 1440" by (rule padded_length [OF zero_less_power]) simp_all
qed

lemma datagram_length: "length (datagram p) = 1471"
  by (simp add: datagram_def del: replicate.simps)

lemma field_values:
  "stoul (padded 10 (n mod 10000000000)) = Some (of_nat (n mod 10000000000))"
  "stoul (padded 10 (unat (w :: u16))) = Some (of_nat (unat w))"
  using u16_less [of w] by (intro stoul_padded; simp add: less_trans [of _ "10000000000"])+

lemma UnSerialize_datagram:
  "UnSerialize (datagram p @ NUL # rest) = Some (p\<lparr>sp_packet_number := of_nat (unat (sp_packet_number p) mod 10000000000),
     sp_send_time := i64_of (of_nat (unat (GetUint64 (sp_send_time p)) mod 10000000000))\<rparr>)"
proof -
  let ?n = "padded 10 (unat (sp_packet_number p) mod 10000000000)" and ?l = "padded 10 (unat (sp_encrypted_length p))"
    and ?t = "padded 10 (unat (GetUint64 (sp_send_time p)) mod 10000000000)"
  have d: "datagram p = ''0'' @ ?n @ ?t @ ?l @ padded 1440 0" by (simp only: datagram_def)
  have "substr (datagram p) 1 10 = Some ?n" "substr (datagram p) 11 10 = Some ?t" "substr (datagram p) 21 10 = Some ?l"
    unfolding substr_def datagram_length unfolding d by simp_all
  moreover have "ucast (of_nat (unat w) :: u64) = w" for w :: u16
    by transfer (simp add: take_bit_nat_def)
  ultimately show ?thesis
    by (simp add: UnSerialize_def c_string_digits [OF datagram_digits] TYPE_LEN_def SIZE_T_LEN_def field_values)
qed

subsection \<open>Properties\<close>

text \<open>C39. A packet is serialized unless the allocator leaves no byte behind the block of the padding, and
  then has the form of a datagram: 1471 decimal digits, one less than the packet is counted with.\<close>

theorem datagrams_are_digits:
  "case Serialize usable p of
     None \<Rightarrow> usable SENDER_PADDING_LEN \<le> SENDER_PADDING_LEN
   | Some s \<Rightarrow> SENDER_PADDING_LEN < usable SENDER_PADDING_LEN \<and> length s = 1471 \<and> list_all is_digit s"
  by (simp add: Serialize_eq packet_lengths datagram_length datagram_digits)

text \<open>C25. The parser recovers a packet from its datagram, followed by a NUL and anything else, up to
  the digits that the format has no room for: it has the same length, and the packet number and
  the send time are those of the packet modulo ten to the ten. Below that the round trip is exact.\<close>

theorem serialize_roundtrip:
  assumes "Serialize usable p = Some s"
  shows "UnSerialize (s @ NUL # rest) = Some (p\<lparr>sp_packet_number := sp_packet_number p mod 10000000000,
      sp_send_time := i64_of (GetUint64 (sp_send_time p) mod 10000000000)\<rparr>)
    \<and> (sp_packet_number p < 10000000000 \<and> 0 \<le> sp_send_time p \<and> sp_send_time p < 10000000000
        \<longrightarrow> UnSerialize (s @ NUL # rest) = Some p)"
proof -
  have w: "of_nat (unat w mod 10000000000) = (w mod 10000000000 :: u64)" for w
    by (simp add: word_unat_eq_iff unat_mod unat_of_nat)
  have "UnSerialize (s @ NUL # rest) = Some (p\<lparr>sp_packet_number := sp_packet_number p mod 10000000000,
      sp_send_time := i64_of (GetUint64 (sp_send_time p) mod 10000000000)\<rparr>)"
  proof -
    have "s = datagram p" using assms by (simp add: Serialize_eq split: if_splits)
    then show ?thesis by (simp only: UnSerialize_datagram w)
  qed
  moreover have "sp_packet_number p mod 10000000000 = sp_packet_number p" if "sp_packet_number p < 10000000000"
    using that by (simp add: word_mod_eq_self)
  moreover have "i64_of (GetUint64 t mod 10000000000) = t" if "0 \<le> t" "t < 10000000000" for t
  proof -
    have "uint (GetUint64 t) = t" using that by (simp add: GetUint64_def uint_u64_of)
    then have "GetUint64 t mod 10000000000 = GetUint64 t" using that by (intro word_mod_eq_self) (simp add: word_less_def)
    then show ?thesis using that \<open>uint (GetUint64 t) = t\<close> by (subst i64_of_small) simp_all
  qed
  ultimately show ?thesis by simp
qed

lemma serialize_roundtrip_witness:
  "\<exists>s. Serialize (\<lambda>n. n + 8) (SerializedPacket\<lparr>sp_packet_number := 7, sp_send_time := 1234567\<rparr>) = Some s
    \<and> UnSerialize (s @ [NUL]) = Some (SerializedPacket\<lparr>sp_packet_number := 7, sp_send_time := 1234567\<rparr>)"
proof -
  let ?p = "SerializedPacket\<lparr>sp_packet_number := 7, sp_send_time := 1234567\<rparr>"
  have s: "Serialize (\<lambda>n. n + 8) ?p = Some (datagram ?p)" by (simp add: Serialize_eq)
  have "UnSerialize (datagram ?p @ [NUL]) = Some ?p"
    by (rule serialize_roundtrip [OF s, of "[]", THEN conjunct2, THEN mp]) simp
  with s show ?thesis by blast
qed

text \<open>A datagram that ends before the first digit of the length makes the parser throw an exception,
  which nothing catches.\<close>

theorem short_datagrams_throw:
  assumes "NUL \<notin> set d" "length d \<le> 21"
  shows "UnSerialize (d @ NUL # rest) = None"
proof -
  have "c_string (d @ NUL # rest) = Some d"
    using assms(1) by (auto simp: c_string_def takeWhile_append takeWhile_eq_all_conv)
  moreover have "Option.bind (substr d (TYPE_LEN + 2 * SIZE_T_LEN) SIZE_T_LEN) stoul = None"
    using assms(2) by (simp add: packet_lengths substr_def stoul_def Let_def)
  ultimately show ?thesis
    by (simp add: UnSerialize_def) (simp add: bind_eq_None_conv)
qed

lemma short_datagrams_throw_witness: "UnSerialize (''0000000000112345678'' @ [NUL, NUL]) = None"
  using short_datagrams_throw [of "''0000000000112345678''" "[NUL]"] by (simp add: NUL_def)

end
