(* ===== verification/Platform_Time.thy ===== *)
theory Platform_Time
  imports Quic_Time
begin

section \<open>The clock and the time classes of the platform\<close>

text \<open>
  \<open>time/time.h\<close> and \<open>time/time.cc\<close>, \<open>quic/quic_clock.h\<close> and \<open>.cc\<close> and
  \<open>quic/quic_chromium_clock.h\<close> and \<open>.cc\<close>. \<open>TimeDelta\<close> and the classes \<open>Time\<close>, \<open>TimeTicks\<close> and
  \<open>ThreadTicks\<close> over \<open>TimeBase\<close> hold an \<open>int64_t\<close> number of microseconds; their comparison
  operators compare those numbers. The build defines none of the macros \<open>V8_OS_...\<close>, so the
  code is the one for no particular system: \<open>TimeTicks::Now()\<close> reads \<open>gettimeofday\<close>, whose
  result is an argument here. What other systems would use is in \<open>Time_Variants\<close> and
  \<open>Windows_Ticks\<close>.

  The lemmas say how far the clock of the client follows the wall clock, and where the
  arithmetic of the time classes is what their comments promise.
\<close>

definition i32 :: "int \<Rightarrow> int" where
  "i32 x = (x + 2 ^ 31) mod 2 ^ 32 - 2 ^ 31"

definition int32_max :: int where "int32_max = 2 ^ 31 - 1"
definition int64_min :: int64 where "int64_min = - (2 ^ 63)"

subsection \<open>Constants\<close>

definition kHoursPerDay :: int64 where "kHoursPerDay = 24"
definition kMillisecondsPerSecond :: int64 where "kMillisecondsPerSecond = 1000"
definition kMillisecondsPerDay :: int64 where
  "kMillisecondsPerDay = kMillisecondsPerSecond * 60 * 60 * kHoursPerDay"
definition kMicrosecondsPerMillisecond :: int64 where "kMicrosecondsPerMillisecond = 1000"
definition kMicrosecondsPerSecond :: int64 where
  "kMicrosecondsPerSecond = kMicrosecondsPerMillisecond * kMillisecondsPerSecond"
definition kMicrosecondsPerMinute :: int64 where "kMicrosecondsPerMinute = kMicrosecondsPerSecond * 60"
definition kMicrosecondsPerHour :: int64 where "kMicrosecondsPerHour = kMicrosecondsPerMinute * 60"
definition kMicrosecondsPerDay :: int64 where "kMicrosecondsPerDay = kMicrosecondsPerHour * kHoursPerDay"
definition kMicrosecondsPerWeek :: int64 where "kMicrosecondsPerWeek = kMicrosecondsPerDay * 7"
definition kNanosecondsPerMicrosecond :: int64 where "kNanosecondsPerMicrosecond = 1000"
definition kNanosecondsPerSecond :: int64 where
  "kNanosecondsPerSecond = kNanosecondsPerMicrosecond * kMicrosecondsPerSecond"

lemmas time_constants = kHoursPerDay_def kMillisecondsPerSecond_def kMillisecondsPerDay_def
  kMicrosecondsPerMillisecond_def kMicrosecondsPerSecond_def kMicrosecondsPerMinute_def
  kMicrosecondsPerHour_def kMicrosecondsPerDay_def kMicrosecondsPerWeek_def
  kNanosecondsPerMicrosecond_def kNanosecondsPerSecond_def

subsection \<open>Time deltas\<close>

type_synonym base_delta = int64

definition td_new :: base_delta where "td_new = 0"
definition td_FromDays :: "int \<Rightarrow> base_delta" where "td_FromDays days = i64 (days * kMicrosecondsPerDay)"
definition td_FromHours :: "int \<Rightarrow> base_delta" where "td_FromHours hours = i64 (hours * kMicrosecondsPerHour)"
definition td_FromMinutes :: "int \<Rightarrow> base_delta" where
  "td_FromMinutes minutes = i64 (minutes * kMicrosecondsPerMinute)"
definition td_FromSeconds :: "int64 \<Rightarrow> base_delta" where
  "td_FromSeconds seconds = i64 (seconds * kMicrosecondsPerSecond)"
definition td_FromMilliseconds :: "int64 \<Rightarrow> base_delta" where
  "td_FromMilliseconds milliseconds = i64 (milliseconds * kMicrosecondsPerMillisecond)"
definition td_FromMicroseconds :: "int64 \<Rightarrow> base_delta" where "td_FromMicroseconds us = us"
definition td_FromNanoseconds :: "int64 \<Rightarrow> base_delta" where
  "td_FromNanoseconds nanoseconds = nanoseconds sdiv kNanosecondsPerMicrosecond"

definition td_FromDouble :: "cfloat \<Rightarrow> base_delta" where "td_FromDouble v = f_to_i64 v"
definition td_FromSecondsD :: "cfloat \<Rightarrow> base_delta" where
  "td_FromSecondsD seconds = td_FromDouble (f64 (seconds * of_int kMicrosecondsPerSecond))"
definition td_FromMillisecondsD :: "cfloat \<Rightarrow> base_delta" where
  "td_FromMillisecondsD milliseconds = td_FromDouble (f64 (milliseconds * of_int kMicrosecondsPerMillisecond))"

definition td_Max :: base_delta where "td_Max = int64_max"
definition td_Min :: base_delta where "td_Min = int64_min"
definition td_IsZero :: "base_delta \<Rightarrow> bool" where "td_IsZero d \<longleftrightarrow> d = 0"
definition td_IsMax :: "base_delta \<Rightarrow> bool" where "td_IsMax d \<longleftrightarrow> d = int64_max"
definition td_IsMin :: "base_delta \<Rightarrow> bool" where "td_IsMin d \<longleftrightarrow> d = int64_min"

text \<open>Conversions to other units keep the maximal delta. For the floating point ones \<open>None\<close> is infinity.\<close>

definition td_InDays :: "base_delta \<Rightarrow> int" where
  "td_InDays d = (if td_IsMax d then int32_max else i32 (d sdiv kMicrosecondsPerDay))"
definition td_InHours :: "base_delta \<Rightarrow> int" where
  "td_InHours d = (if td_IsMax d then int32_max else i32 (d sdiv kMicrosecondsPerHour))"
definition td_InMinutes :: "base_delta \<Rightarrow> int" where
  "td_InMinutes d = (if td_IsMax d then int32_max else i32 (d sdiv kMicrosecondsPerMinute))"
definition td_InSecondsF :: "base_delta \<Rightarrow> cfloat option" where
  "td_InSecondsF d = (if td_IsMax d then None else Some (f64 (f64 (of_int d) / of_int kMicrosecondsPerSecond)))"
definition td_InSeconds :: "base_delta \<Rightarrow> int64" where
  "td_InSeconds d = (if td_IsMax d then int64_max else d sdiv kMicrosecondsPerSecond)"
definition td_InMillisecondsF :: "base_delta \<Rightarrow> cfloat option" where
  "td_InMillisecondsF d =
     (if td_IsMax d then None else Some (f64 (f64 (of_int d) / of_int kMicrosecondsPerMillisecond)))"
definition td_InMilliseconds :: "base_delta \<Rightarrow> int64" where
  "td_InMilliseconds d = (if td_IsMax d then int64_max else d sdiv kMicrosecondsPerMillisecond)"
definition td_InMillisecondsRoundedUp :: "base_delta \<Rightarrow> int64" where
  "td_InMillisecondsRoundedUp d =
     (if td_IsMax d then int64_max
      else i64 (i64 (d + kMicrosecondsPerMillisecond) - 1) sdiv kMicrosecondsPerMillisecond)"
definition td_InMicroseconds :: "base_delta \<Rightarrow> int64" where
  "td_InMicroseconds d = (if td_IsMax d then int64_max else d)"
definition td_InNanoseconds :: "base_delta \<Rightarrow> int64" where
  "td_InNanoseconds d = (if td_IsMax d then int64_max else i64 (d * kNanosecondsPerMicrosecond))"

text \<open>
  Arithmetic. An integer division by zero, or of the least number by minus one, traps. \<open>TimesOf\<close>
  of a zero delta is an infinity or not a number; both are \<open>None\<close>.
\<close>

definition td_plus :: "base_delta \<Rightarrow> base_delta \<Rightarrow> base_delta" where "td_plus a b = i64 (a + b)"
definition td_minus :: "base_delta \<Rightarrow> base_delta \<Rightarrow> base_delta" where "td_minus a b = i64 (a - b)"
definition td_uminus :: "base_delta \<Rightarrow> base_delta" where "td_uminus a = i64 (- a)"
definition td_mult :: "base_delta \<Rightarrow> int64 \<Rightarrow> base_delta" where "td_mult a n = i64 (a * n)"

definition td_div :: "base_delta \<Rightarrow> int64 \<Rightarrow> base_delta option" where
  "td_div a n = (if n = 0 \<or> a = int64_min \<and> n = - 1 then None else Some (a sdiv n))"
definition td_quot :: "base_delta \<Rightarrow> base_delta \<Rightarrow> int64 option" where
  "td_quot a b = (if b = 0 \<or> a = int64_min \<and> b = - 1 then None else Some (a sdiv b))"
definition td_TimesOf :: "base_delta \<Rightarrow> base_delta \<Rightarrow> cfloat option" where
  "td_TimesOf a b = (if b = 0 then None else Some (f64 (f64 (of_int a) / f64 (of_int b))))"
definition td_PercentOf :: "base_delta \<Rightarrow> base_delta \<Rightarrow> cfloat option" where
  "td_PercentOf a b = map_option (\<lambda>x. f64 (x * 100)) (td_TimesOf a b)"

subsection \<open>Points in time\<close>

type_synonym base_time = int64

definition tb_IsNull :: "base_time \<Rightarrow> bool" where "tb_IsNull t \<longleftrightarrow> t = 0"
definition tb_Max :: base_time where "tb_Max = int64_max"
definition tb_Min :: base_time where "tb_Min = int64_min"
definition tb_IsMax :: "base_time \<Rightarrow> bool" where "tb_IsMax t \<longleftrightarrow> t = int64_max"
definition tb_IsMin :: "base_time \<Rightarrow> bool" where "tb_IsMin t \<longleftrightarrow> t = int64_min"
definition tb_ToInternalValue :: "base_time \<Rightarrow> int64" where "tb_ToInternalValue t = t"
definition tb_FromInternalValue :: "int64 \<Rightarrow> base_time" where "tb_FromInternalValue us = us"
definition tb_since_origin :: "base_time \<Rightarrow> base_delta" where "tb_since_origin t = td_FromMicroseconds t"

text \<open>The difference of two times, and a time moved by a delta; \<open>tb_minus\<close> is as in the source.\<close>

definition tb_diff :: "base_time \<Rightarrow> base_time \<Rightarrow> base_delta" where
  "tb_diff t t' = td_FromMicroseconds (i64 (t - t'))"
definition tb_plus :: "base_time \<Rightarrow> base_delta \<Rightarrow> base_time" where "tb_plus t delta = i64 (delta + t)"
definition tb_minus :: "base_time \<Rightarrow> base_delta \<Rightarrow> base_time" where "tb_minus t delta = i64 (delta - t)"

text \<open>Times since 1970 as the milliseconds of Javascript. \<open>dbl_max\<close> is the largest \<open>double\<close>.\<close>

definition dbl_max :: cfloat where "dbl_max = (2 ^ 53 - 1) * 2 ^ 971"
definition UnixEpoch :: base_time where "UnixEpoch = 0"

definition FromJsTime :: "cfloat \<Rightarrow> base_time" where
  "FromJsTime ms_since_epoch =
     (if ms_since_epoch = dbl_max then tb_Max
      else f_to_i64 (f64 (ms_since_epoch * of_int kMicrosecondsPerMillisecond)))"

definition ToJsTime :: "base_time \<Rightarrow> cfloat" where
  "ToJsTime t = (if tb_IsNull t then 0 else if tb_IsMax t then dbl_max
     else f64 (f64 (of_int t) / of_int kMicrosecondsPerMillisecond))"

subsection \<open>The clock\<close>

text \<open>\<open>struct timeval\<close>, as \<open>gettimeofday\<close> fills it: the seconds since 1970 and the microseconds of the second.\<close>

record timeval =
  tv_sec :: int64
  tv_usec :: int64

definition timeval_ok :: "timeval \<Rightarrow> bool" where
  "timeval_ok tv \<longleftrightarrow> 0 \<le> tv_sec tv \<and> tv_sec tv < 2 ^ 40 \<and> 0 \<le> tv_usec tv \<and> tv_usec tv < 1000000"

definition TimeTicks_Now :: "timeval \<Rightarrow> base_time" where
  "TimeTicks_Now now =
     (let ticks = i64 (i64 ((tv_sec now smod 100000) * 1000000) + tv_usec now)
      in i64 (ticks + 1))"

definition HighResolutionNow :: "timeval \<Rightarrow> base_time" where "HighResolutionNow now = TimeTicks_Now now"
definition IsHighResolution :: bool where "IsHighResolution \<longleftrightarrow> True"

record quic_clock =
  ck_is_calibrated :: bool
  ck_calibration_offset :: time_delta

definition QuicClock :: quic_clock where
  "QuicClock = \<lparr>ck_is_calibrated = False, ck_calibration_offset = delta_Zero\<rparr>"

definition SetCalibrationOffset :: "time_delta \<Rightarrow> quic_clock \<Rightarrow> quic_clock" where
  "SetCalibrationOffset offset c = c\<lparr>ck_calibration_offset := offset, ck_is_calibrated := True\<rparr>"

definition CreateTimeFromMicroseconds :: "u64 \<Rightarrow> quic_time" where
  "CreateTimeFromMicroseconds time_us = i64_of time_us"

definition clock_Now :: "timeval \<Rightarrow> quic_time" where
  "clock_Now now =
     (let ticks = td_InMicroseconds (tb_diff (TimeTicks_Now now) 0)
      in CreateTimeFromMicroseconds (u64_of ticks))"

definition ApproximateNow :: "timeval \<Rightarrow> quic_time" where "ApproximateNow now = clock_Now now"

definition QuicTimeToTimeTicks :: "quic_time \<Rightarrow> base_time" where
  "QuicTimeToTimeTicks t =
     (let offset_from_zero = time_diff t time_Zero;
          offset_from_zero_us = ToMicroseconds offset_from_zero
      in tb_plus 0 (td_FromMicroseconds offset_from_zero_us))"


subsection \<open>Units\<close>

text \<open>A delta made of a number of units has that number of units, unless the microseconds overflow.\<close>

lemma sdiv_mult_self: "0 < k \<Longrightarrow> (n * k) sdiv k = (n :: int)"
  by (simp add: signed_divide_int_def sgn_mult abs_mult sgn_mult_abs)

lemma i64_units:
  assumes "0 < k" "\<bar>n\<bar> * k < 2 ^ 63 - 1"
  shows "i64 (n * k) = n * k" "i64 (n * k) \<noteq> int64_max"
proof -
  have "\<bar>n * k\<bar> < 2 ^ 63 - 1" using assms by (simp add: abs_mult)
  then have *: "- (2 ^ 63) \<le> n * k" "n * k < 2 ^ 63 - 1" by linarith+
  then show "i64 (n * k) = n * k" by (intro i64_id) (simp add: in_i64_def)
  with * show "i64 (n * k) \<noteq> int64_max" by (simp add: int64_max_def)
qed

lemma td_units:
  "\<bar>n\<bar> * 1000000 < 2 ^ 63 - 1 \<Longrightarrow> td_InSeconds (td_FromSeconds n) = n"
  "\<bar>n\<bar> * 1000 < 2 ^ 63 - 1 \<Longrightarrow> td_InMilliseconds (td_FromMilliseconds n) = n"
  "\<bar>n\<bar> < 2 ^ 31 \<Longrightarrow> td_InMinutes (td_FromMinutes n) = n"
proof -
  show "td_InSeconds (td_FromSeconds n) = n" if "\<bar>n\<bar> * 1000000 < 2 ^ 63 - 1"
    using i64_units [of 1000000 n] sdiv_mult_self [of 1000000 n] that
    by (simp add: td_InSeconds_def td_FromSeconds_def td_IsMax_def time_constants)
  show "td_InMilliseconds (td_FromMilliseconds n) = n" if "\<bar>n\<bar> * 1000 < 2 ^ 63 - 1"
    using i64_units [of 1000 n] sdiv_mult_self [of 1000 n] that
    by (simp add: td_InMilliseconds_def td_FromMilliseconds_def td_IsMax_def time_constants)
  show "td_InMinutes (td_FromMinutes n) = n" if n: "\<bar>n\<bar> < 2 ^ 31"
  proof -
    have "\<bar>n\<bar> * 60000000 < 2 ^ 63 - 1" using n by simp
    moreover have "i32 n = n" using n by (simp add: i32_def)
    ultimately show ?thesis using i64_units [of 60000000 n] sdiv_mult_self [of 60000000 n]
      by (simp add: td_InMinutes_def td_FromMinutes_def td_IsMax_def time_constants)
  qed
qed

text \<open>
  \<open>InMillisecondsRoundedUp\<close> rounds up for deltas that are not negative and leave room for the
  addition; a negative delta of a millisecond and a half counts as 0 milliseconds, not as -1.
\<close>

lemma td_rounded_up: "0 \<le> d \<Longrightarrow> d < 2 ^ 63 - 1000 \<Longrightarrow> td_InMillisecondsRoundedUp d = - ((- d) div 1000)"
  by (simp add: td_InMillisecondsRoundedUp_def td_IsMax_def int64_max_def time_constants i64_small sdiv_nonneg)

lemma td_rounded_up_negative: "td_InMillisecondsRoundedUp (- 1500) = 0"
  by (simp add: td_InMillisecondsRoundedUp_def td_IsMax_def int64_max_def time_constants i64_def signed_divide_int_def)

subsection \<open>The clock and the wall clock\<close>

lemma clock_Now_eq:
  assumes "timeval_ok tv"
  shows "clock_Now tv = tv_sec tv mod 100000 * 1000000 + tv_usec tv + 1"
proof -
  have s: "tv_sec tv smod 100000 = tv_sec tv mod 100000"
    using assms by (simp add: timeval_ok_def signed_modulo_int_def sgn_if)
  let ?n = "tv_sec tv mod 100000 * 1000000 + tv_usec tv + 1"
  have b: "0 \<le> tv_sec tv mod 100000" "tv_sec tv mod 100000 < 100000" by simp_all
  with assms have n: "0 < ?n" "?n \<le> 100000000000" by (auto simp: timeval_ok_def)
  have "TimeTicks_Now tv = ?n"
  proof -
    have "i64 (tv_sec tv mod 100000 * 1000000) = tv_sec tv mod 100000 * 1000000" using b by (intro i64_small) linarith+
    moreover have "i64 ?n = ?n" using n by (intro i64_small) linarith+
    ultimately show ?thesis by (simp add: TimeTicks_Now_def s)
  qed
  moreover have "i64_of (u64_of ?n) = ?n"
    using n uint_u64_of [of ?n] by (subst i64_of_small) simp_all
  ultimately show ?thesis
    using n by (simp add: clock_Now_def tb_diff_def td_FromMicroseconds_def td_InMicroseconds_def td_IsMax_def
        int64_max_def CreateTimeFromMicroseconds_def i64_small)
qed

lemma clock_Now_range: "timeval_ok tv \<Longrightarrow> 1 \<le> clock_Now tv \<and> clock_Now tv \<le> 100000000000"
proof -
  assume a: "timeval_ok tv"
  have "0 \<le> tv_sec tv mod 100000" "tv_sec tv mod 100000 < 100000" by simp_all
  with a show ?thesis unfolding clock_Now_eq [OF a] by (auto simp: timeval_ok_def)
qed

text \<open>The microseconds of the wall clock since 1970.\<close>

definition wall_micros :: "timeval \<Rightarrow> int" where
  "wall_micros tv = tv_sec tv * 1000000 + tv_usec tv"

lemma wall_micros_div: "timeval_ok tv \<Longrightarrow> wall_micros tv div 100000000000 = tv_sec tv div 100000"
proof -
  assume "timeval_ok tv"
  then have "wall_micros tv div 1000000 = tv_sec tv" by (simp add: wall_micros_def timeval_ok_def)
  then show ?thesis using zdiv_zmult2_eq [of 100000 "wall_micros tv" 1000000] by simp
qed

lemma clock_Now_wall: "timeval_ok tv \<Longrightarrow> clock_Now tv = wall_micros tv mod 100000000000 + 1"
proof -
  assume a: "timeval_ok tv"
  have "wall_micros tv mod 100000000000 = wall_micros tv - 100000000000 * (tv_sec tv div 100000)"
    using minus_mult_div_eq_mod [of "wall_micros tv" 100000000000] wall_micros_div [OF a] by simp
  moreover have "tv_sec tv mod 100000 = tv_sec tv - 100000 * (tv_sec tv div 100000)"
    using minus_mult_div_eq_mod [of "tv_sec tv" 100000] by simp
  ultimately show ?thesis by (simp add: clock_Now_eq [OF a] wall_micros_def)
qed

text \<open>The clock of a tick count and back.\<close>

lemma QuicTimeToTimeTicks_Now: "timeval_ok tv \<Longrightarrow> QuicTimeToTimeTicks (clock_Now tv) = TimeTicks_Now tv"
proof -
  assume a: "timeval_ok tv"
  have "TimeTicks_Now tv = clock_Now tv"
  proof -
    have "in_i64 (TimeTicks_Now tv)" by (simp add: TimeTicks_Now_def)
    moreover have "i64_of (u64_of x) = x" if "in_i64 x" for x
    proof -
      have "u64_of (i64_of (u64_of x)) = u64_of x" by simp
      then have "i64_of (u64_of x) mod 2 ^ 64 = x mod 2 ^ 64"
        by (metis uint_u64_of_mod)
      then have "i64 (i64_of (u64_of x)) = i64 x" by (simp only: i64_cong_iff)
      then show ?thesis using that by (simp add: i64_id)
    qed
    ultimately show ?thesis
      by (simp add: clock_Now_def tb_diff_def td_FromMicroseconds_def td_InMicroseconds_def td_IsMax_def
          CreateTimeFromMicroseconds_def i64_id)
  qed
  with clock_Now_range [OF a] show ?thesis
    by (simp add: QuicTimeToTimeTicks_def time_diff_def time_Zero_def ToMicroseconds_def tb_plus_def
        td_FromMicroseconds_def i64_small)
qed

subsection \<open>Properties\<close>

text \<open>C40. The clock of the client measures the time between two readings correctly only within one
  period of 100000 seconds (27.8 hours): for each boundary of a period between the readings it
  falls back by 100000 seconds, so a later reading may be the smaller one.\<close>

theorem clock_falls_back:
  assumes "timeval_ok tv" "timeval_ok tv'"
  shows "time_diff (clock_Now tv') (clock_Now tv) = wall_micros tv' - wall_micros tv
      - 100000000000 * (wall_micros tv' div 100000000000 - wall_micros tv div 100000000000)
    \<and> 1 \<le> clock_Now tv \<and> clock_Now tv \<le> 100000000000"
proof -
  have "time_diff (clock_Now tv') (clock_Now tv) = clock_Now tv' - clock_Now tv"
    using clock_Now_range [OF assms(1)] clock_Now_range [OF assms(2)] by (simp add: time_diff_def i64_small)
  also have "\<dots> = wall_micros tv' mod 100000000000 - wall_micros tv mod 100000000000"
    by (simp add: clock_Now_wall assms)
  finally show ?thesis
    using minus_mult_div_eq_mod [of "wall_micros tv" 100000000000] minus_mult_div_eq_mod [of "wall_micros tv'" 100000000000]
      clock_Now_range [OF assms(1)] by (simp add: right_diff_distrib)
qed

lemma clock_falls_back_witness:
  "wall_micros \<lparr>tv_sec = 1700000000, tv_usec = 0\<rparr> - wall_micros \<lparr>tv_sec = 1699999999, tv_usec = 0\<rparr> = 1000000
    \<and> time_diff (clock_Now \<lparr>tv_sec = 1700000000, tv_usec = 0\<rparr>) (clock_Now \<lparr>tv_sec = 1699999999, tv_usec = 0\<rparr>)
      = - 99999000000"
  using clock_falls_back [of "\<lparr>tv_sec = 1699999999, tv_usec = 0\<rparr>" "\<lparr>tv_sec = 1700000000, tv_usec = 0\<rparr>"]
  by (simp add: timeval_ok_def wall_micros_def)

text \<open>Subtracting a delta from a time gives the negated distance: what was added to a time comes off
  again only for the null time and, by the wrap-around, the least one.\<close>

theorem minus_undoes_plus:
  assumes "in_i64 t" "in_i64 delta"
  shows "tb_minus (tb_plus t delta) delta = i64 (- t)
    \<and> (tb_minus (tb_plus t delta) delta = t \<longleftrightarrow> t = 0 \<or> t = int64_min)"
proof -
  have e: "tb_minus (tb_plus t delta) delta = i64 (- t)"
  proof -
    have "i64 (delta - i64 (delta + t)) = i64 (delta + (- 1) * (delta + t))"
    proof -
      have "(delta - i64 (delta + t)) mod 2 ^ 64 = (delta - (delta + t)) mod 2 ^ 64"
        using i64_cong_iff [of "i64 (delta + t)" "delta + t"] by (intro mod_diff_cong) simp_all
      then show ?thesis by (simp add: i64_cong_iff)
    qed
    then show ?thesis by (simp add: tb_minus_def tb_plus_def)
  qed
  have "i64 (- t) = t \<longleftrightarrow> t = 0 \<or> t = int64_min"
  proof (cases "t = int64_min")
    case True then show ?thesis by (simp add: int64_min_def i64_def)
  next
    case False
    with assms(1) have "i64 (- t) = - t" by (intro i64_id) (auto simp: in_i64_def int64_min_def)
    with False show ?thesis by auto
  qed
  with e show ?thesis by simp
qed

lemma minus_undoes_plus_witness: "tb_minus (tb_plus 5000 300) 300 = - 5000 \<and> tb_minus (tb_plus 0 300) 300 = 0"
  using minus_undoes_plus [of 5000 300] minus_undoes_plus [of 0 300] by (simp add: in_i64_def i64_small)

end
