(* ===== verification/Udp_Client.thy ===== *)
theory Udp_Client
  imports Manager_Controllers Packet_Format Platform_Time
begin

section \<open>The client\<close>

text \<open>
  \<open>client.h\<close> and \<open>client.cc\<close>: the loop that sends packets as fast as the congestion window and the
  pacing rate allow and takes every datagram it receives for the ack of the packet in it. The
  client runs a packet manager over a congestion controller; the readings of the clock, the
  datagrams that \<open>recvfrom\<close> delivers and the success of \<open>sendto\<close> are inputs.

  A call of \<open>pause_at_func\<close> stops the program for good: the outcome \<open>Paused\<close>. \<open>None\<close> is, as
  everywhere, a step with no defined result or an exception that nothing catches.

  The lemmas show that the client handles every history in which it only receives datagrams of
  packets it still tracks, never sends beyond the congestion window it was last given, and
  spaces packets by the pacing rate.
\<close>

datatype 'a outcome = Running 'a | Paused

definition BITS_PER_BYTE :: nat where "BITS_PER_BYTE = 8"
definition ONE_SECOND :: cfloat where "ONE_SECOND = 1000000"
definition MAX_PACING_RATE :: u64 where "MAX_PACING_RATE = 100000000"
definition INITIAL_CWND_SIZE :: u64 where "INITIAL_CWND_SIZE = 4"
definition RECEIVE_BUF_SIZE :: nat where "RECEIVE_BUF_SIZE = 10000"

record send_control =
  sc_cwnd :: u64
  sc_pacing_rate :: u64
  sc_next_send_timestamp :: quic_time

definition SendControl :: send_control where
  "SendControl = \<lparr>sc_cwnd = INITIAL_CWND_SIZE, sc_pacing_rate = u64_of INITIAL_PACING_RATE, sc_next_send_timestamp = time_Zero\<rparr>"

text \<open>The members of the client that its operations use.\<close>

record 'a client =
  cl_packet_maker :: packet_maker
  cl_send_manager :: "'a packet_manager"
  cl_send_control :: send_control

definition Client :: "(rtt_stats \<Rightarrow> conn_stats \<Rightarrow> packet_count \<Rightarrow> (conn_stats \<times> 'a) option) \<Rightarrow> bool \<Rightarrow> 'a client option" where
  "Client create junk = do {
     m \<leftarrow> QuicSentPacketManager IS_CLIENT create cs_new junk;
     Some \<lparr>cl_packet_maker = SerializedPacketMaker, cl_send_manager = m, cl_send_control = SendControl\<rparr> }"

abbreviation cl_bytes_in_flight :: "'a client \<Rightarrow> byte_count" where
  "cl_bytes_in_flight c \<equiv> um_bytes_in_flight (pm_unacked_packets (cl_send_manager c))"

subsection \<open>Sending\<close>

text \<open>The time between two packets of 1472 bytes at a pacing rate, in microseconds.\<close>

definition send_interval :: "u64 \<Rightarrow> time_delta" where
  "send_interval rate = FromMicroseconds (i64_of (f_to_u64
     (f64 (f64 (of_nat (unat DEFAULT_PACKET_SIZE * BITS_PER_BYTE) * ONE_SECOND) / u64_f64 rate))))"

definition SetNextSendTime :: "quic_time \<Rightarrow> 'a client \<Rightarrow> 'a client outcome" where
  "SetNextSendTime now c =
     (if 0 < sc_pacing_rate (cl_send_control c)
      then Running (c\<lparr>cl_send_control := (cl_send_control c)\<lparr>sc_next_send_timestamp :=
        time_plus now (send_interval (sc_pacing_rate (cl_send_control c)))\<rparr>\<rparr>)
      else Paused)"

text \<open>\<open>now\<close> and \<open>now'\<close> are the readings of the clock in the condition and in \<open>SetNextSendTime\<close>.\<close>

definition IsTimeToSendNextPacket :: "quic_time \<Rightarrow> quic_time \<Rightarrow> 'a client \<Rightarrow> ('a client \<times> bool) outcome" where
  "IsTimeToSendNextPacket now now' c =
     (if cl_bytes_in_flight c div ucast DEFAULT_PACKET_SIZE < sc_cwnd (cl_send_control c)
         \<and> sc_next_send_timestamp (cl_send_control c) < now
      then case SetNextSendTime now' c of Running c \<Rightarrow> Running (c, True) | Paused \<Rightarrow> Paused
      else Running (c, False))"

text \<open>The result carries the datagram that goes out.\<close>

definition MakePacketAndSendFromBuf :: "'a send_algorithm_ops \<Rightarrow> (nat \<Rightarrow> nat) \<Rightarrow> quic_time \<Rightarrow> bool \<Rightarrow> 'a client
    \<Rightarrow> ('a client \<times> string) outcome option" where
  "MakePacketAndSendFromBuf ops usable now sent c = do {
     let maker = MakePacket (cl_packet_maker c);
     let packet = (mk_packet_template maker)\<lparr>sp_send_time := now\<rparr>;
     let maker = maker\<lparr>mk_packet_template := packet\<rparr>;
     to_buf \<leftarrow> Serialize usable packet;
     if \<not> sent then Some Paused
     else do {
       (m, _) \<leftarrow> pm_OnPacketSent ops packet (sp_send_time packet) (cl_send_manager c);
       Some (Running (c\<lparr>cl_packet_maker := maker, cl_send_manager := m\<rparr>, to_buf)) } }"

definition cl_SendPacket :: "'a send_algorithm_ops \<Rightarrow> (nat \<Rightarrow> nat) \<Rightarrow> quic_time \<Rightarrow> quic_time \<Rightarrow> quic_time \<Rightarrow> bool
    \<Rightarrow> 'a client \<Rightarrow> ('a client \<times> string option) outcome option" where
  "cl_SendPacket ops usable now now' now'' sent c = (case IsTimeToSendNextPacket now now' c of
       Paused \<Rightarrow> Some Paused
     | Running (c, False) \<Rightarrow> Some (Running (c, None))
     | Running (c, True) \<Rightarrow> do {
         o' \<leftarrow> MakePacketAndSendFromBuf ops usable now'' sent c;
         Some (case o' of Paused \<Rightarrow> Paused | Running (c, d) \<Rightarrow> Running (c, Some d)) })"

subsection \<open>Receiving\<close>

text \<open>The zeroed buffer after \<open>recvfrom\<close> wrote a datagram to it; what does not fit is cut off.\<close>

definition receive_buf :: "string \<Rightarrow> string" where
  "receive_buf d = take RECEIVE_BUF_SIZE d @ replicate (RECEIVE_BUF_SIZE - length d) NUL"

text \<open>\<open>time\<close> is the reading of the clock, \<open>time'\<close> that of \<open>OnAckRange\<close>.\<close>

definition OnPacketReceived :: "'a send_algorithm_ops \<Rightarrow> string \<Rightarrow> quic_time \<Rightarrow> quic_time \<Rightarrow> 'a client
    \<Rightarrow> 'a client option" where
  "OnPacketReceived ops buf time time' c = do {
     packet \<leftarrow> UnSerialize buf;
     let number = sp_packet_number packet;
     m \<leftarrow> OnAckFrameStart number time (cl_send_manager c);
     let m = OnAckRange time' number (pn_plus number 1) m;
     (m, _) \<leftarrow> OnAckFrameEnd ops time number m;
     b \<leftarrow> GetPacingRate ops m;
     let rate = u64_of (ToBitsPerSecond b);
     let rate = (if MAX_PACING_RATE < rate then MAX_PACING_RATE else rate);
     let cwnd = GetCongestionWindowInBytes ops m div ucast DEFAULT_PACKET_SIZE;
     Some (c\<lparr>cl_send_manager := m,
       cl_send_control := (cl_send_control c)\<lparr>sc_pacing_rate := rate, sc_cwnd := cwnd\<rparr>\<rparr>) }"

text \<open>
  \<open>d\<close> is the datagram, \<open>None\<close> when \<open>recvfrom\<close> fails; an empty datagram counts as none. The second
  reading of the clock is made by \<open>OnAckRange\<close> or by \<open>OnRetransmissionTimeout\<close>.
\<close>

definition ReceivePacket :: "'a send_algorithm_ops \<Rightarrow> string option \<Rightarrow> quic_time \<Rightarrow> quic_time \<Rightarrow> 'a client
    \<Rightarrow> 'a client option" where
  "ReceivePacket ops d now now' c =
     (if d \<noteq> None \<and> d \<noteq> Some [] then OnPacketReceived ops (receive_buf (the d)) now now' c
      else if GetRetransmissionTime (cl_send_manager c) < now
      then do {
        (m, _) \<leftarrow> pm_OnRetransmissionTimeout ops now' (cl_send_manager c);
        Some (c\<lparr>cl_send_manager := m\<rparr>) }
      else Some c)"

subsection \<open>The main loop\<close>

text \<open>What the environment does in one iteration of the loop of \<open>client_test.cc\<close>.\<close>

record client_input =
  in_send :: "timeval \<times> timeval \<times> timeval"
  in_sent :: bool
  in_datagram :: "string option"
  in_receive :: "timeval \<times> timeval"

definition input_send :: "'a send_algorithm_ops \<Rightarrow> (nat \<Rightarrow> nat) \<Rightarrow> client_input \<Rightarrow> 'a client
    \<Rightarrow> ('a client \<times> string option) outcome option" where
  "input_send ops usable i c = (case in_send i of (t, t', t'') \<Rightarrow>
     cl_SendPacket ops usable (clock_Now t) (clock_Now t') (clock_Now t'') (in_sent i) c)"

definition input_receive :: "'a send_algorithm_ops \<Rightarrow> client_input \<Rightarrow> 'a client \<Rightarrow> 'a client option" where
  "input_receive ops i c = (case in_receive i of (t, t') \<Rightarrow>
     ReceivePacket ops (in_datagram i) (clock_Now t) (clock_Now t') c)"

fun client_test1 :: "'a send_algorithm_ops \<Rightarrow> (nat \<Rightarrow> nat) \<Rightarrow> client_input list \<Rightarrow> 'a client
    \<Rightarrow> 'a client outcome option" where
  "client_test1 ops usable [] c = Some (Running c)"
| "client_test1 ops usable (i # is) c = do {
     o' \<leftarrow> input_send ops usable i c;
     case o' of Paused \<Rightarrow> Some Paused
     | Running (c, _) \<Rightarrow> do { c \<leftarrow> input_receive ops i c; client_test1 ops usable is c } }"

text \<open>
  What the environment owes: readings of the clock are times since 1970, and a datagram is one
  of a packet that is still tracked when it arrives.
\<close>

definition clocks_ok :: "client_input \<Rightarrow> bool" where
  "clocks_ok i \<longleftrightarrow> (case (in_send i, in_receive i) of ((t, t', t''), (u, u')) \<Rightarrow>
     timeval_ok t \<and> timeval_ok t' \<and> timeval_ok t'' \<and> timeval_ok u \<and> timeval_ok u')"

definition ack_expected :: "client_input \<Rightarrow> 'a client \<Rightarrow> bool" where
  "ack_expected i c \<longleftrightarrow> in_datagram i = None \<or> in_datagram i = Some []
     \<or> (case UnSerialize (receive_buf (the (in_datagram i))) of None \<Rightarrow> False
        | Some p \<Rightarrow> um_covers (pm_unacked_packets (cl_send_manager c)) (sp_packet_number p))"

fun client_legal :: "'a send_algorithm_ops \<Rightarrow> (nat \<Rightarrow> nat) \<Rightarrow> client_input list \<Rightarrow> 'a client \<Rightarrow> bool" where
  "client_legal ops usable [] c \<longleftrightarrow> True"
| "client_legal ops usable (i # is) c \<longleftrightarrow> clocks_ok i
     \<and> (\<forall>c1 d. input_send ops usable i c = Some (Running (c1, d)) \<longrightarrow> ack_expected i c1
         \<and> (\<forall>c2. input_receive ops i c1 = Some c2 \<longrightarrow> client_legal ops usable is c2))"


subsection \<open>The bytes in flight of full packets\<close>

definition full_packets :: "transmission_info list \<Rightarrow> bool" where
  "full_packets xs \<longleftrightarrow> (\<forall>x \<in> set xs. ti_in_flight x \<longrightarrow> ti_bytes_sent x = 1472)"

lemma full_packets_shrinks: "full_packets xs \<Longrightarrow> flight_shrinks xs ys \<Longrightarrow> full_packets ys"
  by (auto simp: full_packets_def flight_shrinks_def)

lemma full_packets_bytes:
  assumes "full_packets xs" "flight_count xs \<le> 100000"
  shows "unat (flight_bytes xs) = 1472 * flight_count xs"
proof -
  have "(\<Sum>info\<leftarrow>xs. if ti_in_flight info then unat (ti_bytes_sent info) else 0) = 1472 * flight_count xs"
    using assms(1) by (induction xs) (auto simp: full_packets_def)
  with unat_flight_bytes [of xs] assms(2) show ?thesis by simp
qed

subsection \<open>The invariant of the client\<close>

definition client_ok :: "bbr2_sender client \<Rightarrow> bool" where
  "client_ok c \<longleftrightarrow> (let m = cl_send_manager c; xs = um_list (pm_unacked_packets m); sc = cl_send_control c
     in bbr2.mgr_ok m \<and> um_end_number (pm_unacked_packets m) = mk_recent_packet_number (cl_packet_maker c) + 1
       \<and> sp_encrypted_length (mk_packet_template (cl_packet_maker c)) = 1472
       \<and> full_packets xs \<and> flight_count xs \<le> 100000
       \<and> 3 \<le> unat (sc_cwnd sc) \<and> unat (sc_cwnd sc) \<le> 99184 \<and> sc_pacing_rate sc \<le> 100000000)"

lemma client_ok_bytes:
  assumes "client_ok c"
  shows "unat (cl_bytes_in_flight c) = 1472 * flight_count (um_list (pm_unacked_packets (cl_send_manager c)))"
proof -
  have "pm_inv (cl_send_manager c)" using assms by (simp add: client_ok_def Let_def bbr2.mgr_ok_def)
  from um_stateD(3) [OF pm_inv_state [OF this]] assms full_packets_bytes show ?thesis
    by (simp add: client_ok_def Let_def)
qed

lemma client_ok_new:
  assumes "Client (Create_BBRv2 now rng junk) flag = Some c"
  shows "client_ok c" "mk_recent_packet_number (cl_packet_maker c) = 0" "cl_send_control c = SendControl"
    "cl_packet_maker c = SerializedPacketMaker" "um_least_unacked (pm_unacked_packets (cl_send_manager c)) = 1"
    "cl_bytes_in_flight c = 0"
proof -
  from bbr2_manager [of IS_CLIENT now rng junk cs_new flag] obtain m where
    m: "QuicSentPacketManager IS_CLIENT (Create_BBRv2 now rng junk) cs_new flag = Some m" "bbr2.mgr_ok m"
    "um_list (pm_unacked_packets m) = []" by blast
  then have n: "pm_unacked_packets m = um_new IS_CLIENT"
    by (auto simp: QuicSentPacketManager_def bind_eq_Some_conv)
  then have "um_end_number (pm_unacked_packets m) = 1"
    by (simp add: um_new_def um_end_number_def pn_plus_def FirstSendingPacketNumber_def dq_new_def dq_size_def)
  moreover have c: "c = \<lparr>cl_packet_maker = SerializedPacketMaker, cl_send_manager = m, cl_send_control = SendControl\<rparr>"
    using assms m(1) by (simp add: Client_def)
  ultimately show "client_ok c" using m(2,3)
    by (simp add: client_ok_def Let_def SerializedPacketMaker_def SerializedPacket_def SendControl_def full_packets_def
        INITIAL_CWND_SIZE_def INITIAL_PACING_RATE_def u64_of_def)
  show "mk_recent_packet_number (cl_packet_maker c) = 0" "cl_send_control c = SendControl"
    "cl_packet_maker c = SerializedPacketMaker" "um_least_unacked (pm_unacked_packets (cl_send_manager c)) = 1"
    "cl_bytes_in_flight c = 0"
    by (simp_all add: c SerializedPacketMaker_def n um_new_def FirstSendingPacketNumber_def)
qed

subsection \<open>A step of the client\<close>

definition sends :: "quic_time \<Rightarrow> 'a client \<Rightarrow> bool" where
  "sends now c \<longleftrightarrow> cl_bytes_in_flight c div 1472 < sc_cwnd (cl_send_control c)
     \<and> sc_next_send_timestamp (cl_send_control c) < now"

lemma default_size [simp]: "ucast DEFAULT_PACKET_SIZE = (1472 :: u64)" "unat DEFAULT_PACKET_SIZE = 1472"
  by (simp_all add: DEFAULT_PACKET_SIZE_def)

lemma cl_SendPacket_waits: "\<not> sends now c \<Longrightarrow> cl_SendPacket ops usable now now' now'' sent c = Some (Running (c, None))"
  by (auto simp: cl_SendPacket_def IsTimeToSendNextPacket_def sends_def)

lemma cl_SendPacket_pauses:
  assumes "sends now c" "sc_pacing_rate (cl_send_control c) = 0 \<or> \<not> sent" "1440 < usable 1440"
  shows "cl_SendPacket ops usable now now' now'' sent c = Some Paused"
  using assms
  by (auto simp: cl_SendPacket_def IsTimeToSendNextPacket_def sends_def SetNextSendTime_def MakePacketAndSendFromBuf_def
      Serialize_eq Let_def)

lemma cl_SendPacket_sends:
  assumes ok: "client_ok c" and s: "sends now c" "0 < sc_pacing_rate (cl_send_control c)" and u: "1440 < usable 1440"
    and t: "time_ok now''" and n: "unat (mk_recent_packet_number (cl_packet_maker c)) < 2 ^ 62"
  shows "\<exists>c'. cl_SendPacket bbr2_ops usable now now' now'' True c
      = Some (Running (c', Some (datagram ((mk_packet_template (cl_packet_maker c))
          \<lparr>sp_packet_number := mk_recent_packet_number (cl_packet_maker c) + 1, sp_send_time := now''\<rparr>))))
    \<and> client_ok c' \<and> mk_recent_packet_number (cl_packet_maker c') = mk_recent_packet_number (cl_packet_maker c) + 1
    \<and> unat (cl_bytes_in_flight c') = unat (cl_bytes_in_flight c) + 1472
    \<and> unat (cl_bytes_in_flight c') \<le> 1472 * unat (sc_cwnd (cl_send_control c))
    \<and> um_least_unacked (pm_unacked_packets (cl_send_manager c')) = um_least_unacked (pm_unacked_packets (cl_send_manager c))
    \<and> cl_send_control c' = (cl_send_control c)\<lparr>sc_next_send_timestamp :=
        time_plus now' (send_interval (sc_pacing_rate (cl_send_control c)))\<rparr>
    \<and> (\<exists>k. um_list (pm_unacked_packets (cl_send_manager c')) = um_list (pm_unacked_packets (cl_send_manager c))
        @ replicate k hole @ [(ti_new (mk_recent_packet_number (cl_packet_maker c) + 1) now'' 1472)\<lparr>ti_in_flight := True\<rparr>])"
proof -
  let ?mk = "cl_packet_maker c" and ?m = "cl_send_manager c" and ?sc = "cl_send_control c"
  let ?p = "(mk_packet_template ?mk)\<lparr>sp_packet_number := mk_recent_packet_number ?mk + 1, sp_send_time := now''\<rparr>"
  let ?xs = "um_list (pm_unacked_packets ?m)"
  note okD = ok [unfolded client_ok_def Let_def]
  have pn: "unat (mk_recent_packet_number ?mk + 1) = unat (mk_recent_packet_number ?mk) + 1"
    using n by (simp add: unat_u64_plus)
  have "pm_allowed (SendPkt ?p now'') ?m" using okD t n pn by simp
  from bbr2.OnPacketSent_ok [OF _ this] okD obtain m' k where
    m': "pm_OnPacketSent bbr2_ops ?p now'' ?m = Some (m', True)" "bbr2.mgr_ok m'"
    "um_list (pm_unacked_packets m') = ?xs @ replicate k hole
      @ [(ti_new (mk_recent_packet_number ?mk + 1) now'' 1472)\<lparr>ti_in_flight := True\<rparr>]"
    "um_end_number (pm_unacked_packets m') = mk_recent_packet_number ?mk + 1 + 1"
    "um_least_unacked (pm_unacked_packets m') = um_least_unacked (pm_unacked_packets ?m)"
    by auto
  define c' where "c' = c\<lparr>cl_packet_maker := ?mk\<lparr>mk_recent_packet_number := mk_recent_packet_number ?mk + 1,
      mk_packet_template := ?p\<rparr>, cl_send_manager := m',
    cl_send_control := ?sc\<lparr>sc_next_send_timestamp := time_plus now' (send_interval (sc_pacing_rate ?sc))\<rparr>\<rparr>"
  have cnt: "flight_count (um_list (pm_unacked_packets m')) = flight_count ?xs + 1"
    by (simp add: m'(3) ti_new_def)
  have "unat (cl_bytes_in_flight c) div 1472 < unat (sc_cwnd ?sc)"
    using s(1) by (simp add: sends_def word_less_nat_alt unat_div)
  then have lt: "flight_count ?xs < unat (sc_cwnd ?sc)" using client_ok_bytes [OF ok] by simp
  have ok': "client_ok c'"
    using okD m'(2,4) cnt lt by (auto simp: client_ok_def Let_def c'_def m'(3) full_packets_def ti_new_def)
  have "cl_SendPacket bbr2_ops usable now now' now'' True c = Some (Running (c', Some (datagram ?p)))"
    using s u m'(1)
    by (auto simp: cl_SendPacket_def IsTimeToSendNextPacket_def sends_def SetNextSendTime_def MakePacketAndSendFromBuf_def
        Serialize_eq Let_def MakePacket_def ResetTemplate_def pn_inc_def c'_def)
  moreover have "unat (cl_bytes_in_flight c') = 1472 * (flight_count ?xs + 1)"
    using client_ok_bytes [OF ok'] cnt by (simp add: c'_def)
  moreover have "\<exists>k. um_list (pm_unacked_packets m') = ?xs @ replicate k hole
      @ [(ti_new (mk_recent_packet_number ?mk + 1) now'' 1472)\<lparr>ti_in_flight := True\<rparr>]" using m'(3) by blast
  ultimately show ?thesis using ok' client_ok_bytes [OF ok] lt
    by (intro exI [of _ c']) (simp add: c'_def m'(5))
qed


lemma bbr2_window_packets:
  assumes "bbr2.mgr_ok m"
  shows "3 \<le> unat (GetCongestionWindowInBytes bbr2_ops m div 1472) \<and> unat (GetCongestionWindowInBytes bbr2_ops m div 1472) \<le> 99184"
proof -
  let ?w = "GetCongestionWindowInBytes bbr2_ops m"
  have "4 * 1460 \<le> ?w \<and> ?w \<le> 100000 * 1460"
    using assms bbr2_ok_window by (simp add: bbr2.mgr_ok_def GetCongestionWindowInBytes_def bbr2_ops_def)
  then have "5840 \<le> unat ?w \<and> unat ?w \<le> 146000000" by (simp add: word_le_nat_alt)
  then have "5840 div 1472 \<le> unat ?w div 1472 \<and> unat ?w div 1472 \<le> 146000000 div 1472"
    by (intro conjI div_le_mono) simp_all
  then show ?thesis by (simp add: unat_div)
qed

lemma OnPacketReceived_ok:
  assumes ok: "client_ok c" and t: "time_ok time" and p: "UnSerialize buf = Some p"
    and cov: "um_covers (pm_unacked_packets (cl_send_manager c)) (sp_packet_number p)"
  shows "\<exists>c'. OnPacketReceived bbr2_ops buf time time' c = Some c' \<and> client_ok c' \<and> cl_packet_maker c' = cl_packet_maker c
    \<and> sc_next_send_timestamp (cl_send_control c') = sc_next_send_timestamp (cl_send_control c)
    \<and> sc_cwnd (cl_send_control c') = GetCongestionWindowInBytes bbr2_ops (cl_send_manager c') div 1472
    \<and> (\<exists>r L. lost_set (cl_send_manager c\<lparr>pm_rtt_stats := r\<rparr>) time (sp_packet_number p) L
        \<and> L \<inter> {um_offset (pm_unacked_packets (cl_send_manager c)) (sp_packet_number p)} = {}
        \<and> um_list (pm_unacked_packets (cl_send_manager c'))
          = after_ack {um_offset (pm_unacked_packets (cl_send_manager c)) (sp_packet_number p)} L
              (um_list (pm_unacked_packets (cl_send_manager c))))"
proof -
  let ?m = "cl_send_manager c" and ?n = "sp_packet_number p"
  let ?xs = "um_list (pm_unacked_packets ?m)"
  note okD = ok [unfolded client_ok_def Let_def]
  have mok: "bbr2.mgr_ok ?m" using okD by simp
  then have inv: "pm_inv ?m" "bbr2_ok (pm_send_algorithm ?m)" "pm_idle ?m" by (simp_all add: bbr2.mgr_ok_def)
  from OnAckFrameStart_spec [OF inv(1) t, of ?n] obtain r b where
    r: "OnAckFrameStart ?n time ?m = Some (?m\<lparr>pm_rtt_stats := r, pm_rtt_updated := b\<rparr>)" "rtt_inv r" by blast
  let ?m1 = "OnAckRange time' ?n (pn_plus ?n 1) (?m\<lparr>pm_rtt_stats := r, pm_rtt_updated := b\<rparr>)"
  have a: "pm_packets_acked ?m1 = [\<lparr>ap_packet_number = ?n, ap_bytes_acked = DEFAULT_PACKET_SIZE, ap_receive_timestamp = time'\<rparr>]"
    "tracked_offsets (pm_unacked_packets ?m1) (List.map ap_packet_number (pm_packets_acked ?m1)) = {um_offset (pm_unacked_packets ?m) ?n}"
    using inv by (simp_all add: OnAckRange_def pm_idle_def tracked_offsets_def)
  have m1: "pm_unacked_packets ?m1 = pm_unacked_packets ?m" "pm_inv ?m1" "bbr2_ok (pm_send_algorithm ?m1)"
    "pm_packets_acked ?m1 \<noteq> []" "pm_packets_lost ?m1 = []"
    "\<forall>q \<in> set (pm_packets_acked ?m1). um_covers (pm_unacked_packets ?m1) (ap_packet_number q)"
    using inv r(2) cov by (simp_all add: OnAckRange_def pm_inv_def pm_idle_def)
  from bbr2.OnAckFrameEnd_ok [OF m1(2,3) t m1(4,5,6), of ?n] obtain m2 L where
    m2: "OnAckFrameEnd bbr2_ops time ?n ?m1 = Some (m2, PACKETS_NEWLY_ACKED)" "bbr2.mgr_ok m2"
    "um_list (pm_unacked_packets m2) = after_ack (tracked_offsets (pm_unacked_packets ?m1)
      (List.map ap_packet_number (pm_packets_acked ?m1))) L (um_list (pm_unacked_packets ?m1))"
    "um_end_number (pm_unacked_packets m2) = um_end_number (pm_unacked_packets ?m1)"
    and L: "lost_set ?m1 time (ap_packet_number (hd (pm_packets_acked ?m1))) L"
      "L \<inter> tracked_offsets (pm_unacked_packets ?m1) (List.map ap_packet_number (pm_packets_acked ?m1)) = {}"
    by (elim exE conjE, intro that) assumption+
  have "lost_set (?m\<lparr>pm_rtt_stats := r\<rparr>) time ?n L"
    by (rule lost_set_cong [THEN iffD1, OF _ _ _ L(1) [unfolded a(1) list.sel acked_packet.simps]])
      (simp_all add: OnAckRange_def)
  note L = this L(2) [unfolded a(2)] m2(3) [unfolded a(2), unfolded m1(1)]
  have sh: "flight_shrinks ?xs (um_list (pm_unacked_packets m2))"
    using after_ack_shrinks by (simp add: m2(3) m1(1))
  let ?b = "PacingRate (pm_send_algorithm m2)"
  let ?rate = "if MAX_PACING_RATE < u64_of (ToBitsPerSecond ?b) then MAX_PACING_RATE else u64_of (ToBitsPerSecond ?b)"
  let ?c = "c\<lparr>cl_send_manager := m2, cl_send_control := (cl_send_control c)\<lparr>sc_pacing_rate := ?rate,
    sc_cwnd := GetCongestionWindowInBytes bbr2_ops m2 div 1472\<rparr>\<rparr>"
  have "OnPacketReceived bbr2_ops buf time time' c = Some ?c"
    using p r(1) m2(1) by (simp add: OnPacketReceived_def GetPacingRate_def bbr2_ops_def Let_def)
  moreover have "client_ok ?c"
  proof -
    have "?rate \<le> 100000000" by (auto simp: MAX_PACING_RATE_def not_less)
    moreover have "full_packets (um_list (pm_unacked_packets m2))" "flight_count (um_list (pm_unacked_packets m2)) \<le> 100000"
      using okD full_packets_shrinks [OF _ sh] sh by (auto simp: flight_shrinks_def)
    ultimately show ?thesis
      using okD m2(2,4) m1(1) bbr2_window_packets [OF m2(2)] by (simp add: client_ok_def Let_def)
  qed
  ultimately show ?thesis using L by (intro exI [of _ ?c]) auto
qed

lemma Timeout_client_ok:
  assumes ok: "client_ok c" and t: "time_ok t"
  shows "\<exists>m. pm_OnRetransmissionTimeout bbr2_ops t (cl_send_manager c) = Some (m, GetRetransmissionMode (cl_send_manager c))
    \<and> client_ok (c\<lparr>cl_send_manager := m\<rparr>)
    \<and> (GetRetransmissionMode (cl_send_manager c) = RTO_MODE \<longrightarrow> um_list (pm_unacked_packets m) = [])
    \<and> (GetRetransmissionMode (cl_send_manager c) = LOSS_MODE
        \<longrightarrow> (\<exists>L. lost_set (cl_send_manager c) t (pm_largest_newly_acked (cl_send_manager c)) L
          \<and> (let zs = settled NEVER_SENT L (um_list (pm_unacked_packets (cl_send_manager c)))
             in um_list (pm_unacked_packets m) = zs \<or> um_list (pm_unacked_packets m) = dropWhile useless zs)))"
proof -
  let ?m = "cl_send_manager c"
  note okD = ok [unfolded client_ok_def Let_def]
  from bbr2.Timeout_ok [OF _ t, of ?m] okD obtain m where
    m: "pm_OnRetransmissionTimeout bbr2_ops t ?m = Some (m, GetRetransmissionMode ?m)" "bbr2.mgr_ok m"
    "um_end_number (pm_unacked_packets m) = um_end_number (pm_unacked_packets ?m)"
    "flight_shrinks (um_list (pm_unacked_packets ?m)) (um_list (pm_unacked_packets m))"
    and modes: "GetRetransmissionMode ?m = RTO_MODE \<longrightarrow> um_list (pm_unacked_packets m) = []"
    "GetRetransmissionMode ?m = LOSS_MODE \<longrightarrow> (\<exists>L. lost_set ?m t (pm_largest_newly_acked ?m) L
        \<and> (let zs = settled NEVER_SENT L (um_list (pm_unacked_packets ?m))
           in um_list (pm_unacked_packets m) = zs \<or> um_list (pm_unacked_packets m) = dropWhile useless zs))" by blast
  have "client_ok (c\<lparr>cl_send_manager := m\<rparr>)"
    using okD m(2-4) full_packets_shrinks [OF _ m(4)] by (auto simp: client_ok_def Let_def flight_shrinks_def)
  with m(1) modes show ?thesis by blast
qed

lemma input_receive_ok:
  assumes ok: "client_ok c" and i: "clocks_ok i" "ack_expected i c"
  shows "\<exists>c'. input_receive bbr2_ops i c = Some c' \<and> client_ok c' \<and> cl_packet_maker c' = cl_packet_maker c"
proof -
  obtain u u' where u: "in_receive i = (u, u')" by (cases "in_receive i")
  have t: "time_ok (clock_Now u)" "time_ok (clock_Now u')"
    using i(1) clock_Now_range [of u] clock_Now_range [of u'] u by (auto simp: clocks_ok_def split: prod.splits)
  show ?thesis
  proof (cases "in_datagram i = None \<or> in_datagram i = Some []")
    case True
    with Timeout_client_ok [OF ok t(2)] ok u show ?thesis
      by (auto simp: input_receive_def ReceivePacket_def)
  next
    case False
    then obtain p where "UnSerialize (receive_buf (the (in_datagram i))) = Some p"
      "um_covers (pm_unacked_packets (cl_send_manager c)) (sp_packet_number p)"
      using i(2) by (auto simp: ack_expected_def split: option.splits)
    from OnPacketReceived_ok [OF ok t(1) this] False u show ?thesis
      by (auto simp: input_receive_def ReceivePacket_def)
  qed
qed

lemma input_send_ok:
  assumes ok: "client_ok c" and i: "clocks_ok i" and u: "1440 < usable 1440"
    and n: "unat (mk_recent_packet_number (cl_packet_maker c)) < 2 ^ 62"
  shows "\<exists>o'. input_send bbr2_ops usable i c = Some o' \<and> (\<forall>c' d. o' = Running (c', d) \<longrightarrow> client_ok c'
    \<and> unat (mk_recent_packet_number (cl_packet_maker c')) \<le> unat (mk_recent_packet_number (cl_packet_maker c)) + 1
    \<and> (d \<noteq> None \<longrightarrow> unat (cl_bytes_in_flight c') \<le> 1472 * unat (sc_cwnd (cl_send_control c))))"
proof -
  obtain t t' t'' where t: "in_send i = (t, t', t'')" by (cases "in_send i") auto
  have tok: "time_ok (clock_Now t'')"
    using i clock_Now_range [of t''] t by (auto simp: clocks_ok_def split: prod.splits)
  show ?thesis
  proof (cases "sends (clock_Now t) c")
    case False
    with cl_SendPacket_waits [OF False, of bbr2_ops usable "clock_Now t'" "clock_Now t''" "in_sent i"] ok t
    show ?thesis by (simp add: input_send_def)
  next
    case True
    show ?thesis
    proof (cases "sc_pacing_rate (cl_send_control c) = 0 \<or> \<not> in_sent i")
      case True
      with cl_SendPacket_pauses [where usable = usable, OF \<open>sends (clock_Now t) c\<close> True u] t show ?thesis by (auto simp: input_send_def)
    next
      case False
      then have "0 < sc_pacing_rate (cl_send_control c)" "in_sent i" by (simp_all add: word_gt_0)
      with cl_SendPacket_sends [where usable = usable, OF ok True _ u tok n, of "clock_Now t'"] t n show ?thesis
        by (auto simp: input_send_def unat_u64_plus)
    qed
  qed
qed

text \<open>Packet numbers count the iterations.\<close>

lemma client_test1_ok:
  assumes "client_ok c" "1440 < usable 1440" "client_legal bbr2_ops usable is c"
    "unat (mk_recent_packet_number (cl_packet_maker c)) + length is < 2 ^ 62"
  shows "\<exists>o'. client_test1 bbr2_ops usable is c = Some o' \<and> (\<forall>c'. o' = Running c' \<longrightarrow> client_ok c'
    \<and> unat (mk_recent_packet_number (cl_packet_maker c'))
        \<le> unat (mk_recent_packet_number (cl_packet_maker c)) + length is)"
  using assms
proof (induction "is" arbitrary: c)
  case (Cons i "is")
  have i: "clocks_ok i" using Cons.prems(3) by simp
  from input_send_ok [where usable = usable, OF Cons.prems(1) i Cons.prems(2)] Cons.prems(4) obtain o' where
    o': "input_send bbr2_ops usable i c = Some o'" "\<And>c' d. o' = Running (c', d) \<Longrightarrow> client_ok c'
      \<and> unat (mk_recent_packet_number (cl_packet_maker c')) \<le> unat (mk_recent_packet_number (cl_packet_maker c)) + 1" by auto
  show ?case
  proof (cases o')
    case Paused
    with o'(1) show ?thesis by simp
  next
    case (Running cd)
    obtain c1 d where cd: "cd = (c1, d)" by (cases cd)
    note c1 = o'(2) [OF Running [unfolded cd]]
    have a: "ack_expected i c1" "\<And>c2. input_receive bbr2_ops i c1 = Some c2 \<Longrightarrow> client_legal bbr2_ops usable is c2"
      using Cons.prems(3) o'(1) Running cd by auto
    from input_receive_ok [OF c1 [THEN conjunct1] i a(1)] obtain c2 where
      c2: "input_receive bbr2_ops i c1 = Some c2" "client_ok c2" "cl_packet_maker c2 = cl_packet_maker c1" by blast
    have "unat (mk_recent_packet_number (cl_packet_maker c2)) + length is < 2 ^ 62" using c1 c2(3) Cons.prems(4) by simp
    from Cons.IH [OF c2(2) Cons.prems(2) a(2) [OF c2(1)] this] o'(1) Running cd c2(1,3) c1 show ?thesis by fastforce
  qed
qed simp


subsection \<open>Pacing\<close>

text \<open>The rounded quotient of two integers below \<open>2\<^sup>5\<^sup>3\<close> has the integer part of the exact quotient.\<close>

lemma f64_quotient:
  assumes r: "0 < r" and N: "0 \<le> N" "N < 2 ^ 53"
  shows "of_int (N div r) \<le> f64 (of_int N / of_int r) \<and> f64 (of_int N / of_int r) < of_int (N div r) + 1"
proof -
  let ?q = "of_int N / of_int r :: rat" and ?n = "N div r"
  have n: "0 \<le> ?n" "?n \<le> N" using r N by (simp_all add: int_div_nonneg int_div_le)
  have d: "?n * r \<le> N" "N + 1 \<le> (?n + 1) * r"
    using div_mult_mod_eq [of N r] pos_mod_sign [OF r, of N] pos_mod_bound [OF r, of N] unfolding distrib_right by linarith+
  have "(of_int (?n * r) :: rat) \<le> of_int N" using d(1) by (simp only: of_int_le_iff)
  then have lo: "of_int ?n \<le> ?q" using r by (simp add: pos_le_divide_eq)
  have "(of_int (N + 1) :: rat) \<le> of_int ((?n + 1) * r)" using d(2) by (simp only: of_int_le_iff)
  then have hi: "?q + 1 / of_int r \<le> of_int ?n + 1" using r by (simp add: field_simps)
  have "0 \<le> ?q" using r N by simp
  then have "f64 ?q \<le> ?q * (1 + 1 / 2 ^ 53)" by (rule rnd_upper) simp
  also have "\<dots> = ?q + of_int N / 2 ^ 53 / of_int r" by (simp add: field_simps)
  also have "of_int N / 2 ^ 53 / of_int r < (1 / of_int r :: rat)"
  proof -
    have "(of_int N :: rat) < of_int (2 ^ 53)" using N(2) by (simp only: of_int_less_iff)
    then show ?thesis using r by (intro divide_strict_right_mono) simp_all
  qed
  finally have "f64 ?q < of_int ?n + 1" using hi by linarith
  moreover have "of_int ?n \<le> f64 ?q" using n N(2) by (intro rnd_ge_int [OF lo]) simp_all
  ultimately show ?thesis by blast
qed

lemma send_interval_eq:
  assumes "0 < rate" "rate \<le> 100000000"
  shows "send_interval rate = 11776000000 div uint rate"
proof -
  define r where "r = uint rate"
  have r: "0 < r" "r \<le> 100000000" using assms by (simp_all add: r_def u64_less_iff u64_le_iff)
  let ?n = "11776000000 div r" and ?f = "f64 (of_int 11776000000 / of_int r)"
  have "f64 (11776000000 :: rat) = 11776000000" using rnd_of_int [of 11776000000 53] by simp
  moreover have "u64_f64 rate = of_int r" using r unfolding r_def by (intro rnd_of_int) simp_all
  ultimately have i: "send_interval rate = FromMicroseconds (i64_of (f_to_u64 ?f))"
    by (simp add: send_interval_def BITS_PER_BYTE_def ONE_SECOND_def)
  have n: "0 \<le> ?n" "?n \<le> 11776000000" using r by (simp_all add: int_div_nonneg int_div_le)
  have f: "of_int ?n \<le> ?f" "?f < of_int ?n + 1"
    using f64_quotient [of r 11776000000] r by simp_all
  have "(0 :: rat) \<le> of_int ?n" "(of_int ?n :: rat) \<le> of_int 11776000000" using n by (simp_all only: of_int_0_le_iff of_int_le_iff)
  with f have "0 \<le> ?f" "?f < 11776000001" by simp_all
  then have "0 \<le> ?f" "?f < 2 ^ 64" by simp_all
  moreover have "ctrunc ?f = ?n" using \<open>0 \<le> ?f\<close> f by (simp add: ctrunc_def floor_unique)
  ultimately have "uint (f_to_u64 ?f) = ?n" by (simp add: uint_f_to_u64)
  then show ?thesis using n by (simp add: i FromMicroseconds_def i64_of_small r_def)
qed


lemma MakePacketAndSendFromBuf_control:
  "MakePacketAndSendFromBuf ops usable now sent c = Some (Running (c', d)) \<Longrightarrow> cl_send_control c' = cl_send_control c"
  by (auto simp: MakePacketAndSendFromBuf_def Let_def bind_eq_Some_conv split: if_splits)

text \<open>Either nothing is sent or a packet is, after the time of the next one has been set.\<close>

lemma SendPacket_cases:
  assumes "cl_SendPacket ops usable t t' t'' sent c = Some (Running (c', d))"
  obtains (waits) "d = None" "c' = c" "\<not> sends t c"
  | (packet) dg where "d = Some dg" "sends t c" "0 < sc_pacing_rate (cl_send_control c)"
      "MakePacketAndSendFromBuf ops usable t'' sent (c\<lparr>cl_send_control := (cl_send_control c)\<lparr>sc_next_send_timestamp :=
        time_plus t' (send_interval (sc_pacing_rate (cl_send_control c)))\<rparr>\<rparr>) = Some (Running (c', dg))"
proof (cases "sends t c")
  case False
  with assms waits show thesis by (simp add: cl_SendPacket_waits)
next
  case s: True
  have p: "0 < sc_pacing_rate (cl_send_control c)"
    using assms s by (auto simp: cl_SendPacket_def IsTimeToSendNextPacket_def sends_def SetNextSendTime_def split: if_splits)
  let ?c = "c\<lparr>cl_send_control := (cl_send_control c)\<lparr>sc_next_send_timestamp :=
    time_plus t' (send_interval (sc_pacing_rate (cl_send_control c)))\<rparr>\<rparr>"
  have "cl_SendPacket ops usable t t' t'' sent c = map_option
      (\<lambda>o'. case o' of Paused \<Rightarrow> Paused | Running (c, d) \<Rightarrow> Running (c, Some d)) (MakePacketAndSendFromBuf ops usable t'' sent ?c)"
    using s p by (cases "MakePacketAndSendFromBuf ops usable t'' sent ?c")
      (simp_all add: cl_SendPacket_def IsTimeToSendNextPacket_def sends_def SetNextSendTime_def)
  with assms obtain o' where o': "MakePacketAndSendFromBuf ops usable t'' sent ?c = Some o'"
    "(case o' of Paused \<Rightarrow> Paused | Running (c, d) \<Rightarrow> Running (c, Some d)) = Running (c', d)" by auto
  then obtain dg where "d = Some dg" "MakePacketAndSendFromBuf ops usable t'' sent ?c = Some (Running (c', dg))"
    by (cases o') auto
  with s p packet show thesis by blast
qed

lemma SendPacket_control:
  assumes "cl_SendPacket ops usable t t' t'' sent c = Some (Running (c', Some d))"
  shows "sends t c" "0 < sc_pacing_rate (cl_send_control c)"
    "sc_next_send_timestamp (cl_send_control c') = time_plus t' (send_interval (sc_pacing_rate (cl_send_control c)))"
  using assms by (auto elim!: SendPacket_cases dest: MakePacketAndSendFromBuf_control)

subsection \<open>An example\<close>

lemma receive_buf_datagram: "receive_buf (datagram p) = datagram p @ NUL # replicate 8528 NUL"
proof -
  have "replicate (10000 - length (datagram p)) NUL = NUL # replicate 8528 NUL"
    unfolding datagram_length replicate_Suc [symmetric] by simp
  then show ?thesis by (simp add: receive_buf_def RECEIVE_BUF_SIZE_def datagram_length)
qed

definition example_time :: "int \<Rightarrow> timeval" where "example_time us = \<lparr>tv_sec = 0, tv_usec = us\<rparr>"

lemma clock_example [simp]: "0 \<le> us \<Longrightarrow> us < 1000000 \<Longrightarrow> clock_Now (example_time us) = us + 1"
  "0 \<le> us \<Longrightarrow> us < 1000000 \<Longrightarrow> timeval_ok (example_time us)"
  by (simp_all add: clock_Now_eq timeval_ok_def example_time_def)

text \<open>The first packet, sent at 1000 microseconds, comes back at 90000 microseconds.\<close>

definition example_first :: serialized_packet where
  "example_first = SerializedPacket\<lparr>sp_packet_number := 1, sp_send_time := 1000\<rparr>"

definition example_input :: client_input where
  "example_input = \<lparr>in_send = (example_time 999, example_time 999, example_time 999), in_sent = True,
     in_datagram = Some (datagram example_first), in_receive = (example_time 89999, example_time 89999)\<rparr>"

lemma example_first_sent:
  obtains c0 c1 where "Client (Create_BBRv2 0 (\<lambda>_. 7) (False, False)) False = Some c0" "client_ok c0"
    "cl_SendPacket bbr2_ops (\<lambda>n. n + 8) 1000 1000 1000 True c0 = Some (Running (c1, Some (datagram example_first)))"
    "ack_expected example_input c1" "cl_bytes_in_flight c1 = 1472" "client_ok c1" "cl_send_control c0 = SendControl"
proof -
  let ?u = "\<lambda>n :: nat. n + 8"
  from bbr2_manager [of IS_CLIENT 0 "\<lambda>_. 7" "(False, False)" cs_new False] obtain m where
    m: "QuicSentPacketManager IS_CLIENT (Create_BBRv2 0 (\<lambda>_. 7) (False, False)) cs_new False = Some m" by blast
  then obtain c0 where c0: "Client (Create_BBRv2 0 (\<lambda>_. 7) (False, False)) False = Some c0" by (simp add: Client_def)
  note new = client_ok_new [OF c0]
  have s: "sends 1000 c0" by (simp add: sends_def new(3,6) SendControl_def INITIAL_CWND_SIZE_def time_Zero_def)
  have r: "0 < sc_pacing_rate (cl_send_control c0)"
    by (simp add: new(3) SendControl_def INITIAL_PACING_RATE_def u64_of_def)
  from cl_SendPacket_sends [OF new(1) s r, of ?u 1000 1000] new(2,4,5) obtain c1 where
    c1: "cl_SendPacket bbr2_ops ?u 1000 1000 1000 True c0 = Some (Running (c1, Some (datagram example_first)))"
    "client_ok c1" "mk_recent_packet_number (cl_packet_maker c1) = 1" "unat (cl_bytes_in_flight c1) = 1472"
    "um_least_unacked (pm_unacked_packets (cl_send_manager c1)) = 1"
    by (auto simp: new(6) SerializedPacketMaker_def example_first_def)
  have "um_end_number (pm_unacked_packets (cl_send_manager c1)) = 2"
    using c1(2,3) by (simp add: client_ok_def Let_def)
  moreover have "UnSerialize (datagram example_first @ NUL # rest) = Some example_first" for rest
    by (simp add: UnSerialize_datagram) (simp add: example_first_def GetUint64_def uint_u64_of i64_of_def i64_def u64_of_def)
  ultimately have "ack_expected example_input c1"
    by (simp add: ack_expected_def example_input_def receive_buf_datagram um_covers_def c1(5))
      (simp add: example_first_def)
  moreover have "cl_bytes_in_flight c1 = 1472" using c1(4) by (simp add: word_unat_eq_iff)
  ultimately show thesis using that c0 new(1,3) c1(1,2) by blast
qed

subsection \<open>Properties\<close>

text \<open>C4. A client with a BBRv2 controller handles every history of its main loop in which the clock reads
  valid times, the allocator leaves a byte behind the padding block, and only datagrams of
  packets still tracked arrive: it either pauses for good or runs on without a failing step, and
  then its window is between 3 and 99184 packets, its pacing rate at most 100 Mbit/s, and at most
  100000 packets are in flight.\<close>

theorem client_handles_every_history:
  assumes "Client (Create_BBRv2 now rng junk) flag = Some c0" "SENDER_PADDING_LEN < usable SENDER_PADDING_LEN"
    and "client_legal bbr2_ops usable is c0" "length is < 2 ^ 62"
  shows "client_test1 bbr2_ops usable is c0 = Some Paused
    \<or> (\<exists>c. client_test1 bbr2_ops usable is c0 = Some (Running c) \<and> pm_inv (cl_send_manager c)
        \<and> 3 \<le> unat (sc_cwnd (cl_send_control c)) \<and> unat (sc_cwnd (cl_send_control c)) \<le> 99184
        \<and> sc_pacing_rate (cl_send_control c) \<le> MAX_PACING_RATE \<and> unat (cl_bytes_in_flight c) \<le> 100000 * 1472)"
proof -
  note new = client_ok_new [OF assms(1)]
  have u: "1440 < usable 1440" using assms(2) by (simp add: packet_lengths)
  from client_test1_ok [OF new(1) u assms(3)] new(2) assms(4) obtain o' where
    o': "client_test1 bbr2_ops usable is c0 = Some o'" "\<And>c. o' = Running c \<Longrightarrow> client_ok c" by auto
  show ?thesis
  proof (cases o')
    case (Running c)
    with o'(2) client_ok_bytes [of c] have "client_ok c"
      "unat (cl_bytes_in_flight c) = 1472 * flight_count (um_list (pm_unacked_packets (cl_send_manager c)))" by simp_all
    with o'(1) Running show ?thesis
      by (simp add: client_ok_def Let_def bbr2.mgr_ok_def MAX_PACING_RATE_def)
  qed (use o' in simp)
qed

lemma client_handles_every_history_witness:
  "\<exists>c0 c1 c2. Client (Create_BBRv2 0 (\<lambda>_. 7) (False, False)) False = Some c0
    \<and> input_send bbr2_ops (\<lambda>n. n + 8) example_input c0 = Some (Running (c1, Some (datagram example_first)))
    \<and> client_test1 bbr2_ops (\<lambda>n. n + 8) [example_input] c0 = Some (Running c2) \<and> pm_inv (cl_send_manager c2)"
proof -
  let ?u = "\<lambda>n :: nat. n + 8"
  obtain c0 c1 where c: "Client (Create_BBRv2 0 (\<lambda>_. 7) (False, False)) False = Some c0"
    "cl_SendPacket bbr2_ops ?u 1000 1000 1000 True c0 = Some (Running (c1, Some (datagram example_first)))"
    "ack_expected example_input c1" "client_ok c1" by (rule example_first_sent) blast
  have s: "input_send bbr2_ops ?u example_input c0 = Some (Running (c1, Some (datagram example_first)))"
    using c(2) by (simp add: input_send_def example_input_def)
  have k: "clocks_ok example_input" by (simp add: clocks_ok_def example_input_def)
  from input_receive_ok [OF c(4) k c(3)] obtain c2 where r: "input_receive bbr2_ops example_input c1 = Some c2" by blast
  have l: "client_legal bbr2_ops ?u [example_input] c0" using s k c(3) by simp
  have "SENDER_PADDING_LEN < ?u SENDER_PADDING_LEN" "length [example_input] < 2 ^ 62" by simp_all
  from client_handles_every_history [OF c(1) this(1) l this(2)] s r c(1) show ?thesis by simp
qed

text \<open>C23. The client never exceeds its congestion window: when it sends a packet after any such history, the
  bytes in flight are afterwards at most its window, counted in full packets.\<close>

theorem sends_fit_the_window:
  assumes "Client (Create_BBRv2 now rng junk) flag = Some c0" "SENDER_PADDING_LEN < usable SENDER_PADDING_LEN"
    and "client_legal bbr2_ops usable is c0" "length is < 2 ^ 62 - 1"
    and "client_test1 bbr2_ops usable is c0 = Some (Running c)" "clocks_ok i"
    and "input_send bbr2_ops usable i c = Some (Running (c', Some d))"
  shows "unat (cl_bytes_in_flight c') \<le> 1472 * unat (sc_cwnd (cl_send_control c))"
proof -
  note new = client_ok_new [OF assms(1)]
  have u: "1440 < usable 1440" using assms(2) by (simp add: packet_lengths)
  from client_test1_ok [OF new(1) u assms(3)] new(2) assms(4,5) have
    "client_ok c" "unat (mk_recent_packet_number (cl_packet_maker c)) < 2 ^ 62" by auto
  from input_send_ok [where usable = usable, OF this(1) assms(6) u this(2)] assms(7) show ?thesis by auto
qed

lemma sends_fit_the_window_witness:
  "\<exists>c0 c1. Client (Create_BBRv2 0 (\<lambda>_. 7) (False, False)) False = Some c0
    \<and> input_send bbr2_ops (\<lambda>n. n + 8) example_input c0 = Some (Running (c1, Some (datagram example_first)))
    \<and> cl_bytes_in_flight c1 = 1472 \<and> unat (cl_bytes_in_flight c1) \<le> 1472 * unat (sc_cwnd (cl_send_control c0))"
proof -
  let ?u = "\<lambda>n :: nat. n + 8"
  obtain c0 c1 where c: "Client (Create_BBRv2 0 (\<lambda>_. 7) (False, False)) False = Some c0"
    "cl_SendPacket bbr2_ops ?u 1000 1000 1000 True c0 = Some (Running (c1, Some (datagram example_first)))"
    "cl_bytes_in_flight c1 = 1472" by (rule example_first_sent) blast
  have s: "input_send bbr2_ops ?u example_input c0 = Some (Running (c1, Some (datagram example_first)))"
    using c(2) by (simp add: input_send_def example_input_def)
  have "clocks_ok example_input" by (simp add: clocks_ok_def example_input_def)
  from sends_fit_the_window [OF c(1) _ _ _ _ this s, of "[]"] c(1,3) s show ?thesis by simp
qed

text \<open>C24. Packets are paced: a packet is sent only after the time set for it, and the next one only more
  than the interval of the pacing rate later, which is the time 1472 bytes take at that rate,
  rounded down to microseconds.\<close>

theorem sends_are_paced:
  assumes "cl_SendPacket ops usable t t' t'' sent c = Some (Running (c', Some d))"
    and "sc_pacing_rate (cl_send_control c) \<le> MAX_PACING_RATE" "0 \<le> t'" "t' \<le> 100000000000"
  defines "interval \<equiv> 1472 * 8 * 1000000 div uint (sc_pacing_rate (cl_send_control c))"
  shows "sc_next_send_timestamp (cl_send_control c) < t \<and> 117 \<le> interval
    \<and> sc_next_send_timestamp (cl_send_control c') = t' + interval
    \<and> (u \<le> t' + interval \<longrightarrow> cl_SendPacket ops usable u u' u'' sent' c' = Some (Running (c', None)))"
proof -
  let ?r = "sc_pacing_rate (cl_send_control c)"
  note s = SendPacket_control(1,2) [OF assms(1)] and n = SendPacket_control(3) [OF assms(1)]
  have i: "send_interval ?r = interval"
    using send_interval_eq [OF s(2)] assms(2) by (simp add: interval_def MAX_PACING_RATE_def)
  have r: "0 < uint ?r" "uint ?r \<le> 100000000" using s(2) assms(2) by (simp_all add: u64_less_iff u64_le_iff MAX_PACING_RATE_def)
  have b: "117 \<le> interval" "interval \<le> 11776000000"
  proof -
    have "11776000000 div 100000000 \<le> 11776000000 div uint ?r" using r by (intro zdiv_mono2) simp_all
    then show "117 \<le> interval" by (simp add: interval_def)
    show "interval \<le> 11776000000" using int_div_le [of 11776000000 "uint ?r"] r by (simp add: interval_def)
  qed
  have p: "time_plus t' interval = t' + interval" using b assms(3,4) by (simp add: time_plus_def i64_small)
  have "cl_SendPacket ops usable u u' u'' sent' c' = Some (Running (c', None))" if "u \<le> t' + interval"
    using that n by (intro cl_SendPacket_waits) (simp add: sends_def i p)
  with s(1) n b(1) show ?thesis by (simp add: sends_def i p)
qed

lemma sends_are_paced_witness:
  "\<exists>c0 c1. cl_SendPacket bbr2_ops (\<lambda>n. n + 8) 1000 1000 1000 True c0 = Some (Running (c1, Some (datagram example_first)))
    \<and> sc_next_send_timestamp (cl_send_control c1) = 15720
    \<and> cl_SendPacket bbr2_ops (\<lambda>n. n + 8) 15720 15720 15720 True c1 = Some (Running (c1, None))"
proof -
  let ?u = "\<lambda>n :: nat. n + 8"
  obtain c0 c1 where c:
    "cl_SendPacket bbr2_ops ?u 1000 1000 1000 True c0 = Some (Running (c1, Some (datagram example_first)))"
    "cl_send_control c0 = SendControl" by (rule example_first_sent) blast
  have r: "sc_pacing_rate (cl_send_control c0) = 800000"
    by (simp add: c(2) SendControl_def INITIAL_PACING_RATE_def u64_of_def)
  from sends_are_paced [OF c(1), of 15720 15720 15720 True] r
  have "sc_next_send_timestamp (cl_send_control c1) = 15720"
    "cl_SendPacket bbr2_ops ?u 15720 15720 15720 True c1 = Some (Running (c1, None))"
    by (simp_all add: MAX_PACING_RATE_def)
  with c(1) show ?thesis by blast
qed

end
