(* ===== verification/Udp_Server.thy ===== *)
theory Udp_Server
  imports Udp_Client
begin

section \<open>The server\<close>

text \<open>
  \<open>server.h\<close> and \<open>server.cc\<close>: the server sends every datagram it receives back as its ack, counts
  the datagrams and prints the rate about once a second. The outcome of an operation carries the
  datagram that goes out and what is printed; readings of the clock, the results of \<open>recvfrom\<close> and
  the success of \<open>sendto\<close> are inputs.

  The lemmas show that the ack of a packet is its own datagram, in which the client finds the
  number of the packet, and what the printed count is the count of.
\<close>

record server =
  sv_packets_received_in_one_second :: u64
  sv_last_print_timestamp :: quic_time
  sv_print_receive_info_duration :: time_delta

definition Server :: "quic_time \<Rightarrow> server" where
  "Server now = \<lparr>sv_packets_received_in_one_second = 0, sv_last_print_timestamp = now,
     sv_print_receive_info_duration = FromMicroseconds (f_to_i64 ONE_SECOND)\<rparr>"

text \<open>The datagram is what \<open>strlen\<close> sees of the buffer.\<close>

definition SendACK :: "string \<Rightarrow> bool \<Rightarrow> string outcome option" where
  "SendACK buf sent = do {
     d \<leftarrow> c_string buf;
     Some (if \<not> sent then Paused else Running d) }"

text \<open>
  \<open>now'\<close> is the reading of the clock after printing. The result has the count and the rate that are
  printed.
\<close>

definition PrintReceiveRate :: "quic_time \<Rightarrow> quic_time \<Rightarrow> server \<Rightarrow> server \<times> (u64 \<times> cfloat) option" where
  "PrintReceiveRate now now' s =
     (if time_plus (sv_last_print_timestamp s) (sv_print_receive_info_duration s) < now
      then let n = sv_packets_received_in_one_second s;
               receive_rate = u64_f64 (n * ucast DEFAULT_PACKET_SIZE * of_nat BITS_PER_BYTE)
           in if receive_rate \<noteq> 0
              then (s\<lparr>sv_last_print_timestamp := now', sv_packets_received_in_one_second := 0\<rparr>,
                    Some (n, f64 (receive_rate / 1000)))
              else (s, None)
      else (s, None))"

text \<open>\<open>d\<close> is \<open>None\<close> when \<open>recvfrom\<close> fails.\<close>

definition ReceiveData :: "string option \<Rightarrow> bool \<Rightarrow> quic_time \<Rightarrow> quic_time \<Rightarrow> server
    \<Rightarrow> (server \<times> string option \<times> (u64 \<times> cfloat) option) outcome option" where
  "ReceiveData d sent now now' s = (case d of
       None \<Rightarrow> (case PrintReceiveRate now now' s of (s, out) \<Rightarrow> Some (Running (s, None, out)))
     | Some d \<Rightarrow> do {
         let s = s\<lparr>sv_packets_received_in_one_second := sv_packets_received_in_one_second s + 1\<rparr>;
         ack \<leftarrow> SendACK (receive_buf d) sent;
         Some (case ack of Paused \<Rightarrow> Paused
           | Running ack \<Rightarrow> (case PrintReceiveRate now now' s of (s, out) \<Rightarrow> Running (s, Some ack, out))) })"

subsection \<open>Acks\<close>

lemma SendACK_datagram: "SendACK (receive_buf (datagram p)) sent = Some (if sent then Running (datagram p) else Paused)"
  by (simp add: SendACK_def receive_buf_datagram c_string_digits [OF datagram_digits])

text \<open>The server's side of a history: what it received and whether the replies could be sent.\<close>

fun server_test1 :: "(string option \<times> bool \<times> quic_time \<times> quic_time) list \<Rightarrow> server
    \<Rightarrow> (server \<times> string list \<times> (u64 \<times> cfloat) list) outcome option" where
  "server_test1 [] s = Some (Running (s, [], []))"
| "server_test1 ((d, sent, now, now') # is) s = do {
     o' \<leftarrow> ReceiveData d sent now now' s;
     case o' of Paused \<Rightarrow> Some Paused
     | Running (s, ack, out) \<Rightarrow> do {
         o'' \<leftarrow> server_test1 is s;
         Some (case o'' of Paused \<Rightarrow> Paused
           | Running (s, acks, outs) \<Rightarrow> Running (s, (case ack of None \<Rightarrow> acks | Some a \<Rightarrow> a # acks),
               (case out of None \<Rightarrow> outs | Some x \<Rightarrow> x # outs))) } }"

definition received :: "(string option \<times> bool \<times> quic_time \<times> quic_time) list \<Rightarrow> string list" where
  "received is = List.map_filter fst is"

lemma PrintReceiveRate_count:
  "PrintReceiveRate now now' s = (s', out) \<Longrightarrow> (case out of None \<Rightarrow> 0 | Some x \<Rightarrow> fst x) + sv_packets_received_in_one_second s'
    = sv_packets_received_in_one_second s"
  by (auto simp: PrintReceiveRate_def Let_def split: if_splits)

lemma c_string_replies: "NUL \<in> set (receive_buf d) \<Longrightarrow> SendACK (receive_buf d) True = Some (Running (takeWhile (\<lambda>x. x \<noteq> NUL) (receive_buf d)))"
  by (simp add: SendACK_def c_string_def)

lemma receive_buf_short: "length d < RECEIVE_BUF_SIZE \<Longrightarrow> NUL \<in> set (receive_buf d)"
  by (simp add: receive_buf_def)

lemma ReceiveData_replies:
  "ReceiveData (Some d) sent now now' s = Some (Running (s1, ack, out)) \<Longrightarrow> ack \<noteq> None
    \<and> PrintReceiveRate now now' (s\<lparr>sv_packets_received_in_one_second := sv_packets_received_in_one_second s + 1\<rparr>) = (s1, out)"
  by (cases "SendACK (receive_buf d) sent") (auto simp: ReceiveData_def Let_def split: outcome.split_asm prod.split_asm)

lemma server_test1_counts:
  "server_test1 is s = Some (Running (s', acks, outs)) \<Longrightarrow> length acks = length (received is)
    \<and> sum_list (List.map fst outs) + sv_packets_received_in_one_second s'
      = sv_packets_received_in_one_second s + of_nat (length (received is))"
proof (induction "is" arbitrary: s acks outs)
  case Nil
  then show ?case by (simp add: received_def map_filter_simps)
next
  case (Cons i "is")
  obtain d sent now now' where i: "i = (d, sent, now, now')" by (cases i) auto
  from Cons.prems obtain r where r: "ReceiveData d sent now now' s = Some r" by (auto simp: i bind_eq_Some_conv)
  moreover have "r \<noteq> Paused" using Cons.prems r by (auto simp: i)
  ultimately obtain s1 ack out where r1: "r = Running (s1, ack, out)" by (cases r) auto
  from Cons.prems r r1 obtain r' where r': "server_test1 is s1 = Some r'" by (auto simp: i bind_eq_Some_conv)
  moreover have "r' \<noteq> Paused" using Cons.prems r r1 r' by (auto simp: i)
  ultimately obtain s2 acks' outs' where r2: "r' = Running (s2, acks', outs')" by (cases r') auto
  have 1: "ReceiveData d sent now now' s = Some (Running (s1, ack, out))"
    "server_test1 is s1 = Some (Running (s', acks', outs'))"
    "acks = (case ack of None \<Rightarrow> acks' | Some a \<Rightarrow> a # acks')"
    "outs = (case out of None \<Rightarrow> outs' | Some x \<Rightarrow> x # outs')"
    using Cons.prems r r' unfolding r1 r2 i by simp_all
  have "(ack = None \<longleftrightarrow> d = None) \<and> (case out of None \<Rightarrow> 0 | Some x \<Rightarrow> fst x) + sv_packets_received_in_one_second s1
      = sv_packets_received_in_one_second s + (if d = None then 0 else 1)"
  proof (cases d)
    case None
    with 1(1) show ?thesis by (auto simp: ReceiveData_def dest: PrintReceiveRate_count split: prod.split_asm)
  next
    case (Some d')
    from ReceiveData_replies [OF 1(1) [unfolded Some]] Some show ?thesis by (auto dest: PrintReceiveRate_count)
  qed
  with Cons.IH [OF 1(2)] 1(3,4) show ?case
    by (cases d; cases ack; cases out) (auto simp: i received_def map_filter_simps algebra_simps)
qed

text \<open>The server goes on while its replies can be sent and every datagram leaves a NUL in the buffer.\<close>

definition replies_ok :: "(string option \<times> bool \<times> quic_time \<times> quic_time) list \<Rightarrow> bool" where
  "replies_ok is \<longleftrightarrow> list_all (\<lambda>(d, sent, _). sent \<and> (case d of None \<Rightarrow> True | Some d \<Rightarrow> NUL \<in> set (receive_buf d))) is"

lemma server_test1_runs: "replies_ok is \<Longrightarrow> \<exists>r. server_test1 is s = Some (Running r)"
proof (induction "is" arbitrary: s)
  case (Cons i "is")
  obtain d now now' where i: "i = (d, True, now, now')" "case d of None \<Rightarrow> True | Some d \<Rightarrow> NUL \<in> set (receive_buf d)"
    using Cons.prems by (cases i) (auto simp: replies_ok_def)
  then have "\<exists>r. ReceiveData d True now now' s = Some (Running r)"
    by (cases d) (auto simp: ReceiveData_def c_string_replies Let_def split: prod.splits)
  then obtain s1 ack out where r: "ReceiveData d True now now' s = Some (Running (s1, ack, out))" by auto
  have "replies_ok is" using Cons.prems by (simp add: replies_ok_def)
  from Cons.IH [OF this, of s1] obtain s2 acks outs where "server_test1 is s1 = Some (Running (s2, acks, outs))" by auto
  with r show ?case by (simp add: i)
qed simp

subsection \<open>Properties\<close>

text \<open>Client and server fit together: whatever packet the client sends, the server's ack is the datagram
  itself, and the client finds in it the length and, below ten to the ten, the number of the packet.\<close>

theorem datagrams_are_acknowledged:
  assumes "Serialize usable p = Some d"
  shows "SendACK (receive_buf d) True = Some (Running d)
    \<and> (\<exists>q. UnSerialize (receive_buf d) = Some q \<and> sp_encrypted_length q = sp_encrypted_length p
        \<and> sp_packet_number q = sp_packet_number p mod 10 ^ 10
        \<and> (sp_packet_number p < 10 ^ 10 \<longrightarrow> sp_packet_number q = sp_packet_number p))"
proof -
  have d: "d = datagram p" using assms by (simp add: Serialize_eq split: if_splits)
  let ?q = "p\<lparr>sp_packet_number := of_nat (unat (sp_packet_number p) mod 10000000000),
     sp_send_time := i64_of (of_nat (unat (GetUint64 (sp_send_time p)) mod 10000000000))\<rparr>"
  have "UnSerialize (receive_buf d) = Some ?q" by (simp only: d receive_buf_datagram UnSerialize_datagram)
  moreover have "of_nat (unat (sp_packet_number p) mod 10000000000) = sp_packet_number p mod 10 ^ 10"
    by (simp add: word_unat_eq_iff unat_mod unat_of_nat)
  ultimately show ?thesis using SendACK_datagram by (simp add: d word_mod_eq_self)
qed

lemma datagrams_are_acknowledged_witness:
  "\<exists>d q. Serialize (\<lambda>n. n + 8) (SerializedPacket\<lparr>sp_packet_number := 42\<rparr>) = Some d
    \<and> SendACK (receive_buf d) True = Some (Running d) \<and> UnSerialize (receive_buf d) = Some q \<and> sp_packet_number q = 42"
proof -
  let ?p = "SerializedPacket\<lparr>sp_packet_number := 42\<rparr>"
  have d: "Serialize (\<lambda>n. n + 8) ?p = Some (datagram ?p)" by (simp add: Serialize_eq)
  from datagrams_are_acknowledged [OF this] d show ?thesis by (auto simp: word_less_nat_alt)
qed

text \<open>C32. As long as its replies can be sent and every datagram leaves a NUL in the buffer, the server answers
  each datagram once, and its printed counts and the datagrams counted since the last print add
  up to the datagrams it has received. A full buffer without NUL makes it read past its end.\<close>

theorem server_counts_datagrams:
  "(replies_ok is \<longrightarrow> (\<exists>s acks outs. server_test1 is (Server t) = Some (Running (s, acks, outs))
      \<and> length acks = length (received is)
      \<and> sum_list (List.map fst outs) + sv_packets_received_in_one_second s = of_nat (length (received is))))
    \<and> (NUL \<notin> set (receive_buf d) \<longrightarrow> server_test1 ((Some d, sent, now, now') # is) (Server t) = None)"
proof (intro conjI impI)
  assume "replies_ok is"
  from server_test1_runs [OF this] obtain s acks outs where
    r: "server_test1 is (Server t) = Some (Running (s, acks, outs))" by (metis prod_cases3)
  with server_test1_counts [OF r] show "\<exists>s acks outs. server_test1 is (Server t) = Some (Running (s, acks, outs))
      \<and> length acks = length (received is)
      \<and> sum_list (List.map fst outs) + sv_packets_received_in_one_second s = of_nat (length (received is))"
    by (simp add: Server_def)
next
  assume "NUL \<notin> set (receive_buf d)"
  then show "server_test1 ((Some d, sent, now, now') # is) (Server t) = None"
    by (simp add: ReceiveData_def SendACK_def c_string_def)
qed

lemma server_counts_datagrams_witness:
  "(\<exists>s acks outs. server_test1 [(Some ''0a'', True, 10, 10), (None, True, 20, 20), (Some ''0b'', True, 2000000, 2000000)] (Server 0)
      = Some (Running (s, acks, outs)) \<and> length acks = 2 \<and> sum_list (List.map fst outs) + sv_packets_received_in_one_second s = 2)
    \<and> server_test1 [(Some (replicate 10000 (CHR ''1'')), True, 10, 10)] (Server 0) = None"
proof
  let ?is = "[(Some ''0a'', True, 10, 10), (None, True, 20, 20), (Some ''0b'', True, 2000000, 2000000)]"
  have "replies_ok ?is" by (simp add: replies_ok_def receive_buf_short RECEIVE_BUF_SIZE_def)
  note c = server_counts_datagrams [of ?is 0, THEN conjunct1, THEN mp, OF this]
  have "length (received ?is) = 2" by (simp add: received_def map_filter_simps)
  with c show "\<exists>s acks outs. server_test1 ?is (Server 0) = Some (Running (s, acks, outs))
      \<and> length acks = 2 \<and> sum_list (List.map fst outs) + sv_packets_received_in_one_second s = 2"
    by (simp del: server_test1.simps)
  have "NUL \<notin> set (receive_buf (replicate 10000 (CHR ''1'')))"
    by (simp add: receive_buf_def RECEIVE_BUF_SIZE_def NUL_def del: replicate.simps)
  with server_counts_datagrams [of "[]"] show "server_test1 [(Some (replicate 10000 (CHR ''1'')), True, 10, 10)] (Server 0) = None"
    by (simp del: server_test1.simps)
qed

end
