(* ===== verification/Echo_Network.thy ===== *)
theory Echo_Network
  imports Udp_Server
begin

section \<open>Client and server over a network\<close>

text \<open>
  The two programs together: the client of \<open>client.cc\<close>, the server of \<open>server.cc\<close> and a network that
  delivers datagrams in order, with one queue for each direction. An event is one iteration of the
  main loop of either program, which says whether the next datagram of the queue has arrived, or
  the loss of a datagram in one of the queues. The network takes every datagram that is sent.

  The client must not be left without an ack for more than 200 ms after it last sent a packet
  while datagrams are under way; nothing is assumed of the time a datagram takes otherwise.

  The lemmas show that in a network that loses nothing every ack finds its packet tracked, so that
  the condition on datagrams in \<open>client_legal\<close> need not be assumed: packets, acks and the entries of
  the unacked packet map correspond to each other in order, and no packet is ever declared lost or
  dropped. \<open>Lossy_Network\<close> shows what remains of this when datagrams are lost.
\<close>

record 'a network =
  nw_client :: "'a client"
  nw_server :: server
  nw_data :: "string list"
  nw_acks :: "string list"

datatype net_event =
    ClientRuns "timeval \<times> timeval \<times> timeval" "timeval \<times> timeval" bool
  | ServerRuns quic_time quic_time bool
  | LosesData nat
  | LosesAck nat

definition lossless :: "net_event list \<Rightarrow> bool" where
  "lossless es \<longleftrightarrow> list_all (\<lambda>e. case e of LosesData _ \<Rightarrow> False | LosesAck _ \<Rightarrow> False | _ \<Rightarrow> True) es"

text \<open>The next datagram of a queue, if one arrives, and the rest of the queue.\<close>

definition arrival :: "bool \<Rightarrow> string list \<Rightarrow> string option \<times> string list" where
  "arrival arrives q = (if arrives \<and> q \<noteq> [] then (Some (hd q), tl q) else (None, q))"

definition without :: "nat \<Rightarrow> 'b list \<Rightarrow> 'b list" where
  "without k q = take k q @ drop (Suc k) q"

definition queued :: "string option \<Rightarrow> string list" where
  "queued d = (case d of None \<Rightarrow> [] | Some d \<Rightarrow> [d])"

definition iteration :: "timeval \<times> timeval \<times> timeval \<Rightarrow> string option \<Rightarrow> timeval \<times> timeval \<Rightarrow> client_input" where
  "iteration ts d us = \<lparr>in_send = ts, in_sent = True, in_datagram = d, in_receive = us\<rparr>"

fun net_step :: "'a send_algorithm_ops \<Rightarrow> (nat \<Rightarrow> nat) \<Rightarrow> net_event \<Rightarrow> 'a network \<Rightarrow> 'a network outcome option" where
  "net_step ops usable (ClientRuns ts us arrives) n = do {
     o' \<leftarrow> input_send ops usable (iteration ts None us) (nw_client n);
     case o' of Paused \<Rightarrow> Some Paused
     | Running (c, d) \<Rightarrow> (case arrival arrives (nw_acks n) of (a, acks) \<Rightarrow> do {
         c \<leftarrow> input_receive ops (iteration ts a us) c;
         Some (Running (n\<lparr>nw_client := c, nw_data := nw_data n @ queued d, nw_acks := acks\<rparr>)) }) }"
| "net_step ops usable (ServerRuns now now' arrives) n = (case arrival arrives (nw_data n) of (d, data) \<Rightarrow> do {
     o' \<leftarrow> ReceiveData d True now now' (nw_server n);
     Some (case o' of Paused \<Rightarrow> Paused
       | Running (s, a, _) \<Rightarrow> Running (n\<lparr>nw_server := s, nw_data := data, nw_acks := nw_acks n @ queued a\<rparr>)) })"
| "net_step ops usable (LosesData k) n = Some (Running (n\<lparr>nw_data := without k (nw_data n)\<rparr>))"
| "net_step ops usable (LosesAck k) n = Some (Running (n\<lparr>nw_acks := without k (nw_acks n)\<rparr>))"

fun net_run :: "'a send_algorithm_ops \<Rightarrow> (nat \<Rightarrow> nat) \<Rightarrow> net_event list \<Rightarrow> 'a network \<Rightarrow> 'a network outcome option" where
  "net_run ops usable [] n = Some (Running n)"
| "net_run ops usable (e # es) n = do {
     o' \<leftarrow> net_step ops usable e n;
     case o' of Paused \<Rightarrow> Some Paused | Running n \<Rightarrow> net_run ops usable es n }"

definition net_new :: "'a client \<Rightarrow> quic_time \<Rightarrow> 'a network" where
  "net_new c t = \<lparr>nw_client = c, nw_server = Server t, nw_data = [], nw_acks = []\<rparr>"

text \<open>
  A poll that brings no ack while datagrams are under way happens within 200 ms of the last send.
  \<open>c\<close> and \<open>d\<close> are the client after sending and what it has sent.
\<close>

definition poll_in_time :: "timeval \<times> timeval \<Rightarrow> bool \<Rightarrow> 'a client \<Rightarrow> string option \<Rightarrow> 'a network \<Rightarrow> bool" where
  "poll_in_time us arrives c d n \<longleftrightarrow> arrives \<and> nw_acks n \<noteq> []
     \<or> nw_acks n @ nw_data n @ queued d = []
     \<or> clock_Now (fst us) \<le> GetLastInFlightPacketSentTime (pm_unacked_packets (cl_send_manager c)) + 200000"

fun event_ok :: "'a send_algorithm_ops \<Rightarrow> (nat \<Rightarrow> nat) \<Rightarrow> net_event \<Rightarrow> 'a network \<Rightarrow> bool" where
  "event_ok ops usable (ClientRuns ts us arrives) n \<longleftrightarrow> clocks_ok (iteration ts None us)
     \<and> (\<forall>c d. input_send ops usable (iteration ts None us) (nw_client n) = Some (Running (c, d))
          \<longrightarrow> poll_in_time us arrives c d n)"
| "event_ok ops usable e n \<longleftrightarrow> True"

fun net_legal :: "'a send_algorithm_ops \<Rightarrow> (nat \<Rightarrow> nat) \<Rightarrow> net_event list \<Rightarrow> 'a network \<Rightarrow> bool" where
  "net_legal ops usable [] n \<longleftrightarrow> True"
| "net_legal ops usable (e # es) n \<longleftrightarrow> event_ok ops usable e n
     \<and> (\<forall>n'. net_step ops usable e n = Some (Running n') \<longrightarrow> net_legal ops usable es n')"

subsection \<open>What the steps of the manager leave alone\<close>

abbreviation cl_map :: "'a client \<Rightarrow> unacked_map" where
  "cl_map c \<equiv> pm_unacked_packets (cl_send_manager c)"
abbreviation cl_loss :: "'a client \<Rightarrow> loss_algorithm" where
  "cl_loss c \<equiv> pm_loss_algorithm (cl_send_manager c)"
abbreviation cl_last :: "'a client \<Rightarrow> quic_time" where
  "cl_last c \<equiv> um_last_inflight_packet_sent_time (cl_map c)"

lemma um_set_info_last: "um_set_info pn info m = Some m'
    \<Longrightarrow> um_last_inflight_packet_sent_time m' = um_last_inflight_packet_sent_time m"
  by (auto simp: um_set_info_def bind_eq_Some_conv)

lemma RemoveFromInFlight_last: "RemoveFromInFlight pn m = Some m'
    \<Longrightarrow> um_last_inflight_packet_sent_time m' = um_last_inflight_packet_sent_time m"
  by (auto simp: RemoveFromInFlight_def bind_eq_Some_conv dest: um_set_info_last split: if_splits)

lemma um_set_state_last: "um_set_state pn st m = Some m'
    \<Longrightarrow> um_last_inflight_packet_sent_time m' = um_last_inflight_packet_sent_time m"
  by (auto simp: um_set_state_def bind_eq_Some_conv dest: um_set_info_last)

lemma RemoveObsoletePackets_last:
  assumes "RemoveObsoletePackets m = Some m'"
  shows "um_last_inflight_packet_sent_time m' = um_last_inflight_packet_sent_time m"
  using assms
proof (rule RemoveObsoletePackets.raw_induct
    [where P = "\<lambda>m m'. um_last_inflight_packet_sent_time m' = um_last_inflight_packet_sent_time m", rotated])
  fix f :: "unacked_map \<Rightarrow> unacked_map option" and m m'
  assume IH: "\<And>m m'. f m = Some m' \<Longrightarrow> um_last_inflight_packet_sent_time m' = um_last_inflight_packet_sent_time m"
    and "(if dq_empty (um_unacked_packets m) then Some m
      else Option.bind (dq_front (um_unacked_packets m)) (\<lambda>info.
        if \<not> IsPacketUseless (um_least_unacked m) info then Some m
        else Option.bind (dq_pop_front (um_unacked_packets m)) (\<lambda>d.
          f (m\<lparr>um_unacked_packets := d, um_least_unacked := pn_inc (um_least_unacked m)\<rparr>)))) = Some m'"
  then show "um_last_inflight_packet_sent_time m' = um_last_inflight_packet_sent_time m"
    by (auto simp: bind_eq_Some_conv split: if_split_asm dest: IH)
qed

text \<open>Sending sets the time of the last packet and leaves the loss detection alone.\<close>

lemma OnPacketSent_keeps:
  assumes "pm_OnPacketSent ops p t s = Some (s', b)"
  shows "pm_loss_algorithm s' = pm_loss_algorithm s \<and> pm_largest_newly_acked s' = pm_largest_newly_acked s
    \<and> um_last_inflight_packet_sent_time (pm_unacked_packets s') = t"
  using assms by (auto simp: pm_OnPacketSent_def AddSentPacket_def Let_def bind_eq_Some_conv)

lemma SendPacket_keeps:
  assumes "cl_SendPacket ops usable t t' t'' sent c = Some (Running (c', d))"
  shows "cl_loss c' = cl_loss c \<and> cl_last c' = (if d = None then cl_last c else t'')
    \<and> pm_largest_newly_acked (cl_send_manager c') = pm_largest_newly_acked (cl_send_manager c)"
  using assms
proof (cases rule: SendPacket_cases)
  case (packet dg)
  then show ?thesis
    by (auto simp: MakePacketAndSendFromBuf_def Let_def bind_eq_Some_conv split: if_splits dest!: OnPacketSent_keeps)
qed simp

text \<open>
  The ack of the least packet in flight is the case in which the detection of losses has nothing to
  do but to move on to the next packet.
\<close>

lemma DetectLosses_front:
  assumes "IsInitialized (la_least_in_flight a)" "ap_packet_number p = la_least_in_flight a"
  shows "DetectLosses m t rtt (la_least_in_flight a) [p] lost a
    = Some (a\<lparr>la_loss_detection_timeout := time_Zero, la_least_in_flight := la_least_in_flight a + 1\<rparr>, ds_new, lost)"
  using assms by (simp add: DetectLosses_def Let_def pn_plus_def pn_minus_def)

lemma MarkPacketHandled_keeps:
  assumes "MarkPacketHandled pn t s = Some s'" "GetTransmissionInfo pn (pm_unacked_packets s) = Some info" "ti_state info \<noteq> LOST"
  shows "pm_loss_algorithm s' = pm_loss_algorithm s \<and> pm_packets_lost s' = pm_packets_lost s
    \<and> um_last_inflight_packet_sent_time (pm_unacked_packets s') = um_last_inflight_packet_sent_time (pm_unacked_packets s)"
  using assms by (auto simp: MarkPacketHandled_def bind_eq_Some_conv dest!: RemoveFromInFlight_last um_set_state_last)

lemma MaybeInvokeCongestionEvent_keeps:
  assumes "MaybeInvokeCongestionEvent ops upd prior t s = Some s'"
  shows "pm_loss_algorithm s' = pm_loss_algorithm s \<and> pm_largest_newly_acked s' = pm_largest_newly_acked s
    \<and> um_last_inflight_packet_sent_time (pm_unacked_packets s') = um_last_inflight_packet_sent_time (pm_unacked_packets s)"
  using assms by (auto simp: MaybeInvokeCongestionEvent_def bind_eq_Some_conv split: if_splits dest!: RemoveObsoletePackets_last)

lemma InvokeLossDetection_front:
  assumes "InvokeLossDetection t s = Some s'" "pm_packets_acked s = [p]" "pm_packets_lost s = []"
    "IsInitialized (la_least_in_flight (pm_loss_algorithm s))" "ap_packet_number p = la_least_in_flight (pm_loss_algorithm s)"
  shows "pm_loss_algorithm s' = (pm_loss_algorithm s)\<lparr>la_loss_detection_timeout := time_Zero,
      la_least_in_flight := ap_packet_number p + 1\<rparr> \<and> pm_unacked_packets s' = pm_unacked_packets s"
  using assms by (auto simp: InvokeLossDetection_def Let_def DetectLosses_front)

lemma OnAckFrameEnd_front:
  assumes e: "OnAckFrameEnd ops t pn s = Some (s', r)" and p: "pm_packets_acked s = [p]" "pm_packets_lost s = []"
    and la: "IsInitialized (la_least_in_flight (pm_loss_algorithm s))" "ap_packet_number p = la_least_in_flight (pm_loss_algorithm s)"
    and i: "GetTransmissionInfo (ap_packet_number p) (pm_unacked_packets s) = Some info" "ti_in_flight info" "ti_state info \<noteq> LOST"
  shows "pm_loss_algorithm s' = (pm_loss_algorithm s)\<lparr>la_loss_detection_timeout := time_Zero,
      la_least_in_flight := ap_packet_number p + 1\<rparr>
    \<and> um_last_inflight_packet_sent_time (pm_unacked_packets s') = um_last_inflight_packet_sent_time (pm_unacked_packets s)"
proof -
  let ?p = "p\<lparr>ap_bytes_acked := ti_bytes_sent info\<rparr>"
  from e p(1) i(1,2) obtain s1 s2 where s: "MarkPacketHandled (ap_packet_number p) t s = Some s1"
    "PostProcessNewlyAckedPackets ops t (pm_rtt_updated s1) (um_bytes_in_flight (pm_unacked_packets s))
      (s1\<lparr>pm_packets_acked := [?p]\<rparr>) = Some s2" "s' = s2"
    by (auto simp: OnAckFrameEnd_def bind_eq_Some_conv)
  from s(2) obtain s3 s4 where s3: "InvokeLossDetection t (s1\<lparr>pm_packets_acked := [?p]\<rparr>) = Some s3"
    "MaybeInvokeCongestionEvent ops (pm_rtt_updated s1) (um_bytes_in_flight (pm_unacked_packets s)) t s3 = Some s4"
    "pm_loss_algorithm s2 = pm_loss_algorithm s4" "pm_unacked_packets s2 = pm_unacked_packets s4"
    by (auto simp: PostProcessNewlyAckedPackets_def Let_def bind_eq_Some_conv split: if_splits)
  note k = MarkPacketHandled_keeps [OF s(1) i(1,3)]
  have "pm_loss_algorithm s3 = (pm_loss_algorithm s1)\<lparr>la_loss_detection_timeout := time_Zero,
      la_least_in_flight := ap_packet_number p + 1\<rparr> \<and> pm_unacked_packets s3 = pm_unacked_packets s1"
    using InvokeLossDetection_front [OF s3(1), of ?p] k la p(2) by simp
  with k MaybeInvokeCongestionEvent_keeps [OF s3(2)] s(3) s3(3,4) show ?thesis by simp
qed

lemma OnAckFrameStart_keeps:
  assumes "OnAckFrameStart n t s = Some s'"
  shows "pm_loss_algorithm s' = pm_loss_algorithm s \<and> pm_unacked_packets s' = pm_unacked_packets s
    \<and> pm_packets_acked s' = pm_packets_acked s \<and> pm_packets_lost s' = pm_packets_lost s"
  using assms by (auto simp: OnAckFrameStart_def MaybeUpdateRTT_def Let_def bind_eq_Some_conv split: if_splits)

lemma OnPacketReceived_front:
  assumes r: "OnPacketReceived ops buf t t' c = Some c'" "UnSerialize buf = Some p"
    and idle: "pm_packets_acked (cl_send_manager c) = []" "pm_packets_lost (cl_send_manager c) = []"
    and la: "IsInitialized (la_least_in_flight (cl_loss c))" "sp_packet_number p = la_least_in_flight (cl_loss c)"
    and i: "GetTransmissionInfo (sp_packet_number p) (cl_map c) = Some info" "ti_in_flight info" "ti_state info \<noteq> LOST"
  shows "cl_loss c' = (cl_loss c)\<lparr>la_loss_detection_timeout := time_Zero, la_least_in_flight := sp_packet_number p + 1\<rparr>
    \<and> cl_last c' = cl_last c"
proof -
  from r obtain m1 m2 x where m: "OnAckFrameStart (sp_packet_number p) t (cl_send_manager c) = Some m1"
    "OnAckFrameEnd ops t (sp_packet_number p)
      (OnAckRange t' (sp_packet_number p) (pn_plus (sp_packet_number p) 1) m1) = Some (m2, x)" "cl_send_manager c' = m2"
    by (auto simp: OnPacketReceived_def Let_def bind_eq_Some_conv split: if_splits)
  let ?q = "\<lparr>ap_packet_number = sp_packet_number p, ap_bytes_acked = DEFAULT_PACKET_SIZE, ap_receive_timestamp = t'\<rparr>"
  note k = OnAckFrameStart_keeps [OF m(1)]
  have "pm_packets_acked (OnAckRange t' (sp_packet_number p) (pn_plus (sp_packet_number p) 1) m1) = [?q]"
    using k idle by (simp add: OnAckRange_def)
  from OnAckFrameEnd_front [OF m(2) this] k idle la i m(3) show ?thesis by (simp add: OnAckRange_def)
qed

text \<open>The timer.\<close>

lemma GetRetransmissionTime_late:
  assumes "pm_inv s" "la_loss_detection_timeout (pm_loss_algorithm s) = time_Zero" "um_bytes_in_flight (pm_unacked_packets s) \<noteq> 0"
    and "time_ok (um_last_inflight_packet_sent_time (pm_unacked_packets s))"
  shows "um_last_inflight_packet_sent_time (pm_unacked_packets s) + 200000 \<le> GetRetransmissionTime s"
proof -
  let ?d = "GetRetransmissionDelay s" and ?t = "um_last_inflight_packet_sent_time (pm_unacked_packets s)"
  have "200000 \<le> ?d \<and> ?d \<le> 60001000" using GetRetransmissionDelay_eq [OF assms(1)] by (auto split: if_splits)
  moreover have "GetRetransmissionTime s = time_plus ?t ?d"
    using assms(2,3) by (simp add: GetRetransmissionTime_def HasInFlightPackets_def GetRetransmissionMode_def
        GetLossTimeout_def word_gt_0)
  ultimately show ?thesis using assms(4) by (simp add: time_plus_def time_ok_def rtt_max_def i64_small)
qed

lemma Timeout_empty:
  assumes "um_inv (pm_unacked_packets s)" "um_list (pm_unacked_packets s) = []"
    "la_loss_detection_timeout (pm_loss_algorithm s) = time_Zero"
    "pm_OnRetransmissionTimeout ops t s = Some (s', r)"
  shows "pm_unacked_packets s' = pm_unacked_packets s \<and> pm_loss_algorithm s' = pm_loss_algorithm s"
proof -
  have "dq_rep (um_unacked_packets (pm_unacked_packets s)) []" using assms(1,2) by (simp add: um_inv_def um_state_def)
  then have "dq_empty (um_unacked_packets (pm_unacked_packets s))" by (simp add: dq_rep_empty)
  with assms(3,4) show ?thesis
    by (auto simp: pm_OnRetransmissionTimeout_def GetRetransmissionMode_def GetLossTimeout_def RetransmitRtoPackets_def
        um_empty_def RemoveObsoletePackets.simps bind_eq_Some_conv Let_def)
qed

subsection \<open>Packets under way and packets tracked\<close>

text \<open>Datagrams of consecutive packets from \<open>pn\<close> on.\<close>

fun in_order :: "packet_number \<Rightarrow> string list \<Rightarrow> bool" where
  "in_order pn [] \<longleftrightarrow> True"
| "in_order pn (d # ds) \<longleftrightarrow> (\<exists>p. d = datagram p \<and> sp_packet_number p = pn) \<and> in_order (pn + 1) ds"

lemma in_order_snoc: "in_order pn (ds @ [d]) \<longleftrightarrow> in_order pn ds
    \<and> (\<exists>p. d = datagram p \<and> sp_packet_number p = pn + of_nat (length ds))"
  by (induction ds arbitrary: pn) (auto simp: ac_simps)

text \<open>
  The client tracks exactly the packets under way, all of them in flight; the next packet the
  detection of losses waits for is the first of them.
\<close>

definition link_ok :: "bbr2_sender client \<Rightarrow> string list \<Rightarrow> bool" where
  "link_ok c q \<longleftrightarrow> client_ok c \<and> (let m = cl_map c; a = cl_loss c in
     flight_count (um_list m) = length (um_list m) \<and> length (um_list m) = length q
     \<and> in_order (um_least_unacked m) q \<and> la_least_in_flight a = um_least_unacked m
     \<and> la_loss_detection_timeout a = time_Zero \<and> time_ok (cl_last c) \<and> unat (um_end_number m) \<le> 10000000000)"

lemma client_ok_inv:
  assumes "client_ok c"
  shows "pm_inv (cl_send_manager c)" "pm_idle (cl_send_manager c)" "um_state (cl_map c) (um_list (cl_map c))"
    "um_inv (cl_map c)" "unat (um_end_number (cl_map c)) = unat (um_least_unacked (cl_map c)) + length (um_list (cl_map c))"
proof -
  show inv: "pm_inv (cl_send_manager c)" "pm_idle (cl_send_manager c)"
    using assms by (simp_all add: client_ok_def Let_def bbr2.mgr_ok_def)
  show st: "um_state (cl_map c) (um_list (cl_map c))" by (rule pm_inv_state [OF inv(1)])
  then show "um_inv (cl_map c)" "unat (um_end_number (cl_map c)) = unat (um_least_unacked (cl_map c)) + length (um_list (cl_map c))"
    by (simp_all add: um_inv_def um_end_unat)
qed

lemma all_in_flight: "flight_count xs = length xs \<longleftrightarrow> (\<forall>x \<in> set xs. ti_in_flight x)"
proof (induction xs)
  case (Cons x xs)
  have "length (filter ti_in_flight xs) \<noteq> Suc (length xs)" using length_filter_le [of ti_in_flight xs] by linarith
  with Cons show ?case by (auto simp: flight_count_def)
qed simp

lemma link_ok_first:
  assumes "link_ok c (d # q)"
  shows "\<exists>p. UnSerialize (receive_buf d) = Some p \<and> sp_packet_number p = um_least_unacked (cl_map c)
    \<and> um_covers (cl_map c) (sp_packet_number p) \<and> d \<noteq> []"
proof -
  note l = assms [unfolded link_ok_def Let_def]
  let ?n = "um_least_unacked (cl_map c)"
  from l obtain p where p: "d = datagram p" "sp_packet_number p = ?n" by auto
  have n: "unat ?n < unat (um_end_number (cl_map c))" using l client_ok_inv(5) [of c] by simp
  then have "unat ?n < 10000000000" using l by linarith
  then have "of_nat (unat ?n mod 10000000000) = ?n" by simp
  moreover have "um_covers (cl_map c) ?n" using n by (simp add: um_covers_def word_less_nat_alt)
  moreover have "length d \<noteq> 0" by (simp add: p(1) datagram_length)
  ultimately show ?thesis by (simp add: p receive_buf_datagram UnSerialize_datagram)
qed

lemma after_ack_first:
  assumes "flight_count (x # xs) = length (x # xs)" shows "after_ack {0} {} (x # xs) = xs"
proof -
  have "settled ACKED {0} (x # xs) = x\<lparr>ti_in_flight := False, ti_state := ACKED\<rparr> # xs"
    by (rule nth_equalityI) (auto simp: nth_settled nth_Cons split: nat.splits)
  moreover have "dropWhile useless xs = xs"
  proof (cases xs)
    case (Cons y ys)
    then have "ti_in_flight y" using assms unfolding all_in_flight by simp
    with Cons show ?thesis by (simp add: useless_def)
  qed simp
  ultimately show ?thesis by (simp add: after_ack_def useless_def IsAckable_def)
qed

subsection \<open>Steps\<close>

lemma iteration_simps [simp]: "in_send (iteration ts d us) = ts" "in_sent (iteration ts d us) = True"
  "in_datagram (iteration ts d us) = d" "in_receive (iteration ts d us) = us"
  by (simp_all add: iteration_def)

lemma clocks_time_ok:
  assumes "clocks_ok (iteration (t, t', t'') d (u, u'))"
  shows "time_ok (clock_Now t'')" "time_ok (clock_Now u)" "time_ok (clock_Now u')"
  using assms clock_Now_range [of t''] clock_Now_range [of u] clock_Now_range [of u'] by (auto simp: clocks_ok_def iteration_def)

lemma link_ok_send:
  assumes l: "link_ok c q" and i: "clocks_ok (iteration ts None us)" and u: "1440 < usable 1440"
    and n: "unat (mk_recent_packet_number (cl_packet_maker c)) + 1 < 10000000000"
  shows "\<exists>o'. input_send bbr2_ops usable (iteration ts None us) c = Some o'
    \<and> (\<forall>c' d. o' = Running (c', d) \<longrightarrow> link_ok c' (q @ queued d)
      \<and> unat (mk_recent_packet_number (cl_packet_maker c')) \<le> unat (mk_recent_packet_number (cl_packet_maker c)) + 1)"
proof -
  obtain t t' t'' where ts: "ts = (t, t', t'')" by (cases ts) auto
  obtain w w' where us: "us = (w, w')" by (cases us)
  let ?send = "cl_SendPacket bbr2_ops usable (clock_Now t) (clock_Now t') (clock_Now t'') True c"
  note ok = l [unfolded link_ok_def Let_def]
  have tok: "time_ok (clock_Now t'')" using clocks_time_ok [OF i [unfolded ts us]] by simp
  from input_send_ok [where usable = usable, OF _ i u, of c] ok n obtain o' where
    o': "input_send bbr2_ops usable (iteration ts None us) c = Some o'"
    "\<And>c' d. o' = Running (c', d) \<Longrightarrow> client_ok c' \<and> unat (mk_recent_packet_number (cl_packet_maker c'))
      \<le> unat (mk_recent_packet_number (cl_packet_maker c)) + 1" by auto
  have "link_ok c' (q @ queued d)" if r: "o' = Running (c', d)" for c' d
  proof -
    from o'(1) r have s: "?send = Some (Running (c', d))" by (simp add: input_send_def ts)
    from s show ?thesis
    proof (cases rule: SendPacket_cases)
      case waits
      with l show ?thesis by (simp add: queued_def)
    next
      case (packet dg)
      note k = SendPacket_keeps [OF s]
      let ?mk = "mk_recent_packet_number (cl_packet_maker c)"
      have m: "unat ?mk < 2 ^ 62" using n by simp
      from cl_SendPacket_sends [where usable = usable, OF _ packet(2,3) u tok m, of "clock_Now t'"] ok s obtain p where
        p: "d = Some (datagram p)" "sp_packet_number p = ?mk + 1" "client_ok c'"
        "mk_recent_packet_number (cl_packet_maker c') = ?mk + 1"
        "unat (cl_bytes_in_flight c') = unat (cl_bytes_in_flight c) + 1472"
        "um_least_unacked (cl_map c') = um_least_unacked (cl_map c)" by auto
      have e: "um_end_number (cl_map c) = ?mk + 1" "um_end_number (cl_map c') = ?mk + 1 + 1"
        using ok p(3,4) by (simp_all add: client_ok_def Let_def)
      have v: "unat (?mk + 1) = unat ?mk + 1" "unat (?mk + 1 + 1) = unat ?mk + 2" using m by (simp_all add: unat_u64_plus)
      have len: "length (um_list (cl_map c')) = length q + 1"
        using client_ok_inv(5) [of c] client_ok_inv(5) [OF p(3)] ok e v p(6) by simp
      have cnt: "flight_count (um_list (cl_map c')) = length q + 1"
        using client_ok_bytes [of c] client_ok_bytes [OF p(3)] ok p(5) by simp
      have num: "sp_packet_number p = um_least_unacked (cl_map c) + of_nat (length q)"
      proof -
        have "unat (sp_packet_number p) = unat (um_least_unacked (cl_map c)) + length q"
          using client_ok_inv(5) [of c] ok e(1) v p(2) by simp
        moreover have "unat (sp_packet_number p) < 2 ^ 63" using p(2) v m by simp
        ultimately show ?thesis by (simp add: word_unat_eq_iff unat_u64_plus nowrap unat_of_nat_u64)
      qed
      then have "\<exists>p'. datagram p = datagram p' \<and> sp_packet_number p' = um_least_unacked (cl_map c) + of_nat (length q)" by blast
      then show ?thesis
        using p(1,3,6) ok k len cnt e v n tok
        by (simp add: link_ok_def Let_def queued_def in_order_snoc)
    qed
  qed
  with o' show ?thesis by blast
qed

lemma link_ok_ack:
  assumes l: "link_ok c (d # q)" and i: "clocks_ok (iteration ts None us)"
  shows "\<exists>c'. input_receive bbr2_ops (iteration ts (Some d) us) c = Some c' \<and> link_ok c' q
    \<and> cl_packet_maker c' = cl_packet_maker c"
proof -
  obtain t t' t'' where ts: "ts = (t, t', t'')" by (cases ts) auto
  obtain w w' where us: "us = (w, w')" by (cases us)
  note ok = l [unfolded link_ok_def Let_def]
  have c: "client_ok c" using ok by simp
  note inv = client_ok_inv [OF c]
  have tok: "time_ok (clock_Now w)" using clocks_time_ok [OF i [unfolded ts us]] by simp
  from link_ok_first [OF l] obtain p where p: "UnSerialize (receive_buf d) = Some p"
    "sp_packet_number p = um_least_unacked (cl_map c)" "um_covers (cl_map c) (sp_packet_number p)" "d \<noteq> []" by blast
  have off: "um_offset (cl_map c) (sp_packet_number p) = 0" by (simp add: um_offset_def pn_diff_def p(2))
  from OnPacketReceived_ok [OF c tok p(1,3), of "clock_Now w'"] obtain c' r L where
    c': "OnPacketReceived bbr2_ops (receive_buf d) (clock_Now w) (clock_Now w') c = Some c'" "client_ok c'"
    "cl_packet_maker c' = cl_packet_maker c"
    "lost_set (cl_send_manager c\<lparr>pm_rtt_stats := r\<rparr>) (clock_Now w) (sp_packet_number p) L" "L \<inter> {0} = {}"
    "um_list (cl_map c') = after_ack {0} L (um_list (cl_map c))"
    unfolding off by blast
  have "L = {}"
  proof (rule ccontr)
    assume "L \<noteq> {}"
    then obtain k where k: "k \<in> L" by blast
    with c'(4) obtain pn where pn: "um_covers (cl_map c) pn" "um_offset (cl_map c) pn = k" "pn \<le> sp_packet_number p"
      by (auto simp: lost_set_def Let_def deemed_lost_def)
    then have "pn = um_least_unacked (cl_map c)" by (simp add: um_covers_def p(2))
    with pn(2) off p(2) k c'(5) show False by auto
  qed
  obtain x xs where xs: "um_list (cl_map c) = x # xs" using ok by (cases "um_list (cl_map c)") auto
  have list: "um_list (cl_map c') = xs" using c'(6) after_ack_first [of x xs] ok by (simp add: \<open>L = {}\<close> xs)
  have e: "um_end_number (cl_map c') = um_end_number (cl_map c)"
    using c c'(2,3) by (simp add: client_ok_def Let_def)
  have fl: "ti_in_flight x" using ok xs unfolding all_in_flight by simp
  have info: "GetTransmissionInfo (sp_packet_number p) (cl_map c) = Some x"
    using GetTransmissionInfo_info [OF inv(4) p(3)] p(3) by (simp add: um_info_def off xs)
  have st: "ti_state x \<noteq> LOST" using inv(1) fl by (auto simp: pm_inv_def xs entry_ok_def)
  have n: "IsInitialized (um_least_unacked (cl_map c))" using inv(5) ok by (intro IsInitialized_small) simp
  have k: "cl_loss c' = (cl_loss c)\<lparr>la_loss_detection_timeout := time_Zero, la_least_in_flight := sp_packet_number p + 1\<rparr>
    \<and> cl_last c' = cl_last c"
    by (rule OnPacketReceived_front [OF c'(1) p(1) _ _ _ _ info fl st]) (use inv(2) ok n p(2) in \<open>simp_all add: pm_idle_def\<close>)
  have least: "um_least_unacked (cl_map c') = um_least_unacked (cl_map c) + 1"
  proof -
    have "unat (um_least_unacked (cl_map c')) = unat (um_least_unacked (cl_map c)) + 1"
      using inv(5) client_ok_inv(5) [OF c'(2)] by (simp add: e list xs)
    moreover have "unat (um_least_unacked (cl_map c)) < 2 ^ 63" using inv(5) ok by simp
    ultimately show ?thesis by (simp add: word_unat_eq_iff unat_u64_plus)
  qed
  have "link_ok c' q"
    using ok c'(2) list xs k e least p(2) fl by (simp add: link_ok_def Let_def)
  moreover have "input_receive bbr2_ops (iteration ts (Some d) us) c = Some c'"
    using c'(1) p(4) by (simp add: input_receive_def ReceivePacket_def us)
  ultimately show ?thesis using c'(3) by blast
qed

lemma link_ok_poll:
  assumes l: "link_ok c q" and i: "clocks_ok (iteration ts None us)"
    and t: "q = [] \<or> clock_Now (fst us) \<le> cl_last c + 200000"
  shows "\<exists>c'. input_receive bbr2_ops (iteration ts None us) c = Some c' \<and> link_ok c' q
    \<and> cl_packet_maker c' = cl_packet_maker c"
proof -
  obtain t t' t'' where ts: "ts = (t, t', t'')" by (cases ts) auto
  obtain w w' where us: "us = (w, w')" by (cases us)
  note ok = l [unfolded link_ok_def Let_def]
  have c: "client_ok c" using ok by simp
  note inv = client_ok_inv [OF c]
  have tok: "time_ok (clock_Now w')" using clocks_time_ok [OF i [unfolded ts us]] by simp
  show ?thesis
  proof (cases "GetRetransmissionTime (cl_send_manager c) < clock_Now w")
    case False
    with l show ?thesis by (simp add: input_receive_def ReceivePacket_def us)
  next
    case True
    have "q = []"
    proof (rule ccontr)
      assume "q \<noteq> []"
      then have "0 < unat (cl_bytes_in_flight c)" using client_ok_bytes [OF c] ok by simp
      then have "cl_bytes_in_flight c \<noteq> 0" by auto
      from GetRetransmissionTime_late [OF inv(1) _ this] ok t True us \<open>q \<noteq> []\<close> show False by simp
    qed
    from Timeout_client_ok [OF c tok] obtain m where
      m: "pm_OnRetransmissionTimeout bbr2_ops (clock_Now w') (cl_send_manager c)
        = Some (m, GetRetransmissionMode (cl_send_manager c))"
      "client_ok (c\<lparr>cl_send_manager := m\<rparr>)" by blast
    have "pm_unacked_packets m = cl_map c \<and> pm_loss_algorithm m = cl_loss c"
      by (rule Timeout_empty [OF inv(4) _ _ m(1)]) (use ok \<open>q = []\<close> in simp_all)
    then have "link_ok (c\<lparr>cl_send_manager := m\<rparr>) q" using ok m(2) by (simp add: link_ok_def Let_def)
    with True m(1) show ?thesis by (simp add: input_receive_def ReceivePacket_def us)
  qed
qed

text \<open>A network in which the packets under way are those the client tracks.\<close>

definition net_ok :: "bbr2_sender network \<Rightarrow> bool" where
  "net_ok n \<longleftrightarrow> link_ok (nw_client n) (nw_acks n @ nw_data n)"

abbreviation nw_number :: "'a network \<Rightarrow> nat" where
  "nw_number n \<equiv> unat (mk_recent_packet_number (cl_packet_maker (nw_client n)))"

lemma ReceiveData_none: "\<exists>s' x. ReceiveData None sent now now' s = Some (Running (s', None, x))"
  by (auto simp: ReceiveData_def split: prod.splits)

lemma ReceiveData_datagram: "\<exists>s' x. ReceiveData (Some (datagram p)) True now now' s = Some (Running (s', Some (datagram p), x))"
  by (auto simp: ReceiveData_def SendACK_datagram Let_def split: prod.splits)

lemma in_order_datagram: "in_order pn q \<Longrightarrow> d \<in> set q \<Longrightarrow> \<exists>p. d = datagram p"
  by (induction q arbitrary: pn) auto

lemma net_step_ok:
  assumes ok: "net_ok n" and e: "event_ok bbr2_ops usable e n" "lossless [e]" and u: "1440 < usable 1440"
    and n: "nw_number n + 1 < 10000000000"
  shows "\<exists>o'. net_step bbr2_ops usable e n = Some o' \<and> (\<forall>n'. o' = Running n' \<longrightarrow> net_ok n' \<and> nw_number n' \<le> nw_number n + 1)"
proof (cases e)
  case (ServerRuns now now' arrives)
  let ?n = "\<lambda>s data a. n\<lparr>nw_server := s, nw_data := data, nw_acks := nw_acks n @ queued a\<rparr>"
  show ?thesis
  proof (cases "arrives \<and> nw_data n \<noteq> []")
    case False
    then have a: "arrival arrives (nw_data n) = (None, nw_data n)" by (auto simp: arrival_def)
    from ReceiveData_none [of True now now' "nw_server n"] obtain s x where
      "ReceiveData None True now now' (nw_server n) = Some (Running (s, None, x))" by blast
    with a ok show ?thesis by (simp add: ServerRuns queued_def net_ok_def)
  next
    case True
    then obtain d q where q: "nw_data n = d # q" by (cases "nw_data n") auto
    have "in_order (um_least_unacked (cl_map (nw_client n))) (nw_acks n @ nw_data n)"
      using ok by (simp add: net_ok_def link_ok_def Let_def)
    from in_order_datagram [OF this, of d] obtain p where p: "d = datagram p" by (auto simp: q)
    have a: "arrival arrives (nw_data n) = (Some d, q)" using True by (simp add: arrival_def q)
    from ReceiveData_datagram [of p now now' "nw_server n"] obtain s x where
      "ReceiveData (Some d) True now now' (nw_server n) = Some (Running (s, Some d, x))" unfolding p by blast
    with a ok show ?thesis by (simp add: ServerRuns queued_def net_ok_def q)
  qed
next
  case (ClientRuns ts us arrives)
  have i: "clocks_ok (iteration ts None us)" using e(1) ClientRuns by simp
  have l: "link_ok (nw_client n) (nw_acks n @ nw_data n)" using ok by (simp add: net_ok_def)
  from link_ok_send [where usable = usable, OF l i u n] obtain o' where
    o': "input_send bbr2_ops usable (iteration ts None us) (nw_client n) = Some o'"
    "\<And>c d. o' = Running (c, d) \<Longrightarrow> link_ok c ((nw_acks n @ nw_data n) @ queued d)
      \<and> unat (mk_recent_packet_number (cl_packet_maker c)) \<le> nw_number n + 1" by blast
  show ?thesis
  proof (cases o')
    case Paused
    with o'(1) ClientRuns show ?thesis by simp
  next
    case (Running cd)
    obtain c d where cd: "cd = (c, d)" by (cases cd)
    note c = o'(2) [OF Running [unfolded cd]]
    obtain a acks where a: "arrival arrives (nw_acks n) = (a, acks)" by (cases "arrival arrives (nw_acks n)")
    have "\<exists>c'. input_receive bbr2_ops (iteration ts a us) c = Some c' \<and> link_ok c' (acks @ nw_data n @ queued d)
      \<and> cl_packet_maker c' = cl_packet_maker c"
    proof (cases "arrives \<and> nw_acks n \<noteq> []")
      case True
      then obtain x q where q: "nw_acks n = x # q" by (cases "nw_acks n") auto
      then have "link_ok c (x # (q @ nw_data n @ queued d))" using c by simp
      moreover have "a = Some x" "acks = q" using a True q by (simp_all add: arrival_def)
      ultimately show ?thesis using link_ok_ack [OF _ i] by simp
    next
      case False
      then have a: "a = None" "acks = nw_acks n" using a by (auto simp: arrival_def split: if_splits)
      have "poll_in_time us arrives c d n" using e(1) o'(1) Running cd ClientRuns by simp
      then have "nw_acks n @ nw_data n @ queued d = [] \<or> clock_Now (fst us) \<le> cl_last c + 200000"
        using False by (auto simp: poll_in_time_def GetLastInFlightPacketSentTime_def)
      from link_ok_poll [OF _ i this] c a show ?thesis by simp
    qed
    then obtain c' where "input_receive bbr2_ops (iteration ts a us) c = Some c'" "link_ok c' (acks @ nw_data n @ queued d)"
      "cl_packet_maker c' = cl_packet_maker c" by blast
    with o'(1) Running cd a c ClientRuns show ?thesis by (simp add: net_ok_def)
  qed
qed (use e(2) in \<open>simp_all add: lossless_def\<close>)

lemma net_run_ok:
  assumes "net_ok n" "1440 < usable 1440" "net_legal bbr2_ops usable es n" "nw_number n + length es < 10000000000"
    and "lossless es"
  shows "\<exists>o'. net_run bbr2_ops usable es n = Some o' \<and> (\<forall>n'. o' = Running n' \<longrightarrow> net_ok n')"
  using assms
proof (induction es arbitrary: n)
  case (Cons e es)
  have e: "event_ok bbr2_ops usable e n" "lossless [e]" "nw_number n + 1 < 10000000000" "lossless es"
    using Cons.prems(3-5) by (simp_all add: lossless_def)
  from net_step_ok [where usable = usable, OF Cons.prems(1) e(1,2) Cons.prems(2) e(3)] obtain o' where
    o': "net_step bbr2_ops usable e n = Some o'" "\<And>n'. o' = Running n' \<Longrightarrow> net_ok n' \<and> nw_number n' \<le> nw_number n + 1" by blast
  show ?case
  proof (cases o')
    case (Running n')
    then have "net_legal bbr2_ops usable es n'" "nw_number n' + length es < 10000000000"
      using Cons.prems(3,4) o'(1) o'(2) [OF Running] by auto
    from Cons.IH [OF _ Cons.prems(2) this e(4)] o'(1) o'(2) [OF Running] Running show ?thesis by simp
  qed (use o' in simp)
qed simp

lemma net_new_ok:
  assumes "Client (Create_BBRv2 now rng junk) flag = Some c"
  shows "net_ok (net_new c t)" "nw_number (net_new c t) = 0"
proof -
  note new = client_ok_new [OF assms]
  have a: "cl_loss c = la_new" "cl_map c = um_new IS_CLIENT"
    using assms by (auto simp: Client_def QuicSentPacketManager_def bind_eq_Some_conv)
  have "flight_count (um_list (cl_map c)) = 0" using client_ok_bytes [OF new(1)] new(6) by simp
  moreover have e: "um_end_number (cl_map c) = 1" using new(1,2) by (simp add: client_ok_def Let_def)
  then have "length (um_list (cl_map c)) = 0" using client_ok_inv(5) [OF new(1)] new(5) by simp
  ultimately show "net_ok (net_new c t)" using new(1,5) a e
    by (simp add: net_ok_def net_new_def link_ok_def Let_def la_new_def um_new_def time_ok_def time_Zero_def rtt_max_def)
  show "nw_number (net_new c t) = 0" by (simp add: net_new_def new(2))
qed

subsection \<open>Property\<close>

text \<open>C6. Client and server over a network that keeps the order and loses nothing, in which the client is
  never left without an ack for more than 200 ms after a send while datagrams are under way: whatever the interleaving of the two
  programs, no step fails, every ack finds its packet tracked, and no packet is declared lost or
  dropped by a timeout. The packets the client tracks and counts as in flight are always exactly those whose
  datagrams or acks are under way, in order.\<close>

theorem echo_network_loses_nothing:
  assumes "Client (Create_BBRv2 now rng junk) flag = Some c0" "SENDER_PADDING_LEN < usable SENDER_PADDING_LEN"
    and "net_legal bbr2_ops usable es (net_new c0 t)" "length es < 10000000000" "lossless es"
  shows "net_run bbr2_ops usable es (net_new c0 t) = Some Paused
    \<or> (\<exists>n. net_run bbr2_ops usable es (net_new c0 t) = Some (Running n) \<and> pm_inv (cl_send_manager (nw_client n))
        \<and> length (um_list (cl_map (nw_client n))) = length (nw_acks n) + length (nw_data n)
        \<and> unat (cl_bytes_in_flight (nw_client n)) = 1472 * (length (nw_acks n) + length (nw_data n))
        \<and> in_order (um_least_unacked (cl_map (nw_client n))) (nw_acks n @ nw_data n))"
proof -
  have u: "1440 < usable 1440" using assms(2) by (simp add: packet_lengths)
  from net_run_ok [OF net_new_ok(1) [OF assms(1)] u assms(3) _ assms(5)] net_new_ok(2) [OF assms(1), of t] assms(4) obtain o' where
    o': "net_run bbr2_ops usable es (net_new c0 t) = Some o'" "\<And>n. o' = Running n \<Longrightarrow> net_ok n" by auto
  show ?thesis
  proof (cases o')
    case (Running n)
    note ok = o'(2) [OF Running, unfolded net_ok_def link_ok_def Let_def]
    from o'(1) Running ok client_ok_inv(1) [of "nw_client n"] client_ok_bytes [of "nw_client n"] show ?thesis by simp
  qed (use o' in simp)
qed

text \<open>The first packet is sent at 1000 and polled for at 90000 microseconds; then the server acks it.\<close>

lemma echo_network_loses_nothing_witness:
  "\<exists>c0 n. Client (Create_BBRv2 0 (\<lambda>_. 7) (False, False)) False = Some c0
    \<and> net_run bbr2_ops (\<lambda>n. n + 8)
        [ClientRuns (example_time 999, example_time 999, example_time 999) (example_time 89999, example_time 89999) False,
         ServerRuns 50000 50000 True] (net_new c0 0) = Some (Running n)
    \<and> nw_acks n = [datagram example_first] \<and> unat (cl_bytes_in_flight (nw_client n)) = 1472"
proof -
  let ?u = "\<lambda>n :: nat. n + 8" and ?ts = "(example_time 999, example_time 999, example_time 999)"
    and ?us = "(example_time 89999, example_time 89999)"
  let ?es = "[ClientRuns ?ts ?us False, ServerRuns 50000 50000 True]"
  obtain c0 c1 where c: "Client (Create_BBRv2 0 (\<lambda>_. 7) (False, False)) False = Some c0"
    "cl_SendPacket bbr2_ops ?u 1000 1000 1000 True c0 = Some (Running (c1, Some (datagram example_first)))"
    by (rule example_first_sent) blast
  have s: "input_send bbr2_ops ?u (iteration ?ts None ?us) c0 = Some (Running (c1, Some (datagram example_first)))"
    using c(2) by (simp add: input_send_def)
  have k: "clocks_ok (iteration ?ts None ?us)" by (simp add: clocks_ok_def)
  have last: "cl_last c1 = 1000" using SendPacket_keeps [OF c(2)] by simp
  have legal: "net_legal bbr2_ops ?u ?es (net_new c0 0)"
    using s k last by (simp add: poll_in_time_def net_new_def GetLastInFlightPacketSentTime_def)
  have "link_ok c0 []" using net_new_ok(1) [OF c(1), of 0] by (simp add: net_ok_def net_new_def)
  from link_ok_send [OF this k, of ?u] s client_ok_new(2) [OF c(1)] have l: "link_ok c1 [datagram example_first]"
    by (auto simp: queued_def)
  from link_ok_poll [OF l k] last obtain c2 where
    c2: "input_receive bbr2_ops (iteration ?ts None ?us) c1 = Some c2" by auto
  from ReceiveData_datagram [of example_first 50000 50000 "Server 0"] obtain sv x where
    r: "ReceiveData (Some (datagram example_first)) True 50000 50000 (Server 0)
      = Some (Running (sv, Some (datagram example_first), x))" by blast
  have run: "net_run bbr2_ops ?u ?es (net_new c0 0)
      = Some (Running \<lparr>nw_client = c2, nw_server = sv, nw_data = [], nw_acks = [datagram example_first]\<rparr>)"
    using s c2 r by (simp add: net_new_def arrival_def queued_def)
  have "SENDER_PADDING_LEN < ?u SENDER_PADDING_LEN" "length ?es < 10000000000" "lossless ?es"
    by (simp_all add: lossless_def)
  from echo_network_loses_nothing [OF c(1) this(1) legal this(2,3)] c(1) run show ?thesis by simp
qed

end
