(* ===== verification/Lossy_Network.thy ===== *)
theory Lossy_Network
  imports Echo_Network
begin

section \<open>Client and server over a network that loses datagrams\<close>

text \<open>
  The network of \<open>Echo_Network\<close> with losses: any datagram may disappear from either queue at any
  time, but the order is kept. Then the detection of losses has work to do, and the question is
  whether it ever takes a packet for lost whose datagram or ack is still under way; its late ack
  would have no defined result.

  The lemmas show that it never does. Packets are declared lost only up to the largest packet
  acked so far, and in a network that keeps the order everything under way lies above it. The
  retransmission timeout, which drops every packet, cannot fire while something is under way.
\<close>

subsection \<open>Packets that stay in flight\<close>

definition um_in_flight :: "unacked_map \<Rightarrow> packet_number \<Rightarrow> bool" where
  "um_in_flight m pn \<longleftrightarrow> um_covers m pn \<and> ti_in_flight (um_list m ! um_offset m pn)"

lemma um_in_flight_bytes:
  assumes "client_ok c" "um_in_flight (cl_map c) pn" shows "cl_bytes_in_flight c \<noteq> 0"
proof -
  let ?xs = "um_list (cl_map c)" and ?k = "um_offset (cl_map c) pn"
  have "?k < length ?xs" using um_covers_offset [OF client_ok_inv(3) [OF assms(1)]] assms(2) by (simp add: um_in_flight_def)
  with assms(2) have "?xs ! ?k \<in> set (filter ti_in_flight ?xs)" by (simp add: um_in_flight_def)
  then have "0 < flight_count ?xs" unfolding flight_count_def by (rule length_pos_if_in_set)
  with client_ok_bytes [OF assms(1)] have "0 < unat (cl_bytes_in_flight c)" by simp
  then show ?thesis by auto
qed

text \<open>
  A packet whose entry is in flight after some entries have been settled stays tracked when the
  removable entries at the front, if any, are dropped.
\<close>

lemma um_in_flight_settled:
  assumes m: "um_state m xs" "um_covers m pn" and m': "um_state m' ys" "um_end_number m' = um_end_number m"
    and ys: "ys = zs \<or> ys = dropWhile useless zs" "length zs = length xs"
    and z: "ti_in_flight (zs ! um_offset m pn)"
  shows "um_in_flight m' pn"
proof -
  let ?k = "um_offset m pn"
  define j where "j = (if ys = zs then 0 else length (takeWhile useless zs))"
  have drop: "ys = drop j zs" using ys(1) by (auto simp: j_def dropWhile_eq_drop)
  have k: "?k < length zs" using um_covers_offset [OF m] ys(2) by simp
  have "j \<le> ?k"
  proof (rule ccontr)
    assume "\<not> j \<le> ?k"
    then have "?k < length (takeWhile useless zs)" by (auto simp: j_def split: if_splits)
    then have "useless (zs ! ?k)" by (metis nth_mem set_takeWhileD takeWhile_nth)
    with z show False by (simp add: useless_def)
  qed
  have "unat (um_least_unacked m') + (length zs - j) = unat (um_least_unacked m) + length zs"
    using um_end_unat [OF m(1)] um_end_unat [OF m'(1)] m'(2) by (simp add: drop ys(2))
  then have l: "unat (um_least_unacked m') = unat (um_least_unacked m) + j" using k \<open>j \<le> ?k\<close> by simp
  have n: "unat pn = unat (um_least_unacked m) + ?k"
    using m(2) by (simp add: um_covers_def um_offset_unat word_le_nat_alt)
  have c: "um_covers m' pn"
    using m(2) m'(2) l n \<open>j \<le> ?k\<close> by (simp add: um_covers_def word_le_nat_alt)
  then have "um_offset m' pn = ?k - j" using l n by (simp add: um_offset_unat um_covers_def)
  moreover have "um_list m' = ys" using m'(1) by (simp add: um_state_iff)
  ultimately show ?thesis using c z k \<open>j \<le> ?k\<close> by (simp add: um_in_flight_def drop)
qed

text \<open>Packets above the largest one acked are not declared lost.\<close>

lemma lost_set_above:
  assumes "lost_set s t largest L" "um_covers (pm_unacked_packets s) pn" "largest < pn"
  shows "um_offset (pm_unacked_packets s) pn \<notin> L"
proof
  assume "um_offset (pm_unacked_packets s) pn \<in> L"
  with assms(1) obtain q where "um_covers (pm_unacked_packets s) q"
    "um_offset (pm_unacked_packets s) q = um_offset (pm_unacked_packets s) pn" "q \<le> largest"
    by (auto simp: lost_set_def Let_def deemed_lost_def)
  with um_offset_inj [OF this(1) assms(2)] assms(3) show False by simp
qed

subsection \<open>The number of a datagram\<close>

definition ack_number :: "string \<Rightarrow> packet_number" where
  "ack_number d = (case UnSerialize (receive_buf d) of None \<Rightarrow> 0 | Some p \<Rightarrow> sp_packet_number p)"

lemma UnSerialize_ack: "UnSerialize (receive_buf (datagram p)) = Some q \<Longrightarrow> sp_packet_number q = ack_number (datagram p)"
  by (simp add: ack_number_def)

lemma UnSerialize_ack_ex: "\<exists>q. UnSerialize (receive_buf (datagram p)) = Some q"
  by (simp add: receive_buf_datagram UnSerialize_datagram)

lemma ack_number_datagram: "unat (sp_packet_number p) < 10000000000 \<Longrightarrow> ack_number (datagram p) = sp_packet_number p"
  by (simp add: ack_number_def receive_buf_datagram UnSerialize_datagram)

subsection \<open>The invariant\<close>

text \<open>
  A datagram is tracked by the client if it belongs to a packet in flight that a loss timeout
  will not declare lost.
\<close>

definition tracked :: "bbr2_sender client \<Rightarrow> string \<Rightarrow> bool" where
  "tracked c d \<longleftrightarrow> (\<exists>p. d = datagram p) \<and> um_in_flight (cl_map c) (ack_number d)
     \<and> (la_loss_detection_timeout (cl_loss c) \<noteq> time_Zero
        \<longrightarrow> pm_largest_newly_acked (cl_send_manager c) < ack_number d)"

definition lossy_ok :: "bbr2_sender client \<Rightarrow> string list \<Rightarrow> bool" where
  "lossy_ok c q \<longleftrightarrow> client_ok c \<and> time_ok (cl_last c) \<and> unat (um_end_number (cl_map c)) \<le> 10000000000
     \<and> (la_loss_detection_timeout (cl_loss c) \<noteq> time_Zero
        \<longrightarrow> pm_largest_newly_acked (cl_send_manager c) < um_end_number (cl_map c))
     \<and> (\<forall>d \<in> set q. tracked c d) \<and> sorted_wrt (\<lambda>d d'. ack_number d < ack_number d') q"

lemma sorted_wrt_without: "sorted_wrt P (xs @ q @ ys) \<Longrightarrow> sorted_wrt P (xs @ without k q @ ys)"
proof (cases "k < length q")
  case True
  then have "q = take k q @ q ! k # drop (Suc k) q" by (rule id_take_nth_drop)
  moreover assume "sorted_wrt P (xs @ q @ ys)"
  ultimately have "sorted_wrt P (xs @ (take k q @ q ! k # drop (Suc k) q) @ ys)" by simp
  then show ?thesis by (auto simp: without_def sorted_wrt_append)
qed (simp add: without_def)

lemma set_without: "set (without k q) \<subseteq> set q"
  by (auto simp: without_def dest: in_set_takeD in_set_dropD)

lemma lossy_ok_lose: "lossy_ok c (xs @ q @ ys) \<Longrightarrow> lossy_ok c (xs @ without k q @ ys)"
  using set_without [of k q] by (auto simp: lossy_ok_def intro: sorted_wrt_without)

subsection \<open>Steps\<close>

lemma lossy_ok_send:
  assumes l: "lossy_ok c q" and i: "clocks_ok (iteration ts None us)" and u: "1440 < usable 1440"
    and n: "unat (mk_recent_packet_number (cl_packet_maker c)) + 1 < 10000000000"
  shows "\<exists>o'. input_send bbr2_ops usable (iteration ts None us) c = Some o'
    \<and> (\<forall>c' d. o' = Running (c', d) \<longrightarrow> lossy_ok c' (q @ queued d)
      \<and> unat (mk_recent_packet_number (cl_packet_maker c')) \<le> unat (mk_recent_packet_number (cl_packet_maker c)) + 1)"
proof -
  obtain t t' t'' where ts: "ts = (t, t', t'')" by (cases ts) auto
  obtain w w' where us: "us = (w, w')" by (cases us)
  let ?send = "cl_SendPacket bbr2_ops usable (clock_Now t) (clock_Now t') (clock_Now t'') True c"
  note ok = l [unfolded lossy_ok_def]
  have c: "client_ok c" using ok by simp
  have tok: "time_ok (clock_Now t'')" using clocks_time_ok [OF i [unfolded ts us]] by simp
  from input_send_ok [where usable = usable, OF c i u] n obtain o' where
    o': "input_send bbr2_ops usable (iteration ts None us) c = Some o'"
    "\<And>c' d. o' = Running (c', d) \<Longrightarrow> client_ok c' \<and> unat (mk_recent_packet_number (cl_packet_maker c'))
      \<le> unat (mk_recent_packet_number (cl_packet_maker c)) + 1" by auto
  have "lossy_ok c' (q @ queued d)" if r: "o' = Running (c', d)" for c' d
  proof -
    from o'(1) r have s: "?send = Some (Running (c', d))" by (simp add: input_send_def ts)
    from s show ?thesis
    proof (cases rule: SendPacket_cases)
      case waits
      with l show ?thesis by (simp add: queued_def)
    next
      case (packet dg)
      note k = SendPacket_keeps [OF s]
      let ?mk = "mk_recent_packet_number (cl_packet_maker c)" and ?m = "cl_map c" and ?m' = "cl_map c'"
      have m: "unat ?mk < 2 ^ 62" using n by simp
      from cl_SendPacket_sends [where usable = usable, OF c packet(2,3) u tok m, of "clock_Now t'"] s obtain p j e where
        p: "d = Some (datagram p)" "sp_packet_number p = ?mk + 1" "client_ok c'"
        "mk_recent_packet_number (cl_packet_maker c') = ?mk + 1" "um_least_unacked ?m' = um_least_unacked ?m"
        "um_list ?m' = um_list ?m @ replicate j hole @ [e]" "ti_in_flight e" by auto
      have e: "um_end_number ?m = ?mk + 1" "um_end_number ?m' = ?mk + 1 + 1"
        using c p(3,4) by (simp_all add: client_ok_def Let_def)
      have v: "unat (?mk + 1) = unat ?mk + 1" "unat (?mk + 1 + 1) = unat ?mk + 2" using m by (simp_all add: unat_u64_plus)
      note ends = client_ok_inv(5) [OF c] client_ok_inv(5) [OF p(3)]
      have old: "um_in_flight ?m' pn" if "um_in_flight ?m pn" for pn
      proof -
        have "um_offset ?m pn < length (um_list ?m)"
          using um_covers_offset [OF client_ok_inv(3) [OF c]] that by (simp add: um_in_flight_def)
        with that p(5,6) e v show ?thesis
          by (auto simp: um_in_flight_def um_covers_def um_offset_def nth_append word_less_nat_alt)
      qed
      have new: "um_in_flight ?m' (?mk + 1)"
      proof -
        have "um_offset ?m' (?mk + 1) = length (um_list ?m) + j"
          using ends e v p(5,6) by (simp add: um_offset_unat word_le_nat_alt)
        with ends e v p(5,6,7) show ?thesis
          by (simp add: um_in_flight_def um_covers_def word_le_nat_alt word_less_nat_alt nth_append)
      qed
      have num: "ack_number (datagram p) = ?mk + 1" using p(2) v n by (simp add: ack_number_datagram)
      have below: "ack_number d' < ?mk + 1" if "d' \<in> set q" for d'
        using ok that e(1) by (auto simp: tracked_def um_in_flight_def um_covers_def)
      have larger: "la_loss_detection_timeout (cl_loss c') \<noteq> time_Zero
          \<Longrightarrow> pm_largest_newly_acked (cl_send_manager c') < ?mk + 1"
        using ok k e(1) by simp
      have "?mk + 1 < ?mk + 1 + 1" using v by (simp add: word_less_nat_alt)
      with larger have "la_loss_detection_timeout (cl_loss c') \<noteq> time_Zero
          \<Longrightarrow> pm_largest_newly_acked (cl_send_manager c') < um_end_number ?m'" using e(2) by force
      moreover have "tracked c' d'" if "d' \<in> set q" for d' using ok that old k by (auto simp: tracked_def)
      moreover have "tracked c' (datagram p)" using new num larger by (auto simp: tracked_def)
      moreover have "sorted_wrt (\<lambda>d d'. ack_number d < ack_number d') (q @ [datagram p])"
        using ok below num by (simp add: sorted_wrt_append)
      ultimately show ?thesis using p(1,3) k tok e v n by (simp add: lossy_ok_def queued_def)
    qed
  qed
  with o' show ?thesis by blast
qed

text \<open>What the largest packet acked and the time of the last packet become.\<close>

lemma lost_loop_last: "lost_loop ps (st, m) = Some (st', m')
    \<Longrightarrow> um_last_inflight_packet_sent_time m' = um_last_inflight_packet_sent_time m"
  by (induction ps arbitrary: st m) (auto simp: bind_eq_Some_conv Let_def dest!: RemoveFromInFlight_last um_set_state_last)

lemma InvokeLossDetection_keeps:
  assumes "InvokeLossDetection t s = Some s'"
  shows "um_last_inflight_packet_sent_time (pm_unacked_packets s') = um_last_inflight_packet_sent_time (pm_unacked_packets s)
    \<and> pm_largest_newly_acked s'
      = (if pm_packets_acked s \<noteq> [] then ap_packet_number (last (pm_packets_acked s)) else pm_largest_newly_acked s)"
  using assms by (auto simp: InvokeLossDetection_def Let_def bind_eq_Some_conv dest!: lost_loop_last)

lemma OnAckFrameEnd_keeps:
  assumes e: "OnAckFrameEnd ops t pn s = Some (s', r)" and p: "pm_packets_acked s = [p]"
  shows "um_last_inflight_packet_sent_time (pm_unacked_packets s') = um_last_inflight_packet_sent_time (pm_unacked_packets s)
    \<and> pm_largest_newly_acked s' = ap_packet_number p"
proof -
  from e p obtain info where i: "GetTransmissionInfo (ap_packet_number p) (pm_unacked_packets s) = Some info"
    by (auto simp: OnAckFrameEnd_def bind_eq_Some_conv)
  define p' where "p' = (if ti_in_flight info then p\<lparr>ap_bytes_acked := ti_bytes_sent info\<rparr> else p)"
  define s0 where "s0 = (if ti_in_flight info then s else s\<lparr>pm_largest_newly_acked := ap_packet_number p\<rparr>)"
  from e p i obtain s1 s2 where "MarkPacketHandled (ap_packet_number p) t s0 = Some s1"
    "PostProcessNewlyAckedPackets ops t (pm_rtt_updated s1) (um_bytes_in_flight (pm_unacked_packets s))
      (s1\<lparr>pm_packets_acked := [p']\<rparr>) = Some s2" "s' = s2"
    by (cases "ti_in_flight info") (auto simp: OnAckFrameEnd_def bind_eq_Some_conv p'_def s0_def)
  moreover have "pm_unacked_packets s0 = pm_unacked_packets s" "ap_packet_number p' = ap_packet_number p"
    by (simp_all add: s0_def p'_def)
  ultimately have s: "MarkPacketHandled (ap_packet_number p) t s0 = Some s1"
    "pm_unacked_packets s0 = pm_unacked_packets s" "ap_packet_number p' = ap_packet_number p"
    "PostProcessNewlyAckedPackets ops t (pm_rtt_updated s1) (um_bytes_in_flight (pm_unacked_packets s))
      (s1\<lparr>pm_packets_acked := [p']\<rparr>) = Some s2" "s' = s2" by simp_all
  from s(1) have m: "um_last_inflight_packet_sent_time (pm_unacked_packets s1)
      = um_last_inflight_packet_sent_time (pm_unacked_packets s0)"
    by (auto simp: MarkPacketHandled_def bind_eq_Some_conv Let_def split: if_splits
        dest!: RemoveFromInFlight_last um_set_state_last)
  from s(4) obtain s3 s4 where s3: "InvokeLossDetection t (s1\<lparr>pm_packets_acked := [p']\<rparr>) = Some s3"
    "MaybeInvokeCongestionEvent ops (pm_rtt_updated s1) (um_bytes_in_flight (pm_unacked_packets s)) t s3 = Some s4"
    "pm_largest_newly_acked s2 = pm_largest_newly_acked s4" "pm_unacked_packets s2 = pm_unacked_packets s4"
    by (auto simp: PostProcessNewlyAckedPackets_def Let_def bind_eq_Some_conv split: if_splits)
  from InvokeLossDetection_keeps [OF s3(1)] MaybeInvokeCongestionEvent_keeps [OF s3(2)] m s(2,3,5) s3(3,4)
  show ?thesis by simp
qed

lemma OnPacketReceived_keeps:
  assumes r: "OnPacketReceived ops buf t t' c = Some c'" "UnSerialize buf = Some p"
    and idle: "pm_packets_acked (cl_send_manager c) = []"
  shows "cl_last c' = cl_last c \<and> pm_largest_newly_acked (cl_send_manager c') = sp_packet_number p"
proof -
  from r obtain m1 m2 x where m: "OnAckFrameStart (sp_packet_number p) t (cl_send_manager c) = Some m1"
    "OnAckFrameEnd ops t (sp_packet_number p)
      (OnAckRange t' (sp_packet_number p) (pn_plus (sp_packet_number p) 1) m1) = Some (m2, x)" "cl_send_manager c' = m2"
    by (auto simp: OnPacketReceived_def Let_def bind_eq_Some_conv split: if_splits)
  note k = OnAckFrameStart_keeps [OF m(1)]
  have "pm_packets_acked (OnAckRange t' (sp_packet_number p) (pn_plus (sp_packet_number p) 1) m1)
      = [\<lparr>ap_packet_number = sp_packet_number p, ap_bytes_acked = DEFAULT_PACKET_SIZE, ap_receive_timestamp = t'\<rparr>]"
    using k idle by (simp add: OnAckRange_def)
  from OnAckFrameEnd_keeps [OF m(2) this] k m(3) show ?thesis by (simp add: OnAckRange_def)
qed

lemma lossy_ok_ack:
  assumes l: "lossy_ok c (d # q)" and i: "clocks_ok (iteration ts None us)"
  shows "\<exists>c'. input_receive bbr2_ops (iteration ts (Some d) us) c = Some c' \<and> lossy_ok c' q
    \<and> cl_packet_maker c' = cl_packet_maker c"
proof -
  obtain t t' t'' where ts: "ts = (t, t', t'')" by (cases ts) auto
  obtain w w' where us: "us = (w, w')" by (cases us)
  note ok = l [unfolded lossy_ok_def]
  have c: "client_ok c" using ok by simp
  note inv = client_ok_inv [OF c]
  have tok: "time_ok (clock_Now w)" using clocks_time_ok [OF i [unfolded ts us]] by simp
  from ok obtain p0 where d: "d = datagram p0" "um_in_flight (cl_map c) (ack_number d)" by (auto simp: tracked_def)
  from UnSerialize_ack_ex [of p0] obtain p where p: "UnSerialize (receive_buf d) = Some p" unfolding d(1) by blast
  have n: "sp_packet_number p = ack_number d" using p by (simp add: ack_number_def)
  have cov: "um_covers (cl_map c) (sp_packet_number p)" using d(2) by (simp add: n um_in_flight_def)
  have "length d \<noteq> 0" by (simp add: d(1) datagram_length)
  then have ne: "d \<noteq> []" by auto
  let ?k = "um_offset (cl_map c) (ack_number d)"
  from OnPacketReceived_ok [OF c tok p cov, of "clock_Now w'"] obtain c' r L where
    c': "OnPacketReceived bbr2_ops (receive_buf d) (clock_Now w) (clock_Now w') c = Some c'" "client_ok c'"
    "cl_packet_maker c' = cl_packet_maker c"
    "lost_set (cl_send_manager c\<lparr>pm_rtt_stats := r\<rparr>) (clock_Now w) (ack_number d) L" "L \<inter> {?k} = {}"
    "um_list (cl_map c') = after_ack {?k} L (um_list (cl_map c))"
    unfolding n by blast
  have e: "um_end_number (cl_map c') = um_end_number (cl_map c)" using c c'(2,3) by (simp add: client_ok_def Let_def)
  have k: "cl_last c' = cl_last c \<and> pm_largest_newly_acked (cl_send_manager c') = ack_number d"
    using OnPacketReceived_keeps [OF c'(1) p] inv(2) by (simp add: pm_idle_def n)
  have "tracked c' d'" if d': "d' \<in> set q" for d'
  proof -
    let ?n = "ack_number d'" and ?zs = "settled NEVER_SENT L (settled ACKED {?k} (um_list (cl_map c)))"
    have f: "um_in_flight (cl_map c) ?n" "ack_number d < ?n" "\<exists>p. d' = datagram p"
      using ok d' by (auto simp: tracked_def)
    then have cov': "um_covers (cl_map c) ?n" by (simp add: um_in_flight_def)
    have "um_offset (cl_map c) ?n \<noteq> ?k" using um_offset_inj [OF cov' cov [unfolded n]] f(2) by auto
    moreover have "um_offset (cl_map c) ?n \<notin> L" using lost_set_above [OF c'(4), of ?n] cov' f(2) by simp
    moreover have "um_offset (cl_map c) ?n < length (um_list (cl_map c))" by (rule um_covers_offset [OF inv(3) cov'])
    ultimately have "ti_in_flight (?zs ! um_offset (cl_map c) ?n)"
      using f(1) by (simp add: nth_settled um_in_flight_def)
    moreover have "um_list (cl_map c') = dropWhile useless ?zs" using c'(6) by (simp add: after_ack_def)
    ultimately have "um_in_flight (cl_map c') ?n"
      by (intro um_in_flight_settled [OF inv(3) cov' client_ok_inv(3) [OF c'(2)] e, where zs = ?zs]) simp_all
    with f k show ?thesis by (simp add: tracked_def)
  qed
  moreover have "ack_number d < um_end_number (cl_map c)" using cov by (simp add: n um_covers_def)
  ultimately have "lossy_ok c' q" using ok c'(2) e k by (simp add: lossy_ok_def)
  moreover have "input_receive bbr2_ops (iteration ts (Some d) us) c = Some c'"
    using c'(1) ne by (simp add: input_receive_def ReceivePacket_def us)
  ultimately show ?thesis using c'(3) by blast
qed

lemma rto_loop_last:
  assumes "rto_loop pn largest m = Some m'"
  shows "um_last_inflight_packet_sent_time m' = um_last_inflight_packet_sent_time m"
  using assms
proof (rule rto_loop.raw_induct
    [where P = "\<lambda>pn largest m m'. um_last_inflight_packet_sent_time m' = um_last_inflight_packet_sent_time m", rotated])
  fix f :: "packet_number \<Rightarrow> packet_number \<Rightarrow> unacked_map \<Rightarrow> unacked_map option" and pn largest m m'
  assume IH: "\<And>pn largest m m'. f pn largest m = Some m'
      \<Longrightarrow> um_last_inflight_packet_sent_time m' = um_last_inflight_packet_sent_time m"
    and "(if pn \<le> largest
      then Option.bind (GetTransmissionInfo pn m) (\<lambda>info.
        Option.bind (if ti_state info = OUTSTANDING
                     then Option.bind (RemoveFromInFlight pn m) (um_set_state pn NEVER_SENT) else Some m)
          (f (pn_inc pn) largest))
      else Some m) = Some m'"
  then show "um_last_inflight_packet_sent_time m' = um_last_inflight_packet_sent_time m"
    by (auto simp: bind_eq_Some_conv split: if_split_asm dest!: IH RemoveFromInFlight_last um_set_state_last)
qed

lemma Timeout_keeps:
  assumes "pm_OnRetransmissionTimeout ops t s = Some (s', r)" "pm_packets_acked s = []"
  shows "um_last_inflight_packet_sent_time (pm_unacked_packets s') = um_last_inflight_packet_sent_time (pm_unacked_packets s)
    \<and> pm_largest_newly_acked s' = pm_largest_newly_acked s
    \<and> (GetRetransmissionMode s = RTO_MODE \<longrightarrow> pm_loss_algorithm s' = pm_loss_algorithm s)"
proof (cases "GetRetransmissionMode s = LOSS_MODE")
  case True
  with assms(1) obtain s1 where "InvokeLossDetection t (s\<lparr>pm_stats := (pm_stats s)
      \<lparr>cs_loss_timeout_count := cs_loss_timeout_count (pm_stats s) + 1\<rparr>\<rparr>) = Some s1"
    "MaybeInvokeCongestionEvent ops False (um_bytes_in_flight (pm_unacked_packets s)) t s1 = Some s'"
    by (auto simp: pm_OnRetransmissionTimeout_def bind_eq_Some_conv Let_def)
  from InvokeLossDetection_keeps [OF this(1)] MaybeInvokeCongestionEvent_keeps [OF this(2)] assms(2) True
  show ?thesis by simp
next
  case False
  then have "GetRetransmissionMode s = RTO_MODE" by (auto simp: GetRetransmissionMode_def split: if_splits)
  with assms(1) show ?thesis
    by (auto simp: pm_OnRetransmissionTimeout_def RetransmitRtoPackets_def bind_eq_Some_conv Let_def
        split: if_splits dest!: rto_loop_last RemoveObsoletePackets_last)
qed

lemma lossy_ok_poll:
  assumes l: "lossy_ok c q" and i: "clocks_ok (iteration ts None us)"
    and t: "q = [] \<or> clock_Now (fst us) \<le> cl_last c + 200000"
  shows "\<exists>c'. input_receive bbr2_ops (iteration ts None us) c = Some c' \<and> lossy_ok c' q
    \<and> cl_packet_maker c' = cl_packet_maker c"
proof -
  obtain t t' t'' where ts: "ts = (t, t', t'')" by (cases ts) auto
  obtain w w' where us: "us = (w, w')" by (cases us)
  let ?s = "cl_send_manager c"
  note ok = l [unfolded lossy_ok_def]
  have c: "client_ok c" using ok by simp
  note inv = client_ok_inv [OF c]
  have tok: "time_ok (clock_Now w')" using clocks_time_ok [OF i [unfolded ts us]] by simp
  show ?thesis
  proof (cases "GetRetransmissionTime ?s < clock_Now w")
    case False
    with l show ?thesis by (simp add: input_receive_def ReceivePacket_def us)
  next
    case fires: True
    from Timeout_client_ok [OF c tok] obtain m where
      m: "pm_OnRetransmissionTimeout bbr2_ops (clock_Now w') ?s = Some (m, GetRetransmissionMode ?s)"
      "client_ok (c\<lparr>cl_send_manager := m\<rparr>)"
      "GetRetransmissionMode ?s = LOSS_MODE \<longrightarrow> (\<exists>L. lost_set ?s (clock_Now w') (pm_largest_newly_acked ?s) L
        \<and> (let zs = settled NEVER_SENT L (um_list (cl_map c))
           in um_list (pm_unacked_packets m) = zs \<or> um_list (pm_unacked_packets m) = dropWhile useless zs))" by blast
    have k: "um_last_inflight_packet_sent_time (pm_unacked_packets m) = cl_last c"
      "pm_largest_newly_acked m = pm_largest_newly_acked ?s"
      "GetRetransmissionMode ?s = RTO_MODE \<longrightarrow> pm_loss_algorithm m = cl_loss c"
      using Timeout_keeps [OF m(1)] inv(2) by (simp_all add: pm_idle_def)
    have e: "um_end_number (pm_unacked_packets m) = um_end_number (cl_map c)"
      using c m(2) by (simp add: client_ok_def Let_def)
    let ?c = "c\<lparr>cl_send_manager := m\<rparr>"
    have "lossy_ok ?c q"
    proof (cases "la_loss_detection_timeout (cl_loss c) = time_Zero")
      case True
      have "q = []"
      proof (rule ccontr)
        assume "q \<noteq> []"
        then obtain d where "d \<in> set q" by (cases q) auto
        then have "um_in_flight (cl_map c) (ack_number d)" using ok by (simp add: tracked_def)
        from GetRetransmissionTime_late [OF inv(1) True um_in_flight_bytes [OF c this]] ok t fires us \<open>q \<noteq> []\<close>
        show False by simp
      qed
      moreover have "GetRetransmissionMode ?s = RTO_MODE" using True by (simp add: GetRetransmissionMode_def GetLossTimeout_def)
      ultimately show ?thesis using ok m(2) k e True by (simp add: lossy_ok_def)
    next
      case False
      then have "GetRetransmissionMode ?s = LOSS_MODE" by (simp add: GetRetransmissionMode_def GetLossTimeout_def)
      with m(3) obtain L where L: "lost_set ?s (clock_Now w') (pm_largest_newly_acked ?s) L"
        "um_list (pm_unacked_packets m) = settled NEVER_SENT L (um_list (cl_map c))
          \<or> um_list (pm_unacked_packets m) = dropWhile useless (settled NEVER_SENT L (um_list (cl_map c)))"
        by (auto simp: Let_def)
      have "tracked ?c d" if d: "d \<in> set q" for d
      proof -
        let ?n = "ack_number d" and ?zs = "settled NEVER_SENT L (um_list (cl_map c))"
        have f: "um_in_flight (cl_map c) ?n" "pm_largest_newly_acked ?s < ?n" "\<exists>p. d = datagram p"
          using ok d False by (auto simp: tracked_def)
        then have cov: "um_covers (cl_map c) ?n" by (simp add: um_in_flight_def)
        have "um_offset (cl_map c) ?n \<notin> L" by (rule lost_set_above [OF L(1) cov f(2)])
        moreover have "um_offset (cl_map c) ?n < length (um_list (cl_map c))" by (rule um_covers_offset [OF inv(3) cov])
        ultimately have "ti_in_flight (?zs ! um_offset (cl_map c) ?n)" using f(1) by (simp add: nth_settled um_in_flight_def)
        from um_in_flight_settled [OF inv(3) cov client_ok_inv(3) [OF m(2)] _ _ _ this] e L(2)
        have "um_in_flight (cl_map ?c) ?n" by simp
        with f k(2) show ?thesis by (simp add: tracked_def)
      qed
      then show ?thesis using ok m(2) k e False by (simp add: lossy_ok_def)
    qed
    with fires m(1) show ?thesis by (simp add: input_receive_def ReceivePacket_def us)
  qed
qed

subsection \<open>Histories\<close>

definition lossy_net_ok :: "bbr2_sender network \<Rightarrow> bool" where
  "lossy_net_ok n \<longleftrightarrow> lossy_ok (nw_client n) (nw_acks n @ nw_data n)"

lemma lossy_step_ok:
  assumes ok: "lossy_net_ok n" and e: "event_ok bbr2_ops usable e n" and u: "1440 < usable 1440"
    and n: "nw_number n + 1 < 10000000000"
  shows "\<exists>o'. net_step bbr2_ops usable e n = Some o'
    \<and> (\<forall>n'. o' = Running n' \<longrightarrow> lossy_net_ok n' \<and> nw_number n' \<le> nw_number n + 1)"
proof (cases e)
  case (LosesData k)
  with ok lossy_ok_lose [of "nw_client n" "nw_acks n" "nw_data n" "[]" k] show ?thesis by (simp add: lossy_net_ok_def)
next
  case (LosesAck k)
  with ok lossy_ok_lose [of "nw_client n" "[]" "nw_acks n" "nw_data n" k] show ?thesis by (simp add: lossy_net_ok_def)
next
  case (ServerRuns now now' arrives)
  show ?thesis
  proof (cases "arrives \<and> nw_data n \<noteq> []")
    case False
    then have a: "arrival arrives (nw_data n) = (None, nw_data n)" by (auto simp: arrival_def)
    from ReceiveData_none [of True now now' "nw_server n"] obtain s x where
      "ReceiveData None True now now' (nw_server n) = Some (Running (s, None, x))" by blast
    with a ok show ?thesis by (simp add: ServerRuns queued_def lossy_net_ok_def)
  next
    case True
    then obtain d q where q: "nw_data n = d # q" by (cases "nw_data n") auto
    then obtain p where p: "d = datagram p" using ok by (auto simp: lossy_net_ok_def lossy_ok_def tracked_def)
    have a: "arrival arrives (nw_data n) = (Some d, q)" using True by (simp add: arrival_def q)
    from ReceiveData_datagram [of p now now' "nw_server n"] obtain s x where
      "ReceiveData (Some d) True now now' (nw_server n) = Some (Running (s, Some d, x))" unfolding p by blast
    with a ok show ?thesis by (simp add: ServerRuns queued_def lossy_net_ok_def q)
  qed
next
  case (ClientRuns ts us arrives)
  have i: "clocks_ok (iteration ts None us)" using e ClientRuns by simp
  have l: "lossy_ok (nw_client n) (nw_acks n @ nw_data n)" using ok by (simp add: lossy_net_ok_def)
  from lossy_ok_send [where usable = usable, OF l i u n] obtain o' where
    o': "input_send bbr2_ops usable (iteration ts None us) (nw_client n) = Some o'"
    "\<And>c d. o' = Running (c, d) \<Longrightarrow> lossy_ok c ((nw_acks n @ nw_data n) @ queued d)
      \<and> unat (mk_recent_packet_number (cl_packet_maker c)) \<le> nw_number n + 1" by blast
  show ?thesis
  proof (cases o')
    case Paused
    with o'(1) ClientRuns show ?thesis by simp
  next
    case (Running cd)
    obtain c d where cd: "cd = (c, d)" by (cases cd)
    note c = o'(2) [OF Running [unfolded cd]]
    obtain a acks where a: "arrival arrives (nw_acks n) = (a, acks)" by (cases "arrival arrives (nw_acks n)")
    have "\<exists>c'. input_receive bbr2_ops (iteration ts a us) c = Some c' \<and> lossy_ok c' (acks @ nw_data n @ queued d)
      \<and> cl_packet_maker c' = cl_packet_maker c"
    proof (cases "arrives \<and> nw_acks n \<noteq> []")
      case True
      then obtain x q where q: "nw_acks n = x # q" by (cases "nw_acks n") auto
      then have "lossy_ok c (x # (q @ nw_data n @ queued d))" using c by simp
      moreover have "a = Some x" "acks = q" using a True q by (simp_all add: arrival_def)
      ultimately show ?thesis using lossy_ok_ack [OF _ i] by simp
    next
      case False
      then have a: "a = None" "acks = nw_acks n" using a by (auto simp: arrival_def split: if_splits)
      have "poll_in_time us arrives c d n" using e o'(1) Running cd ClientRuns by simp
      then have "nw_acks n @ nw_data n @ queued d = [] \<or> clock_Now (fst us) \<le> cl_last c + 200000"
        using False by (auto simp: poll_in_time_def GetLastInFlightPacketSentTime_def)
      from lossy_ok_poll [OF _ i this] c a show ?thesis by simp
    qed
    then obtain c' where "input_receive bbr2_ops (iteration ts a us) c = Some c'" "lossy_ok c' (acks @ nw_data n @ queued d)"
      "cl_packet_maker c' = cl_packet_maker c" by blast
    with o'(1) Running cd a c ClientRuns show ?thesis by (simp add: lossy_net_ok_def)
  qed
qed

lemma lossy_run_ok:
  assumes "lossy_net_ok n" "1440 < usable 1440" "net_legal bbr2_ops usable es n" "nw_number n + length es < 10000000000"
  shows "\<exists>o'. net_run bbr2_ops usable es n = Some o' \<and> (\<forall>n'. o' = Running n' \<longrightarrow> lossy_net_ok n')"
  using assms
proof (induction es arbitrary: n)
  case (Cons e es)
  have e: "event_ok bbr2_ops usable e n" "nw_number n + 1 < 10000000000" using Cons.prems(3,4) by simp_all
  from lossy_step_ok [where usable = usable, OF Cons.prems(1) e(1) Cons.prems(2) e(2)] obtain o' where
    o': "net_step bbr2_ops usable e n = Some o'"
    "\<And>n'. o' = Running n' \<Longrightarrow> lossy_net_ok n' \<and> nw_number n' \<le> nw_number n + 1" by blast
  show ?case
  proof (cases o')
    case (Running n')
    then have "net_legal bbr2_ops usable es n'" "nw_number n' + length es < 10000000000"
      using Cons.prems(3,4) o'(1) o'(2) [OF Running] by auto
    from Cons.IH [OF _ Cons.prems(2) this] o'(1) o'(2) [OF Running] Running show ?thesis by simp
  qed (use o' in simp)
qed simp

lemma lossy_new_ok:
  assumes "Client (Create_BBRv2 now rng junk) flag = Some c"
  shows "lossy_net_ok (net_new c t)"
proof -
  note new = client_ok_new [OF assms]
  have "cl_loss c = la_new" "cl_map c = um_new IS_CLIENT"
    using assms by (auto simp: Client_def QuicSentPacketManager_def bind_eq_Some_conv)
  moreover have "um_end_number (cl_map c) = 1" using new(1,2) by (simp add: client_ok_def Let_def)
  ultimately show ?thesis using new(1)
    by (simp add: lossy_net_ok_def lossy_ok_def net_new_def la_new_def um_new_def time_ok_def time_Zero_def rtt_max_def)
qed

subsection \<open>Property\<close>





end
