(* ===== verification/Deque_Iterators.thy ===== *)
theory Deque_Iterators
  imports Circular_Deque
begin

section \<open>Iterators, construction and assignment of the circular deque\<close>

text \<open>
  The rest of \<open>common/quiche_circular_deque.h\<close>: the random access iterators, the constructors,
  the assignments, \<open>swap\<close> and the comparison. An iterator consists of a pointer to the deque,
  which is an argument of the functions here, and an index into the buffer; iterators compare by
  index and order by their distance from \<open>begin_\<close>. The allocator is \<open>std::allocator\<close>, whose
  instances are equal and which moves with the container. The deques of an assignment are different
  objects (assigning a deque to itself does nothing). A move leaves the empty deque behind.

  The lemmas show that the iterators of a deque are the positions in its list, so that arithmetic
  and comparisons of iterators are those of positions, and that constructors and assignments make
  the lists they are given.
\<close>

subsection \<open>Iterators\<close>

type_synonym iterator = nat

definition it_new :: iterator where "it_new = 0"
definition it_begin :: "'a deque \<Rightarrow> iterator" where "it_begin d = dq_begin d"
definition it_end :: "'a deque \<Rightarrow> iterator" where "it_end d = dq_end d"

definition it_deref :: "'a deque \<Rightarrow> iterator \<Rightarrow> 'a option" where "it_deref d i = dq_slot d i"

definition it_inc :: "'a deque \<Rightarrow> iterator \<Rightarrow> iterator" where "it_inc d i = index_next d i"
definition it_post_inc :: "'a deque \<Rightarrow> iterator \<Rightarrow> iterator \<times> iterator" where
  "it_post_inc d i = (index_next d i, i)"
definition it_dec :: "'a deque \<Rightarrow> iterator \<Rightarrow> iterator" where "it_dec d i = index_prev d i"
definition it_post_dec :: "'a deque \<Rightarrow> iterator \<Rightarrow> iterator \<times> iterator" where
  "it_post_dec d i = (index_prev d i, i)"

definition it_plus :: "'a deque \<Rightarrow> iterator \<Rightarrow> int64 \<Rightarrow> iterator option" where
  "it_plus d i delta = index_increment_by d i delta"
definition it_minus :: "'a deque \<Rightarrow> iterator \<Rightarrow> int64 \<Rightarrow> iterator option" where
  "it_minus d i delta = index_increment_by d i (i64 (- delta))"
definition it_subscript :: "'a deque \<Rightarrow> iterator \<Rightarrow> int64 \<Rightarrow> 'a option" where
  "it_subscript d i delta = Option.bind (it_plus d i delta) (it_deref d)"
definition it_diff :: "'a deque \<Rightarrow> iterator \<Rightarrow> iterator \<Rightarrow> int64" where
  "it_diff d i j = i64 (int (ExternalPosition d i) - int (ExternalPosition d j))"

definition it_eq :: "iterator \<Rightarrow> iterator \<Rightarrow> bool" where "it_eq i j \<longleftrightarrow> i = j"
definition it_less :: "'a deque \<Rightarrow> iterator \<Rightarrow> iterator \<Rightarrow> bool" where
  "it_less d i j \<longleftrightarrow> ExternalPosition d i < ExternalPosition d j"
definition it_greater :: "'a deque \<Rightarrow> iterator \<Rightarrow> iterator \<Rightarrow> bool" where
  "it_greater d i j \<longleftrightarrow> ExternalPosition d j < ExternalPosition d i"
definition it_le :: "'a deque \<Rightarrow> iterator \<Rightarrow> iterator \<Rightarrow> bool" where "it_le d i j \<longleftrightarrow> \<not> it_greater d i j"
definition it_ge :: "'a deque \<Rightarrow> iterator \<Rightarrow> iterator \<Rightarrow> bool" where "it_ge d i j \<longleftrightarrow> \<not> it_less d i j"

text \<open>A reverse iterator refers to the element before the iterator it holds.\<close>

definition it_rbegin :: "'a deque \<Rightarrow> iterator" where "it_rbegin d = it_end d"
definition it_rend :: "'a deque \<Rightarrow> iterator" where "it_rend d = it_begin d"
definition rit_deref :: "'a deque \<Rightarrow> iterator \<Rightarrow> 'a option" where "rit_deref d i = it_deref d (it_dec d i)"

subsection \<open>Construction, assignment and comparison\<close>

text \<open>The destructor; freeing the buffer leaves nothing to look at.\<close>

definition DestroyAndDeallocateAll :: "'a deque \<Rightarrow> unit option" where
  "DestroyAndDeallocateAll d = map_option (\<lambda>_. ()) (DestroyRange (dq_begin d) (dq_end d) d)"

definition dq_with_count :: "nat \<Rightarrow> 'a \<Rightarrow> 'a deque option" where
  "dq_with_count count v = dq_resize count v dq_new"
definition dq_with_range :: "'a list \<Rightarrow> 'a deque option" where "dq_with_range vs = AssignRange vs dq_new"

definition dq_assign_count :: "nat \<Rightarrow> 'a \<Rightarrow> 'a deque \<Rightarrow> 'a deque option" where
  "dq_assign_count count v d = do {
     d \<leftarrow> ClearRetainCapacity d;
     Some ((dq_emplace_back v ^^ count) (dq_reserve count d)) }"
definition dq_assign_range :: "'a list \<Rightarrow> 'a deque \<Rightarrow> 'a deque option" where
  "dq_assign_range vs d = AssignRange vs d"

definition dq_copy :: "'a deque \<Rightarrow> 'a deque option" where
  "dq_copy other = Option.bind (dq_elements other) (\<lambda>vs. AssignRange vs dq_new)"
definition dq_copy_assign :: "'a deque \<Rightarrow> 'a deque \<Rightarrow> 'a deque option" where
  "dq_copy_assign other d = Option.bind (dq_elements other) (\<lambda>vs. AssignRange vs d)"

text \<open>The results of moves and swaps are the deque and the other one.\<close>

definition dq_move :: "'a deque \<Rightarrow> 'a deque \<times> 'a deque" where
  "dq_move other = (\<lparr>dq_data = dq_data other, dq_begin = dq_begin other, dq_end = dq_end other\<rparr>,
     other\<lparr>dq_data := [], dq_begin := 0, dq_end := 0\<rparr>)"

definition MoveRetainAllocator :: "'a deque \<Rightarrow> 'a deque \<Rightarrow> ('a deque \<times> 'a deque) option" where
  "MoveRetainAllocator other d = do {
     DestroyAndDeallocateAll d;
     Some (d\<lparr>dq_begin := dq_begin other, dq_end := dq_end other, dq_data := dq_data other\<rparr>,
       other\<lparr>dq_begin := 0, dq_end := 0, dq_data := []\<rparr>) }"

definition dq_move_assign :: "'a deque \<Rightarrow> 'a deque \<Rightarrow> ('a deque \<times> 'a deque) option" where
  "dq_move_assign other d = do { DestroyAndDeallocateAll d; Some (dq_move other) }"

definition dq_swap :: "'a deque \<Rightarrow> 'a deque \<Rightarrow> 'a deque \<times> 'a deque" where
  "dq_swap other d = (d\<lparr>dq_begin := dq_begin other, dq_end := dq_end other, dq_data := dq_data other\<rparr>,
     other\<lparr>dq_begin := dq_begin d, dq_end := dq_end d, dq_data := dq_data d\<rparr>)"

text \<open>\<open>std::equal\<close> on random access iterators compares the lengths first.\<close>

fun equal_loop :: "nat \<Rightarrow> 'a deque \<Rightarrow> iterator \<Rightarrow> 'a deque \<Rightarrow> iterator \<Rightarrow> bool option" where
  "equal_loop 0 c i d j = Some True"
| "equal_loop (Suc n) c i d j = do {
     x \<leftarrow> it_deref c i; y \<leftarrow> it_deref d j;
     if x = y then equal_loop n c (it_inc c i) d (it_inc d j) else Some False }"

definition dq_equal :: "'a deque \<Rightarrow> 'a deque \<Rightarrow> bool option" where
  "dq_equal c d = (let n = it_diff c (it_end c) (it_begin c)
     in if n \<noteq> it_diff d (it_end d) (it_begin d) then Some False
        else equal_loop (nat n) c (it_begin c) d (it_begin d))"

subsection \<open>Iterators are positions\<close>

lemma dq_rep_capacity_pos: "dq_rep d xs \<Longrightarrow> xs \<noteq> [] \<Longrightarrow> dq_data_capacity d \<noteq> 0"
  by (auto simp: dq_rep_def split: if_split_asm)

lemma it_deref_iter:
  assumes r: "dq_rep d xs" and k: "k < length xs" shows "it_deref d (dq_iter d k) = Some (xs ! k)"
proof -
  have c: "dq_data_capacity d \<noteq> 0" using k by (intro dq_rep_capacity_pos [OF r]) auto
  have "dq_iter d k < dq_data_capacity d" "dq_data d ! dq_iter d k = Some (xs ! k)"
    using dq_repD [OF r c] k by (simp_all add: dq_iter_def ring_less)
  then show ?thesis by (simp add: it_deref_def dq_slot_def)
qed

lemma it_step_iter:
  assumes r: "dq_rep d xs" and k: "k < length xs"
  shows "it_inc d (dq_iter d k) = dq_iter d (Suc k)" "it_dec d (dq_iter d (Suc k)) = dq_iter d k"
proof -
  have "dq_data_capacity d \<noteq> 0" using k by (intro dq_rep_capacity_pos [OF r]) auto
  from dq_repD(1,2) [OF r this] k
  show "it_inc d (dq_iter d k) = dq_iter d (Suc k)" "it_dec d (dq_iter d (Suc k)) = dq_iter d k"
    by (auto simp: it_inc_def it_dec_def index_next_def index_prev_def dq_iter_def ring_def)
qed

lemma ExternalPosition_iter:
  assumes r: "dq_rep d xs" and k: "k \<le> length xs" shows "ExternalPosition d (dq_iter d k) = k"
proof (cases "dq_data_capacity d = 0")
  case True
  with assms show ?thesis by (simp add: dq_rep_cap0 ExternalPosition_def dq_iter_def ring_def)
next
  case False
  from dq_repD(1,2) [OF r False] k show ?thesis by (auto simp: ExternalPosition_def dq_iter_def ring_def)
qed

lemma it_plus_iter:
  assumes r: "dq_rep d xs" and k: "j \<le> length xs" "k \<le> length xs"
  shows "it_plus d (dq_iter d j) (int k - int j) = Some (dq_iter d k)"
proof (cases "j = k")
  case False
  then have "xs \<noteq> []" using k by auto
  then have c: "dq_data_capacity d \<noteq> 0" by (rule dq_rep_capacity_pos [OF r])
  let ?b = "dq_begin d" and ?c = "dq_data_capacity d"
  note D = dq_repD(1,2) [OF r c]
  have s: "int (ring ?b j ?c) + int ?c + (int k - int j) = int (ring ?b j ?c + ?c + k - j)"
    using D k by (simp add: of_nat_diff)
  have m: "(ring ?b j ?c + ?c + k - j) mod ?c = ring ?b k ?c"
  proof -
    have "ring ?b j ?c + ?c + k - j = (if ?b + j < ?c then ?b + k + ?c else ?b + k)"
      using D k by (simp add: ring_def)
    then show ?thesis using D k by (auto simp: ring_def mod_if)
  qed
  have "it_plus d (dq_iter d j) (int k - int j) = Some (nat (int (ring ?b j ?c + ?c + k - j) mod int ?c))"
    using False c unfolding it_plus_def index_increment_by_def dq_iter_def Let_def s by simp
  also have "int (ring ?b j ?c + ?c + k - j) mod int ?c = int (ring ?b k ?c)"
    using m by (simp only: zmod_int [symmetric])
  finally show ?thesis by (simp add: dq_iter_def)
qed (simp add: it_plus_def index_increment_by_def)

lemma it_diff_iter:
  assumes "dq_rep d xs" "j \<le> length xs" "k \<le> length xs" "length xs < 2 ^ 63"
  shows "it_diff d (dq_iter d k) (dq_iter d j) = int k - int j"
  using assms by (simp add: it_diff_def ExternalPosition_iter i64_small)

lemma it_begin_end:
  assumes "dq_rep d xs" shows "it_begin d = dq_iter d 0" "it_end d = dq_iter d (length xs)"
  using dq_iter_begin [OF assms] dq_iter_end [OF assms, of "length xs"] by (simp_all add: it_begin_def it_end_def)

lemma dq_iter_inj:
  "dq_rep d xs \<Longrightarrow> j \<le> length xs \<Longrightarrow> k \<le> length xs \<Longrightarrow> dq_iter d j = dq_iter d k \<longleftrightarrow> j = k"
  using ExternalPosition_iter by metis

subsection \<open>Construction and comparison on lists\<close>

lemma dq_with_count_eq:
  "(0 < count \<longrightarrow> (\<exists>d. dq_with_count count v = Some d \<and> dq_rep d (replicate count v)))
    \<and> dq_with_count 0 v = (None :: 'a deque option)"
proof
  show "dq_with_count 0 v = (None :: 'a deque option)"
    by (simp add: dq_with_count_def dq_resize_def dq_size_def dq_new_def dq_data_capacity_def)
  show "0 < count \<longrightarrow> (\<exists>d. dq_with_count count v = Some d \<and> dq_rep d (replicate count v))"
    using dq_rep_resize [OF dq_rep_new, of count v] by (auto simp: dq_with_count_def)
qed

lemma equal_loop_iter:
  assumes "dq_rep c xs" "dq_rep d ys" "length xs = length ys"
  shows "n + k = length xs \<Longrightarrow> equal_loop n c (dq_iter c k) d (dq_iter d k) = Some (drop k xs = drop k ys)"
proof (induction n arbitrary: k)
  case (Suc n)
  then have k: "k < length xs" "k < length ys" using assms(3) by simp_all
  have "drop k xs = drop k ys \<longleftrightarrow> xs ! k = ys ! k \<and> drop (Suc k) xs = drop (Suc k) ys"
    using k by (simp flip: Cons_nth_drop_Suc)
  with Suc.IH [of "Suc k"] Suc.prems show ?case
    by (simp add: it_deref_iter [OF assms(1) k(1)] it_deref_iter [OF assms(2) k(2)] it_step_iter [OF assms(1) k(1)]
        it_step_iter [OF assms(2) k(2)])
qed (use assms in simp)

lemma dq_equal_rep:
  assumes "dq_rep c xs" "dq_rep d ys" "length xs < 2 ^ 63" "length ys < 2 ^ 63"
  shows "dq_equal c d = Some (xs = ys)"
proof -
  have "it_diff c (it_end c) (it_begin c) = int (length xs)" "it_diff d (it_end d) (it_begin d) = int (length ys)"
    using it_diff_iter [OF assms(1), of 0 "length xs"] it_diff_iter [OF assms(2), of 0 "length ys"] assms(3,4)
    by (simp_all add: it_begin_end [OF assms(1)] it_begin_end [OF assms(2)])
  then show ?thesis using equal_loop_iter [OF assms(1,2), of "length xs" 0]
    by (auto simp: dq_equal_def it_begin_end [OF assms(1)] it_begin_end [OF assms(2)])
qed

lemma DestroyAndDeallocateAll_rep: "dq_rep d xs \<Longrightarrow> DestroyAndDeallocateAll d = Some ()"
  using dq_rep_clear [of d xs] by (auto simp: DestroyAndDeallocateAll_def dq_clear_def ClearRetainCapacity_def bind_eq_Some_conv)

lemma dq_rep_emplace_back_funpow: "dq_rep d xs \<Longrightarrow> dq_rep ((dq_emplace_back v ^^ n) d) (xs @ replicate n v)"
  by (induction n) (auto simp: replicate_append_same [symmetric] simp flip: append_assoc intro: dq_rep_emplace_back)

lemma dq_swap_eq: "dq_swap other d = (other, d)"
  by (cases d; cases other) (simp add: dq_swap_def)

lemma dq_move_eq: "dq_move other = (other, dq_new)"
  by (cases other) (simp add: dq_move_def dq_new_def)

lemma MoveRetainAllocator_eq: "dq_rep d xs \<Longrightarrow> MoveRetainAllocator other d = Some (other, dq_new)"
  by (cases d; cases other) (simp add: MoveRetainAllocator_def dq_new_def DestroyAndDeallocateAll_rep)

subsection \<open>Properties\<close>

text \<open>C37. The iterators of a deque behave as the positions of its list: arithmetic, differences and comparisons
  are those of the positions, an iterator refers to the element at its position, and a reverse
  iterator to the one before.\<close>

theorem iterators_are_positions:
  assumes "dq_rep d xs" "length xs < 2 ^ 63" "j \<le> length xs" "k \<le> length xs"
  shows "it_begin d = dq_iter d 0 \<and> it_end d = dq_iter d (length xs)
    \<and> it_plus d (dq_iter d j) (int k - int j) = Some (dq_iter d k)
    \<and> it_diff d (dq_iter d k) (dq_iter d j) = int k - int j
    \<and> it_eq (dq_iter d j) (dq_iter d k) = (j = k) \<and> it_less d (dq_iter d j) (dq_iter d k) = (j < k)
    \<and> it_le d (dq_iter d j) (dq_iter d k) = (j \<le> k)
    \<and> (k < length xs \<longrightarrow> it_deref d (dq_iter d k) = Some (xs ! k)
        \<and> it_subscript d (dq_iter d j) (int k - int j) = Some (xs ! k)
        \<and> it_inc d (dq_iter d k) = dq_iter d (Suc k) \<and> it_dec d (dq_iter d (Suc k)) = dq_iter d k
        \<and> rit_deref d (dq_iter d (Suc k)) = Some (xs ! k))"
  using assms it_plus_iter [OF assms(1,3,4)] it_diff_iter [OF assms(1,3,4,2)]
  by (auto simp: it_begin_end it_eq_def dq_iter_inj it_less_def it_le_def it_greater_def ExternalPosition_iter not_less
      it_deref_iter it_subscript_def it_step_iter rit_deref_def)

text \<open>Constructors and assignments make the list they are given: copies equal the deque they are made
  of, moves and swaps exchange the lists, and \<open>operator==\<close> compares them. Only the constructor
  with a count of zero is undefined: it resizes a deque without a buffer.\<close>

theorem copies_and_moves:
  assumes "dq_rep d xs" "dq_rep other ys" "length xs < 2 ^ 63" "length ys < 2 ^ 63"
  shows "(\<exists>c. dq_copy other = Some c \<and> dq_rep c ys \<and> dq_equal c other = Some True)
    \<and> (\<exists>c. dq_copy_assign other d = Some c \<and> dq_rep c ys)
    \<and> (\<exists>c o'. dq_move_assign other d = Some (c, o') \<and> dq_rep c ys \<and> dq_rep o' [])
    \<and> (case dq_swap other d of (c, o') \<Rightarrow> dq_rep c ys \<and> dq_rep o' xs)
    \<and> (\<exists>c. dq_assign_count n v d = Some c \<and> dq_rep c (replicate n v))
    \<and> dq_equal d other = Some (xs = ys)
    \<and> (\<exists>c. dq_with_range xs = Some c \<and> dq_rep c xs)
    \<and> (dq_with_count n v = None \<longleftrightarrow> n = 0)"
proof (intro conjI)
  note e = dq_rep_elements [OF assms(2)]
  from dq_rep_AssignRange [OF dq_rep_new, of ys] obtain c where c: "AssignRange ys dq_new = Some c" "dq_rep c ys" by blast
  then show "\<exists>c. dq_copy other = Some c \<and> dq_rep c ys \<and> dq_equal c other = Some True"
    using dq_equal_rep [OF c(2) assms(2,4,4)] by (simp add: dq_copy_def e)
  show "\<exists>c. dq_copy_assign other d = Some c \<and> dq_rep c ys"
    using dq_rep_AssignRange [OF assms(1), of ys] by (simp add: dq_copy_assign_def e)
  show "\<exists>c o'. dq_move_assign other d = Some (c, o') \<and> dq_rep c ys \<and> dq_rep o' []"
    using assms(2) DestroyAndDeallocateAll_rep [OF assms(1)] dq_rep_new
    by (simp add: dq_move_assign_def dq_move_eq)
  show "case dq_swap other d of (c, o') \<Rightarrow> dq_rep c ys \<and> dq_rep o' xs"
    using assms(1,2) by (simp add: dq_swap_eq)
  show "dq_equal d other = Some (xs = ys)" by (rule dq_equal_rep [OF assms])
  show "\<exists>c. dq_with_range xs = Some c \<and> dq_rep c xs"
    using dq_rep_AssignRange [OF dq_rep_new, of xs] by (simp add: dq_with_range_def)
  show "dq_with_count n v = None \<longleftrightarrow> n = 0" using dq_with_count_eq [of n v] by auto
  show "\<exists>c. dq_assign_count n v d = Some c \<and> dq_rep c (replicate n v)"
  proof -
    from dq_rep_clear [OF assms(1)] obtain d' where "ClearRetainCapacity d = Some d'" "dq_rep d' []"
      by (auto simp: dq_clear_def)
    with dq_rep_emplace_back_funpow [OF dq_rep_reserve, of d' "[]" n v n] show ?thesis by (simp add: dq_assign_count_def)
  qed
qed

lemma iterators_are_positions_witness:
  "\<exists>d. dq_rep d [7 :: nat, 8, 9] \<and> it_diff d (it_end d) (it_begin d) = 3
    \<and> it_subscript d (it_begin d) 1 = Some 8 \<and> rit_deref d (it_end d) = Some 9"
proof -
  from dq_rep_AssignRange [OF dq_rep_new, of "[7 :: nat, 8, 9]"] obtain d :: "nat deque" where d: "dq_rep d [7, 8, 9]" by blast
  note p = iterators_are_positions [OF d, of 0]
  have "it_begin d = dq_iter d 0" "it_end d = dq_iter d (Suc (Suc (Suc 0)))"
    "it_diff d (dq_iter d (Suc (Suc (Suc 0)))) (dq_iter d 0) = 3" using p [of "Suc (Suc (Suc 0))"] by simp_all
  moreover have "it_subscript d (dq_iter d 0) 1 = Some 8" "rit_deref d (dq_iter d (Suc (Suc (Suc 0)))) = Some 9"
    using p [of "Suc 0"] p [of "Suc (Suc 0)"] by simp_all
  ultimately show ?thesis using d by auto
qed

lemma copies_and_moves_witness:
  "\<exists>d c. dq_rep d [7 :: nat, 8] \<and> dq_copy d = Some c \<and> dq_equal c d = Some True \<and> dq_equal dq_new d = Some False
    \<and> dq_with_count 0 (5 :: nat) = None"
proof -
  from dq_rep_AssignRange [OF dq_rep_new, of "[7 :: nat, 8]"] obtain d :: "nat deque" where d: "dq_rep d [7, 8]" by blast
  from copies_and_moves [OF dq_rep_new d, of 0 5] d show ?thesis by auto
qed

end
