(* ===== verification/Frame_Types.thy ===== *)
theory Frame_Types
  imports Quic_Time
begin

section \<open>Frame types and write results\<close>

text \<open>
  The parts of \<open>quic/quic_types.h\<close> that no other theory needs and whose values are computed with: frame
  types and their bit fields (in \<open>quic/quic_unacked_packet_map.cc\<close>), the frame types and flag bits of the
  wire format, write results and encryption levels. The other enumerations of the header are plain lists of names
  that the program never uses.
\<close>

unbundle bit_operations_syntax

subsection \<open>Frame types\<close>

datatype quic_frame_type = PADDING_FRAME | RST_STREAM_FRAME | CONNECTION_CLOSE_FRAME
    | GOAWAY_FRAME | WINDOW_UPDATE_FRAME | BLOCKED_FRAME | STOP_WAITING_FRAME | PING_FRAME
    | CRYPTO_FRAME | HANDSHAKE_DONE_FRAME | STREAM_FRAME | ACK_FRAME | MTU_DISCOVERY_FRAME
    | NEW_CONNECTION_ID_FRAME | MAX_STREAMS_FRAME | STREAMS_BLOCKED_FRAME | PATH_RESPONSE_FRAME
    | PATH_CHALLENGE_FRAME | STOP_SENDING_FRAME | MESSAGE_FRAME | NEW_TOKEN_FRAME
    | RETIRE_CONNECTION_ID_FRAME | ACK_FREQUENCY_FRAME | NUM_FRAME_TYPES

fun frame_value :: "quic_frame_type \<Rightarrow> nat" where
  "frame_value PADDING_FRAME = 0"
| "frame_value RST_STREAM_FRAME = 1"
| "frame_value CONNECTION_CLOSE_FRAME = 2"
| "frame_value GOAWAY_FRAME = 3"
| "frame_value WINDOW_UPDATE_FRAME = 4"
| "frame_value BLOCKED_FRAME = 5"
| "frame_value STOP_WAITING_FRAME = 6"
| "frame_value PING_FRAME = 7"
| "frame_value CRYPTO_FRAME = 8"
| "frame_value HANDSHAKE_DONE_FRAME = 9"
| "frame_value STREAM_FRAME = 10"
| "frame_value ACK_FRAME = 11"
| "frame_value MTU_DISCOVERY_FRAME = 12"
| "frame_value NEW_CONNECTION_ID_FRAME = 13"
| "frame_value MAX_STREAMS_FRAME = 14"
| "frame_value STREAMS_BLOCKED_FRAME = 15"
| "frame_value PATH_RESPONSE_FRAME = 16"
| "frame_value PATH_CHALLENGE_FRAME = 17"
| "frame_value STOP_SENDING_FRAME = 18"
| "frame_value MESSAGE_FRAME = 19"
| "frame_value NEW_TOKEN_FRAME = 20"
| "frame_value RETIRE_CONNECTION_ID_FRAME = 21"
| "frame_value ACK_FREQUENCY_FRAME = 22"
| "frame_value NUM_FRAME_TYPES = 23"

text \<open>The value of a frame type determines it: the enumeration is linearly ordered by its values.\<close>

lemma frame_value_inject: "frame_value a = frame_value b \<Longrightarrow> a = b"
  by (cases a; cases b) simp_all

instantiation quic_frame_type :: linorder
begin

definition less_eq_quic_frame_type :: "quic_frame_type \<Rightarrow> quic_frame_type \<Rightarrow> bool" where
  "less_eq_quic_frame_type a b \<longleftrightarrow> frame_value a \<le> frame_value b"

definition less_quic_frame_type :: "quic_frame_type \<Rightarrow> quic_frame_type \<Rightarrow> bool" where
  "less_quic_frame_type a b \<longleftrightarrow> frame_value a < frame_value b"

instance
  by standard (auto simp: less_eq_quic_frame_type_def less_quic_frame_type_def intro: frame_value_inject)

end

fun GetFrameTypeBitfield :: "quic_frame_type \<Rightarrow> u32" where
  "GetFrameTypeBitfield PADDING_FRAME = 1"
| "GetFrameTypeBitfield RST_STREAM_FRAME = push_bit 1 1"
| "GetFrameTypeBitfield CONNECTION_CLOSE_FRAME = push_bit 2 1"
| "GetFrameTypeBitfield GOAWAY_FRAME = push_bit 3 1"
| "GetFrameTypeBitfield WINDOW_UPDATE_FRAME = push_bit 4 1"
| "GetFrameTypeBitfield BLOCKED_FRAME = push_bit 5 1"
| "GetFrameTypeBitfield STOP_WAITING_FRAME = push_bit 6 1"
| "GetFrameTypeBitfield PING_FRAME = push_bit 7 1"
| "GetFrameTypeBitfield CRYPTO_FRAME = push_bit 8 1"
| "GetFrameTypeBitfield HANDSHAKE_DONE_FRAME = push_bit 9 1"
| "GetFrameTypeBitfield STREAM_FRAME = push_bit 10 1"
| "GetFrameTypeBitfield ACK_FRAME = push_bit 11 1"
| "GetFrameTypeBitfield MTU_DISCOVERY_FRAME = push_bit 12 1"
| "GetFrameTypeBitfield NEW_CONNECTION_ID_FRAME = push_bit 13 1"
| "GetFrameTypeBitfield MAX_STREAMS_FRAME = push_bit 14 1"
| "GetFrameTypeBitfield STREAMS_BLOCKED_FRAME = push_bit 15 1"
| "GetFrameTypeBitfield PATH_RESPONSE_FRAME = push_bit 16 1"
| "GetFrameTypeBitfield PATH_CHALLENGE_FRAME = push_bit 17 1"
| "GetFrameTypeBitfield STOP_SENDING_FRAME = push_bit 18 1"
| "GetFrameTypeBitfield MESSAGE_FRAME = push_bit 19 1"
| "GetFrameTypeBitfield NEW_TOKEN_FRAME = push_bit 20 1"
| "GetFrameTypeBitfield RETIRE_CONNECTION_ID_FRAME = push_bit 21 1"
| "GetFrameTypeBitfield ACK_FREQUENCY_FRAME = push_bit 22 1"
| "GetFrameTypeBitfield NUM_FRAME_TYPES = 0"

text \<open>The bit of a frame type is the one at its value; the number of frame types has none.\<close>

lemma GetFrameTypeBitfield_eq:
  "GetFrameTypeBitfield t = (if t < NUM_FRAME_TYPES then push_bit (frame_value t) 1 else 0)"
  by (cases t) (simp_all add: less_quic_frame_type_def)

subsection \<open>IETF frame types\<close>

datatype ietf_frame_type = IETF_PADDING | IETF_PING | IETF_ACK | IETF_ACK_ECN | IETF_RST_STREAM | IETF_STOP_SENDING
  | IETF_CRYPTO | IETF_NEW_TOKEN | IETF_STREAM | IETF_MAX_DATA | IETF_MAX_STREAM_DATA
  | IETF_MAX_STREAMS_BIDIRECTIONAL | IETF_MAX_STREAMS_UNIDIRECTIONAL | IETF_DATA_BLOCKED
  | IETF_STREAM_DATA_BLOCKED | IETF_STREAMS_BLOCKED_BIDIRECTIONAL
  | IETF_STREAMS_BLOCKED_UNIDIRECTIONAL | IETF_NEW_CONNECTION_ID | IETF_RETIRE_CONNECTION_ID
  | IETF_PATH_CHALLENGE | IETF_PATH_RESPONSE | IETF_CONNECTION_CLOSE | IETF_APPLICATION_CLOSE
  | IETF_HANDSHAKE_DONE | IETF_EXTENSION_MESSAGE_NO_LENGTH | IETF_EXTENSION_MESSAGE
  | IETF_EXTENSION_MESSAGE_NO_LENGTH_V99 | IETF_EXTENSION_MESSAGE_V99 | IETF_ACK_FREQUENCY

fun ietf_frame_value :: "ietf_frame_type \<Rightarrow> u64" where
  "ietf_frame_value IETF_PADDING = 0x00"
| "ietf_frame_value IETF_PING = 0x01"
| "ietf_frame_value IETF_ACK = 0x02"
| "ietf_frame_value IETF_ACK_ECN = 0x03"
| "ietf_frame_value IETF_RST_STREAM = 0x04"
| "ietf_frame_value IETF_STOP_SENDING = 0x05"
| "ietf_frame_value IETF_CRYPTO = 0x06"
| "ietf_frame_value IETF_NEW_TOKEN = 0x07"
| "ietf_frame_value IETF_STREAM = 0x08"
| "ietf_frame_value IETF_MAX_DATA = 0x10"
| "ietf_frame_value IETF_MAX_STREAM_DATA = 0x11"
| "ietf_frame_value IETF_MAX_STREAMS_BIDIRECTIONAL = 0x12"
| "ietf_frame_value IETF_MAX_STREAMS_UNIDIRECTIONAL = 0x13"
| "ietf_frame_value IETF_DATA_BLOCKED = 0x14"
| "ietf_frame_value IETF_STREAM_DATA_BLOCKED = 0x15"
| "ietf_frame_value IETF_STREAMS_BLOCKED_BIDIRECTIONAL = 0x16"
| "ietf_frame_value IETF_STREAMS_BLOCKED_UNIDIRECTIONAL = 0x17"
| "ietf_frame_value IETF_NEW_CONNECTION_ID = 0x18"
| "ietf_frame_value IETF_RETIRE_CONNECTION_ID = 0x19"
| "ietf_frame_value IETF_PATH_CHALLENGE = 0x1a"
| "ietf_frame_value IETF_PATH_RESPONSE = 0x1b"
| "ietf_frame_value IETF_CONNECTION_CLOSE = 0x1c"
| "ietf_frame_value IETF_APPLICATION_CLOSE = 0x1d"
| "ietf_frame_value IETF_HANDSHAKE_DONE = 0x1e"
| "ietf_frame_value IETF_EXTENSION_MESSAGE_NO_LENGTH = 0x20"
| "ietf_frame_value IETF_EXTENSION_MESSAGE = 0x21"
| "ietf_frame_value IETF_EXTENSION_MESSAGE_NO_LENGTH_V99 = 0x30"
| "ietf_frame_value IETF_EXTENSION_MESSAGE_V99 = 0x31"
| "ietf_frame_value IETF_ACK_FREQUENCY = 0xaf"

definition IETF_STREAM_FRAME_TYPE_MASK :: u64 where "IETF_STREAM_FRAME_TYPE_MASK = 0xfffffffffffffff8"
definition IETF_STREAM_FRAME_FLAG_MASK :: u64 where "IETF_STREAM_FRAME_FLAG_MASK = 0x07"
definition IETF_STREAM_FRAME_FIN_BIT :: u64 where "IETF_STREAM_FRAME_FIN_BIT = 0x01"
definition IETF_STREAM_FRAME_LEN_BIT :: u64 where "IETF_STREAM_FRAME_LEN_BIT = 0x02"
definition IETF_STREAM_FRAME_OFF_BIT :: u64 where "IETF_STREAM_FRAME_OFF_BIT = 0x04"

definition IS_IETF_STREAM_FRAME :: "u64 \<Rightarrow> bool" where
  "IS_IETF_STREAM_FRAME stype \<longleftrightarrow> stype AND IETF_STREAM_FRAME_TYPE_MASK = ietf_frame_value IETF_STREAM"

lemmas ietf_masks = IETF_STREAM_FRAME_TYPE_MASK_def IETF_STREAM_FRAME_FLAG_MASK_def IETF_STREAM_FRAME_FIN_BIT_def
  IETF_STREAM_FRAME_LEN_BIT_def IETF_STREAM_FRAME_OFF_BIT_def

lemma ietf_frame_value_inject: "ietf_frame_value a = ietf_frame_value b \<Longrightarrow> a = b"
  by (cases a; cases b) simp_all

text \<open>
  Only the values of stream frames, with any of the flags set, count as stream frames: no other
  type has one of their values. A value is that of the type combined with its flags.
\<close>

lemma IS_IETF_STREAM_FRAME_type: "IS_IETF_STREAM_FRAME (ietf_frame_value t) \<longleftrightarrow> t = IETF_STREAM"
  by (cases t) (simp_all add: IS_IETF_STREAM_FRAME_def ietf_masks)

lemma IS_IETF_STREAM_FRAME_flags:
  "IS_IETF_STREAM_FRAME stype \<Longrightarrow> stype = ietf_frame_value IETF_STREAM OR (stype AND IETF_STREAM_FRAME_FLAG_MASK)"
proof -
  assume f: "IS_IETF_STREAM_FRAME stype"
  have "IETF_STREAM_FRAME_TYPE_MASK OR IETF_STREAM_FRAME_FLAG_MASK = - 1" by (simp add: ietf_masks)
  then have "stype = stype AND (IETF_STREAM_FRAME_TYPE_MASK OR IETF_STREAM_FRAME_FLAG_MASK)" by simp
  also have "\<dots> = (stype AND IETF_STREAM_FRAME_TYPE_MASK) OR (stype AND IETF_STREAM_FRAME_FLAG_MASK)"
    by (rule bit.conj_disj_distrib)
  finally show ?thesis using f by (simp only: IS_IETF_STREAM_FRAME_def)
qed

lemma stream_flags_cover:
  "IETF_STREAM_FRAME_FIN_BIT OR IETF_STREAM_FRAME_LEN_BIT OR IETF_STREAM_FRAME_OFF_BIT = IETF_STREAM_FRAME_FLAG_MASK"
  by (simp add: ietf_masks)

text \<open>
  The types are encoded with variable length: a value below 64 is its own encoding in a single
  byte. That is all of them but one.
\<close>

lemma ietf_frame_single_byte: "ietf_frame_value t < 64 \<longleftrightarrow> t \<noteq> IETF_ACK_FREQUENCY"
  by (cases t) simp_all

subsection \<open>Flags of the packet header\<close>

datatype packet_number_length_flags = PACKET_FLAGS_1BYTE_PACKET | PACKET_FLAGS_2BYTE_PACKET
  | PACKET_FLAGS_4BYTE_PACKET | PACKET_FLAGS_8BYTE_PACKET

fun length_flags_value :: "packet_number_length_flags \<Rightarrow> nat" where
  "length_flags_value PACKET_FLAGS_1BYTE_PACKET = 0"
| "length_flags_value PACKET_FLAGS_2BYTE_PACKET = 1"
| "length_flags_value PACKET_FLAGS_4BYTE_PACKET = push_bit 1 1"
| "length_flags_value PACKET_FLAGS_8BYTE_PACKET = push_bit 1 1 OR 1"

datatype packet_public_flags = PACKET_PUBLIC_FLAGS_NONE | PACKET_PUBLIC_FLAGS_VERSION | PACKET_PUBLIC_FLAGS_RST
  | PACKET_PUBLIC_FLAGS_NONCE | PACKET_PUBLIC_FLAGS_0BYTE_CONNECTION_ID | PACKET_PUBLIC_FLAGS_8BYTE_CONNECTION_ID
  | PACKET_PUBLIC_FLAGS_8BYTE_CONNECTION_ID_OLD | PACKET_PUBLIC_FLAGS_1BYTE_PACKET | PACKET_PUBLIC_FLAGS_2BYTE_PACKET
  | PACKET_PUBLIC_FLAGS_4BYTE_PACKET | PACKET_PUBLIC_FLAGS_6BYTE_PACKET | PACKET_PUBLIC_FLAGS_TWO_OR_MORE_BYTES
  | PACKET_PUBLIC_FLAGS_MAX

fun public_flags_value :: "packet_public_flags \<Rightarrow> nat" where
  "public_flags_value PACKET_PUBLIC_FLAGS_NONE = 0"
| "public_flags_value PACKET_PUBLIC_FLAGS_VERSION = push_bit 0 1"
| "public_flags_value PACKET_PUBLIC_FLAGS_RST = push_bit 1 1"
| "public_flags_value PACKET_PUBLIC_FLAGS_NONCE = push_bit 2 1"
| "public_flags_value PACKET_PUBLIC_FLAGS_0BYTE_CONNECTION_ID = 0"
| "public_flags_value PACKET_PUBLIC_FLAGS_8BYTE_CONNECTION_ID = push_bit 3 1"
| "public_flags_value PACKET_PUBLIC_FLAGS_8BYTE_CONNECTION_ID_OLD = push_bit 3 1 OR push_bit 2 1"
| "public_flags_value PACKET_PUBLIC_FLAGS_1BYTE_PACKET = push_bit 4 (length_flags_value PACKET_FLAGS_1BYTE_PACKET)"
| "public_flags_value PACKET_PUBLIC_FLAGS_2BYTE_PACKET = push_bit 4 (length_flags_value PACKET_FLAGS_2BYTE_PACKET)"
| "public_flags_value PACKET_PUBLIC_FLAGS_4BYTE_PACKET = push_bit 4 (length_flags_value PACKET_FLAGS_4BYTE_PACKET)"
| "public_flags_value PACKET_PUBLIC_FLAGS_6BYTE_PACKET = push_bit 4 (length_flags_value PACKET_FLAGS_8BYTE_PACKET)"
| "public_flags_value PACKET_PUBLIC_FLAGS_TWO_OR_MORE_BYTES = push_bit 7 1"
| "public_flags_value PACKET_PUBLIC_FLAGS_MAX = push_bit 6 1 - 1"

text \<open>
  The largest value has room for every flag but the one of a second byte, and the two bits of the
  length are shared with no flag but it.
\<close>

lemma public_flags_fit:
  "f = PACKET_PUBLIC_FLAGS_TWO_OR_MORE_BYTES
    \<or> public_flags_value f AND public_flags_value PACKET_PUBLIC_FLAGS_MAX = public_flags_value f"
  by (cases f) (simp_all add: push_bit_eq_mult)

lemma length_bits_recovered:
  "f \<in> {PACKET_PUBLIC_FLAGS_VERSION, PACKET_PUBLIC_FLAGS_RST, PACKET_PUBLIC_FLAGS_NONCE, PACKET_PUBLIC_FLAGS_8BYTE_CONNECTION_ID}
    \<Longrightarrow> drop_bit 4 (push_bit 4 (length_flags_value l) OR public_flags_value f) = length_flags_value l"
  by (cases l) (auto simp: push_bit_eq_mult drop_bit_eq_div)

subsection \<open>Write results\<close>

datatype write_status = WRITE_STATUS_OK | WRITE_STATUS_BLOCKED | WRITE_STATUS_BLOCKED_DATA_BUFFERED
  | WRITE_STATUS_ERROR | WRITE_STATUS_MSG_TOO_BIG | WRITE_STATUS_FAILED_TO_COALESCE_PACKET
  | WRITE_STATUS_NUM_VALUES

fun write_status_value :: "write_status \<Rightarrow> nat" where
  "write_status_value WRITE_STATUS_OK = 0"
| "write_status_value WRITE_STATUS_BLOCKED = 1"
| "write_status_value WRITE_STATUS_BLOCKED_DATA_BUFFERED = 2"
| "write_status_value WRITE_STATUS_ERROR = 3"
| "write_status_value WRITE_STATUS_MSG_TOO_BIG = 4"
| "write_status_value WRITE_STATUS_FAILED_TO_COALESCE_PACKET = 5"
| "write_status_value WRITE_STATUS_NUM_VALUES = 6"

definition IsWriteBlockedStatus :: "write_status \<Rightarrow> bool" where
  "IsWriteBlockedStatus status \<longleftrightarrow> status = WRITE_STATUS_BLOCKED \<or> status = WRITE_STATUS_BLOCKED_DATA_BUFFERED"

definition IsWriteError :: "write_status \<Rightarrow> bool" where
  "IsWriteError status \<longleftrightarrow> write_status_value WRITE_STATUS_ERROR \<le> write_status_value status"

text \<open>\<open>WriteResult\<close>; the number of bytes written and the error code share their storage.\<close>

record write_result =
  wr_status :: write_status
  wr_dropped_packets :: nat
  wr_send_time_offset :: time_delta
  wr_bytes_written_or_error_code :: int

definition WriteResultOf :: "write_status \<Rightarrow> int \<Rightarrow> write_result" where
  "WriteResultOf status bytes_written_or_error_code =
     \<lparr>wr_status = status, wr_dropped_packets = 0, wr_send_time_offset = delta_Zero,
      wr_bytes_written_or_error_code = bytes_written_or_error_code\<rparr>"

definition WriteResult :: write_result where "WriteResult = WriteResultOf WRITE_STATUS_ERROR 0"

definition write_result_eq :: "write_result \<Rightarrow> write_result \<Rightarrow> bool" where
  "write_result_eq r other =
     (if wr_status r \<noteq> wr_status other then False
      else case wr_status r of
          WRITE_STATUS_OK \<Rightarrow> wr_bytes_written_or_error_code r = wr_bytes_written_or_error_code other
        | WRITE_STATUS_BLOCKED \<Rightarrow> True
        | WRITE_STATUS_BLOCKED_DATA_BUFFERED \<Rightarrow> True
        | _ \<Rightarrow> wr_bytes_written_or_error_code r = wr_bytes_written_or_error_code other)"

lemma write_result_eq_equivp: "equivp write_result_eq"
  by (rule equivpI) (auto simp: reflp_def symp_def transp_def write_result_eq_def split: write_status.splits)

subsection \<open>Encryption levels\<close>

datatype encryption_level = ENCRYPTION_INITIAL | ENCRYPTION_HANDSHAKE | ENCRYPTION_ZERO_RTT
  | ENCRYPTION_FORWARD_SECURE | NUM_ENCRYPTION_LEVELS

fun encryption_level_value :: "encryption_level \<Rightarrow> nat" where
  "encryption_level_value ENCRYPTION_INITIAL = 0"
| "encryption_level_value ENCRYPTION_HANDSHAKE = 1"
| "encryption_level_value ENCRYPTION_ZERO_RTT = 2"
| "encryption_level_value ENCRYPTION_FORWARD_SECURE = 3"
| "encryption_level_value NUM_ENCRYPTION_LEVELS = 4"

definition EncryptionLevelIsValid :: "encryption_level \<Rightarrow> bool" where
  "EncryptionLevelIsValid level \<longleftrightarrow> encryption_level_value ENCRYPTION_INITIAL \<le> encryption_level_value level
     \<and> encryption_level_value level < encryption_level_value NUM_ENCRYPTION_LEVELS"

lemma EncryptionLevelIsValid_iff: "EncryptionLevelIsValid level \<longleftrightarrow> level \<noteq> NUM_ENCRYPTION_LEVELS"
  by (cases level) (simp_all add: EncryptionLevelIsValid_def)

subsection \<open>Sets of frame types\<close>

text \<open>The bit fields of different frame types have no bit in common, and only the number of frame types has
  an empty one, so a set of frame types can be kept as the union of their bits.\<close>

theorem frame_bitfields_are_disjoint:
  "(a \<noteq> b \<longleftrightarrow> GetFrameTypeBitfield a AND GetFrameTypeBitfield b = 0) \<or> a = NUM_FRAME_TYPES"
  by (cases a; cases b) (simp_all add: push_bit_eq_mult)

end
