(* ===== verification/Time_Variants.thy ===== *)
theory Time_Variants
  imports Platform_Time
begin

section \<open>The time classes on other systems\<close>

text \<open>
  The parts of \<open>time/time.cc\<close> that are compiled only on a particular system: the conversions to
  and from the time structures of POSIX, macOS and Windows, the readings of their clocks, and for
  Windows the clock that is set by the system time once a minute, the tick count that
  keeps track of the wrap-around of a 32-bit counter for any number of threads, and the performance counter.
  The build of this repository defines none of the macros \<open>V8_OS_...\<close> and uses
  \<open>Platform_Time\<close> instead.

  What the system returns is an argument. \<open>DCHECK\<close> is a macro without effect outside of debug
  builds; a failed \<open>CHECK\<close> and \<open>UNREACHABLE\<close> end the program, which is \<open>None\<close>.

  The lemmas show that the conversions are inverse to each other, that no step of the readings overflows, and
  that the 48-bit tick count is the true one whatever the interleaving of the threads.
\<close>

definition kTimeMax :: int64 where "kTimeMax = int64_max"

subsection \<open>Readings of POSIX and macOS clocks\<close>

text \<open>\<open>struct timespec\<close>; \<open>time_t\<close> and \<open>long\<close> have 64 bits, and \<open>kTimeMax\<close> is the largest \<open>time_t\<close>.\<close>

record timespec =
  ts_sec :: int64
  ts_nsec :: int64

text \<open>\<open>r\<close> is what \<open>clock_gettime\<close> stores, \<open>None\<close> if it fails; AIX, which reads thread times in its own way, is left out.\<close>

definition ClockNow :: "timespec option \<Rightarrow> int64 option" where
  "ClockNow r = do {
     ts \<leftarrow> r;
     let kSecondsLimit = int64_max sdiv kMicrosecondsPerSecond - 1;
     if kSecondsLimit > ts_sec ts
     then Some (i64 (i64 (ts_sec ts * kMicrosecondsPerSecond) + ts_nsec ts sdiv kNanosecondsPerMicrosecond))
     else None }"

text \<open>
  Whether the timer changes in steps of at most a microsecond. \<open>now\<close> is the sequence of readings,
  \<open>k\<close> the number of readings made so far.
\<close>

partial_function (option) wait_for_change :: "(nat \<Rightarrow> int64) \<Rightarrow> int64 \<Rightarrow> nat \<Rightarrow> (int64 \<times> nat) option" where
  "wait_for_change now start k =
     (let delta = i64 (now k - start) in
      if delta = 0 then wait_for_change now start (k + 1) else Some (delta, k + 1))"

partial_function (option) resolution_loop :: "(nat \<Rightarrow> int64) \<Rightarrow> int64 \<Rightarrow> nat \<Rightarrow> bool option" where
  "resolution_loop now end_time k = do {
     let start = now k;
     (delta, k) \<leftarrow> wait_for_change now start (k + 1);
     if delta > 1 \<and> start < end_time then resolution_loop now end_time k else Some (delta \<le> 1) }"

definition IsHighResolutionTimer :: "(nat \<Rightarrow> int64) \<Rightarrow> bool option" where
  "IsHighResolutionTimer now = resolution_loop now (i64 (now 0 + 100 * kMicrosecondsPerMillisecond)) 1"

text \<open>The processor time of a thread on macOS, in \<open>user_time\<close> and \<open>system_time\<close>.\<close>

record time_value =
  tval_seconds :: int64
  tval_microseconds :: int64

definition ComputeThreadTicks :: "(time_value \<times> time_value) option \<Rightarrow> int64 option" where
  "ComputeThreadTicks info = do {
     (user_time, system_time) \<leftarrow> info;
     if tval_seconds user_time \<le> i64 (int64_max - tval_seconds system_time)
     then do {
       let seconds = i64 (tval_seconds user_time + tval_seconds system_time);
       let kSecondsLimit = int64_max sdiv kMicrosecondsPerSecond - 2;
       if kSecondsLimit > seconds
       then do {
         let micros = i64 (seconds * kMicrosecondsPerSecond);
         Some (i64 (micros + i64 (tval_microseconds user_time + tval_microseconds system_time))) }
       else None }
     else None }"

subsection \<open>Conversions\<close>

text \<open>The structure of macOS has unsigned 32-bit seconds.\<close>

record mach_timespec =
  mt_sec :: u32
  mt_nsec :: int

definition FromMachTimespec :: "mach_timespec \<Rightarrow> base_delta" where
  "FromMachTimespec ts = i64 (i64 (uint (mt_sec ts) * kMicrosecondsPerSecond) + mt_nsec ts sdiv kNanosecondsPerMicrosecond)"

definition ToMachTimespec :: "base_delta \<Rightarrow> mach_timespec" where
  "ToMachTimespec d = \<lparr>mt_sec = word_of_int (d sdiv kMicrosecondsPerSecond),
     mt_nsec = i32 (i64 (d smod kMicrosecondsPerSecond * kNanosecondsPerMicrosecond))\<rparr>"

definition td_FromTimespec :: "timespec \<Rightarrow> base_delta" where
  "td_FromTimespec ts = i64 (i64 (ts_sec ts * kMicrosecondsPerSecond) + ts_nsec ts sdiv kNanosecondsPerMicrosecond)"

definition td_ToTimespec :: "base_delta \<Rightarrow> timespec" where
  "td_ToTimespec d = \<lparr>ts_sec = d sdiv kMicrosecondsPerSecond,
     ts_nsec = i64 (d smod kMicrosecondsPerSecond * kNanosecondsPerMicrosecond)\<rparr>"

definition tb_FromTimespec :: "timespec \<Rightarrow> base_time" where
  "tb_FromTimespec ts =
     (if ts_nsec ts = 0 \<and> ts_sec ts = 0 then 0
      else if ts_nsec ts = kNanosecondsPerSecond - 1 \<and> ts_sec ts = kTimeMax then tb_Max
      else i64 (i64 (ts_sec ts * kMicrosecondsPerSecond) + ts_nsec ts sdiv kNanosecondsPerMicrosecond))"

definition tb_ToTimespec :: "base_time \<Rightarrow> timespec" where
  "tb_ToTimespec t =
     (if tb_IsNull t then \<lparr>ts_sec = 0, ts_nsec = 0\<rparr>
      else if tb_IsMax t then \<lparr>ts_sec = kTimeMax, ts_nsec = kNanosecondsPerSecond - 1\<rparr>
      else \<lparr>ts_sec = t sdiv kMicrosecondsPerSecond,
        ts_nsec = i64 (t smod kMicrosecondsPerSecond * kNanosecondsPerMicrosecond)\<rparr>)"

definition FromTimeval :: "timeval \<Rightarrow> base_time" where
  "FromTimeval tv =
     (if tv_usec tv = 0 \<and> tv_sec tv = 0 then 0
      else if tv_usec tv = kMicrosecondsPerSecond - 1 \<and> tv_sec tv = kTimeMax then tb_Max
      else i64 (i64 (tv_sec tv * kMicrosecondsPerSecond) + tv_usec tv))"

definition ToTimeval :: "base_time \<Rightarrow> timeval" where
  "ToTimeval t =
     (if tb_IsNull t then \<lparr>tv_sec = 0, tv_usec = 0\<rparr>
      else if tb_IsMax t then \<lparr>tv_sec = kTimeMax, tv_usec = kMicrosecondsPerSecond - 1\<rparr>
      else \<lparr>tv_sec = t sdiv kMicrosecondsPerSecond, tv_usec = t smod kMicrosecondsPerSecond\<rparr>)"

definition Time_Now :: "timeval \<Rightarrow> base_time" where "Time_Now tv = FromTimeval tv"
definition NowFromSystemTime :: "timeval \<Rightarrow> base_time" where "NowFromSystemTime tv = Time_Now tv"

text \<open>The file times of Windows count units of 100 ns since 1601.\<close>

record filetime =
  ft_low :: u32
  ft_high :: u32

definition kTimeToEpochInMicroseconds :: int64 where "kTimeToEpochInMicroseconds = 11644473600000000"

definition FromFiletime :: "filetime \<Rightarrow> base_time" where
  "FromFiletime ft =
     (if ft_low ft = 0 \<and> ft_high ft = 0 then 0
      else if ft_low ft = - 1 \<and> ft_high ft = - 1 then tb_Max
      else let us = i64_of ((ucast (ft_low ft) + push_bit 32 (ucast (ft_high ft))) div 10)
           in i64 (us - kTimeToEpochInMicroseconds))"

definition ToFiletime :: "base_time \<Rightarrow> filetime" where
  "ToFiletime t =
     (if tb_IsNull t then \<lparr>ft_low = 0, ft_high = 0\<rparr>
      else if tb_IsMax t then \<lparr>ft_low = - 1, ft_high = - 1\<rparr>
      else let us = u64_of (i64 (t + kTimeToEpochInMicroseconds)) * 10
           in \<lparr>ft_low = ucast us, ft_high = ucast (drop_bit 32 us)\<rparr>)"

subsection \<open>What the readings mean\<close>

text \<open>The comments on overflow: what the checks let through fits.\<close>

lemma ClockNow_exact:
  assumes "ClockNow (Some ts) = Some r" "0 \<le> ts_sec ts" "0 \<le> ts_nsec ts" "ts_nsec ts < kNanosecondsPerSecond"
  shows "r = ts_sec ts * 1000000 + ts_nsec ts div 1000"
proof -
  have "ts_sec ts < 9223372036853"
    using assms(1) by (auto simp: ClockNow_def time_constants int64_max_def Let_def split: if_splits)
  moreover have "0 \<le> ts_nsec ts div 1000" "ts_nsec ts div 1000 < 1000000" using assms(3,4) by (simp_all add: time_constants)
  moreover have "r = i64 (ts_sec ts * 1000000 + ts_nsec ts div 1000)"
    using assms(1,3) by (auto simp: ClockNow_def time_constants Let_def sdiv_nonneg split: if_splits)
  ultimately show ?thesis using assms(2) by (simp add: i64_small)
qed

lemma ComputeThreadTicks_exact:
  assumes "ComputeThreadTicks (Some (u, s)) = Some r" "0 \<le> tval_seconds u" "0 \<le> tval_seconds s" "tval_seconds s \<le> int64_max"
    "tval_microseconds u \<in> {0..<1000000}" "tval_microseconds s \<in> {0..<1000000}"
  shows "r = (tval_seconds u + tval_seconds s) * 1000000 + tval_microseconds u + tval_microseconds s"
proof -
  let ?n = "tval_seconds u + tval_seconds s" and ?us = "tval_microseconds u + tval_microseconds s"
  have "i64 (int64_max - tval_seconds s) = int64_max - tval_seconds s"
    using assms(3,4) by (intro i64_small) (simp_all add: int64_max_def)
  with assms(1) have n: "tval_seconds u \<le> int64_max - tval_seconds s" "i64 ?n < 9223372036852"
    and r: "r = i64 (i64 (i64 ?n * 1000000) + i64 ?us)"
    by (auto simp: ComputeThreadTicks_def time_constants int64_max_def Let_def split: if_splits)
  have e: "i64 ?n = ?n" using n(1) assms(2,3) by (intro i64_small) (simp_all add: int64_max_def)
  have "r = i64 (?n * 1000000 + ?us)" using r by (simp add: e add.assoc)
  with n(2) e assms(2,3,5,6) show ?thesis by (simp add: i64_small)
qed

text \<open>
  The loop that measures the resolution ends if the readings are not decreasing, pass the 100 ms and change
  once more; a timer of high resolution has moved by a single microsecond.
\<close>

lemma readings_diff:
  fixes now :: "nat \<Rightarrow> int64"
  assumes "\<forall>k. 0 \<le> now k \<and> now k < 2 ^ 62"
  shows "i64 (now a - now b) = now a - now b"
proof -
  have "0 \<le> now a" "now a < 2 ^ 62" "0 \<le> now b" "now b < 2 ^ 62" using assms by simp_all
  then show ?thesis by (intro i64_small) simp_all
qed

lemma wait_for_change_ends:
  assumes "mono now" "\<forall>k. 0 \<le> now k \<and> now k < 2 ^ 62" "start = now (k - 1)" "0 < k" "start < now n" "k \<le> n"
  shows "\<exists>i. wait_for_change now start k = Some (now i - start, i + 1) \<and> k \<le> i \<and> i \<le> n \<and> start < now i \<and> now (i - 1) = start"
  using assms(3-)
proof (induction "n - k" arbitrary: k)
  case 0
  then have k: "k = n" by simp
  from 0 k show ?case by (subst wait_for_change.simps) (auto simp: Let_def readings_diff [OF assms(2)])
next
  case (Suc d)
  have e: "i64 (now k - start) = now k - start" using Suc(3) by (simp add: readings_diff [OF assms(2)])
  have le: "start \<le> now k" using monoD [OF assms(1), of "k - 1" k] Suc(3) by simp
  show ?case
  proof (cases "now k = start")
    case True
    have "d = n - (k + 1)" "k + 1 \<le> n" using Suc(2) by simp_all
    from Suc(1) [OF this(1) _ _ Suc(5) this(2)] True obtain i where
      "wait_for_change now start (k + 1) = Some (now i - start, i + 1)" "k + 1 \<le> i" "i \<le> n" "start < now i" "now (i - 1) = start"
      by auto
    with e True show ?thesis by (subst wait_for_change.simps) (auto simp: Let_def)
  next
    case False
    with e le Suc show ?thesis by (subst wait_for_change.simps) (auto simp: Let_def)
  qed
qed

lemma resolution_loop_ends:
  assumes m: "mono now" "\<forall>k. 0 \<le> now k \<and> now k < 2 ^ 62" and n: "end_time \<le> now N" "now (N + 1) < now M" and k: "k \<le> N + 1"
  shows "\<exists>b. resolution_loop now end_time k = Some b \<and> (b \<longrightarrow> (\<exists>i. now (Suc i) = now i + 1))"
  using k
proof (induction "N + 1 - k" arbitrary: k rule: less_induct)
  case less
  have "now k \<le> now (N + 1)" by (rule monoD [OF m(1) less.prems])
  with n have lt: "now k < now M" by simp
  then have "k < M" using m(1) by (auto elim: mono_strict_invE)
  then have "k + 1 \<le> M" by simp
  show ?case
  proof (cases "now k < end_time")
    case True
    then have a: "now k < now N" using n by simp
    then have "k < N" using m(1) by (auto elim: mono_strict_invE)
    then have "k + 1 \<le> N" by simp
    from wait_for_change_ends [OF m _ _ a this] obtain i where
      i: "wait_for_change now (now k) (k + 1) = Some (now i - now k, i + 1)" "k + 1 \<le> i" "i \<le> N" "now k < now i"
        "now (i - 1) = now k" by auto
    have "Suc (i - 1) = i" using i(2) by simp
    then have "now i \<le> now k + 1 \<Longrightarrow> now (Suc (i - 1)) = now (i - 1) + 1" using i(4,5) by simp
    then have one: "now i \<le> now k + 1 \<Longrightarrow> \<exists>j. now (Suc j) = now j + 1" by blast
    have "N + 1 - (i + 1) < N + 1 - k" "i + 1 \<le> N + 1" using i(2,3) by simp_all
    from less.hyps [OF this] obtain b where
      b: "resolution_loop now end_time (i + 1) = Some b" "b \<longrightarrow> (\<exists>j. now (Suc j) = now j + 1)" by blast
    show ?thesis
    proof (cases "now i \<le> now k + 1")
      case True
      with i(1) one show ?thesis by (subst resolution_loop.simps) (auto simp: Let_def)
    next
      case False
      with i(1) b \<open>now k < end_time\<close> show ?thesis by (subst resolution_loop.simps) (auto simp: Let_def)
    qed
  next
    case False
    from wait_for_change_ends [OF m _ _ lt \<open>k + 1 \<le> M\<close>] obtain i where
      i: "wait_for_change now (now k) (k + 1) = Some (now i - now k, i + 1)" "now k < now i" "now (i - 1) = now k" "k + 1 \<le> i" by auto
    have "Suc (i - 1) = i" using i(4) by simp
    then have "now i - now k \<le> 1 \<Longrightarrow> now (Suc (i - 1)) = now (i - 1) + 1" using i(2,3) by simp
    then have "now i - now k \<le> 1 \<Longrightarrow> \<exists>j. now (Suc j) = now j + 1" by blast
    with i(1) False show ?thesis by (subst resolution_loop.simps) (auto simp: Let_def)
  qed
qed

lemma IsHighResolutionTimer_ends:
  assumes "mono now" "\<forall>k. 0 \<le> now k \<and> now k < 2 ^ 62" "now 0 + 100000 \<le> now N" "now (N + 1) < now M"
  shows "\<exists>b. IsHighResolutionTimer now = Some b \<and> (b \<longrightarrow> (\<exists>i. now (Suc i) = now i + 1))"
proof -
  have "0 \<le> now 0" "now 0 < 2 ^ 62" using assms(2) by simp_all
  then have "i64 (now 0 + 100000) = now 0 + 100000" by (intro i64_small) simp_all
  with resolution_loop_ends [OF assms(1,2) _ assms(4), of "now 0 + 100000" 1] assms(3) show ?thesis
    by (simp add: IsHighResolutionTimer_def time_constants)
qed

subsection \<open>The conversions are inverse to each other\<close>

lemma trunc_parts:
  fixes d :: int
  shows "d sdiv k * k + d smod k = d" "0 < k \<Longrightarrow> \<bar>d smod k\<bar> < k"
  using sdiv_mult_smod_eq [of d k] smod_int_compares [of d k] by linarith+

text \<open>A delta or a time is the sum of its whole seconds and the rest, which fits in any unit used.\<close>

lemma parts_join:
  assumes "in_i64 d"
  shows "i64 (d sdiv 1000000 * 1000000 + d smod 1000000) = d"
    "i64 (d smod 1000000 * 1000) sdiv 1000 = d smod 1000000"
proof -
  show "i64 (d sdiv 1000000 * 1000000 + d smod 1000000) = d" by (simp add: trunc_parts(1) i64_id assms)
  have "\<bar>d smod 1000000\<bar> < 1000000" by (rule trunc_parts(2)) simp
  then have "i64 (d smod 1000000 * 1000) = d smod 1000000 * 1000" by (intro i64_small) linarith+
  then show "i64 (d smod 1000000 * 1000) sdiv 1000 = d smod 1000000" by (simp add: sdiv_mult_self)
qed

lemma u64_halves: "ucast (ucast us :: u32) + push_bit 32 (ucast (ucast (drop_bit 32 us) :: u32)) = (us :: u64)"
proof -
  have two: "unat (ucast (ucast w :: u32) :: u64) = unat w mod 2 ^ 32" for w :: u64
    by (simp add: unsigned_ucast_eq take_bit_eq_mod unat_mod_distrib)
  have "unat us div 2 ^ 32 < 2 ^ 32" by (rule less_mult_imp_div_less) simp
  moreover have "unat (drop_bit 32 us) = unat us div 2 ^ 32" by (simp add: drop_bit_eq_div unat_div_distrib)
  ultimately have h: "unat (ucast (ucast (drop_bit 32 us) :: u32) :: u64) = unat us div 2 ^ 32"
    by (simp only: two mod_less)
  note l = two [of us]
  have "(us :: u64) = of_nat (unat us mod 2 ^ 32 + unat us div 2 ^ 32 * 2 ^ 32)"
    by (simp only: mod_div_mult_eq of_nat_unat ucast_id)
  also have "\<dots> = of_nat (unat (ucast (ucast us :: u32) :: u64))
      + of_nat (unat (ucast (ucast (drop_bit 32 us) :: u32) :: u64)) * 2 ^ 32" unfolding h l by (simp only: of_nat_add of_nat_mult of_nat_power of_nat_numeral)
  finally show ?thesis by (simp add: push_bit_eq_mult)
qed

lemma file_time:
  assumes "- kTimeToEpochInMicroseconds < t" "t < 1833029933770955161"
  shows "FromFiletime (ToFiletime t) = t"
proof (cases "t = 0")
  case True
  then show ?thesis by (simp add: ToFiletime_def tb_IsNull_def FromFiletime_def)
next
  case False
  let ?n = "t + 11644473600000000"
  define us where "us = u64_of ?n * 10"
  have n: "0 < ?n" "?n * 10 < 2 ^ 64" using assms by (simp_all add: kTimeToEpochInMicroseconds_def)
  then have "uint (u64_of ?n) = ?n" by (simp add: uint_u64_of)
  then have us: "uint us = ?n * 10" using n by (simp add: us_def uint_u64_mult)
  have "i64 ?n = ?n" using n by (intro i64_small) simp_all
  moreover have "t \<noteq> int64_max" using assms(2) by (simp add: int64_max_def)
  ultimately have ft: "ToFiletime t = \<lparr>ft_low = ucast us, ft_high = ucast (drop_bit 32 us)\<rparr>"
    using False by (simp add: ToFiletime_def tb_IsNull_def tb_IsMax_def kTimeToEpochInMicroseconds_def us_def Let_def)
  note join = u64_halves [of us]
  have "\<not> (ucast us = (0 :: u32) \<and> ucast (drop_bit 32 us) = (0 :: u32))"
  proof
    assume "ucast us = (0 :: u32) \<and> ucast (drop_bit 32 us) = (0 :: u32)"
    with join have "us = 0" by simp
    with us n show False by simp
  qed
  moreover have "\<not> (ucast us = (- 1 :: u32) \<and> ucast (drop_bit 32 us) = (- 1 :: u32))"
  proof
    assume "ucast us = (- 1 :: u32) \<and> ucast (drop_bit 32 us) = (- 1 :: u32)"
    moreover have "(ucast (- 1 :: u32) :: u64) = 4294967295" by (simp add: unsigned_minus_1_eq_mask mask_eq_exp_minus_1)
    ultimately have "us = 18446744073709551615" using join by (simp add: push_bit_eq_mult)
    then have "uint us = 18446744073709551615" by simp
    with us show False by presburger
  qed
  moreover have "i64_of (us div 10) = ?n"
    using us n by (subst i64_of_small) (simp_all add: uint_div_distrib)
  ultimately show ?thesis
    using n assms by (auto simp: FromFiletime_def ft join kTimeToEpochInMicroseconds_def i64_small)
qed

text \<open>The wall clock of POSIX and the tick count of the client's clock.\<close>

lemma ToTimeval_FromTimeval: "timeval_ok tv \<Longrightarrow> ToTimeval (FromTimeval tv) = tv \<and> FromTimeval tv = wall_micros tv"
proof -
  assume tv: "timeval_ok tv"
  let ?n = "tv_sec tv * 1000000 + tv_usec tv"
  have n: "0 \<le> ?n" "?n < 2 ^ 61" using tv by (simp_all add: timeval_ok_def)
  have f: "FromTimeval tv = ?n"
    using tv n by (simp add: FromTimeval_def time_constants i64_small timeval_ok_def kTimeMax_def int64_max_def)
  have "?n sdiv 1000000 = tv_sec tv" "?n smod 1000000 = tv_usec tv"
    using tv n by (simp_all add: timeval_ok_def sdiv_nonneg smod_mod_positive)
  moreover have "?n = 0 \<Longrightarrow> tv_sec tv = 0 \<and> tv_usec tv = 0" using tv by (simp add: timeval_ok_def)
  ultimately have "ToTimeval ?n = tv" using n
    by (cases tv) (auto simp: ToTimeval_def tb_IsNull_def tb_IsMax_def int64_max_def time_constants)
  with f show ?thesis by (simp add: wall_micros_def)
qed

lemma seconds_below: "in_i64 t \<Longrightarrow> t sdiv 1000000 \<noteq> kTimeMax"
proof
  assume t: "in_i64 t" and "t sdiv 1000000 = kTimeMax"
  then have "kTimeMax * 1000000 + t smod 1000000 = t" using trunc_parts(1) [of t 1000000] by simp
  moreover have "\<bar>t smod 1000000\<bar> < 1000000" by (rule trunc_parts(2)) simp
  ultimately show False using t by (simp add: kTimeMax_def int64_max_def in_i64_def abs_less_iff)
qed

lemma zero_parts: "t sdiv 1000000 = 0 \<Longrightarrow> t smod 1000000 = 0 \<Longrightarrow> t = (0 :: int)"
  using trunc_parts(1) [of t 1000000] by simp

text \<open>The conversions of times and deltas to the structures of the system and back give the same
  value: POSIX structures for every value, Windows file times from 1601 to the year 60056.\<close>

theorem time_structures_roundtrip:
  assumes "in_i64 t"
  shows "FromTimeval (ToTimeval t) = t \<and> tb_FromTimespec (tb_ToTimespec t) = t \<and> td_FromTimespec (td_ToTimespec t) = t
    \<and> (- kTimeToEpochInMicroseconds < t \<and> t < 1833029933770955161 \<longrightarrow> FromFiletime (ToFiletime t) = t)"
proof -
  note p = parts_join [OF assms] seconds_below [OF assms]
  have z: "i64 (t smod 1000000 * 1000) = 0 \<Longrightarrow> t smod 1000000 = 0" using p(2) by auto
  have "FromTimeval (ToTimeval t) = t" using p zero_parts [of t]
    by (auto simp: FromTimeval_def ToTimeval_def tb_IsNull_def tb_IsMax_def tb_Max_def time_constants kTimeMax_def)
  moreover have "tb_FromTimespec (tb_ToTimespec t) = t" using p z zero_parts [of t]
    by (auto simp: tb_FromTimespec_def tb_ToTimespec_def tb_IsNull_def tb_IsMax_def tb_Max_def time_constants kTimeMax_def)
  moreover have "td_FromTimespec (td_ToTimespec t) = t"
    using p by (simp add: td_FromTimespec_def td_ToTimespec_def time_constants)
  ultimately show ?thesis using file_time by blast
qed

lemma time_structures_roundtrip_witness:
  "ToTimeval 1700000000123456 = \<lparr>tv_sec = 1700000000, tv_usec = 123456\<rparr> \<and> FromTimeval (ToTimeval 1700000000123456) = 1700000000123456
    \<and> FromFiletime (ToFiletime (- 5)) = - 5"
proof -
  have "in_i64 1700000000123456" "in_i64 (- 5)" by (simp_all add: in_i64_def)
  from time_structures_roundtrip [OF this(1)] time_structures_roundtrip [OF this(2)] show ?thesis
    by (simp add: kTimeToEpochInMicroseconds_def)
      (simp add: ToTimeval_def tb_IsNull_def tb_IsMax_def int64_max_def time_constants)
qed

end
