(* ===== verification/Windows_Ticks.thy ===== *)
theory Windows_Ticks
  imports Time_Variants
begin

section \<open>The clocks of Windows\<close>

text \<open>
  The part of \<open>time/time.cc\<close> for Windows: a clock that follows the tick count and is set by the
  system time once a minute, the tick count made of the 32-bit \<open>timeGetTime\<close> and a counter of its wrap-arounds, the
  performance counter and the cycle counter of the processor.

  The tick count is updated by any number of threads with a compare and exchange; its steps are
  those of a relation, in which a thread loads the state, reads the ticks and exchanges the state
  in separate steps. The main lemma says that every call returns the true count.
\<close>

subsection \<open>A clock set by the system time\<close>

record win_clock =
  wc_initial_ticks :: base_time
  wc_initial_time :: base_time

definition win_Clock :: "base_time \<Rightarrow> base_time \<Rightarrow> win_clock" where
  "win_Clock ticks t = \<lparr>wc_initial_ticks = ticks, wc_initial_time = t\<rparr>"

text \<open>\<open>ticks\<close> and \<open>t\<close> are the readings of \<open>GetSystemTicks\<close> and \<open>GetSystemTime\<close>.\<close>

definition win_Clock_Now :: "base_time \<Rightarrow> base_time \<Rightarrow> win_clock \<Rightarrow> base_time \<times> win_clock" where
  "win_Clock_Now ticks t c =
     (let kMaxElapsedTime = td_FromMinutes 1;
          elapsed = tb_diff ticks (wc_initial_ticks c)
      in if t < wc_initial_time c \<or> elapsed > kMaxElapsedTime
         then (t, c\<lparr>wc_initial_ticks := ticks, wc_initial_time := t\<rparr>)
         else (tb_plus (wc_initial_time c) elapsed, c))"

definition win_Clock_NowFromSystemTime :: "base_time \<Rightarrow> base_time \<Rightarrow> win_clock \<Rightarrow> base_time \<times> win_clock" where
  "win_Clock_NowFromSystemTime ticks t c = (t, c\<lparr>wc_initial_ticks := ticks, wc_initial_time := t\<rparr>)"

subsection \<open>The tick count\<close>

text \<open>
  The state in one atomic 32-bit word: the upper eight bits of the last reading and the number of
  wrap-arounds. Words are equal if both parts are.
\<close>

record rollover_state =
  rs_last_8 :: "8 word"
  rs_rollovers :: u16

definition rollover_zero :: rollover_state where
  "rollover_zero = \<lparr>rs_last_8 = 0, rs_rollovers = 0\<rparr>"

definition rollover_note :: "u32 \<Rightarrow> rollover_state \<Rightarrow> rollover_state" where
  "rollover_note now state =
     (let now_8 = ucast (drop_bit 24 now)
      in \<lparr>rs_last_8 = now_8,
          rs_rollovers = (if now_8 < rs_last_8 state then rs_rollovers state + 1 else rs_rollovers state)\<rparr>)"

definition rollover_time :: "u32 \<Rightarrow> rollover_state \<Rightarrow> base_time" where
  "rollover_time now state =
     tb_plus 0 (td_FromMilliseconds (i64_of (ucast now + push_bit 32 (ucast (rs_rollovers state)))))"

text \<open>A call that no other thread interferes with.\<close>

definition RolloverProtectedNow :: "u32 \<Rightarrow> rollover_state \<Rightarrow> base_time \<times> rollover_state" where
  "RolloverProtectedNow now original = (rollover_time now (rollover_note now original), rollover_note now original)"

text \<open>
  A thread is outside, has loaded the shared state, has then read the ticks, or is done with its
  result. Readings are the true count of milliseconds since the last wrap-around before the program
  started, of which \<open>timeGetTime\<close> shows 32 bits; next to a state stands the count at which it was
  stored. These true counts are not in the program.
\<close>

datatype rollover_thread = Outside | Loaded rollover_state nat | Ticked rollover_state nat nat | Finished nat base_time

record rollover_system =
  ry_global :: rollover_state
  ry_stored :: nat
  ry_ticks :: nat
  ry_threads :: "nat \<Rightarrow> rollover_thread"

definition rollover_new :: "nat \<Rightarrow> rollover_system" where
  "rollover_new n = \<lparr>ry_global = rollover_zero, ry_stored = 0, ry_ticks = n, ry_threads = (\<lambda>_. Outside)\<rparr>"

text \<open>
  The steps of the loop. A thread reads the ticks at most 255 times \<open>2\<^sup>2\<^sup>4\<close> milliseconds (49.5 days)
  after the state that it has loaded was stored, which the program meets if it asks for the
  time often enough. \<open>compare_exchange_weak\<close> may fail without a reason.
\<close>

inductive rollover_step :: "rollover_system \<Rightarrow> rollover_system \<Rightarrow> bool" where
  passes: "rollover_step s (s\<lparr>ry_ticks := ry_ticks s + d\<rparr>)"
| loads: "ry_threads s i = Outside
    \<Longrightarrow> rollover_step s (s\<lparr>ry_threads := (ry_threads s)(i := Loaded (ry_global s) (ry_stored s))\<rparr>)"
| reads: "ry_threads s i = Loaded original g \<Longrightarrow> ry_ticks s div 2 ^ 24 \<le> g div 2 ^ 24 + 255
    \<Longrightarrow> rollover_step s (s\<lparr>ry_threads := (ry_threads s)(i := Ticked original g (ry_ticks s))\<rparr>)"
| unchanged: "ry_threads s i = Ticked original g n \<Longrightarrow> rollover_note (of_nat n) original = original
    \<Longrightarrow> rollover_step s (s\<lparr>ry_threads := (ry_threads s)(i := Finished n (rollover_time (of_nat n) original))\<rparr>)"
| exchanges: "ry_threads s i = Ticked original g n \<Longrightarrow> rollover_note (of_nat n) original \<noteq> original \<Longrightarrow> ry_global s = original
    \<Longrightarrow> rollover_step s (s\<lparr>ry_global := rollover_note (of_nat n) original, ry_stored := n,
      ry_threads := (ry_threads s)(i := Finished n (rollover_time (of_nat n) (rollover_note (of_nat n) original)))\<rparr>)"
| retries: "ry_threads s i = Ticked original g n \<Longrightarrow> rollover_note (of_nat n) original \<noteq> original
    \<Longrightarrow> rollover_step s (s\<lparr>ry_threads := (ry_threads s)(i := Loaded (ry_global s) (ry_stored s))\<rparr>)"
| returns: "ry_threads s i = Finished n r \<Longrightarrow> rollover_step s (s\<lparr>ry_threads := (ry_threads s)(i := Outside)\<rparr>)"

inductive_cases rollover_stepE: "rollover_step s s'"

subsection \<open>The performance counter\<close>

definition kQPCOverflowThreshold :: int64 where "kQPCOverflowThreshold = 9223372036855"

text \<open>\<open>freq\<close> is the global \<open>g_qpc_ticks_per_second\<close>.\<close>

definition QPCValueToTimeDelta :: "int64 \<Rightarrow> int64 \<Rightarrow> base_delta option" where
  "QPCValueToTimeDelta freq qpc_value =
     (if qpc_value < kQPCOverflowThreshold
      then map_option td_FromMicroseconds (td_quot (i64 (qpc_value * kMicrosecondsPerSecond)) freq)
      else do {
        whole_seconds \<leftarrow> td_quot qpc_value freq;
        let leftover_ticks = i64 (qpc_value - i64 (whole_seconds * freq));
        us \<leftarrow> td_quot (i64 (leftover_ticks * kMicrosecondsPerSecond)) freq;
        Some (td_FromMicroseconds (i64 (i64 (whole_seconds * kMicrosecondsPerSecond) + us))) })"

definition QPCNow :: "int64 \<Rightarrow> u64 \<Rightarrow> base_time option" where
  "QPCNow freq raw = map_option (tb_plus 0) (QPCValueToTimeDelta freq (i64_of raw))"

text \<open>Which clock is used is decided by the first reading.\<close>

datatype now_function = Now_Initial | Now_Rollover | Now_QPC

record win_ticks =
  wt_time_ticks_now_function :: now_function
  wt_qpc_ticks_per_second :: int64
  wt_last_time_and_rollovers :: rollover_state

definition win_ticks_new :: win_ticks where
  "win_ticks_new = \<lparr>wt_time_ticks_now_function = Now_Initial, wt_qpc_ticks_per_second = 0,
     wt_last_time_and_rollovers = rollover_zero\<rparr>"

text \<open>\<open>query\<close> is the frequency, if the system knows it, \<open>non_stop\<close> whether the counter of the processor never stops.\<close>

definition InitializeTimeTicksNowFunctionPointer :: "int64 option \<Rightarrow> bool \<Rightarrow> win_ticks \<Rightarrow> win_ticks" where
  "InitializeTimeTicksNowFunctionPointer query non_stop w =
     (let ticks_per_sec = (case query of None \<Rightarrow> 0 | Some f \<Rightarrow> f);
          now_function = (if ticks_per_sec \<le> 0 \<or> \<not> non_stop then Now_Rollover else Now_QPC)
      in w\<lparr>wt_qpc_ticks_per_second := ticks_per_sec, wt_time_ticks_now_function := now_function\<rparr>)"

text \<open>One call through the pointer; \<open>None\<close> stands for the call of the initial function within itself.\<close>

definition call_now :: "u32 \<Rightarrow> u64 \<Rightarrow> win_ticks \<Rightarrow> (base_time \<times> win_ticks) option" where
  "call_now ticks raw w = (case wt_time_ticks_now_function w of
       Now_Rollover \<Rightarrow> (case RolloverProtectedNow ticks (wt_last_time_and_rollovers w) of
         (t, state) \<Rightarrow> Some (t, w\<lparr>wt_last_time_and_rollovers := state\<rparr>))
     | Now_QPC \<Rightarrow> map_option (\<lambda>t. (t, w)) (QPCNow (wt_qpc_ticks_per_second w) raw)
     | Now_Initial \<Rightarrow> None)"

definition InitialTimeTicksNowFunction :: "int64 option \<Rightarrow> bool \<Rightarrow> u32 \<Rightarrow> u64 \<Rightarrow> win_ticks \<Rightarrow> (base_time \<times> win_ticks) option" where
  "InitialTimeTicksNowFunction query non_stop ticks raw w =
     call_now ticks raw (InitializeTimeTicksNowFunctionPointer query non_stop w)"

definition win_TimeTicks_Now :: "int64 option \<Rightarrow> bool \<Rightarrow> u32 \<Rightarrow> u64 \<Rightarrow> win_ticks \<Rightarrow> (base_time \<times> win_ticks) option" where
  "win_TimeTicks_Now query non_stop ticks raw w =
     (if wt_time_ticks_now_function w = Now_Initial then InitialTimeTicksNowFunction query non_stop ticks raw w
      else call_now ticks raw w)"

definition win_IsHighResolution :: "int64 option \<Rightarrow> bool \<Rightarrow> win_ticks \<Rightarrow> bool \<times> win_ticks" where
  "win_IsHighResolution query non_stop w =
     (let w = (if wt_time_ticks_now_function w = Now_Initial then InitializeTimeTicksNowFunctionPointer query non_stop w else w)
      in (wt_time_ticks_now_function w = Now_QPC, w))"

subsection \<open>The cycle counter\<close>

text \<open>
  The static variables of \<open>TSCTicksPerSecond\<close>; the two initial readings are made by the first call
  that needs them. A frequency of zero has no defined result here.
\<close>

record tsc_state =
  ts_ticks_per_second :: cfloat
  ts_initial :: "(u64 \<times> u64) option"

definition tsc_new :: tsc_state where "tsc_new = \<lparr>ts_ticks_per_second = 0, ts_initial = None\<rparr>"

definition TSCTicksPerSecond :: "u64 \<times> u64 \<Rightarrow> u64 \<times> u64 \<Rightarrow> int64 \<Rightarrow> tsc_state \<Rightarrow> (cfloat \<times> tsc_state) option" where
  "TSCTicksPerSecond first now freq s =
     (if ts_ticks_per_second s \<noteq> 0 then Some (ts_ticks_per_second s, s)
      else if freq = 0 then None
      else let initial = (case ts_initial s of None \<Rightarrow> first | Some r \<Rightarrow> r);
               s = s\<lparr>ts_initial := Some initial\<rparr>;
               perf_counter_ticks = snd now - snd initial;
               elapsed_time_seconds = f64 (u64_f64 perf_counter_ticks / f64 (of_int freq))
           in if elapsed_time_seconds < f64 (5 / 100) then Some (0, s)
              else let tsc_ticks = fst now - fst initial;
                       r = f64 (u64_f64 tsc_ticks / elapsed_time_seconds)
                   in Some (r, s\<lparr>ts_ticks_per_second := r\<rparr>))"

definition GetForThread :: "u64 \<Rightarrow> u64 \<times> u64 \<Rightarrow> u64 \<times> u64 \<Rightarrow> int64 \<Rightarrow> tsc_state \<Rightarrow> (base_time \<times> tsc_state) option" where
  "GetForThread thread_cycle_time first now freq s = do {
     (tsc_ticks_per_second, s) \<leftarrow> TSCTicksPerSecond first now freq s;
     if tsc_ticks_per_second = 0 then Some (0, s)
     else do {
       let thread_time_seconds = f64 (u64_f64 thread_cycle_time / tsc_ticks_per_second);
       Some (f_to_i64 (f64 (thread_time_seconds * of_int kMicrosecondsPerSecond)), s) } }"

subsection \<open>The tick count is the true one\<close>

text \<open>A state stored at count \<open>g\<close>.\<close>

definition stored_at :: "rollover_state \<Rightarrow> nat \<Rightarrow> bool" where
  "stored_at state g \<longleftrightarrow> rs_last_8 state = of_nat (g div 2 ^ 24) \<and> rs_rollovers state = of_nat (g div 2 ^ 32)"

lemma upper_bits: "ucast (drop_bit 24 (of_nat n :: u32)) = (of_nat (n div 2 ^ 24) :: 8 word)"
proof -
  have "n mod (a * b) div a = n div a mod b" if "0 < a" for a b :: nat using that by (simp add: mod_mult2_eq)
  from this [of "2 ^ 24" "2 ^ 8"] show ?thesis
    by (simp add: word_unat_eq_iff unsigned_ucast_eq take_bit_eq_mod drop_bit_eq_div unat_div_distrib unat_mod_distrib unat_of_nat)
qed

lemma wraps_once:
  assumes "u \<le> v" "v \<le> u + 255"
  shows "v div 256 = (if v mod 256 < u mod 256 then u div 256 + 1 else u div 256 :: nat)"
proof -
  define a b r t where d: "a = v div 256" "b = u div 256" "r = v mod 256" "t = u mod 256"
  have "v = 256 * a + r" "u = 256 * b + t" "r < 256" "t < 256" by (simp_all add: d)
  with assms have "a = (if r < t then b + 1 else b)" by (simp split: if_splits)
  then show ?thesis by (simp add: d)
qed

lemma rollover_note_stored:
  assumes "stored_at state g" "g \<le> n" "n div 2 ^ 24 \<le> g div 2 ^ 24 + 255"
  shows "stored_at (rollover_note (of_nat n) state) n"
proof -
  define u where "u = g div 2 ^ 24"
  define v where "v = n div 2 ^ 24"
  have uv: "u \<le> v" "v \<le> u + 255" using assms(2,3) by (simp_all add: u_def v_def div_le_mono)
  have w: "g div 2 ^ 32 = u div 256" "n div 2 ^ 32 = v div 256" by (simp_all add: u_def v_def div_mult2_eq [symmetric])
  have less: "(of_nat v :: 8 word) < of_nat u \<longleftrightarrow> v mod 256 < u mod 256"
    by (simp add: word_less_nat_alt unat_of_nat)
  show ?thesis using assms(1) less wraps_once [OF uv]
    unfolding stored_at_def rollover_note_def Let_def upper_bits w u_def [symmetric] v_def [symmetric] by simp
qed

lemma rollover_time_true:
  assumes "stored_at state n" "n < 2 ^ 48" shows "rollover_time (of_nat n) state = int n * 1000"
proof -
  have "n div 2 ^ 32 < 2 ^ 16" using assms(2) by (simp add: less_mult_imp_div_less)
  then have h: "unat (ucast (rs_rollovers state) :: u64) = n div 2 ^ 32"
    using assms(1) by (simp add: stored_at_def unat_of_nat)
  have l: "unat (ucast (of_nat n :: u32) :: u64) = n mod 2 ^ 32"
    by (simp add: unsigned_ucast_eq take_bit_nat_eq_self unat_of_nat)
  have "ucast (of_nat n :: u32) + push_bit 32 (ucast (rs_rollovers state))
      = (of_nat (unat (ucast (of_nat n :: u32) :: u64)) + of_nat (unat (ucast (rs_rollovers state) :: u64)) * 2 ^ 32 :: u64)"
    by (simp add: push_bit_eq_mult)
  also have "\<dots> = of_nat (n mod 2 ^ 32 + n div 2 ^ 32 * 2 ^ 32)"
    unfolding h l by (simp only: of_nat_add of_nat_mult of_nat_power of_nat_numeral)
  also have "\<dots> = of_nat n" by (simp only: mod_div_mult_eq)
  finally have e: "ucast (of_nat n :: u32) + push_bit 32 (ucast (rs_rollovers state)) = (of_nat n :: u64)" .
  have "uint (of_nat n :: u64) = int n" using assms(2) unat_of_nat_u64 [of n] by (simp add: uint_nat)
  then have "i64_of (of_nat n) = int n" using assms(2) by (subst i64_of_small) simp_all
  then show ?thesis unfolding rollover_time_def e using assms(2)
    by (simp add: tb_plus_def td_FromMilliseconds_def time_constants i64_small)
qed

definition rollover_thread_ok :: "nat \<Rightarrow> rollover_thread \<Rightarrow> bool" where
  "rollover_thread_ok ticks t = (case t of Outside \<Rightarrow> True
     | Loaded state g \<Rightarrow> stored_at state g \<and> g \<le> ticks
     | Ticked state g n \<Rightarrow> stored_at state g \<and> g \<le> n \<and> n \<le> ticks \<and> n div 2 ^ 24 \<le> g div 2 ^ 24 + 255
     | Finished n r \<Rightarrow> n \<le> ticks \<and> (n < 2 ^ 48 \<longrightarrow> r = int n * 1000))"

definition rollover_ok :: "rollover_system \<Rightarrow> bool" where
  "rollover_ok s \<longleftrightarrow> stored_at (ry_global s) (ry_stored s) \<and> ry_stored s \<le> ry_ticks s
     \<and> (\<forall>i. rollover_thread_ok (ry_ticks s) (ry_threads s i))"

lemma rollover_thread_ok_later: "rollover_thread_ok n t \<Longrightarrow> n \<le> m \<Longrightarrow> rollover_thread_ok m t"
  by (auto simp: rollover_thread_ok_def split: rollover_thread.splits)

lemma rollover_ok_thread:
  "rollover_ok s \<Longrightarrow> rollover_thread_ok (ry_ticks s) t \<Longrightarrow> rollover_ok (s\<lparr>ry_threads := (ry_threads s)(i := t)\<rparr>)"
  by (simp add: rollover_ok_def)

lemma rollover_ok_ticked:
  assumes "rollover_ok s" "ry_threads s i = Ticked original g n"
  shows "n \<le> ry_ticks s" "stored_at (rollover_note (of_nat n) original) n"
    "rollover_thread_ok (ry_ticks s) (Finished n (rollover_time (of_nat n) (rollover_note (of_nat n) original)))"
proof -
  have t: "rollover_thread_ok (ry_ticks s) (Ticked original g n)" using assms by (metis rollover_ok_def)
  then show n: "n \<le> ry_ticks s" by (simp add: rollover_thread_ok_def)
  from t show st: "stored_at (rollover_note (of_nat n) original) n"
    by (intro rollover_note_stored [of _ g]) (simp_all add: rollover_thread_ok_def)
  show "rollover_thread_ok (ry_ticks s) (Finished n (rollover_time (of_nat n) (rollover_note (of_nat n) original)))"
    using n rollover_time_true [OF st] by (simp add: rollover_thread_ok_def)
qed

lemma rollover_step_ok: "rollover_step s s' \<Longrightarrow> rollover_ok s \<Longrightarrow> rollover_ok s' \<and> ry_ticks s \<le> ry_ticks s'"
proof (induction rule: rollover_step.induct)
  case (passes s d)
  then show ?case using rollover_thread_ok_later [of "ry_ticks s" _ "ry_ticks s + d"] by (auto simp: rollover_ok_def)
next
  case (loads s i)
  then show ?case by (simp add: rollover_ok_thread) (simp add: rollover_ok_def rollover_thread_ok_def)
next
  case (reads s i original g)
  then have "rollover_thread_ok (ry_ticks s) (Loaded original g)" by (metis rollover_ok_def)
  with reads show ?case by (intro conjI rollover_ok_thread) (simp_all add: rollover_thread_ok_def)
next
  case (unchanged s i original g n)
  from rollover_ok_ticked(3) [OF this(3,1)] unchanged(2,3) show ?case by (simp add: rollover_ok_thread)
next
  case (exchanges s i original g n)
  note t = rollover_ok_ticked [OF exchanges(4,1)]
  from t exchanges(4) show ?case by (simp add: rollover_ok_def)
next
  case (retries s i original g n)
  then show ?case by (simp add: rollover_ok_thread) (simp add: rollover_ok_def rollover_thread_ok_def)
next
  case (returns s i n r)
  then show ?case by (simp add: rollover_ok_thread rollover_thread_ok_def)
qed

lemma rollover_run_ok:
  assumes "rollover_step\<^sup>*\<^sup>* s s'" "rollover_ok s" shows "rollover_ok s' \<and> ry_ticks s \<le> ry_ticks s'"
  using assms by (induction rule: rtranclp_induct) (auto dest!: rollover_step_ok)

lemma rollover_new_ok: "rollover_ok (rollover_new n)"
  by (simp add: rollover_ok_def rollover_new_def rollover_zero_def stored_at_def rollover_thread_ok_def)

text \<open>A call without interference is one run of the loop.\<close>

lemma rollover_call:
  assumes "ry_threads s i = Outside" "ry_ticks s div 2 ^ 24 \<le> ry_stored s div 2 ^ 24 + 255"
    and "RolloverProtectedNow (of_nat (ry_ticks s)) (ry_global s) = (t, state)"
  shows "\<exists>s'. rollover_step\<^sup>*\<^sup>* s s' \<and> ry_threads s' = (ry_threads s)(i := Finished (ry_ticks s) t)
    \<and> ry_global s' = state \<and> ry_ticks s' = ry_ticks s
    \<and> ry_stored s' = (if state = ry_global s then ry_stored s else ry_ticks s)"
proof -
  let ?n = "ry_ticks s" and ?g = "ry_global s"
  define s1 where "s1 = s\<lparr>ry_threads := (ry_threads s)(i := Loaded ?g (ry_stored s))\<rparr>"
  define s2 where "s2 = s1\<lparr>ry_threads := (ry_threads s1)(i := Ticked ?g (ry_stored s) (ry_ticks s1))\<rparr>"
  have "rollover_step s s1" unfolding s1_def by (rule loads [OF assms(1)])
  then have "rollover_step\<^sup>*\<^sup>* s s1" by (rule r_into_rtranclp)
  moreover have "rollover_step s1 s2" unfolding s2_def
    by (rule reads [of s1 i ?g "ry_stored s"]) (use assms(2) in \<open>simp_all add: s1_def\<close>)
  ultimately have run: "rollover_step\<^sup>*\<^sup>* s s2" by (rule rtranclp.rtrancl_into_rtrancl)
  have s2: "ry_threads s2 i = Ticked ?g (ry_stored s) ?n" "ry_global s2 = ?g" by (simp_all add: s2_def s1_def)
  have "\<exists>s'. rollover_step s2 s' \<and> ry_threads s' = (ry_threads s)(i := Finished ?n t)
    \<and> ry_global s' = state \<and> ry_ticks s' = ?n \<and> ry_stored s' = (if state = ?g then ry_stored s else ?n)"
  proof (cases "rollover_note (of_nat ?n) ?g = ?g")
    case True
    show ?thesis
      by (rule exI, rule conjI, rule unchanged [OF s2(1) True])
        (use True assms(3) in \<open>auto simp: s2_def s1_def RolloverProtectedNow_def\<close>)
  next
    case False
    show ?thesis
      by (rule exI, rule conjI, rule exchanges [OF s2(1) False s2(2)])
        (use False assms(3) in \<open>auto simp: s2_def s1_def RolloverProtectedNow_def\<close>)
  qed
  with rtranclp.rtrancl_into_rtrancl [OF run] show ?thesis by blast
qed

text \<open>A thread that is outside makes its next reading later.\<close>

definition reads_since :: "nat \<Rightarrow> rollover_thread \<Rightarrow> bool" where
  "reads_since n t = (case t of Ticked _ _ m \<Rightarrow> n \<le> m | Finished m _ \<Rightarrow> n \<le> m | _ \<Rightarrow> True)"

lemma reads_later:
  assumes "rollover_step\<^sup>*\<^sup>* s s'" "reads_since n (ry_threads s j)" "n \<le> ry_ticks s"
  shows "reads_since n (ry_threads s' j) \<and> n \<le> ry_ticks s'"
  using assms
proof (induction rule: rtranclp_induct)
  case (step s1 s2)
  then have "reads_since n (ry_threads s1 j)" "n \<le> ry_ticks s1" by simp_all
  from step(2) this show ?case
    by (cases rule: rollover_step.cases) (auto simp: reads_since_def split: if_splits)
qed simp

subsection \<open>The performance counter is exact\<close>

text \<open>Both ways of computing the microseconds give the exact quotient, rounded down.\<close>

lemma QPCValueToTimeDelta_exact:
  assumes f: "0 < freq" "freq \<le> 9223372036854" and q: "0 \<le> q" "q < 2 ^ 63" and fits: "q * 1000000 div freq < 2 ^ 63"
  shows "QPCValueToTimeDelta freq q = Some (q * 1000000 div freq)"
proof (cases "q < kQPCOverflowThreshold")
  case True
  then have "i64 (q * 1000000) = q * 1000000" using q by (intro i64_small) (simp_all add: kQPCOverflowThreshold_def)
  with True f q show ?thesis
    by (simp add: QPCValueToTimeDelta_def td_quot_def int64_min_def time_constants sdiv_nonneg td_FromMicroseconds_def)
next
  case False
  let ?w = "q div freq" and ?r = "q mod freq"
  have r: "0 \<le> ?r" "?r < freq" using f by simp_all
  have w: "0 \<le> ?w" "?w * freq \<le> q" using f q by (simp_all add: pos_imp_zdiv_nonneg_iff minus_mod_eq_div_mult [symmetric])
  have e: "q * 1000000 div freq = ?w * 1000000 + ?r * 1000000 div freq"
  proof -
    have "(w * freq + r) * 1000000 = r * 1000000 + (w * 1000000) * freq" for w r :: int by (simp add: algebra_simps)
    from this [of ?w ?r] have "q * 1000000 = ?r * 1000000 + (?w * 1000000) * freq" by (simp only: div_mult_mod_eq)
    then have "q * 1000000 div freq = (?r * 1000000 + (?w * 1000000) * freq) div freq" by (rule arg_cong)
    then show ?thesis using f by simp
  qed
  have p: "0 \<le> ?r * 1000000 div freq" using r f by (simp add: pos_imp_zdiv_nonneg_iff)
  have "i64 (?w * freq) = ?w * freq" using w q f by (intro i64_small) (simp_all add: order_trans [OF _ mult_nonneg_nonneg])
  moreover have "q - ?w * freq = ?r" by (simp add: minus_div_mult_eq_mod)
  moreover have "i64 ?r = ?r" "i64 (?r * 1000000) = ?r * 1000000" using r f by (intro i64_small; linarith)+
  moreover have "i64 (?w * 1000000) = ?w * 1000000" "i64 (?w * 1000000 + ?r * 1000000 div freq) = ?w * 1000000 + ?r * 1000000 div freq"
    using w(1) p e fits by (simp_all add: i64_small)
  ultimately show ?thesis using False f q r
    by (simp add: QPCValueToTimeDelta_def td_quot_def int64_min_def time_constants sdiv_nonneg td_FromMicroseconds_def Let_def e)
qed

text \<open>The choice of the clock is made once, by the first question, and every later reading has a result.\<close>

lemma call_now_defined:
  assumes "wt_time_ticks_now_function w \<noteq> Now_Initial"
    "wt_time_ticks_now_function w = Now_QPC \<longrightarrow> 0 < wt_qpc_ticks_per_second w"
  shows "\<exists>t w'. call_now ticks raw w = Some (t, w') \<and> wt_time_ticks_now_function w' = wt_time_ticks_now_function w
    \<and> wt_qpc_ticks_per_second w' = wt_qpc_ticks_per_second w"
proof (cases "wt_time_ticks_now_function w")
  case Now_QPC
  with assms(2) show ?thesis
    by (auto simp: call_now_def QPCNow_def QPCValueToTimeDelta_def td_quot_def Let_def)
qed (use assms(1) in \<open>auto simp: call_now_def split: prod.splits\<close>)

lemma win_TimeTicks_Now_defined:
  assumes "wt_time_ticks_now_function w = Now_QPC \<longrightarrow> 0 < wt_qpc_ticks_per_second w"
  shows "\<exists>t w'. win_TimeTicks_Now query non_stop ticks raw w = Some (t, w') \<and> wt_time_ticks_now_function w' \<noteq> Now_Initial
    \<and> (wt_time_ticks_now_function w \<noteq> Now_Initial \<longrightarrow> wt_time_ticks_now_function w' = wt_time_ticks_now_function w)
    \<and> (wt_time_ticks_now_function w' = Now_QPC \<longrightarrow> 0 < wt_qpc_ticks_per_second w')
    \<and> win_IsHighResolution query non_stop w' = (wt_time_ticks_now_function w' = Now_QPC, w')"
proof -
  let ?w = "if wt_time_ticks_now_function w = Now_Initial then InitializeTimeTicksNowFunctionPointer query non_stop w else w"
  have "wt_time_ticks_now_function ?w \<noteq> Now_Initial"
    "wt_time_ticks_now_function ?w = Now_QPC \<longrightarrow> 0 < wt_qpc_ticks_per_second ?w"
    using assms by (auto simp: InitializeTimeTicksNowFunctionPointer_def Let_def split: option.splits)
  with call_now_defined [OF this, of ticks raw] obtain t w' where
    "call_now ticks raw ?w = Some (t, w')" "wt_time_ticks_now_function w' = wt_time_ticks_now_function ?w"
    "wt_time_ticks_now_function w' \<noteq> Now_Initial" "wt_time_ticks_now_function w' = Now_QPC \<longrightarrow> 0 < wt_qpc_ticks_per_second w'"
    by auto
  then show ?thesis
    by (intro exI [of _ t] exI [of _ w'])
      (auto simp: win_TimeTicks_Now_def InitialTimeTicksNowFunction_def win_IsHighResolution_def Let_def)
qed

subsection \<open>The clock stays with the system time\<close>

text \<open>
  The clock differs from the system time by no more than the two clocks have drifted apart since it was
  last set, which is at most a minute ago.
\<close>

lemma win_Clock_Now_drift:
  assumes "win_Clock_Now ticks t c = (r, c')"
    and "in_i64 t" "in_i64 (ticks - wc_initial_ticks c)" "in_i64 (wc_initial_time c + (ticks - wc_initial_ticks c))"
    and "\<bar>(t - wc_initial_time c) - (ticks - wc_initial_ticks c)\<bar> \<le> drift" "0 \<le> drift"
  shows "\<bar>r - t\<bar> \<le> drift \<and> (c' = c \<longrightarrow> r = t \<or> ticks - wc_initial_ticks c \<le> 60000000)"
proof (cases "t < wc_initial_time c \<or> tb_diff ticks (wc_initial_ticks c) > td_FromMinutes 1")
  case True
  with assms(1,6) show ?thesis by (auto simp: win_Clock_Now_def Let_def)
next
  case False
  have m: "td_FromMinutes 1 = 60000000" by (simp add: td_FromMinutes_def time_constants i64_small)
  from assms(3) have d: "tb_diff ticks (wc_initial_ticks c) = ticks - wc_initial_ticks c"
    by (simp add: tb_diff_def td_FromMicroseconds_def i64_id)
  from False assms(1,4) have "r = wc_initial_time c + (ticks - wc_initial_ticks c)" "c' = c"
    by (auto simp: win_Clock_Now_def Let_def d tb_plus_def i64_id add.commute)
  with False assms(5) show ?thesis by (simp add: m d abs_le_iff)
qed

subsection \<open>Property\<close>

text \<open>C38. The tick count of Windows for any number of threads and any interleaving of their loads, readings
  and exchanges: while the state is at most 49.5 days old when a thread reads the ticks, every
  call returns the true count since the last wrap-around before the start, in microseconds, and a
  call that begins after another has returned never gets an earlier time.\<close>

theorem rollover_ticks_are_true:
  assumes "rollover_step\<^sup>*\<^sup>* (rollover_new n0) s" "ry_threads s i = Finished n r" "ry_threads s j = Outside"
    and "rollover_step\<^sup>*\<^sup>* s s'" "ry_threads s' j = Finished m r'" "m < 2 ^ 48"
  shows "r = int n * 1000 \<and> r' = int m * 1000 \<and> r \<le> r'"
proof -
  have s: "rollover_ok s" using rollover_run_ok [OF assms(1) rollover_new_ok] by simp
  have s': "rollover_ok s'" using rollover_run_ok [OF assms(4) s] by simp
  have "rollover_thread_ok (ry_ticks s) (Finished n r)" "rollover_thread_ok (ry_ticks s') (Finished m r')"
    using s s' assms(2,5) by (metis rollover_ok_def)+
  moreover have "ry_ticks s \<le> m"
    using reads_later [OF assms(4), of "ry_ticks s" j] assms(3,5) by (simp add: reads_since_def)
  ultimately show ?thesis using assms(6) by (simp add: rollover_thread_ok_def)
qed

text \<open>The counter wraps around between the calls of two threads.\<close>

lemma rollover_ticks_are_true_witness:
  "\<exists>s s' r r'. rollover_step\<^sup>*\<^sup>* (rollover_new 4294000000) s \<and> ry_threads s 0 = Finished 4294000000 r
    \<and> rollover_step\<^sup>*\<^sup>* s s' \<and> ry_threads s' 1 = Finished 4295000000 r' \<and> rs_rollovers (ry_global s') = 1
    \<and> r = 4294000000000 \<and> r' = 4295000000000"
proof -
  let ?s0 = "rollover_new 4294000000"
  obtain t st where c: "RolloverProtectedNow (of_nat (ry_ticks ?s0)) (ry_global ?s0) = (t, st)" by fastforce
  have n: "rollover_note 4294000000 rollover_zero = \<lparr>rs_last_8 = 255, rs_rollovers = 0\<rparr>"
    by (simp add: rollover_note_def rollover_zero_def drop_bit_eq_div word_less_nat_alt Let_def)
  from rollover_call [OF _ _ c, of 0] obtain s1 where s1: "rollover_step\<^sup>*\<^sup>* ?s0 s1"
    "ry_threads s1 = (\<lambda>_. Outside)(0 := Finished 4294000000 t)" "ry_global s1 = st" "ry_ticks s1 = 4294000000"
    "ry_stored s1 = (if st = rollover_zero then 0 else 4294000000)"
    by (auto simp: rollover_new_def)
  have st: "st = \<lparr>rs_last_8 = 255, rs_rollovers = 0\<rparr>" using c n by (simp add: RolloverProtectedNow_def rollover_new_def)
  define s2 where "s2 = s1\<lparr>ry_ticks := ry_ticks s1 + 1000000\<rparr>"
  have p: "rollover_step s1 s2" unfolding s2_def by (rule passes)
  have s2: "ry_threads s2 1 = Outside" "ry_ticks s2 = 4295000000" "ry_global s2 = st" "ry_stored s2 = 4294000000"
    using s1 st by (simp_all add: s2_def rollover_zero_def)
  obtain t' st' where c': "RolloverProtectedNow (of_nat (ry_ticks s2)) (ry_global s2) = (t', st')" by fastforce
  have n': "rollover_note 4295000000 \<lparr>rs_last_8 = 255, rs_rollovers = 0\<rparr> = \<lparr>rs_last_8 = 0, rs_rollovers = 1\<rparr>"
    by (simp add: rollover_note_def drop_bit_eq_div word_less_nat_alt Let_def)
  from rollover_call [OF s2(1) _ c'] s2 obtain s3 where s3: "rollover_step\<^sup>*\<^sup>* s2 s3"
    "ry_threads s3 1 = Finished 4295000000 t'" "ry_global s3 = st'" by auto
  have st': "st' = \<lparr>rs_last_8 = 0, rs_rollovers = 1\<rparr>" using c' n' s2 st by (simp add: RolloverProtectedNow_def)
  have run: "rollover_step\<^sup>*\<^sup>* s1 s3" using p s3(1) by (rule converse_rtranclp_into_rtranclp)
  have "ry_threads s1 0 = Finished 4294000000 t" "ry_threads s1 1 = Outside" using s1(2) by simp_all
  from rollover_ticks_are_true [OF s1(1) this run s3(2)] this(1) s1(1) run s3(2,3) st' show ?thesis
    by (intro exI [of _ s1] exI [of _ s3] exI [of _ t] exI [of _ t']) simp
qed

end
