(* ===== verification/Test_Programs.thy ===== *)
theory Test_Programs
  imports Udp_Client
begin

section \<open>The test programs\<close>

text \<open>
  The programs under \<open>test/\<close> that do something: they run single classes and print, and end
  without checking a result. Here they are definitions whose value is what they print or leave
  behind, and the lemmas say what that is. The output of the clock in an endless loop and the program with an
  empty body are left out.
\<close>

subsection \<open>The windowed filter\<close>

text \<open>\<open>chrome_windowed_filter_test.cc\<close>: the best sample after each update; the array has 18 of its 19 values given.\<close>

definition bw_samples :: "cfloat list" where
  "bw_samples = [22, 53, 80, 80, 42, 24, 9, 89, 89, 80, 79, 79, 79, 79, 79, 79, 79, 9, 0]"

fun print_best :: "cfloat list \<Rightarrow> nat \<Rightarrow> cfloat wfilter \<Rightarrow> cfloat list" where
  "print_best [] i f = []"
| "print_best (s # ss) i f =
     (let f = wf_Update MaxFilter s (of_nat i) f in wf_GetBest f # print_best ss (i + 1) f)"

definition chrome_windowed_filter_test :: "cfloat list" where
  "chrome_windowed_filter_test = print_best bw_samples 0 (wf_new 8 0 0)"

lemma chrome_windowed_filter_test_prints:
  "chrome_windowed_filter_test = [22, 53, 80, 80, 80, 80, 80, 89, 89, 89, 89, 89, 89, 89, 89, 89, 89, 80, 79]"
  by code_simp

subsection \<open>The packet maker\<close>

text \<open>\<open>packet_maker_test.cc\<close>: 30 packets with the times of a clock, serialized.\<close>

fun packet_maker_loop :: "(nat \<Rightarrow> nat) \<Rightarrow> timeval list \<Rightarrow> packet_maker \<Rightarrow> string list option" where
  "packet_maker_loop usable [] m = Some []"
| "packet_maker_loop usable (t # ts) m = do {
     let m = MakePacket m;
     let p = (mk_packet_template m)\<lparr>sp_send_time := clock_Now t\<rparr>;
     s \<leftarrow> Serialize usable p;
     ss \<leftarrow> packet_maker_loop usable ts (m\<lparr>mk_packet_template := p\<rparr>);
     Some (s # ss) }"

definition packet_maker_test2 :: "(nat \<Rightarrow> nat) \<Rightarrow> (nat \<Rightarrow> timeval) \<Rightarrow> string list option" where
  "packet_maker_test2 usable now = packet_maker_loop usable (map now [0..<30]) SerializedPacketMaker"

lemma MakePacket_simps [simp]:
  "mk_recent_packet_number (MakePacket m) = mk_recent_packet_number m + 1"
  "mk_packet_template (MakePacket m) = (mk_packet_template m)\<lparr>sp_packet_number := mk_recent_packet_number m + 1\<rparr>"
  by (simp_all add: MakePacket_def ResetTemplate_def pn_inc_def Let_def)

lemma packet_maker_loop_prints:
  assumes "1440 < usable 1440"
  shows "packet_maker_loop usable ts m = Some (List.map (\<lambda>i. datagram ((mk_packet_template m)
    \<lparr>sp_packet_number := mk_recent_packet_number m + 1 + of_nat i, sp_send_time := clock_Now (ts ! i)\<rparr>)) [0..<length ts])"
proof (induction ts arbitrary: m)
  case (Cons t ts)
  show ?case using assms
    by (simp add: Serialize_eq Let_def Cons upt_rec [of 0] map_Suc_upt [symmetric] add_ac del: upt_Suc)
qed simp

subsection \<open>The unacked packet map\<close>

text \<open>
  \<open>quic_unacked_packet_map_test.cc\<close> and \<open>bandwidth_sampler_test.cc\<close>: 10000 packets are put into a map,
  in flight; the second one then makes a sampler.
\<close>

fun unacked_map_loop :: "timeval list \<Rightarrow> packet_maker \<Rightarrow> unacked_map \<Rightarrow> unacked_map option" where
  "unacked_map_loop [] mk m = Some m"
| "unacked_map_loop (t # ts) mk m = do {
     let mk = MakePacket mk;
     let p = (mk_packet_template mk)\<lparr>sp_send_time := clock_Now t\<rparr>;
     m \<leftarrow> AddSentPacket p (sp_send_time p) True m;
     unacked_map_loop ts (mk\<lparr>mk_packet_template := p\<rparr>) m }"

definition quic_unacked_packet_map_test1 :: "(nat \<Rightarrow> timeval) \<Rightarrow> unacked_map option" where
  "quic_unacked_packet_map_test1 now = unacked_map_loop (map now [0..<10000]) SerializedPacketMaker (um_new IS_CLIENT)"

definition bandwidth_sampler_test2 :: "(nat \<Rightarrow> timeval) \<Rightarrow> bandwidth_sampler option" where
  "bandwidth_sampler_test2 now = do {
     _ \<leftarrow> unacked_map_loop (map now [0..<10000]) SerializedPacketMaker (um_new IS_CLIENT);
     Some (bs_new 1) }"

lemma unacked_map_loop_fills:
  assumes "um_state m xs" "um_end_number m = mk_recent_packet_number mk + 1"
    "unat (mk_recent_packet_number mk) + length ts < 2 ^ 63" "full_packets xs" "flight_count xs = length xs"
    "sp_encrypted_length (mk_packet_template mk) = 1472"
  shows "\<exists>m' ys. unacked_map_loop ts mk m = Some m' \<and> um_state m' ys \<and> length ys = length xs + length ts
    \<and> full_packets ys \<and> flight_count ys = length ys"
  using assms
proof (induction ts arbitrary: m mk xs)
  case (Cons t ts)
  let ?n = "mk_recent_packet_number mk + 1"
  let ?p = "(mk_packet_template mk)\<lparr>sp_packet_number := ?n, sp_send_time := clock_Now t\<rparr>"
  have n: "unat ?n = unat (mk_recent_packet_number mk) + 1" using Cons.prems(3) by (simp add: unat_u64_plus)
  have e: "unat (um_least_unacked m) + length xs = unat ?n" using um_end_unat [OF Cons.prems(1)] Cons.prems(2) by simp
  from AddSentPacket_state [OF Cons.prems(1), of ?p "clock_Now t" True] n e Cons.prems(2,3) obtain m1 where
    m1: "AddSentPacket ?p (clock_Now t) True m = Some m1"
    "um_state m1 (xs @ [(ti_new ?n (clock_Now t) (sp_encrypted_length ?p))\<lparr>ti_in_flight := True\<rparr>])"
    "um_least_unacked m1 = um_least_unacked m" by auto
  let ?mk = "(MakePacket mk)\<lparr>mk_packet_template := ?p\<rparr>"
  have "unat (um_end_number m1) = unat ?n + 1" using um_end_unat [OF m1(2)] m1(3) e by simp
  then have "um_end_number m1 = mk_recent_packet_number ?mk + 1"
    using n Cons.prems(3) by (simp add: word_unat_eq_iff unat_u64_plus)
  from Cons.IH [OF m1(2) this] n Cons.prems(3-6) show ?case
    by (auto simp: Let_def m1(1) full_packets_def ti_new_def)
qed auto

lemma quic_unacked_packet_map_test1_fills:
  "\<exists>m xs. quic_unacked_packet_map_test1 now = Some m \<and> um_state m xs \<and> length xs = 10000
    \<and> um_bytes_in_flight m = 14720000"
proof -
  have "um_end_number (um_new IS_CLIENT) = 1"
    by (simp add: um_new_def um_end_number_def pn_plus_def FirstSendingPacketNumber_def dq_new_def dq_size_def)
  with unacked_map_loop_fills [OF um_state_new, of IS_CLIENT SerializedPacketMaker "map now [0..<10000]"] obtain m xs where
    m: "quic_unacked_packet_map_test1 now = Some m" "um_state m xs" "length xs = 10000" "full_packets xs" "flight_count xs = 10000"
    by (auto simp: quic_unacked_packet_map_test1_def SerializedPacketMaker_def SerializedPacket_def full_packets_def)
  have "unat (um_bytes_in_flight m) = 14720000" using um_stateD(3) [OF m(2)] full_packets_bytes [OF m(4)] m(5) by simp
  then have "um_bytes_in_flight m = 14720000" by (simp add: word_unat_eq_iff)
  with m(1-3) show ?thesis by blast
qed

lemma bandwidth_sampler_test2_ends: "bandwidth_sampler_test2 now = Some (bs_new 1)"
  using quic_unacked_packet_map_test1_fills [of now]
  by (auto simp: bandwidth_sampler_test2_def quic_unacked_packet_map_test1_def)

subsection \<open>The packet manager\<close>

text \<open>\<open>quic_sent_packet_manager_test.cc\<close>: a manager with a BBRv2 controller.\<close>

definition quic_sent_packet_manager_test1 :: "quic_time \<Rightarrow> (nat \<Rightarrow> u64) \<Rightarrow> bool \<times> bool \<Rightarrow> bool \<Rightarrow> bbr2_sender packet_manager option" where
  "quic_sent_packet_manager_test1 now rng junk flag = QuicSentPacketManager IS_CLIENT (Create_BBRv2 now rng junk) cs_new flag"

lemma quic_sent_packet_manager_test1_ends:
  "\<exists>m. quic_sent_packet_manager_test1 now rng junk flag = Some m \<and> pm_inv m"
  using bbr2_manager [of IS_CLIENT now rng junk cs_new flag]
  by (auto simp: quic_sent_packet_manager_test1_def bbr2.mgr_ok_def)

end
